(* ===== verification/Pion_Prelude.thy ===== *)
theory Pion_Prelude
  imports Main
begin

text \<open>
  The vocabulary the component theories share: JavaScript strings, values, arrays and
  objects, the text operations of the language that the user interface calls, and the
  lemma collections that carry the component proofs.

  A JavaScript string is a HOL \<open>string\<close>, one \<open>char\<close> per code unit; code units above
  255 are outside the model, and no modelled operation inspects them. A number is an \<open>int\<close>
  (the interface computes with pixel positions, counters and identifiers), with \<open>JNaN\<close> for
  the result of a failed \<open>parseInt\<close>. An object used as a dictionary is an association list
  in insertion order, which is the order of a \<open>for (key in obj)\<close> loop for keys that are not
  array indices.
\<close>

named_theorems js_simps \<open>evaluation of the modelled JavaScript primitives\<close>

type_synonym 'v jsobj = "(string \<times> 'v) list"

section \<open>Values\<close>

datatype jsval =
    JUndef
  | JNull
  | JBool bool
  | JNum int
  | JNaN
  | JStr string
  | JArr "jsval list"

fun truthy :: "jsval \<Rightarrow> bool" where
  "truthy JUndef = False"
| "truthy JNull = False"
| "truthy (JBool b) = b"
| "truthy (JNum n) = (n \<noteq> 0)"
| "truthy JNaN = False"
| "truthy (JStr s) = (s \<noteq> [])"
| "truthy (JArr _) = True"

text \<open>Decimal printing, as \<open>Number.prototype.toString\<close> does it for an integer.\<close>

definition digit_char :: "nat \<Rightarrow> char" where
  "digit_char d = ''0123456789'' ! d"

fun nat_digits :: "nat \<Rightarrow> string" where
  "nat_digits n = (if n < 10 then [digit_char n] else nat_digits (n div 10) @ [digit_char (n mod 10)])"

declare nat_digits.simps [simp del]

definition int_string :: "int \<Rightarrow> string" where
  "int_string n = (if n < 0 then CHR ''-'' # nat_digits (nat (- n)) else nat_digits (nat n))"

fun join :: "string \<Rightarrow> string list \<Rightarrow> string" where
  "join sep [] = []"
| "join sep [x] = x"
| "join sep (x # y # zs) = x @ sep @ join sep (y # zs)"

text \<open>
  The abstract operation ToString, which string concatenation applies to its operands.
  \<open>Array.prototype.toString\<close> joins with commas and prints \<open>undefined\<close> and \<open>null\<close>
  elements as empty strings.
\<close>

fun js_string :: "jsval \<Rightarrow> string" where
  "js_string JUndef = ''undefined''"
| "js_string JNull = ''null''"
| "js_string (JBool b) = (if b then ''true'' else ''false'')"
| "js_string (JNum n) = int_string n"
| "js_string JNaN = ''NaN''"
| "js_string (JStr s) = s"
| "js_string (JArr xs) = join '','' (map (\<lambda>x. if x = JUndef \<or> x = JNull then [] else js_string x) xs)"

section \<open>Strings\<close>

text \<open>\<open>s.replace(/c/g, r)\<close> for a regular expression that is a single literal character.\<close>

fun replace_char :: "char \<Rightarrow> string \<Rightarrow> string \<Rightarrow> string" where
  "replace_char c r [] = []"
| "replace_char c r (x # xs) = (if x = c then r else [x]) @ replace_char c r xs"

fun starts_with :: "string \<Rightarrow> string \<Rightarrow> bool" where
  "starts_with [] s = True"
| "starts_with (p # ps) [] = False"
| "starts_with (p # ps) (x # xs) = (p = x \<and> starts_with ps xs)"

text \<open>
  \<open>s.replace(/p/g, r)\<close> for a literal, non-empty \<open>p\<close>: leftmost, non-overlapping, and the
  replacement is not scanned again.
\<close>

function replace_lit :: "string \<Rightarrow> string \<Rightarrow> string \<Rightarrow> string" where
  "replace_lit p r [] = []"
| "replace_lit p r (x # xs) =
     (if p \<noteq> [] \<and> starts_with p (x # xs) then r @ replace_lit p r (drop (length p) (x # xs))
      else x # replace_lit p r xs)"
  by pat_completeness auto
termination
  by (relation "measure (\<lambda>(p, r, s). length s)") (auto simp: neq_Nil_conv)

text \<open>\<open>s.split(c)\<close> for a one-character separator: never empty.\<close>

fun split_char :: "char \<Rightarrow> string \<Rightarrow> string list" where
  "split_char c [] = [[]]"
| "split_char c (x # xs) =
     (if x = c then [] # split_char c xs
      else (case split_char c xs of [] \<Rightarrow> [[x]] | p # ps \<Rightarrow> (x # p) # ps))"

text \<open>The code units below 256 that \<open>\s\<close> matches and \<open>dojo.trim\<close> removes.\<close>

definition is_space :: "char \<Rightarrow> bool" where
  "is_space c = (c \<in> set [CHR 0x09, CHR 0x0A, CHR 0x0B, CHR 0x0C, CHR 0x0D, CHR '' '', CHR 0xA0])"

definition trim :: "string \<Rightarrow> string" where
  "trim s = rev (dropWhile is_space (rev (dropWhile is_space s)))"

section \<open>Arrays and dictionaries\<close>

text \<open>\<open>xs.splice(i, 1)\<close>: remove the element at index \<open>i\<close>; past the end, nothing happens.\<close>

definition splice1 :: "nat \<Rightarrow> 'a list \<Rightarrow> 'a list" where
  "splice1 i xs = take i xs @ drop (Suc i) xs"

text \<open>\<open>dojo.indexOf(xs, x) != -1\<close> is membership.\<close>

fun index_of :: "'a list \<Rightarrow> 'a \<Rightarrow> int" where
  "index_of [] x = -1"
| "index_of (y # ys) x =
     (if y = x then 0 else (let i = index_of ys x in if i = -1 then -1 else i + 1))"

text \<open>Assignment \<open>obj[k] = v\<close>: an existing property keeps its place, a new one goes last.\<close>

fun obj_put :: "'v jsobj \<Rightarrow> string \<Rightarrow> 'v \<Rightarrow> 'v jsobj" where
  "obj_put [] k v = [(k, v)]"
| "obj_put ((k', w) # o') k v = (if k' = k then (k, v) # o' else (k', w) # obj_put o' k v)"

definition obj_get :: "'v jsobj \<Rightarrow> string \<Rightarrow> 'v option" where
  "obj_get ob k = map_of ob k"

definition obj_has :: "'v jsobj \<Rightarrow> string \<Rightarrow> bool" where
  "obj_has ob k = (k \<in> set (map fst ob))"

text \<open>\<open>delete obj[k]\<close>.\<close>

definition obj_del :: "'v jsobj \<Rightarrow> string \<Rightarrow> 'v jsobj" where
  "obj_del ob k = filter (\<lambda>p. fst p \<noteq> k) ob"

text \<open>\<open>dojo.mixin(obj, more)\<close>: assign every property of \<open>more\<close> in its order.\<close>

fun mixin :: "'v jsobj \<Rightarrow> 'v jsobj \<Rightarrow> 'v jsobj" where
  "mixin ob [] = ob"
| "mixin ob ((k, v) # more) = mixin (obj_put ob k v) more"

text \<open>A dictionary never lists a property twice.\<close>

definition obj_wf :: "'v jsobj \<Rightarrow> bool" where
  "obj_wf ob = distinct (map fst ob)"


section \<open>Facts about the primitives\<close>

lemma replace_char_concat: "replace_char c r s = concat (map (\<lambda>x. if x = c then r else [x]) s)"
  by (induction s) auto

lemma replace_char_append [simp]:
  "replace_char c r (s @ t) = replace_char c r s @ replace_char c r t"
  by (simp add: replace_char_concat)

lemma replace_char_concat_map:
  "replace_char c r (concat (map f s)) = concat (map (\<lambda>x. replace_char c r (f x)) s)"
  by (induction s) auto

lemma replace_char_absent: "c \<notin> set s \<Longrightarrow> replace_char c r s = s"
  by (induction s) auto

lemma starts_with_append [simp]: "starts_with p (p @ s)"
  by (induction p) auto

lemma starts_with_iff: "starts_with p s \<longleftrightarrow> take (length p) s = p"
  by (induction p s rule: starts_with.induct) auto

lemma starts_with_hd: "starts_with (c # p) s \<Longrightarrow> \<exists>t. s = c # t"
  by (cases s) auto

text \<open>A pattern beginning with \<open>c\<close> cannot match inside text without \<open>c\<close>.\<close>

lemma replace_lit_skip:
  "c \<notin> set u \<Longrightarrow> replace_lit (c # p) r (u @ s) = u @ replace_lit (c # p) r s"
  by (induction u) auto

lemma replace_lit_hit:
  "p \<noteq> [] \<Longrightarrow> replace_lit p r (p @ s) = r @ replace_lit p r s"
  by (cases p) auto

lemma index_of_ge: "-1 \<le> index_of xs x"
  by (induction xs) (auto simp: Let_def)

lemma index_of_absent [js_simps]: "index_of xs x = -1 \<longleftrightarrow> x \<notin> set xs"
proof (induction xs)
  case (Cons y ys)
  then show ?case using index_of_ge [of ys x] by (auto simp: Let_def)
qed simp

lemma length_splice1: "i < length xs \<Longrightarrow> length (splice1 i xs) = length xs - 1"
  by (simp add: splice1_def)

lemma splice1_0 [simp]: "splice1 0 (x # xs) = xs"
  by (simp add: splice1_def)

lemma splice1_Suc [simp]: "splice1 (Suc i) (x # xs) = x # splice1 i xs"
  by (simp add: splice1_def)

lemma splice1_out: "length xs \<le> i \<Longrightarrow> splice1 i xs = xs"
  by (simp add: splice1_def)

lemma obj_get_Nil [simp]: "obj_get [] k = None"
  by (simp add: obj_get_def)

lemma obj_get_Cons [simp]: "obj_get ((k', v) # ob) k = (if k = k' then Some v else obj_get ob k)"
  by (simp add: obj_get_def)

lemma obj_get_put: "obj_get (obj_put ob k v) k' = (if k' = k then Some v else obj_get ob k')"
  by (induction ob k v rule: obj_put.induct) auto

lemma obj_has_iff: "obj_has ob k \<longleftrightarrow> obj_get ob k \<noteq> None"
  by (induction ob) (auto simp: obj_has_def obj_get_def)

lemma keys_obj_put:
  "map fst (obj_put ob k v) = (if obj_has ob k then map fst ob else map fst ob @ [k])"
  by (induction ob k v rule: obj_put.induct) (auto simp: obj_has_def)

lemma obj_wf_Nil [simp]: "obj_wf []"
  by (simp add: obj_wf_def)

lemma obj_wf_put [intro]: "obj_wf ob \<Longrightarrow> obj_wf (obj_put ob k v)"
  by (auto simp: obj_wf_def keys_obj_put obj_has_def)

lemma obj_get_del: "obj_get (obj_del ob k) k' = (if k' = k then None else obj_get ob k')"
  by (induction ob) (auto simp: obj_del_def)

lemma obj_wf_del [intro]: "obj_wf ob \<Longrightarrow> obj_wf (obj_del ob k)"
  by (induction ob) (auto simp: obj_wf_def obj_del_def)

lemma obj_wf_mixin [intro]: "obj_wf ob \<Longrightarrow> obj_wf (mixin ob more)"
  by (induction ob more rule: mixin.induct) auto

lemma obj_get_mixin:
  "obj_wf more \<Longrightarrow>
   obj_get (mixin ob more) k = (case obj_get more k of Some v \<Rightarrow> Some v | None \<Rightarrow> obj_get ob k)"
proof (induction ob more rule: mixin.induct)
  case (2 ob k' v more)
  from "2.prems" have wf: "obj_wf more" and new: "obj_get more k' = None"
    by (auto simp: obj_wf_def obj_get_def map_of_eq_None_iff)
  from "2.IH" [OF wf] new show ?case
    by (auto simp: obj_get_put split: option.splits)
qed simp

lemma obj_put_new: "\<not> obj_has ob k \<Longrightarrow> obj_put ob k v = ob @ [(k, v)]"
  by (induction ob k v rule: obj_put.induct) (auto simp: obj_has_def)

lemma set_obj_put_new: "\<not> obj_has ob k \<Longrightarrow> set (obj_put ob k v) = insert (k, v) (set ob)"
  by (simp add: obj_put_new)

lemma in_set_obj_put: "p \<in> set (obj_put ob k v) \<Longrightarrow> p = (k, v) \<or> p \<in> set ob"
  by (induction ob k v rule: obj_put.induct) (auto split: if_splits)

lemma obj_get_in_set: "obj_get ob k = Some v \<Longrightarrow> (k, v) \<in> set ob"
  by (simp add: obj_get_def map_of_SomeD)

lemma obj_get_mem: "obj_wf ob \<Longrightarrow> (k, v) \<in> set ob \<Longrightarrow> obj_get ob k = Some v"
  by (simp add: obj_wf_def obj_get_def)

section \<open>Printed numbers\<close>

lemma digit_char_in: "d < 10 \<Longrightarrow> digit_char d \<in> set ''0123456789''"
  unfolding digit_char_def by (rule nth_mem) simp

lemma set_nat_digits: "set (nat_digits n) \<subseteq> set ''0123456789''"
proof (induction n rule: nat_digits.induct)
  case (1 n)
  show ?case
  proof (cases "n < 10")
    case True
    then show ?thesis using digit_char_in [of n] by (subst nat_digits.simps) simp
  next
    case False
    with 1 digit_char_in [of "n mod 10"] show ?thesis by (subst nat_digits.simps) simp
  qed
qed

lemma nat_digits_nonempty [simp]: "nat_digits n \<noteq> []"
  by (subst nat_digits.simps) simp

lemma set_int_string: "set (int_string n) \<subseteq> set ''-0123456789''"
  using set_nat_digits [of "nat n"] set_nat_digits [of "nat (- n)"]
  by (cases "n < 0") (simp_all add: int_string_def subset_insertI2)

lemma int_string_nonempty [simp]: "int_string n \<noteq> []"
  by (simp add: int_string_def)

section \<open>Splitting, joining and trimming\<close>

lemma split_char_nonempty [simp]: "split_char c s \<noteq> []"
  by (induction c s rule: split_char.induct) (auto split: list.splits)

lemma split_char_no_sep: "p \<in> set (split_char c s) \<Longrightarrow> c \<notin> set p"
proof (induction c s arbitrary: p rule: split_char.induct)
  case (2 c x xs)
  then show ?case by (auto split: if_splits list.splits)
qed simp

lemma join_split_char: "join [c] (split_char c s) = s"
proof (induction c s rule: split_char.induct)
  case (2 c x xs)
  obtain p ps where ps: "split_char c xs = p # ps" by (cases "split_char c xs") auto
  with 2 show ?case by (cases ps) auto
qed simp

lemma split_char_plain: "c \<notin> set s \<Longrightarrow> split_char c s = [s]"
  by (induction c s rule: split_char.induct) auto

lemma split_char_append_sep:
  "c \<notin> set u \<Longrightarrow> split_char c (u @ c # s) = u # split_char c s"
  by (induction u) auto

lemma split_char_join:
  "xs \<noteq> [] \<Longrightarrow> \<forall>x\<in>set xs. c \<notin> set x \<Longrightarrow> split_char c (join [c] xs) = xs"
  by (induction "[c]" xs rule: join.induct) (auto simp: split_char_plain split_char_append_sep)

lemma trim_ends: "trim s = [] \<or> (\<not> is_space (hd (trim s)) \<and> \<not> is_space (last (trim s)))"
proof -
  let ?u = "dropWhile is_space s" and ?t = "trim s"
  have u: "?u = [] \<or> \<not> is_space (hd ?u)" by (metis hd_dropWhile)
  have t: "?t = rev (dropWhile is_space (rev ?u))" by (simp add: trim_def)
  have l: "?t = [] \<or> \<not> is_space (last ?t)"
    unfolding t by (metis hd_dropWhile last_rev rev.simps(1))
  have "\<exists>v. ?u = ?t @ v"
    unfolding t by (metis rev_append rev_rev_ident takeWhile_dropWhile_id)
  then have "?t \<noteq> [] \<Longrightarrow> hd ?t = hd ?u" by (metis hd_append2)
  with u l show ?thesis by (metis append_is_Nil_conv \<open>\<exists>v. ?u = ?t @ v\<close>)
qed

lemma dropWhile_hd: "s = [] \<or> \<not> P (hd s) \<Longrightarrow> dropWhile P s = s"
  by (cases s) auto

lemma trim_id: "s = [] \<or> (\<not> is_space (hd s) \<and> \<not> is_space (last s)) \<Longrightarrow> trim s = s"
  by (auto simp: trim_def dropWhile_hd hd_rev)

lemma trim_idem [simp]: "trim (trim s) = trim s"
  by (rule trim_id) (rule trim_ends)

lemma set_trim: "set (trim s) \<subseteq> set s"
  unfolding trim_def by (auto dest!: set_dropWhileD)


section \<open>parseInt\<close>

text \<open>
  \<open>parseInt(s)\<close> without a radix: leading white space, a sign, \<open>0x\<close> for hexadecimal, then the
  longest run of digits; no digits give \<open>NaN\<close>. (The octal reading of a leading zero that
  ECMAScript 3 permits is not modelled.)
\<close>

definition hex_chars :: string where
  "hex_chars = ''0123456789abcdefABCDEF''"

definition digit_val :: "char \<Rightarrow> nat" where
  "digit_val c = (let i = length (takeWhile (\<lambda>d. d \<noteq> c) hex_chars) in if i < 16 then i else i - 6)"

definition is_digit :: "nat \<Rightarrow> char \<Rightarrow> bool" where
  "is_digit radix c = (c \<in> set hex_chars \<and> digit_val c < radix)"

definition digits_value :: "nat \<Rightarrow> string \<Rightarrow> nat" where
  "digits_value radix s = foldl (\<lambda>n c. radix * n + digit_val c) 0 s"

definition parse_nat :: "nat \<Rightarrow> string \<Rightarrow> nat option" where
  "parse_nat radix s =
     (let ds = takeWhile (is_digit radix) s in if ds = [] then None else Some (digits_value radix ds))"

definition parse_unsigned :: "string \<Rightarrow> nat option" where
  "parse_unsigned s =
     (if starts_with ''0x'' s \<or> starts_with ''0X'' s then parse_nat 16 (drop 2 s) else parse_nat 10 s)"

definition parseInt :: "string \<Rightarrow> jsval" where
  "parseInt s =
     (let t = dropWhile is_space s;
          neg = starts_with ''-'' t;
          u = (if neg \<or> starts_with ''+'' t then tl t else t)
      in case parse_unsigned u of
           None \<Rightarrow> JNaN
         | Some n \<Rightarrow> JNum (if neg then - int n else int n))"

lemma digit_char_table:
  "list_all (\<lambda>d. digit_val (digit_char d) = d \<and> is_digit 10 (digit_char d) \<and>
     digit_char d \<notin> set [CHR ''-'', CHR ''+'', CHR ''x'', CHR ''X''] \<and> \<not> is_space (digit_char d)) [0..<10]"
  by code_simp

lemma digit_char_facts:
  assumes "d < 10"
  shows "digit_val (digit_char d) = d" "is_digit 10 (digit_char d)"
    "digit_char d \<notin> set [CHR ''-'', CHR ''+'', CHR ''x'', CHR ''X'']" "\<not> is_space (digit_char d)"
  using digit_char_table assms by (simp_all only: list_all_iff set_upt atLeastLessThan_iff) auto

lemma nat_digits_chars:
  "\<forall>c\<in>set (nat_digits n). is_digit 10 c \<and> c \<notin> set [CHR ''-'', CHR ''+'', CHR ''x'', CHR ''X''] \<and> \<not> is_space c"
proof (induction n rule: nat_digits.induct)
  case (1 n)
  show ?case
  proof (cases "n < 10")
    case True
    with digit_char_facts [of n] show ?thesis by (subst nat_digits.simps) simp
  next
    case False
    with 1 digit_char_facts [of "n mod 10"] show ?thesis by (subst nat_digits.simps) (simp add: ball_Un)
  qed
qed

lemma digits_value_nat_digits: "digits_value 10 (nat_digits n) = n"
proof (induction n rule: nat_digits.induct)
  case (1 n)
  show ?case
  proof (cases "n < 10")
    case True
    with digit_char_facts(1) [of n] show ?thesis
      by (subst nat_digits.simps) (simp add: digits_value_def)
  next
    case False
    with 1 have "foldl (\<lambda>n c. 10 * n + digit_val c) 0 (nat_digits (n div 10)) = n div 10"
      by (simp add: digits_value_def)
    with False digit_char_facts(1) [of "n mod 10"] show ?thesis
      by (subst nat_digits.simps) (simp add: digits_value_def)
  qed
qed

lemma parse_unsigned_nat_digits: "parse_unsigned (nat_digits n) = Some n"
proof -
  have ds: "takeWhile (is_digit 10) (nat_digits n) = nat_digits n"
    using nat_digits_chars [of n] by (simp add: takeWhile_eq_all_conv)
  have "\<not> starts_with ''0x'' (nat_digits n) \<and> \<not> starts_with ''0X'' (nat_digits n)"
    using nat_digits_chars [of n] by (cases "nat_digits n"; cases "tl (nat_digits n)") auto
  then show ?thesis
    by (simp add: parse_unsigned_def parse_nat_def ds digits_value_nat_digits)
qed

lemma parseInt_int_string [js_simps]: "parseInt (int_string n) = JNum n"
proof (cases "n < 0")
  case True
  then show ?thesis
    by (simp add: parseInt_def int_string_def is_space_def parse_unsigned_nat_digits)
next
  case False
  obtain c cs where c: "nat_digits (nat n) = c # cs" by (cases "nat_digits (nat n)") auto
  with nat_digits_chars [of "nat n"] have "\<not> is_space c" "c \<noteq> CHR ''-''" "c \<noteq> CHR ''+''" by auto
  with c False show ?thesis
    using parse_unsigned_nat_digits [of "nat n"] by (simp add: parseInt_def int_string_def)
qed

end
