(* ===== verification/Pion_Format.thy ===== *)
theory Pion_Format
  imports Pion_Prelude
begin

text \<open>
  Text formatting, \<open>scripts/_base/format.js\<close>: escaping of values that go into XML request
  bodies and HTML cells, the leaf-element builder every save handler uses, the grid cell
  formatters and the four date and time formatters.
\<close>

section \<open>Escaping\<close>

definition ent_amp :: string where "ent_amp = ''&amp;''"
definition ent_lt :: string where "ent_lt = ''&lt;''"
definition ent_gt :: string where "ent_gt = ''&gt;''"
definition ent_quot :: string where "ent_quot = ''&quot;''"
definition ent_apos :: string where "ent_apos = ''&#39;''"

lemmas ent_defs = ent_amp_def ent_lt_def ent_gt_def ent_quot_def ent_apos_def

definition escape_chain :: "string \<Rightarrow> string" where
  "escape_chain s =
     replace_char (CHR 0x27) ent_apos
       (replace_char (CHR 0x22) ent_quot
         (replace_char (CHR ''>'') ent_gt
           (replace_char (CHR ''<'') ent_lt
             (replace_char (CHR ''&'') ent_amp s))))"

definition escapeXml :: "jsval \<Rightarrow> string" where
  "escapeXml value =
     (if value = JBool False \<or> value = JNum 0 then js_string value
      else if truthy value then escape_chain (js_string value)
      else [])"

definition unescape_chain :: "string \<Rightarrow> string" where
  "unescape_chain s =
     replace_lit ent_apos [CHR 0x27]
       (replace_lit ent_quot [CHR 0x22]
         (replace_lit ent_gt [CHR ''>'']
           (replace_lit ent_lt [CHR ''<'']
             (replace_lit ent_amp [CHR ''&''] s))))"

definition unescapeXml :: "jsval \<Rightarrow> string" where
  "unescapeXml value =
     (if value = JBool False \<or> value = JNum 0 then js_string value
      else if truthy value then unescape_chain (js_string value)
      else [])"

definition makeXmlLeafElement :: "string \<Rightarrow> jsval \<Rightarrow> string" where
  "makeXmlLeafElement tag_name value =
     ''<'' @ tag_name @ ''>'' @ escapeXml value @ ''</'' @ tag_name @ ''>''"

text \<open>
  \<open>d == ''\<close> with JavaScript's loose equality: the other operand is converted to a number or
  a primitive, so \<open>0\<close>, \<open>false\<close> and an array that prints as the empty string are equal to it.
\<close>

fun loose_eq_empty :: "jsval \<Rightarrow> bool" where
  "loose_eq_empty (JStr s) = (s = [])"
| "loose_eq_empty (JNum n) = (n = 0)"
| "loose_eq_empty (JBool b) = (\<not> b)"
| "loose_eq_empty (JArr xs) = (js_string (JArr xs) = [])"
| "loose_eq_empty _ = False"

text \<open>The argument \<open>defaultValue\<close> is the field of the grid cell the formatter is a method of.\<close>

definition xmlCellFormatter :: "string \<Rightarrow> jsval \<Rightarrow> string" where
  "xmlCellFormatter defaultValue d =
     (if loose_eq_empty d then []
      else if truthy d \<and> js_string d \<noteq> [] then escapeXml d
      else defaultValue)"

definition xmlCellFormatter2 :: "string \<Rightarrow> jsval \<Rightarrow> string" where
  "xmlCellFormatter2 defaultValue d =
     (if loose_eq_empty d then []
      else if truthy d \<and> js_string d \<noteq> [] then
        (if take 8 (js_string d) = ''<button '' then js_string d else escapeXml d)
      else defaultValue)"

section \<open>What escaping guarantees\<close>

definition esc_char :: "char \<Rightarrow> string" where
  "esc_char c =
     (if c = CHR ''&'' then ent_amp else if c = CHR ''<'' then ent_lt
      else if c = CHR ''>'' then ent_gt else if c = CHR 0x22 then ent_quot
      else if c = CHR 0x27 then ent_apos else [c])"

text \<open>The five successive replacements are one pass over the characters.\<close>

lemma escape_chain_concat: "escape_chain s = concat (map esc_char s)"
proof -
  have "escape_chain [x] = esc_char x" for x
    by (auto simp: escape_chain_def esc_char_def ent_defs)
  moreover have "escape_chain (s @ t) = escape_chain s @ escape_chain t" for s t
    by (simp add: escape_chain_def)
  ultimately show ?thesis
    by (induction s) (auto simp: escape_chain_def [of "[]"] append_Cons [symmetric] simp del: append_Cons,
        metis append_Cons append_Nil)
qed

lemma escape_chain_simps [simp]:
  "escape_chain [] = []"
  "escape_chain (x # s) = esc_char x @ escape_chain s"
  "escape_chain (s @ t) = escape_chain s @ escape_chain t"
  by (simp_all add: escape_chain_concat)

definition special :: "char \<Rightarrow> bool" where
  "special c = (c \<in> set [CHR ''&'', CHR ''<'', CHR ''>'', CHR 0x22, CHR 0x27])"

lemma esc_char_plain: "\<not> special c \<Longrightarrow> esc_char c = [c]"
  by (auto simp: esc_char_def special_def)

lemma escape_chain_plain: "\<forall>c\<in>set s. \<not> special c \<Longrightarrow> escape_chain s = s"
  by (induction s) (auto simp: esc_char_plain)

lemma escapeXml_string: "escapeXml (JStr s) = escape_chain s"
  by (auto simp: escapeXml_def)

text \<open>Values the function handles as strings are escaped through their printed form.\<close>

lemma escapeXml_markup_free:
  "set (escapeXml v) \<inter> set [CHR ''<'', CHR ''>'', CHR 0x22, CHR 0x27] = {}"
proof -
  have "set (esc_char c) \<inter> set [CHR ''<'', CHR ''>'', CHR 0x22, CHR 0x27] = {}" for c
    by (auto simp: esc_char_def ent_defs)
  then have "set (escape_chain s) \<inter> set [CHR ''<'', CHR ''>'', CHR 0x22, CHR 0x27] = {}" for s
    by (induction s) auto
  then show ?thesis
    by (auto simp: escapeXml_def nat_digits.simps int_string_def digit_char_def)
qed


section \<open>Unescaping\<close>

text \<open>
  \<open>unescapeXml\<close> decodes the ampersand first and then scans its own output, so it undoes
  \<open>escapeXml\<close> only on text that does not itself spell one of the other four entities.
\<close>

fun entity_free :: "string \<Rightarrow> bool" where
  "entity_free [] = True"
| "entity_free (x # xs) =
     (\<not> starts_with ent_lt (x # xs) \<and> \<not> starts_with ent_gt (x # xs) \<and>
      \<not> starts_with ent_quot (x # xs) \<and> \<not> starts_with ent_apos (x # xs) \<and> entity_free xs)"

definition esc_set :: "char set \<Rightarrow> string \<Rightarrow> string" where
  "esc_set S s = concat (map (\<lambda>c. if c \<in> S then esc_char c else [c]) s)"

lemma esc_set_simps [simp]:
  "esc_set S [] = []"
  "esc_set S (x # s) = (if x \<in> S then esc_char x else [x]) @ esc_set S s"
  by (simp_all add: esc_set_def)

lemma esc_set_empty: "esc_set {} s = s"
  by (induction s) auto

lemma esc_char_amp: "special c \<Longrightarrow> \<exists>t. esc_char c = CHR ''&'' # t"
  by (auto simp: special_def esc_char_def ent_defs)

lemma starts_with_esc_set:
  assumes "starts_with p (esc_set S s)" and "CHR ''&'' \<notin> set p" and "S \<subseteq> Collect special"
  shows "starts_with p s"
  using assms
proof (induction s arbitrary: p)
  case (Cons x s)
  show ?case
  proof (cases p)
    case (Cons a q)
    show ?thesis
    proof (cases "x \<in> S")
      case True
      with Cons.prems(3) obtain t where "esc_char x = CHR ''&'' # t"
        using esc_char_amp by blast
      with True Cons Cons.prems(1,2) show ?thesis by simp
    next
      case False
      with Cons Cons.prems Cons.IH [of q] show ?thesis by auto
    qed
  qed simp
qed simp

lemma replace_amp_stage:
  "replace_lit ent_amp [CHR ''&''] (escape_chain s) =
   esc_set {CHR ''<'', CHR ''>'', CHR 0x22, CHR 0x27} s"
  by (induction s) (auto simp: esc_char_def ent_defs)

lemmas no_start_in_esc_set =
  starts_with_esc_set [where p = "''lt;''"] starts_with_esc_set [where p = "''gt;''"]
  starts_with_esc_set [where p = "''quot;''"] starts_with_esc_set [where p = "''#39;''"]

lemma replace_lt_stage:
  "entity_free s \<Longrightarrow>
   replace_lit ent_lt [CHR ''<''] (esc_set {CHR ''<'', CHR ''>'', CHR 0x22, CHR 0x27} s) =
   esc_set {CHR ''>'', CHR 0x22, CHR 0x27} s"
  by (induction s) (auto simp: esc_char_def ent_defs special_def dest!: no_start_in_esc_set)

lemma replace_gt_stage:
  "entity_free s \<Longrightarrow>
   replace_lit ent_gt [CHR ''>''] (esc_set {CHR ''>'', CHR 0x22, CHR 0x27} s) =
   esc_set {CHR 0x22, CHR 0x27} s"
  by (induction s) (auto simp: esc_char_def ent_defs special_def dest!: no_start_in_esc_set)

lemma replace_quot_stage:
  "entity_free s \<Longrightarrow>
   replace_lit ent_quot [CHR 0x22] (esc_set {CHR 0x22, CHR 0x27} s) = esc_set {CHR 0x27} s"
  by (induction s) (auto simp: esc_char_def ent_defs special_def dest!: no_start_in_esc_set)

lemma replace_apos_stage:
  "entity_free s \<Longrightarrow> replace_lit ent_apos [CHR 0x27] (esc_set {CHR 0x27} s) = s"
  by (induction s) (auto simp: esc_char_def ent_defs special_def dest!: no_start_in_esc_set)

lemma unescape_escape_chain: "entity_free s \<Longrightarrow> unescape_chain (escape_chain s) = s"
  by (simp add: unescape_chain_def replace_amp_stage replace_lt_stage replace_gt_stage
      replace_quot_stage replace_apos_stage)

end
