(* ===== verification/Pion_Xml.thy ===== *)
theory Pion_Xml
  imports Pion_Format
begin

text \<open>
  The documents the interface exchanges with the server: the DOM nodes the browser hands to
  the response handlers, the DOM queries the code makes, and a reader for the request bodies
  the code assembles by string concatenation. The reader (\<open>read_xml\<close>) is the specification
  side of every request: what the server reads when it parses the body. It covers elements,
  attributes in double quotes, text and the five entities \<open>escapeXml\<close> writes; the code
  under verification never calls it.
\<close>

section \<open>DOM nodes\<close>

datatype node =
    Element string "(string \<times> string) list" "node list"
  | TextNode string
  | CDataNode string
  | CommentNode string

text \<open>\<open>Node.nodeType\<close>: 1 element, 3 text, 4 CDATA section, 8 comment.\<close>

fun nodeType :: "node \<Rightarrow> nat" where
  "nodeType (Element _ _ _) = 1"
| "nodeType (TextNode _) = 3"
| "nodeType (CDataNode _) = 4"
| "nodeType (CommentNode _) = 8"

fun nodeName :: "node \<Rightarrow> string" where
  "nodeName (Element n _ _) = n"
| "nodeName (TextNode _) = ''#text''"
| "nodeName (CDataNode _) = ''#cdata-section''"
| "nodeName (CommentNode _) = ''#comment''"

fun childNodes :: "node \<Rightarrow> node list" where
  "childNodes (Element _ _ cs) = cs"
| "childNodes _ = []"

fun attributes :: "node \<Rightarrow> (string \<times> string) list" where
  "attributes (Element _ as _) = as"
| "attributes _ = []"

text \<open>\<open>nodeValue\<close> is null for an element.\<close>

fun nodeValue :: "node \<Rightarrow> string option" where
  "nodeValue (Element _ _ _) = None"
| "nodeValue (TextNode s) = Some s"
| "nodeValue (CDataNode s) = Some s"
| "nodeValue (CommentNode s) = Some s"

text \<open>\<open>getAttribute\<close> gives null for an absent attribute.\<close>

definition getAttribute :: "node \<Rightarrow> string \<Rightarrow> string option" where
  "getAttribute e a = map_of (attributes e) a"

fun textContent :: "node \<Rightarrow> string" where
  "textContent (Element _ _ cs) = concat (map textContent cs)"
| "textContent (TextNode s) = s"
| "textContent (CDataNode s) = s"
| "textContent (CommentNode s) = []"

text \<open>\<open>getElementsByTagName\<close>: the proper descendants with that name, in document order.\<close>

fun matching_nodes :: "string \<Rightarrow> node \<Rightarrow> node list" where
  "matching_nodes t (Element n as cs) =
     (if n = t then [Element n as cs] else []) @ concat (map (matching_nodes t) cs)"
| "matching_nodes t _ = []"

definition getElementsByTagName :: "node \<Rightarrow> string \<Rightarrow> node list" where
  "getElementsByTagName e t = concat (map (matching_nodes t) (childNodes e))"

section \<open>The reader\<close>

text \<open>Character data with the entities decoded in one pass.\<close>

function decode_text :: "string \<Rightarrow> string" where
  "decode_text [] = []"
| "decode_text (x # s) =
     (if starts_with ent_amp (x # s) then CHR ''&'' # decode_text (drop 5 (x # s))
      else if starts_with ent_lt (x # s) then CHR ''<'' # decode_text (drop 4 (x # s))
      else if starts_with ent_gt (x # s) then CHR ''>'' # decode_text (drop 4 (x # s))
      else if starts_with ent_quot (x # s) then CHR 0x22 # decode_text (drop 6 (x # s))
      else if starts_with ent_apos (x # s) then CHR 0x27 # decode_text (drop 5 (x # s))
      else x # decode_text s)"
  by pat_completeness auto
termination
  by (relation "measure length") auto

datatype token =
    TOpen string "(string \<times> string) list"
  | TEmpty string "(string \<times> string) list"
  | TClose string
  | TText string

definition is_name_char :: "char \<Rightarrow> bool" where
  "is_name_char c =
     (c \<notin> set [CHR ''<'', CHR ''>'', CHR ''/'', CHR ''='', CHR 0x22, CHR '' '', CHR ''&'', CHR 0x27])"

text \<open>The inside of a start tag after its name: attributes, then an optional slash.\<close>

function read_attrs :: "string \<Rightarrow> ((string \<times> string) list \<times> bool) option" where
  "read_attrs s =
     (case s of
        [] \<Rightarrow> Some ([], False)
      | c # s' \<Rightarrow>
          if c = CHR '' '' then read_attrs s'
          else if s = ''/'' then Some ([], True)
          else
            let name = takeWhile is_name_char s; r = dropWhile is_name_char s in
            if name = [] \<or> \<not> starts_with [CHR ''='', CHR 0x22] r then None
            else
              let v = takeWhile (\<lambda>c. c \<noteq> CHR 0x22) (drop 2 r);
                  r' = dropWhile (\<lambda>c. c \<noteq> CHR 0x22) (drop 2 r) in
              if r' = [] then None
              else map_option (\<lambda>(as, e). ((name, decode_text v) # as, e)) (read_attrs (tl r')))"
  by pat_completeness auto
termination
proof (relation "measure length", goal_cases)
  case (3 s c s' name r v r')
  have "length r' \<le> length (drop 2 r)" unfolding 3(8) by (rule length_dropWhile_le)
  moreover have "length r \<le> length s" unfolding 3(5) by (rule length_dropWhile_le)
  ultimately have "length r' \<le> length s" by simp
  moreover have "length (tl r') < length r'" using 3(9) by (cases r') auto
  ultimately show ?case by simp
qed auto

declare read_attrs.simps [simp del]

definition tag_token :: "string \<Rightarrow> token option" where
  "tag_token b =
     (case b of
        [] \<Rightarrow> None
      | c # b' \<Rightarrow>
          if c = CHR ''/'' then Some (TClose b')
          else if takeWhile is_name_char b = [] then None
          else map_option (\<lambda>(as, e). (if e then TEmpty else TOpen) (takeWhile is_name_char b) as)
                 (read_attrs (dropWhile is_name_char b)))"

function lex :: "string \<Rightarrow> token list option" where
  "lex [] = Some []"
| "lex (c # s) =
     (if c \<noteq> CHR ''<'' then
        map_option ((#) (TText (decode_text (c # takeWhile (\<lambda>x. x \<noteq> CHR ''<'') s))))
          (lex (dropWhile (\<lambda>x. x \<noteq> CHR ''<'') s))
      else if CHR ''>'' \<notin> set s then None
      else (case tag_token (takeWhile (\<lambda>x. x \<noteq> CHR ''>'') s) of
              None \<Rightarrow> None
            | Some t \<Rightarrow> map_option ((#) t) (lex (tl (dropWhile (\<lambda>x. x \<noteq> CHR ''>'') s)))))"
  by pat_completeness auto
termination
proof (relation "measure length", goal_cases)
  case (2 c s)
  then show ?case by (simp add: le_imp_less_Suc length_dropWhile_le)
next
  case (3 c s t)
  have "length (tl (dropWhile (\<lambda>x. x \<noteq> CHR ''>'') s)) \<le> length (dropWhile (\<lambda>x. x \<noteq> CHR ''>'') s)"
    by simp
  also have "\<dots> \<le> length s" by (rule length_dropWhile_le)
  finally show ?case by simp
qed auto

text \<open>
  Tokens are assembled on a stack of open elements (name, attributes, children so far in
  reverse); the bottom frame collects the top-level nodes.
\<close>

type_synonym frame = "string \<times> (string \<times> string) list \<times> node list"

definition add_child :: "node \<Rightarrow> frame list \<Rightarrow> frame list" where
  "add_child n fs = (case fs of [] \<Rightarrow> [] | (t, as, cs) # fs' \<Rightarrow> (t, as, n # cs) # fs')"

fun build :: "token list \<Rightarrow> frame list \<Rightarrow> frame list option" where
  "build [] fs = Some fs"
| "build (TText s # ts) fs = build ts (add_child (TextNode s) fs)"
| "build (TEmpty t as # ts) fs = build ts (add_child (Element t as []) fs)"
| "build (TOpen t as # ts) fs = build ts ((t, as, []) # fs)"
| "build (TClose t # ts) fs =
     (case fs of
        (t', as, cs) # f # fs' \<Rightarrow>
          if t' = t then build ts (add_child (Element t as (rev cs)) (f # fs')) else None
      | _ \<Rightarrow> None)"

definition read_nodes :: "string \<Rightarrow> node list option" where
  "read_nodes s =
     (case lex s of
        None \<Rightarrow> None
      | Some ts \<Rightarrow> (case build ts [([], [], [])] of Some [(_, _, cs)] \<Rightarrow> Some (rev cs) | _ \<Rightarrow> None))"

definition read_xml :: "string \<Rightarrow> node option" where
  "read_xml s = (case read_nodes s of Some [Element t as cs] \<Rightarrow> Some (Element t as cs) | _ \<Rightarrow> None)"


section \<open>What the reader makes of assembled text\<close>

lemma decode_escape [simp]: "decode_text (escape_chain s) = s"
  by (induction s) (auto simp: esc_char_def ent_defs)

declare decode_text.simps(2) [simp del]

definition valid_name :: "string \<Rightarrow> bool" where
  "valid_name t = (t \<noteq> [] \<and> (\<forall>c\<in>set t. is_name_char c))"

lemma valid_nameD:
  assumes "valid_name t"
  shows "t \<noteq> []" and "takeWhile is_name_char t = t" and "dropWhile is_name_char t = []"
    and "CHR ''>'' \<notin> set t" and "CHR ''<'' \<notin> set t" and "hd t \<noteq> CHR ''/''"
  using assms by (auto simp: valid_name_def is_name_char_def)

lemma takeWhile_until: "c \<notin> set u \<Longrightarrow> takeWhile (\<lambda>x. x \<noteq> c) (u @ c # s) = u"
  by (induction u) auto

lemma dropWhile_until: "c \<notin> set u \<Longrightarrow> dropWhile (\<lambda>x. x \<noteq> c) (u @ c # s) = c # s"
  by (induction u) auto

declare lex.simps(2) [simp del]

lemma lex_tag:
  assumes "CHR ''>'' \<notin> set b" and "tag_token b = Some t"
  shows "lex (CHR ''<'' # b @ CHR ''>'' # s) = map_option ((#) t) (lex s)"
  using assms by (simp add: lex.simps(2) takeWhile_until dropWhile_until)

lemma tag_token_open: "valid_name t \<Longrightarrow> tag_token t = Some (TOpen t [])"
  using valid_nameD [of t] by (cases t) (auto simp: tag_token_def read_attrs.simps [of "[]"])

lemma tag_token_close: "tag_token (CHR ''/'' # t) = Some (TClose t)"
  by (simp add: tag_token_def)

lemma takeWhile_name: "valid_name t \<Longrightarrow> \<not> is_name_char c \<Longrightarrow> takeWhile is_name_char (t @ c # s) = t"
  and dropWhile_name: "valid_name t \<Longrightarrow> \<not> is_name_char c \<Longrightarrow> dropWhile is_name_char (t @ c # s) = c # s"
  unfolding valid_name_def by (induction t) auto

lemma escape_chain_no:
  "CHR ''<'' \<notin> set (escape_chain v)" "CHR ''>'' \<notin> set (escape_chain v)"
  "CHR 0x22 \<notin> set (escape_chain v)"
  using escapeXml_markup_free [of "JStr v"] by (auto simp: escapeXml_string)

lemma read_attrs_one:
  assumes "valid_name a" and "tail = [] \<or> tail = '' /''"
  shows "read_attrs (a @ ''='' @ [CHR 0x22] @ escape_chain v @ CHR 0x22 # tail) =
         Some ([(a, v)], tail \<noteq> [])"
proof -
  from assms(1) obtain c a' where a: "a = c # a'" and c: "c \<noteq> CHR '' ''" "c \<noteq> CHR ''/''"
    by (cases a) (auto simp: valid_name_def is_name_char_def)
  have eq: "\<not> is_name_char CHR ''=''" by (simp add: is_name_char_def)
  have tl: "read_attrs tail = Some ([], tail \<noteq> [])"
    using assms(2) by (auto simp: read_attrs.simps [of "[]"] read_attrs.simps [of "'' /''"] read_attrs.simps [of "''/''"])
  let ?s = "a @ CHR ''='' # CHR 0x22 # escape_chain v @ CHR 0x22 # tail"
  have nm: "takeWhile is_name_char ?s = a"
    and dr: "dropWhile is_name_char ?s = CHR ''='' # CHR 0x22 # escape_chain v @ CHR 0x22 # tail"
    using takeWhile_name [OF assms(1) eq] dropWhile_name [OF assms(1) eq] by auto
  have "read_attrs ?s = map_option (\<lambda>(as, e). ((a, v) # as, e)) (read_attrs tail)"
    apply (subst read_attrs.simps)
    using nm dr c a
    by (simp add: Let_def takeWhile_until dropWhile_until escape_chain_no)
  with tl show ?thesis by simp
qed

lemma tag_token_attr:
  assumes "valid_name t" and "valid_name a" and "tail = [] \<or> tail = '' /''"
  shows "tag_token (t @ '' '' @ a @ ''='' @ [CHR 0x22] @ escape_chain v @ CHR 0x22 # tail) =
         Some ((if tail = [] then TOpen else TEmpty) t [(a, v)])"
proof -
  have sp: "\<not> is_name_char CHR '' ''" by (simp add: is_name_char_def)
  let ?r = "a @ ''='' @ [CHR 0x22] @ escape_chain v @ CHR 0x22 # tail"
  have "read_attrs (CHR '' '' # ?r) = read_attrs ?r"
    by (subst read_attrs.simps) simp
  then have "read_attrs (CHR '' '' # ?r) = Some ([(a, v)], tail \<noteq> [])"
    using read_attrs_one [OF assms(2,3), of v] by simp
  then show ?thesis
    using takeWhile_name [OF assms(1) sp, of ?r] dropWhile_name [OF assms(1) sp, of ?r] assms(1)
    by (cases t) (auto simp: tag_token_def valid_name_def is_name_char_def)
qed

text \<open>
  \<open>reads s ns\<close>: wherever \<open>s\<close> stands in a document (before markup or at the end), the reader
  turns it into the sibling nodes \<open>ns\<close>. The rules below are closed under concatenation and
  nesting, so the meaning of a request body follows from the meaning of its pieces.
\<close>

definition add_children :: "node list \<Rightarrow> frame list \<Rightarrow> frame list" where
  "add_children ns fs = (case fs of [] \<Rightarrow> [] | (t, as, cs) # fs' \<Rightarrow> (t, as, rev ns @ cs) # fs')"

definition reads :: "string \<Rightarrow> node list \<Rightarrow> bool" where
  "reads s ns =
     ((s = [] \<or> hd s = CHR ''<'') \<and>
      (\<exists>us. (\<forall>r. lex (s @ r) = map_option (\<lambda>ts. us @ ts) (lex r)) \<and>
            (\<forall>vs f fs. build (us @ vs) (f # fs) = build vs (add_children ns (f # fs)))))"

lemma readsI:
  assumes "s = [] \<or> hd s = CHR ''<''"
    and "\<And>r. lex (s @ r) = map_option (\<lambda>ts. us @ ts) (lex r)"
    and "\<And>vs f fs. build (us @ vs) (f # fs) = build vs (add_children ns (f # fs))"
  shows "reads s ns"
  unfolding reads_def using assms by blast

lemma reads_Nil [intro, simp]: "reads [] []"
  by (rule readsI [of _ "[]"]) (auto simp: add_children_def option.map_ident split: list.splits)

lemma add_children_append:
  "add_children ns' (add_children ns (f # fs)) = add_children (ns @ ns') (f # fs)"
  by (cases f) (simp add: add_children_def)

lemma add_children_Cons: "\<exists>g. add_children ns (f # fs) = g # fs"
  by (cases f) (simp add: add_children_def)

lemma reads_append:
  assumes "reads s ns" and "reads s' ns'"
  shows "reads (s @ s') (ns @ ns')"
proof -
  from assms(1) obtain us where u: "\<And>r. lex (s @ r) = map_option (\<lambda>ts. us @ ts) (lex r)"
    "\<And>vs f fs. build (us @ vs) (f # fs) = build vs (add_children ns (f # fs))"
    unfolding reads_def by blast
  from assms(2) obtain us' where u': "\<And>r. lex (s' @ r) = map_option (\<lambda>ts. us' @ ts) (lex r)"
    "\<And>vs f fs. build (us' @ vs) (f # fs) = build vs (add_children ns' (f # fs))"
    unfolding reads_def by blast
  have "lex ((s @ s') @ r) = map_option (\<lambda>ts. (us @ us') @ ts) (lex r)" for r
    using u(1) [of "s' @ r"] u'(1) [of r] by (simp add: option.map_comp o_def)
  moreover have "build ((us @ us') @ vs) (f # fs) = build vs (add_children (ns @ ns') (f # fs))" for vs f fs
    using u(2) [of "us' @ vs" f fs] u'(2) add_children_append [of ns' ns f fs]
      add_children_Cons [of ns f fs] by force
  moreover have "s @ s' = [] \<or> hd (s @ s') = CHR ''<''"
    using assms by (auto simp: reads_def hd_append)
  ultimately show ?thesis by (intro readsI)
qed

lemma reads_concat:
  "(\<And>x. x \<in> set xs \<Longrightarrow> reads (f x) (g x)) \<Longrightarrow> reads (concat (map f xs)) (concat (map g xs))"
  by (induction xs) (auto intro: reads_append)

lemma reads_Cons: "reads s [n] \<Longrightarrow> reads s' ns \<Longrightarrow> reads (s @ s') (n # ns)"
  using reads_append [of s "[n]"] by simp

text \<open>An element whose start tag is any text the reader takes as one.\<close>

lemma reads_wrap:
  assumes tag: "CHR ''>'' \<notin> set b" "tag_token b = Some (TOpen t as)"
    and t: "valid_name t" and inner: "reads s ns"
  shows "reads (CHR ''<'' # b @ CHR ''>'' # s @ ''</'' @ t @ ''>'') [Element t as ns]"
proof -
  from inner obtain us where u: "\<And>r. lex (s @ r) = map_option (\<lambda>ts. us @ ts) (lex r)"
    "\<And>vs f fs. build (us @ vs) (f # fs) = build vs (add_children ns (f # fs))"
    unfolding reads_def by blast
  have close: "lex (''</'' @ t @ CHR ''>'' # r) = map_option ((#) (TClose t)) (lex r)" for r
    using lex_tag [of "CHR ''/'' # t" "TClose t" r] valid_nameD(4) [OF t] tag_token_close by simp
  have "lex ((CHR ''<'' # b @ CHR ''>'' # s @ ''</'' @ t @ ''>'') @ r) =
        map_option (\<lambda>ts. (TOpen t as # us @ [TClose t]) @ ts) (lex r)" for r
    using lex_tag [OF tag, of "s @ ''</'' @ t @ CHR ''>'' # r"] u(1) [of "''</'' @ t @ CHR ''>'' # r"]
      close [of r] by (simp add: option.map_comp o_def)
  moreover have "build ((TOpen t as # us @ [TClose t]) @ vs) (f # fs) =
                 build vs (add_children [Element t as ns] (f # fs))" for vs f fs
    using u(2) [of "TClose t # vs" "(t, as, [])" "f # fs"]
    by (cases f) (simp add: add_children_def add_child_def)
  ultimately show ?thesis by (intro readsI) simp
qed

lemma reads_elem:
  "valid_name t \<Longrightarrow> reads s ns \<Longrightarrow>
   reads (''<'' @ t @ ''>'' @ s @ ''</'' @ t @ ''>'') [Element t [] ns]"
  using reads_wrap [of t t "[]" s ns] by (simp add: tag_token_open valid_nameD)

lemma reads_elem_attr:
  assumes "valid_name t" "valid_name a" "reads s ns"
  shows "reads (''<'' @ t @ '' '' @ a @ ''='' @ [CHR 0x22] @ escape_chain v @ [CHR 0x22] @ ''>'' @ s @
           ''</'' @ t @ ''>'') [Element t [(a, v)] ns]"
proof -
  let ?b = "t @ '' '' @ a @ ''='' @ [CHR 0x22] @ escape_chain v @ [CHR 0x22]"
  have "CHR ''>'' \<notin> set ?b"
    using valid_nameD(4) [OF assms(1)] valid_nameD(4) [OF assms(2)] escape_chain_no(2) by auto
  then show ?thesis
    using reads_wrap [of ?b t "[(a, v)]" s ns] tag_token_attr [OF assms(1,2), of "[]" v] assms(1,3)
    by simp
qed

lemma reads_empty_attr:
  assumes "valid_name t" "valid_name a"
  shows "reads (''<'' @ t @ '' '' @ a @ ''='' @ [CHR 0x22] @ escape_chain v @ [CHR 0x22] @ '' />'')
           [Element t [(a, v)] []]"
proof -
  let ?b = "t @ '' '' @ a @ ''='' @ [CHR 0x22] @ escape_chain v @ CHR 0x22 # '' /''"
  have gt: "CHR ''>'' \<notin> set ?b"
    using valid_nameD(4) [OF assms(1)] valid_nameD(4) [OF assms(2)] escape_chain_no(2) by auto
  have tok: "tag_token ?b = Some (TEmpty t [(a, v)])"
    using tag_token_attr [OF assms, of "'' /''" v] by simp
  have "lex ((''<'' @ t @ '' '' @ a @ ''='' @ [CHR 0x22] @ escape_chain v @ [CHR 0x22] @ '' />'') @ r) =
        map_option (\<lambda>ts. [TEmpty t [(a, v)]] @ ts) (lex r)" for r
    using lex_tag [OF gt tok, of r] by simp
  moreover have "build ([TEmpty t [(a, v)]] @ vs) (f # fs) =
                 build vs (add_children [Element t [(a, v)] []] (f # fs))" for vs f fs
    by (cases f) (simp add: add_children_def add_child_def)
  ultimately show ?thesis by (intro readsI) simp
qed

definition text_nodes :: "string \<Rightarrow> node list" where
  "text_nodes s = (if s = [] then [] else [TextNode s])"

lemma escape_chain_Nil_iff: "escape_chain s = [] \<longleftrightarrow> s = []"
  by (cases s) (auto simp: esc_char_def ent_defs)

lemma lex_text:
  assumes "CHR ''<'' \<notin> set u" and "u \<noteq> []"
  shows "lex (u @ CHR ''<'' # s) = map_option ((#) (TText (decode_text u))) (lex (CHR ''<'' # s))"
proof -
  from assms obtain x u' where u: "u = x # u'" "x \<noteq> CHR ''<''" "CHR ''<'' \<notin> set u'"
    by (cases u) auto
  then show ?thesis by (simp add: lex.simps(2) [of x] takeWhile_until dropWhile_until)
qed

text \<open>A text-only element, with its text escaped.\<close>

lemma reads_leaf_wrap:
  assumes tag: "CHR ''>'' \<notin> set b" "tag_token b = Some (TOpen t as)" and t: "valid_name t"
  shows "reads (CHR ''<'' # b @ CHR ''>'' # escape_chain v @ ''</'' @ t @ ''>'') [Element t as (text_nodes v)]"
proof (cases "v = []")
  case True
  then show ?thesis using reads_wrap [OF tag t reads_Nil] by (simp add: text_nodes_def)
next
  case False
  note start = lex_tag [OF tag]
  have close: "lex (''</'' @ t @ CHR ''>'' # r) = map_option ((#) (TClose t)) (lex r)" for r
    using lex_tag [of "CHR ''/'' # t" "TClose t" r] valid_nameD(4) [OF t] tag_token_close by simp
  have chars: "lex (escape_chain v @ ''</'' @ t @ CHR ''>'' # r) =
             map_option ((#) (TText v)) (lex (''</'' @ t @ CHR ''>'' # r))" for r
    using lex_text [of "escape_chain v" "CHR ''/'' # t @ CHR ''>'' # r"] False
    by (simp add: escape_chain_no escape_chain_Nil_iff)
  have "lex ((CHR ''<'' # b @ CHR ''>'' # escape_chain v @ ''</'' @ t @ ''>'') @ r) =
        map_option (\<lambda>ts. [TOpen t as, TText v, TClose t] @ ts) (lex r)" for r
    using start [of "escape_chain v @ ''</'' @ t @ CHR ''>'' # r"] chars [of r] close [of r]
    by (simp add: option.map_comp o_def)
  moreover have "build ([TOpen t as, TText v, TClose t] @ vs) (f # fs) =
      build vs (add_children [Element t as (text_nodes v)] (f # fs))" for vs f fs
    using False by (cases f) (simp add: add_children_def add_child_def text_nodes_def)
  ultimately show ?thesis by (intro readsI) simp
qed

lemma reads_leaf:
  "valid_name t \<Longrightarrow> reads (''<'' @ t @ ''>'' @ escape_chain v @ ''</'' @ t @ ''>'') [Element t [] (text_nodes v)]"
  using reads_leaf_wrap [of t t "[]" v] by (simp add: tag_token_open valid_nameD)

lemma reads_leaf_attr:
  assumes "valid_name t" "valid_name a"
  shows "reads (''<'' @ t @ '' '' @ a @ ''='' @ [CHR 0x22] @ escape_chain x @ [CHR 0x22] @ ''>'' @ escape_chain v @
           ''</'' @ t @ ''>'') [Element t [(a, x)] (text_nodes v)]"
proof -
  let ?b = "t @ '' '' @ a @ ''='' @ [CHR 0x22] @ escape_chain x @ [CHR 0x22]"
  have "CHR ''>'' \<notin> set ?b"
    using valid_nameD(4) [OF assms(1)] valid_nameD(4) [OF assms(2)] escape_chain_no(2) by auto
  then show ?thesis
    using reads_leaf_wrap [of ?b t "[(a, x)]" v] tag_token_attr [OF assms(1,2), of "[]" x] assms(1) by simp
qed

text \<open>Start tags with any number of attributes.\<close>

definition attr_text :: "(string \<times> string) list \<Rightarrow> string" where
  "attr_text as =
     concat (map (\<lambda>(a, v). CHR '' '' # a @ ''='' @ [CHR 0x22] @ escape_chain v @ [CHR 0x22]) as)"

lemma attr_text_simps [simp]:
  "attr_text [] = []"
  "attr_text ((a, v) # as) = CHR '' '' # a @ ''='' @ [CHR 0x22] @ escape_chain v @ [CHR 0x22] @ attr_text as"
  by (simp_all add: attr_text_def)

lemma read_attrs_step:
  assumes "valid_name a"
  shows "read_attrs (CHR '' '' # a @ ''='' @ [CHR 0x22] @ escape_chain v @ CHR 0x22 # s) =
         map_option (\<lambda>(as, e). ((a, v) # as, e)) (read_attrs s)"
proof -
  from assms obtain c a' where a: "a = c # a'" and c: "c \<noteq> CHR '' ''" "c \<noteq> CHR ''/''"
    by (cases a) (auto simp: valid_name_def is_name_char_def)
  have eq: "\<not> is_name_char CHR ''=''" by (simp add: is_name_char_def)
  let ?s = "a @ CHR ''='' # CHR 0x22 # escape_chain v @ CHR 0x22 # s"
  have nm: "takeWhile is_name_char ?s = a"
    and dr: "dropWhile is_name_char ?s = CHR ''='' # CHR 0x22 # escape_chain v @ CHR 0x22 # s"
    using takeWhile_name [OF assms eq] dropWhile_name [OF assms eq] by auto
  have "read_attrs ?s = map_option (\<lambda>(as, e). ((a, v) # as, e)) (read_attrs s)"
    apply (subst read_attrs.simps)
    using nm dr c a
    by (simp add: Let_def takeWhile_until dropWhile_until escape_chain_no)
  then show ?thesis by (subst read_attrs.simps) simp
qed

lemma read_attrs_list:
  assumes "tail \<in> set [[], '' /'', ''/'']"
  shows "\<forall>p\<in>set as. valid_name (fst p) \<Longrightarrow> read_attrs (attr_text as @ tail) = Some (as, tail \<noteq> [])"
proof (induction as)
  case Nil
  then show ?case
    using assms by (auto simp: read_attrs.simps [of "[]"] read_attrs.simps [of "'' /''"] read_attrs.simps [of "''/''"])
next
  case (Cons p as)
  then show ?case using read_attrs_step [of "fst p" "snd p" "attr_text as @ tail"] by (cases p) simp
qed

lemma tag_token_attrs:
  assumes "valid_name t" "\<forall>p\<in>set as. valid_name (fst p)" "tail \<in> set [[], '' /'', ''/'']"
  shows "tag_token (t @ attr_text as @ tail) = Some ((if tail = [] then TOpen else TEmpty) t as)"
proof -
  have r: "attr_text as @ tail = [] \<or> (\<exists>c s. attr_text as @ tail = c # s \<and> \<not> is_name_char c)"
    using assms(3) by (cases as) (auto simp: attr_text_def is_name_char_def split: prod.splits)
  have "takeWhile is_name_char (t @ attr_text as @ tail) = t \<and>
        dropWhile is_name_char (t @ attr_text as @ tail) = attr_text as @ tail"
    using r takeWhile_name [OF assms(1)] dropWhile_name [OF assms(1)] valid_nameD(2,3) [OF assms(1)] by fastforce
  then show ?thesis
    using read_attrs_list [OF assms(3,2)] assms(1)
    by (cases t) (auto simp: tag_token_def valid_name_def is_name_char_def)
qed

lemma attr_text_no_gt: "\<forall>p\<in>set as. valid_name (fst p) \<Longrightarrow> CHR ''>'' \<notin> set (attr_text as)"
  by (induction as) (auto simp: escape_chain_no valid_nameD(4))

lemma reads_empty_attrs:
  assumes "valid_name t" "\<forall>p\<in>set as. valid_name (fst p)"
  shows "reads (''<'' @ t @ attr_text as @ ''/>'') [Element t as []]"
proof -
  let ?b = "t @ attr_text as @ ''/''"
  have gt: "CHR ''>'' \<notin> set ?b"
    using valid_nameD(4) [OF assms(1)] attr_text_no_gt [OF assms(2)] by auto
  have tok: "tag_token ?b = Some (TEmpty t as)"
    using tag_token_attrs [OF assms, of "''/''"] by simp
  have "lex ((''<'' @ t @ attr_text as @ ''/>'') @ r) = map_option (\<lambda>ts. [TEmpty t as] @ ts) (lex r)" for r
    using lex_tag [OF gt tok, of r] by simp
  moreover have "build ([TEmpty t as] @ vs) (f # fs) = build vs (add_children [Element t as []] (f # fs))" for vs f fs
    by (cases f) (simp add: add_children_def add_child_def)
  ultimately show ?thesis by (intro readsI) simp
qed

lemma reads_elem_attrs:
  assumes "valid_name t" "\<forall>p\<in>set as. valid_name (fst p)" "reads s ns"
  shows "reads (''<'' @ t @ attr_text as @ ''>'' @ s @ ''</'' @ t @ ''>'') [Element t as ns]"
  using reads_wrap [of "t @ attr_text as" t as s ns] tag_token_attrs [OF assms(1,2), of "[]"] attr_text_no_gt [OF assms(2)]
    valid_nameD(4) [OF assms(1)] assms(1,3) by simp

lemma reads_leaf_attrs:
  assumes "valid_name t" "\<forall>p\<in>set as. valid_name (fst p)"
  shows "reads (''<'' @ t @ attr_text as @ ''>'' @ escape_chain v @ ''</'' @ t @ ''>'') [Element t as (text_nodes v)]"
  using reads_leaf_wrap [of "t @ attr_text as" t as v] tag_token_attrs [OF assms, of "[]"] attr_text_no_gt [OF assms(2)]
    valid_nameD(4) [OF assms(1)] assms(1) by simp

lemma reads_leaf_plain:
  assumes "valid_name t" and "\<forall>c\<in>set v. \<not> special c"
  shows "reads (''<'' @ t @ ''>'' @ v @ ''</'' @ t @ ''>'') [Element t [] (text_nodes v)]"
  using reads_leaf [OF assms(1), of v] escape_chain_plain [OF assms(2)] by simp

lemma reads_read_xml:
  assumes "reads s [Element t as cs]"
  shows "read_xml s = Some (Element t as cs)"
proof -
  from assms obtain us where u: "\<And>r. lex (s @ r) = map_option (\<lambda>ts. us @ ts) (lex r)"
    "\<And>vs f fs. build (us @ vs) (f # fs) = build vs (add_children [Element t as cs] (f # fs))"
    unfolding reads_def by blast
  from u(1) [of "[]"] have "lex s = Some us" by simp
  moreover from u(2) [of "[]" "([], [], [])" "[]"]
  have "build us [([], [], [])] = Some [([], [], [Element t as cs])]" by (simp add: add_children_def)
  ultimately show ?thesis by (simp add: read_xml_def read_nodes_def)
qed

end
