(* ===== verification/Pion_ReadStore.thy ===== *)
theory Pion_ReadStore
  imports Pion_Xml
begin

text \<open>
  Data stores over XML documents: \<open>pion.util.XMLQueryReadStore\<close>
  (\<open>scripts/util/XMLQueryReadStore.js\<close>) and the reading half of \<open>dojox.data.XmlStore\<close>, the
  bundled class the configuration pages use (\<open>dojo-release/dojo/dojo-for-pion.js\<close>). The two
  differ in one place, the value of an absent XML attribute. What the rest of the interface
  relies on is the locale \<open>read_store\<close>; both classes interpret it. The helpers that read
  items through that interface (\<open>makeXmlLeafElementFromItem\<close>, \<open>makeObjectFromItem\<close>,
  \<open>initOptionalValue\<close>, \<open>getOptionalBool\<close>) are modelled on top of it.
\<close>

section \<open>Values read from a store\<close>

text \<open>
  An item is identified with the element it wraps. \<open>item_string\<close> is
  \<open>dojox.data.XmlItem.toString\<close>: the text and CDATA children in order.
\<close>

datatype sval = SUndef | SNull | SText string | SItem node

definition is_element :: "node \<Rightarrow> bool" where
  "is_element n = (nodeType n = 1)"

definition is_text :: "node \<Rightarrow> bool" where
  "is_text n = (nodeType n = 3 \<or> nodeType n = 4)"

definition node_text :: "node \<Rightarrow> string" where
  "node_text n = (case nodeValue n of None \<Rightarrow> [] | Some s \<Rightarrow> s)"

definition item_string :: "node \<Rightarrow> string" where
  "item_string e = concat (map node_text (filter is_text (childNodes e)))"

text \<open>\<open>v.toString()\<close>; \<open>None\<close> is the TypeError for \<open>undefined\<close> and \<open>null\<close>.\<close>

fun sval_toString :: "sval \<Rightarrow> string option" where
  "sval_toString SUndef = None"
| "sval_toString SNull = None"
| "sval_toString (SText s) = Some s"
| "sval_toString (SItem e) = Some (item_string e)"

section \<open>XMLQueryReadStore\<close>

type_synonym attr_map = "string jsobj option"

definition getAttributeName :: "attr_map \<Rightarrow> string \<Rightarrow> string \<Rightarrow> string" where
  "getAttributeName amap tagName attribute =
     (case amap of
        None \<Rightarrow> attribute
      | Some m \<Rightarrow>
          (case obj_get m (tagName @ ''.'' @ attribute) of
             Some v \<Rightarrow>
               if v \<noteq> [] then v
               else (case obj_get m attribute of Some w \<Rightarrow> if w \<noteq> [] then w else attribute | None \<Rightarrow> attribute)
           | None \<Rightarrow>
               (case obj_get m attribute of Some w \<Rightarrow> if w \<noteq> [] then w else attribute | None \<Rightarrow> attribute)))"

definition first_or :: "'a list \<Rightarrow> 'a \<Rightarrow> 'a" where
  "first_or xs d = (case xs of [] \<Rightarrow> d | x # _ \<Rightarrow> x)"

definition child_elements :: "node \<Rightarrow> string \<Rightarrow> node list" where
  "child_elements e a = filter (\<lambda>n. is_element n \<and> nodeName n = a) (childNodes e)"

definition null_or_text :: "string option \<Rightarrow> sval" where
  "null_or_text v = (case v of None \<Rightarrow> SNull | Some s \<Rightarrow> SText s)"

definition getValue :: "attr_map \<Rightarrow> node \<Rightarrow> string \<Rightarrow> sval \<Rightarrow> sval" where
  "getValue amap item attribute defaultValue =
     (if attribute = ''tagName'' then SText (nodeName item)
      else if attribute = ''childNodes'' then
        first_or (map SItem (filter is_element (childNodes item))) defaultValue
      else if attribute = ''text()'' then
        first_or (map (\<lambda>n. SText (node_text n)) (filter is_text (childNodes item))) defaultValue
      else
        let a = getAttributeName amap (nodeName item) attribute in
        if starts_with ''@'' a then
          null_or_text (getAttribute item (tl a))
        else first_or (map SItem (child_elements item a)) defaultValue)"

definition getValues :: "attr_map \<Rightarrow> node \<Rightarrow> string \<Rightarrow> sval list" where
  "getValues amap item attribute =
     (if attribute = ''tagName'' then [SText (nodeName item)]
      else if attribute = ''childNodes'' then map SItem (filter is_element (childNodes item))
      else if attribute = ''text()'' then
        map (\<lambda>n. SText (node_text n)) (filter is_text (childNodes item))
      else
        let a = getAttributeName amap (nodeName item) attribute in
        if starts_with ''@'' a then [null_or_text (getAttribute item (tl a))]
        else map SItem (child_elements item a))"

text \<open>
  The names every object inherits from \<open>Object.prototype\<close>: reading them from the scratch
  object \<open>names\<close> gives a function, which is truthy, so an element of that name is taken for
  one already listed.
\<close>

definition object_prototype :: "string list" where
  "object_prototype = [''constructor'', ''toString'', ''toLocaleString'', ''valueOf'',
     ''hasOwnProperty'', ''isPrototypeOf'', ''propertyIsEnumerable'']"

text \<open>The loop over the child nodes: attribute names so far, names seen, the flag \<open>text\<close>.\<close>

fun scan_children :: "node list \<Rightarrow> string list \<Rightarrow> string list \<Rightarrow> bool \<Rightarrow> string list \<times> bool" where
  "scan_children [] acc names text = (acc, text)"
| "scan_children (n # ns) acc names text =
     (if is_element n then
        (if nodeName n \<notin> set names \<and> nodeName n \<notin> set object_prototype
         then scan_children ns (acc @ [nodeName n]) (nodeName n # names) text
         else scan_children ns acc names text)
      else if nodeType n = 3 then scan_children ns acc names True
      else scan_children ns acc names text)"

text \<open>The names an attribute map adds: \<open>Tag.name\<close> keys for that tag, and keys without a dot.\<close>

definition map_attribute :: "string \<Rightarrow> string \<Rightarrow> string list" where
  "map_attribute tagName key =
     (let i = length (takeWhile (\<lambda>c. c \<noteq> CHR ''.'') key) in
      if i < length key \<and> 0 < i then (if take i key = tagName then [drop (Suc i) key] else [])
      else [key])"

definition getAttributes :: "attr_map \<Rightarrow> node \<Rightarrow> string list" where
  "getAttributes amap item =
     (let kids = childNodes item;
          (attrs, text) = scan_children kids [''tagName''] [] False;
          attrs1 = (if kids \<noteq> [] then attrs @ [''childNodes''] @ (if text then [''text()''] else []) else attrs);
          attrs2 = attrs1 @ map (\<lambda>a. ''@'' @ fst a) (attributes item)
      in attrs2 @ (case amap of None \<Rightarrow> [] | Some m \<Rightarrow> concat (map (\<lambda>p. map_attribute (nodeName item) (fst p)) m)))"

definition hasAttribute :: "attr_map \<Rightarrow> node \<Rightarrow> string \<Rightarrow> bool" where
  "hasAttribute amap item attribute = (getValue amap item attribute SUndef \<noteq> SUndef)"

text \<open>
  The comparison loop of \<open>containsValue\<close>. A string is compared with the printed values, and
  reading \<open>toString\<close> of a null value is a TypeError (\<open>None\<close>). Another argument is compared by
  identity: every item is a fresh wrapper, so only null can be found.
\<close>

fun some_value_equals :: "sval list \<Rightarrow> sval \<Rightarrow> bool option" where
  "some_value_equals [] value = Some False"
| "some_value_equals (v # vs) (SText s) =
     (case sval_toString v of
        None \<Rightarrow> None
      | Some t \<Rightarrow> if t = s then Some True else some_value_equals vs (SText s))"
| "some_value_equals (v # vs) value =
     (if v = SNull \<and> value = SNull then Some True else some_value_equals vs value)"

definition containsValue :: "attr_map \<Rightarrow> node \<Rightarrow> string \<Rightarrow> sval \<Rightarrow> bool option" where
  "containsValue amap item attribute value = some_value_equals (getValues amap item attribute) value"

section \<open>dojox.data.XmlStore\<close>

text \<open>The bundled store returns the default for an absent or empty XML attribute.\<close>

definition xs_getValue :: "attr_map \<Rightarrow> node \<Rightarrow> string \<Rightarrow> sval \<Rightarrow> sval" where
  "xs_getValue amap item attribute defaultValue =
     (if attribute = ''tagName'' then SText (nodeName item)
      else if attribute = ''childNodes'' then
        first_or (map SItem (filter is_element (childNodes item))) defaultValue
      else if attribute = ''text()'' then
        first_or (map (\<lambda>n. SText (node_text n)) (filter is_text (childNodes item))) defaultValue
      else
        let a = getAttributeName amap (nodeName item) attribute in
        if starts_with ''@'' a then
          (case getAttribute item (tl a) of
             Some s \<Rightarrow> if s \<noteq> [] then SText s else defaultValue
           | None \<Rightarrow> defaultValue)
        else first_or (map SItem (child_elements item a)) defaultValue)"

definition xs_hasAttribute :: "attr_map \<Rightarrow> node \<Rightarrow> string \<Rightarrow> bool" where
  "xs_hasAttribute amap item attribute = (xs_getValue amap item attribute SUndef \<noteq> SUndef)"


section \<open>The reading interface\<close>

text \<open>
  What \<open>dojo.data.api.Read\<close> clients of this code rely on. A missing attribute gives the
  default and no values; otherwise the value is the first of the values, unless that value is
  an absent or empty XML attribute, where the two stores differ.
\<close>

locale read_store =
  fixes get :: "node \<Rightarrow> string \<Rightarrow> sval \<Rightarrow> sval"
    and vals :: "node \<Rightarrow> string \<Rightarrow> sval list"
    and has :: "node \<Rightarrow> string \<Rightarrow> bool"
  assumes has_iff: "has i a = (get i a SUndef \<noteq> SUndef)"
    and get_none: "vals i a = [] \<Longrightarrow> get i a d = d"
    and get_first: "vals i a = v # vs \<Longrightarrow> v \<noteq> SNull \<Longrightarrow> v \<noteq> SText [] \<Longrightarrow> get i a d = v"
    and vals_defined: "v \<in> set (vals i a) \<Longrightarrow> v \<noteq> SUndef"
begin

lemma has_nothing: "vals i a = [] \<Longrightarrow> \<not> has i a"
  by (simp add: has_iff get_none)

lemma has_something:
  "vals i a = v # vs \<Longrightarrow> v \<noteq> SNull \<Longrightarrow> v \<noteq> SText [] \<Longrightarrow> has i a"
  using vals_defined [of v i a] by (simp add: has_iff get_first)

lemma get_item:
  "vals i a = SItem e # vs \<Longrightarrow> get i a d = SItem e"
  by (rule get_first) auto

lemma has_item: "vals i a = map SItem es \<Longrightarrow> has i a = (es \<noteq> [])"
  using has_nothing has_something by (cases es) auto

end

lemma first_or_simps [simp]: "first_or [] d = d" "first_or (x # xs) d = x"
  by (simp_all add: first_or_def)

interpretation query_store: read_store "getValue m" "getValues m" "hasAttribute m" for m
proof
  fix i a
  show "hasAttribute m i a = (getValue m i a SUndef \<noteq> SUndef)"
    by (simp add: hasAttribute_def)
next
  fix i a d
  assume "getValues m i a = []"
  then show "getValue m i a d = d"
    by (auto simp: getValue_def getValues_def Let_def split: if_splits)
next
  fix i a v vs d
  assume "getValues m i a = v # vs" "v \<noteq> SNull" "v \<noteq> SText []"
  then show "getValue m i a d = v"
    by (auto simp: getValue_def getValues_def Let_def split: if_splits)
next
  fix v i a
  assume "v \<in> set (getValues m i a)"
  then show "v \<noteq> SUndef"
    by (auto simp: getValues_def Let_def null_or_text_def split: if_splits option.splits)
qed

text \<open>\<open>XmlStore.getValues\<close> is textually the same function.\<close>

interpretation xml_store: read_store "xs_getValue m" "getValues m" "xs_hasAttribute m" for m
proof
  fix i a
  show "xs_hasAttribute m i a = (xs_getValue m i a SUndef \<noteq> SUndef)"
    by (simp add: xs_hasAttribute_def)
next
  fix i a d
  assume "getValues m i a = []"
  then show "xs_getValue m i a d = d"
    by (auto simp: xs_getValue_def getValues_def Let_def split: if_splits)
next
  fix i a v vs d
  assume "getValues m i a = v # vs" "v \<noteq> SNull" "v \<noteq> SText []"
  then show "xs_getValue m i a d = v"
    by (auto simp: xs_getValue_def getValues_def Let_def null_or_text_def split: if_splits option.splits)
next
  fix v i a
  assume "v \<in> set (getValues m i a)"
  then show "v \<noteq> SUndef" by (rule query_store.vals_defined)
qed

section \<open>Helpers that read items\<close>

text \<open>
  \<open>makeXmlLeafElementFromItem\<close>: the outer \<open>None\<close> is the TypeError of \<open>toString\<close> on a null
  value. The optional default is \<open>None\<close> when the argument was not given.
\<close>

definition makeXmlLeafElementFromItem ::
  "(node \<Rightarrow> string \<Rightarrow> bool) \<Rightarrow> (node \<Rightarrow> string \<Rightarrow> sval \<Rightarrow> sval) \<Rightarrow> node \<Rightarrow> string \<Rightarrow> jsval option \<Rightarrow> string option"
where
  "makeXmlLeafElementFromItem has get item tag_name optional_default =
     (if has item tag_name then
        (case sval_toString (get item tag_name SUndef) of
           None \<Rightarrow> None
         | Some s \<Rightarrow> Some (if s = [] then [] else makeXmlLeafElement tag_name (JStr s)))
      else (case optional_default of
              Some d \<Rightarrow> Some (makeXmlLeafElement tag_name d)
            | None \<Rightarrow> Some []))"

fun collect_fields ::
  "(node \<Rightarrow> string \<Rightarrow> sval \<Rightarrow> sval) \<Rightarrow> node \<Rightarrow> string list \<Rightarrow> string jsobj \<Rightarrow> string jsobj option" where
  "collect_fields get item [] ob = Some ob"
| "collect_fields get item (attr # attrs) ob =
     (if attr \<noteq> ''tagName'' \<and> attr \<noteq> ''childNodes'' then
        (case sval_toString (get item attr SUndef) of
           None \<Rightarrow> None
         | Some s \<Rightarrow> collect_fields get item attrs (obj_put ob attr s))
      else collect_fields get item attrs ob)"

definition makeObjectFromItem ::
  "(node \<Rightarrow> string list) \<Rightarrow> (node \<Rightarrow> string \<Rightarrow> sval \<Rightarrow> sval) \<Rightarrow> node \<Rightarrow> string jsobj option" where
  "makeObjectFromItem attrs get item = collect_fields get item (attrs item) []"

text \<open>\<open>pion.initOptionalValue\<close> fills one property of the object for a new store item.\<close>

definition initOptionalValue ::
  "(node \<Rightarrow> string \<Rightarrow> bool) \<Rightarrow> (node \<Rightarrow> string \<Rightarrow> sval \<Rightarrow> sval) \<Rightarrow> node \<Rightarrow> sval jsobj \<Rightarrow> string \<Rightarrow> sval option \<Rightarrow> sval jsobj"
where
  "initOptionalValue has get item new_item_object tag_name optional_default =
     (if has item tag_name then obj_put new_item_object tag_name (get item tag_name SUndef)
      else (case optional_default of
              Some d \<Rightarrow> obj_put new_item_object tag_name d
            | None \<Rightarrow> new_item_object))"

text \<open>\<open>Reactor.getOptionalBool\<close>: a present value is true exactly when it prints as \<open>true\<close>.\<close>

definition getOptionalBool ::
  "(node \<Rightarrow> string \<Rightarrow> sval \<Rightarrow> sval) \<Rightarrow> jsval jsobj \<Rightarrow> node \<Rightarrow> string \<Rightarrow> jsval" where
  "getOptionalBool get grid_option_defaults item attribute =
     (case sval_toString (get item attribute SUndef) of
        Some s \<Rightarrow> JBool (s = ''true'')
      | None \<Rightarrow> (case obj_get grid_option_defaults attribute of Some v \<Rightarrow> v | None \<Rightarrow> JUndef))"

end
