(* ===== verification/Pion_Fetch.thy ===== *)
theory Pion_Fetch
  imports Pion_ReadStore
begin

text \<open>
  The fetching half of \<open>XMLQueryReadStore\<close>: how a fetch request becomes a server query
  (\<open>_fetchItems\<close>) and how the response becomes items and a row count (\<open>_xhrFetchHandler\<close>).
\<close>

section \<open>Building the server query\<close>

record sort_spec =
  sort_attribute :: "string option"
  sort_descending :: bool

text \<open>
  Absent properties of the request are \<open>None\<close>. \<open>r_start\<close> and \<open>r_count\<close> are 0 when absent: the
  code only tests them for truth.
\<close>

record fetch_request =
  r_serverQuery :: "jsval jsobj option"
  r_query :: "jsval jsobj option"
  r_start :: int
  r_count :: int
  r_sort :: "sort_spec list option"

record store_config =
  sortRequiresNewRequest :: bool
  doClientPaging :: bool
  doClientSorting :: bool
  method_is_post :: bool

record xhr_call =
  x_post :: bool
  x_content :: "jsval jsobj"

definition with_paging :: "store_config \<Rightarrow> fetch_request \<Rightarrow> jsval jsobj \<Rightarrow> jsval jsobj" where
  "with_paging cfg request q =
     (if doClientPaging cfg then q
      else
        let q1 = obj_put q ''start'' (JNum (r_start request))
        in if r_count request \<noteq> 0 then obj_put q1 ''count'' (JNum (r_count request)) else q1)"

definition with_sorting :: "store_config \<Rightarrow> fetch_request \<Rightarrow> jsval jsobj \<Rightarrow> jsval jsobj" where
  "with_sorting cfg request q =
     (if doClientSorting cfg then q
      else (case r_sort request of
              Some (spec # _) \<Rightarrow>
                (case sort_attribute spec of
                   Some a \<Rightarrow>
                     if a \<noteq> [] then
                       obj_put q ''sort'' (JStr (if sort_descending spec then ''-'' @ a else a))
                     else q
                 | None \<Rightarrow> q)
            | _ \<Rightarrow> q))"

text \<open>
  \<open>serverQuery\<close> is the object of the request itself, so the assignments to it change the
  request the caller holds: the result is the call and the request as it is left.
  \<open>None\<close> is the early return without a call.
\<close>

definition fetchItems :: "store_config \<Rightarrow> fetch_request \<Rightarrow> (xhr_call \<times> fetch_request) option" where
  "fetchItems cfg request =
     (if sortRequiresNewRequest cfg \<and> r_sort request \<noteq> None then None
      else
        let base = (case r_serverQuery request of Some q \<Rightarrow> q
                    | None \<Rightarrow> (case r_query request of Some q \<Rightarrow> q | None \<Rightarrow> []));
            sq = with_sorting cfg request (with_paging cfg request base);
            request' = (case r_serverQuery request of
                          Some _ \<Rightarrow> request\<lparr>r_serverQuery := Some sq\<rparr>
                        | None \<Rightarrow> (case r_query request of
                                     Some _ \<Rightarrow> request\<lparr>r_query := Some sq\<rparr>
                                   | None \<Rightarrow> request))
        in Some (\<lparr>x_post = method_is_post cfg, x_content = sq\<rparr>, request'))"

section \<open>Reading the response\<close>

text \<open>Removing from their parents all descendants that satisfy \<open>f\<close>.\<close>

fun detach :: "(node \<Rightarrow> bool) \<Rightarrow> node \<Rightarrow> node" where
  "detach f (Element n as cs) = Element n as (map (detach f) (filter (\<lambda>c. \<not> f c) cs))"
| "detach f n = n"

definition tagged :: "string \<Rightarrow> node \<Rightarrow> bool" where
  "tagged t n = (is_element n \<and> nodeName n = t)"

text \<open>The items of a response, each detached from the document and from an enclosing item.\<close>

definition response_items :: "string \<Rightarrow> node \<Rightarrow> node list" where
  "response_items rootItem root =
     (if rootItem \<noteq> [] then map (detach (tagged rootItem)) (matching_nodes rootItem root)
      else filter is_element (childNodes root))"

text \<open>What is left of the document; \<open>None\<close> when its root was itself an item.\<close>

definition response_rest :: "string \<Rightarrow> node \<Rightarrow> node option" where
  "response_rest rootItem root =
     (if rootItem \<noteq> [] then
        (if tagged rootItem root then None else Some (detach (tagged rootItem) root))
      else Some (Element (nodeName root) (attributes root)
                   (filter (\<lambda>c. \<not> is_element c) (childNodes root))))"

record fetched =
  f_items :: "node list"
  f_numRows :: jsval
  f_store_items :: "(node \<times> nat) list"

text \<open>
  The number of rows is the first remaining \<open>TotalRows\<close> element as a number, or the number of
  items when there is none or it says -1. The response is a Document, which has no property
  \<open>identifier\<close>, so items are numbered in order.
\<close>

definition xhrFetchHandler :: "string \<Rightarrow> node \<Rightarrow> fetched" where
  "xhrFetchHandler rootItem root =
     (let items = response_items rootItem root;
          totals = (case response_rest rootItem root of
                      None \<Rightarrow> [] | Some d \<Rightarrow> matching_nodes ''TotalRows'' d);
          numRows = (case totals of [] \<Rightarrow> JNum (-1) | t # _ \<Rightarrow> parseInt (textContent t))
      in \<lparr>f_items = items,
          f_numRows = (if numRows = JNum (-1) then JNum (int (length items)) else numRows),
          f_store_items = zip items [0..<length items]\<rparr>)"

section \<open>Facts about detaching\<close>

lemma detach_not_element: "\<not> is_element n \<Longrightarrow> detach f n = n"
  by (cases n) (auto simp: is_element_def)

lemma nodeName_detach [simp]: "nodeName (detach f n) = nodeName n"
  by (cases n) auto

lemma is_element_detach [simp]: "is_element (detach f n) = is_element n"
  by (cases n) (auto simp: is_element_def)

lemma matching_nodes_detach_other:
  assumes "t \<noteq> rootItem" and "\<And>m. m \<in> set (matching_nodes rootItem n) \<Longrightarrow> matching_nodes t m = []"
    and "\<not> tagged rootItem n"
  shows "matching_nodes t (detach (tagged rootItem) n) =
         map (detach (tagged rootItem)) (matching_nodes t n)"
  using assms(2,3)
proof (induction n)
  case (Element nm as cs)
  have nm: "nm \<noteq> rootItem" using Element.prems(2) by (auto simp: tagged_def is_element_def)
  have kid: "concat (map (matching_nodes t) (map (detach (tagged rootItem)) (filter (\<lambda>c. \<not> tagged rootItem c) ds))) =
             map (detach (tagged rootItem)) (concat (map (matching_nodes t) ds))"
    if "set ds \<subseteq> set cs" for ds
    using that
  proof (induction ds)
    case (Cons d ds)
    from Cons.prems have d: "d \<in> set cs" by simp
    have sub: "matching_nodes t m = []" if "m \<in> set (matching_nodes rootItem d)" for m
      using Element.prems(1) [of m] that d nm by auto
    show ?case
    proof (cases "tagged rootItem d")
      case True
      then have "d \<in> set (matching_nodes rootItem d)"
        by (cases d) (auto simp: tagged_def is_element_def)
      with sub have "matching_nodes t d = []" by blast
      with True Cons show ?thesis by simp
    next
      case False
      with Element.IH [OF d sub] Cons show ?thesis by simp
    qed
  qed simp
  from kid [of cs] nm show ?case by simp
qed auto


lemma detach_text_only: "childNodes n = [TextNode s] \<Longrightarrow> detach (tagged t) n = n"
  by (cases n) (auto simp: tagged_def is_element_def)

section \<open>Properties\<close>

definition paging_fields :: "string list" where
  "paging_fields = [''start'', ''count'', ''sort'']"

lemma obj_get_with_sorting:
  "k \<noteq> ''sort'' \<Longrightarrow> obj_get (with_sorting cfg r q) k = obj_get q k"
  by (auto simp: with_sorting_def obj_get_put split: option.splits list.splits)

lemma obj_get_with_paging:
  "obj_get (with_paging cfg r q) k =
     (if doClientPaging cfg then obj_get q k
      else if k = ''start'' then Some (JNum (r_start r))
      else if k = ''count'' \<and> r_count r \<noteq> 0 then Some (JNum (r_count r))
      else obj_get q k)"
  by (auto simp: with_paging_def obj_get_put Let_def)

lemma fetched_numRows:
  assumes "rootItem \<noteq> []" "rootItem \<noteq> ''TotalRows''" "\<not> tagged rootItem root"
    and "\<And>m. m \<in> set (matching_nodes rootItem root) \<Longrightarrow> matching_nodes ''TotalRows'' m = []"
  shows "matching_nodes ''TotalRows'' root = [] \<Longrightarrow>
           f_numRows (xhrFetchHandler rootItem root) = JNum (int (length (f_items (xhrFetchHandler rootItem root))))"
    and "matching_nodes ''TotalRows'' root = t # ts \<Longrightarrow> childNodes t = [TextNode (int_string n)] \<Longrightarrow> 0 \<le> n \<Longrightarrow>
           f_numRows (xhrFetchHandler rootItem root) = JNum n"
proof -
  have m: "matching_nodes ''TotalRows'' (detach (tagged rootItem) root) =
           map (detach (tagged rootItem)) (matching_nodes ''TotalRows'' root)"
    by (rule matching_nodes_detach_other) (use assms in auto)
  show "matching_nodes ''TotalRows'' root = [] \<Longrightarrow>
        f_numRows (xhrFetchHandler rootItem root) = JNum (int (length (f_items (xhrFetchHandler rootItem root))))"
    using assms(1,3) m by (simp add: xhrFetchHandler_def response_rest_def Let_def)
  assume t: "matching_nodes ''TotalRows'' root = t # ts" "childNodes t = [TextNode (int_string n)]" "0 \<le> n"
  then have "textContent t = int_string n" by (cases t) auto
  with t m assms(1,3) show "f_numRows (xhrFetchHandler rootItem root) = JNum n"
    by (simp add: xhrFetchHandler_def response_rest_def Let_def detach_text_only parseInt_int_string)
qed

text \<open>
  With server-side paging, the call carries the requested window and every field of the
  caller's query that is not a paging field; the caller's own query object is left holding the
  same fields.
\<close>

theorem fetchItems_server_paging:
  assumes "\<not> doClientPaging cfg" "doClientSorting cfg" "\<not> sortRequiresNewRequest cfg"
    and "r_serverQuery request = None" "r_query request = Some q"
  shows "\<exists>call request'. fetchItems cfg request = Some (call, request') \<and>
     obj_get (x_content call) ''start'' = Some (JNum (r_start request)) \<and>
     (r_count request \<noteq> 0 \<longrightarrow> obj_get (x_content call) ''count'' = Some (JNum (r_count request))) \<and>
     (\<forall>k. k \<notin> set paging_fields \<longrightarrow> obj_get (x_content call) k = obj_get q k) \<and>
     r_query request' = Some (x_content call)"
  using assms
  by (simp add: fetchItems_def Let_def obj_get_with_paging obj_get_with_sorting paging_fields_def)

definition demo_request :: fetch_request where
  "demo_request = \<lparr>r_serverQuery = None, r_query = Some [(''name'', JStr ''abc'')], r_start = 25, r_count = 25, r_sort = None\<rparr>"

theorem fetchItems_server_paging_witness:
  "\<exists>call request'. fetchItems \<lparr>sortRequiresNewRequest = False, doClientPaging = False, doClientSorting = True,
       method_is_post = False\<rparr> demo_request = Some (call, request') \<and>
     obj_get (x_content call) ''start'' = Some (JNum 25) \<and> obj_get (x_content call) ''name'' = Some (JStr ''abc'') \<and>
     r_query request' = Some (x_content call)"
  using fetchItems_server_paging [of "\<lparr>sortRequiresNewRequest = False, doClientPaging = False, doClientSorting = True,
       method_is_post = False\<rparr>" demo_request "[(''name'', JStr ''abc'')]"]
  by (auto simp: demo_request_def paging_fields_def)

text \<open>
  The row count of a response is the number in its \<open>TotalRows\<close> element, wherever that stands
  outside the items, and the number of items when there is none; the items are numbered from 0.
\<close>

theorem response_row_count:
  assumes "rootItem \<noteq> []" "rootItem \<noteq> ''TotalRows''" "\<not> tagged rootItem root"
    and "\<forall>m\<in>set (matching_nodes rootItem root). matching_nodes ''TotalRows'' m = []"
  shows "case xhrFetchHandler rootItem root of r \<Rightarrow>
     f_store_items r = zip (f_items r) [0..<length (f_items r)] \<and>
     (matching_nodes ''TotalRows'' root = [] \<longrightarrow> f_numRows r = JNum (int (length (f_items r)))) \<and>
     (\<forall>t ts n. matching_nodes ''TotalRows'' root = t # ts \<and> childNodes t = [TextNode (int_string n)] \<and> 0 \<le> n \<longrightarrow>
        f_numRows r = JNum n)"
proof -
  have "f_store_items (xhrFetchHandler rootItem root) =
      zip (f_items (xhrFetchHandler rootItem root)) [0..<length (f_items (xhrFetchHandler rootItem root))]"
    by (simp add: xhrFetchHandler_def Let_def)
  then show ?thesis using fetched_numRows [OF assms(1-3)] assms(4) by auto
qed

definition demo_response :: node where
  "demo_response = Element ''MonitorService'' [] [Element ''Event'' [] [], Element ''Event'' [] [],
     Element ''TotalRows'' [] [TextNode ''70'']]"

theorem response_row_count_witness:
  "f_numRows (xhrFetchHandler ''Event'' demo_response) = JNum 70 \<and> length (f_items (xhrFetchHandler ''Event'' demo_response)) = 2"
proof -
  have s: "int_string 70 = ''70''" by (simp add: int_string_def nat_digits.simps digit_char_def)
  have t: "matching_nodes ''TotalRows'' demo_response = [Element ''TotalRows'' [] [TextNode (int_string 70)]]"
    and m: "\<forall>m\<in>set (matching_nodes ''Event'' demo_response). matching_nodes ''TotalRows'' m = []"
    by (simp_all add: demo_response_def s)
  have "f_numRows (xhrFetchHandler ''Event'' demo_response) = JNum 70"
    using response_row_count [OF _ _ _ m] t by (simp add: demo_response_def tagged_def)
  moreover have "length (f_items (xhrFetchHandler ''Event'' demo_response)) = 2"
    by (simp add: xhrFetchHandler_def response_items_def demo_response_def Let_def)
  ultimately show ?thesis by blast
qed

end
