(* ===== verification/Pion_Config.thy ===== *)
theory Pion_Config
  imports Pion_Fetch
begin

text \<open>
  Configuration data on the wire. The interface sends a component's configuration as the text
  elements of one element and reads it back, through a store, into an object. The properties
  here say that escaping is exactly what this needs, that the object read is the object sent,
  and what the stores answer about attributes that are not there.
\<close>

section \<open>Configuration elements\<close>

definition leaf :: "string \<times> string \<Rightarrow> node" where
  "leaf f = Element (fst f) [] (text_nodes (snd f))"

definition config_body :: "string \<Rightarrow> string jsobj \<Rightarrow> string" where
  "config_body tag flds =
     ''<'' @ tag @ ''>'' @ concat (map (\<lambda>(k, v). makeXmlLeafElement k (JStr v)) flds) @ ''</'' @ tag @ ''>''"

text \<open>Element names that the stores and the scan for attribute names treat as plain.\<close>

definition field_names :: "string jsobj \<Rightarrow> bool" where
  "field_names flds =
     (obj_wf flds \<and> list_all (\<lambda>k. valid_name k \<and> \<not> starts_with ''@'' k \<and>
        k \<notin> set ([''tagName'', ''childNodes'', ''text()''] @ object_prototype)) (map fst flds))"

lemma reads_makeXmlLeafElement: "valid_name t \<Longrightarrow> reads (makeXmlLeafElement t (JStr s)) [Element t [] (text_nodes s)]"
  using reads_leaf [of t s] by (simp add: makeXmlLeafElement_def escapeXml_string)

lemma field_namesD:
  assumes "field_names flds" "(k, v) \<in> set flds"
  shows "valid_name k" "k \<noteq> ''tagName''" "k \<noteq> ''childNodes''" "k \<notin> set object_prototype"
    "\<not> starts_with ''@'' k" "k \<noteq> ''text()''"
  using assms by (force simp: field_names_def list_all_iff)+

lemma reads_config_body:
  assumes "valid_name tag" "field_names flds"
  shows "reads (config_body tag flds) [Element tag [] (map leaf flds)]"
proof -
  have "reads (concat (map (\<lambda>(k, v). makeXmlLeafElement k (JStr v)) flds)) (concat (map (\<lambda>f. [leaf f]) flds))"
    using field_namesD(1) [OF assms(2)]
    by (intro reads_concat) (auto simp: leaf_def intro!: reads_makeXmlLeafElement)
  then show ?thesis using reads_elem [OF assms(1)] by (simp add: config_body_def)
qed

section \<open>Reading a configuration element\<close>

lemma leaf_simps [simp]: "nodeType (leaf f) = 1" "nodeName (leaf f) = fst f" "childNodes (leaf f) = text_nodes (snd f)"
  "is_element (leaf f)"
  by (simp_all add: leaf_def is_element_def)

lemma item_string_leaf [simp]: "item_string (leaf f) = snd f"
  by (simp add: item_string_def text_nodes_def is_text_def node_text_def)

lemma scan_leaves:
  "distinct (map fst flds) \<Longrightarrow> set (map fst flds) \<inter> (set names \<union> set object_prototype) = {} \<Longrightarrow>
   scan_children (map leaf flds) acc names False = (acc @ map fst flds, False)"
proof (induction flds arbitrary: acc names)
  case (Cons f fs)
  then have "set (map fst fs) \<inter> (set (fst f # names) \<union> set object_prototype) = {}" by auto
  with Cons show ?case by auto
qed simp

lemma distinct_map_fst: "distinct (map fst (f # fs)) \<Longrightarrow> p \<in> set fs \<Longrightarrow> fst p \<noteq> fst f"
  by (metis distinct.simps(2) image_eqI list.simps(9) set_map)

lemma child_elements_leaf:
  "obj_get flds k = Some v \<Longrightarrow> obj_wf flds \<Longrightarrow> child_elements (Element tag as (map leaf flds)) k = [leaf (k, v)]"
proof (induction flds)
  case (Cons f fs)
  have none: "filter (\<lambda>n. is_element n \<and> nodeName n = k) (map leaf fs) = []" if "fst f = k"
    using that distinct_map_fst [of f fs] Cons.prems(2) by (auto simp: obj_wf_def filter_empty_conv)
  show ?case using Cons none by (cases f) (auto simp: child_elements_def obj_wf_def split: if_splits)
qed simp

lemma getValue_field:
  assumes "field_names flds" "obj_get flds k = Some v"
  shows "getValue None (Element tag as (map leaf flds)) k d = SItem (leaf (k, v))"
proof -
  have k: "valid_name k" "k \<noteq> ''tagName''" "k \<noteq> ''childNodes''" "\<not> starts_with ''@'' k" "k \<noteq> ''text()''" and wf: "obj_wf flds"
    using field_namesD [OF assms(1) obj_get_in_set [OF assms(2)]] assms(1) by (simp_all add: field_names_def)
  then show ?thesis
    using child_elements_leaf [OF assms(2) wf]
    by (simp add: getValue_def getAttributeName_def)
qed

lemma collect_fields_leaves:
  assumes "field_names all" "set flds \<subseteq> set all"
  shows "collect_fields (getValue None) (Element tag as (map leaf all)) (map fst flds) ob = Some (mixin ob flds)"
  using assms(2)
proof (induction flds arbitrary: ob)
  case (Cons f fs)
  obtain k v where f: "f = (k, v)" by (cases f)
  have wf: "obj_wf all" using assms(1) by (simp add: field_names_def)
  have get: "obj_get all k = Some v" using Cons.prems f obj_get_mem [OF wf] by simp
  have "k \<noteq> ''tagName''" "k \<noteq> ''childNodes''"
    using field_namesD [OF assms(1), of k v] Cons.prems f by simp_all
  then show ?case
    using Cons getValue_field [OF assms(1) get] f by (simp add: item_string_leaf [of "(k, v)", simplified])
qed simp

lemma mixin_append: "obj_wf (ob @ ps) \<Longrightarrow> mixin ob ps = ob @ ps"
proof (induction ob ps rule: mixin.induct)
  case (2 ob k v ps)
  then have "\<not> obj_has ob k" by (auto simp: obj_wf_def obj_has_def)
  with 2 show ?case by (simp add: obj_put_new)
qed simp

lemma makeObject_leaves:
  assumes "field_names flds"
  shows "makeObjectFromItem (getAttributes None) (getValue None) (Element tag [] (map leaf flds)) = Some flds"
proof -
  have wf: "obj_wf flds" and ok: "set (map fst flds) \<inter> set object_prototype = {}"
    using assms by (auto simp: field_names_def list_all_iff)
  have "getAttributes None (Element tag [] (map leaf flds)) =
      ''tagName'' # map fst flds @ (if flds = [] then [] else [''childNodes''])"
    using scan_leaves [of flds "[]" "[''tagName'']"] wf ok by (simp add: getAttributes_def obj_wf_def)
  moreover have "collect_fields get i (map fst flds @ [''childNodes'']) ob = collect_fields get i (map fst flds) ob"
    for get i ob
    by (induction flds arbitrary: ob) (auto split: option.splits)
  ultimately show ?thesis
    using collect_fields_leaves [OF assms order_refl, of tag "[]" "[]"] wf
    by (simp add: makeObjectFromItem_def mixin_append)
qed

section \<open>Properties\<close>

text \<open>
  Whatever text a configuration value holds, \<open>makeXmlLeafElement\<close> produces one well-formed
  text element from which an XML reader recovers exactly that text.
\<close>

theorem leaf_element_reads_back:
  assumes "valid_name t"
  shows "read_xml (makeXmlLeafElement t (JStr s)) = Some (Element t [] (text_nodes s))"
  by (rule reads_read_xml) (rule reads_makeXmlLeafElement [OF assms])

theorem leaf_element_reads_back_witness:
  "read_xml (makeXmlLeafElement ''Name'' (JStr ''<a&b>'')) = Some (Element ''Name'' [] [TextNode ''<a&b>''])"
  using leaf_element_reads_back [of "''Name''" "''<a&b>''"]
  by (simp add: valid_name_def is_name_char_def text_nodes_def)

text \<open>
  C4: a configuration sent as escaped text elements and read back through the store is the same
  object, field by field and in the same order, whatever the values contain (empty fields
  included).
\<close>

theorem config_round_trip:
  assumes "valid_name tag" "field_names flds"
  shows "\<exists>item. read_xml (config_body tag flds) = Some item \<and>
     makeObjectFromItem (getAttributes None) (getValue None) item = Some flds"
  using reads_read_xml [OF reads_config_body [OF assms]] makeObject_leaves [OF assms(2)] by blast

theorem config_round_trip_witness:
  "\<exists>item. read_xml (config_body ''Reactor'' [(''Name'', ''a < b''), (''Comment'', []), (''X'', ''50'')]) = Some item \<and>
     makeObjectFromItem (getAttributes None) (getValue None) item =
       Some [(''Name'', ''a < b''), (''Comment'', []), (''X'', ''50'')]"
  by (rule config_round_trip)
    (simp_all add: valid_name_def is_name_char_def field_names_def obj_wf_def object_prototype_def)

lemma unescapeXml_string: "unescapeXml (JStr t) = unescape_chain t"
  by (cases t) (auto simp: unescapeXml_def unescape_chain_def)

text \<open>
  The function \<open>unescapeXml\<close> undoes \<open>escapeXml\<close> on every text that does not itself spell one of the
  entities for \<open><\<close>, \<open>>\<close> and the two quotes.
\<close>

theorem unescape_inverts_escape:
  assumes "entity_free s"
  shows "unescapeXml (JStr (escapeXml (JStr s))) = s"
  using unescape_escape_chain [OF assms] by (simp add: unescapeXml_string escapeXml_string)

theorem unescape_inverts_escape_witness:
  "unescapeXml (JStr (escapeXml (JStr ''R&D <x> &amp;''))) = ''R&D <x> &amp;''"
  by (rule unescape_inverts_escape) (simp add: ent_defs)

text \<open>
  On other texts it does not: because the ampersand is decoded first, each of these four
  entities, as a text, comes back as the character it names, so editing a value that shows an
  entity changes it.
\<close>

theorem unescape_decodes_twice:
  "map (\<lambda>s. unescapeXml (JStr (escapeXml (JStr s)))) [ent_lt, ent_gt, ent_quot, ent_apos] =
     [''<'', ''>'', [CHR 0x22], [CHR 0x27]]"
  by (simp add: unescapeXml_string escapeXml_string esc_char_def ent_defs unescape_chain_def)

text \<open>
  The test \<open>XMLQueryReadStore.hasAttribute\<close> answers true for an XML attribute the element does not
  have, since the DOM returns null for it and only undefined is tested; the bundled
  \<open>XmlStore\<close> answers by presence of a non-empty value.
\<close>

theorem missing_attribute_reported_present:
  assumes "getAttribute e a = None"
  shows "hasAttribute None e (CHR ''@'' # a) \<and> \<not> xs_hasAttribute None e (CHR ''@'' # a) \<and>
     containsValue None e (CHR ''@'' # a) (SText s) = None"
  using assms
  by (simp add: hasAttribute_def xs_hasAttribute_def getValue_def xs_getValue_def getAttributeName_def
      containsValue_def getValues_def null_or_text_def)

theorem missing_attribute_reported_present_witness:
  "hasAttribute None (Element ''Term'' [] []) ''@id'' \<and> \<not> xs_hasAttribute None (Element ''Term'' [] []) ''@id''"
  using missing_attribute_reported_present [of "Element ''Term'' [] []" "''id''"]
  by (simp add: getAttribute_def)

end
