(* ===== verification/Pion_Session.thy ===== *)
theory Pion_Session
  imports Pion_Format "HOL-Library.Multiset"
begin

text \<open>
  Sessions and server errors, \<open>scripts/_base/error.js\<close> and \<open>scripts/login.js\<close>: what happens
  when a request comes back with an error status, the login dialog, and the replay of requests
  that failed because the session had expired.

  The state is everything these functions read and write: the flags of \<open>pion.login\<close>, the
  cookies, the operations toggle button, the pieces of the page they show or hide, the open
  dialogs, the requests connected to \<open>onLoginSuccess\<close>, and the log of requests sent.
  Console output is left out.
\<close>

section \<open>State\<close>

text \<open>A request that can be sent again: an XHR function with its arguments, or a store fetch.\<close>

datatype redo =
    RedoXhr string string string
  | RedoFetch string

datatype dialog =
    LoginDialog string "redo option"
  | ServerErrorDialog string
  | ServerResponseErrorDialog nat string string

record session =
  login_pending :: bool
  logged_in_cookie :: bool
  user_cookie :: string
  last_logged_in_user :: "string option"
  ops_checked :: "bool option"        \<comment> \<open>the toggle button, \<open>None\<close> when it does not exist\<close>
  ops_suppressed :: bool
  user_menu_visible :: bool
  current_user :: string
  dialogs :: "dialog list"
  login_request :: "(string \<times> string \<times> redo option) option"  \<comment> \<open>a login request in flight\<close>
  on_login :: "redo list"             \<comment> \<open>handlers connected to \<open>onLoginSuccess\<close>, oldest first\<close>
  sent :: "redo list"                 \<comment> \<open>requests sent again, oldest first\<close>
  location_search :: string
  location_pathname :: string
  replaced_by :: "string list"        \<comment> \<open>\<open>location.replace\<close> calls, oldest first\<close>

section \<open>Login (login.js)\<close>

definition doLoginDialog :: "redo option \<Rightarrow> session \<Rightarrow> session" where
  "doLoginDialog success_callback s =
     (let s1 = s\<lparr>user_menu_visible := False, login_pending := True\<rparr>;
          s2 = (if ops_checked s1 = Some False
                then s1\<lparr>ops_checked := Some True, ops_suppressed := True\<rparr> else s1)
      in s2\<lparr>dialogs := dialogs s2 @ [LoginDialog (user_cookie s2) success_callback]\<rparr>)"

definition onLoginSuccess :: "session \<Rightarrow> session" where
  "onLoginSuccess s =
     s\<lparr>logged_in_cookie := True, last_logged_in_user := Some (user_cookie s),
       user_menu_visible := True, current_user := user_cookie s\<rparr>"

text \<open>
  Calling \<open>pion.login.onLoginSuccess\<close> runs the function and then the connected handlers; each
  disconnects itself and sends its request.
\<close>

definition call_onLoginSuccess :: "session \<Rightarrow> session" where
  "call_onLoginSuccess s =
     (let s1 = onLoginSuccess s in s1\<lparr>on_login := [], sent := sent s1 @ on_login s1\<rparr>)"

text \<open>The dialog's \<open>execute\<close>: the dialog closes and the login request goes out.\<close>

fun is_login :: "dialog \<Rightarrow> bool" where
  "is_login (LoginDialog _ _) = True"
| "is_login _ = False"

definition execute_login :: "string \<Rightarrow> string \<Rightarrow> redo option \<Rightarrow> session \<Rightarrow> session" where
  "execute_login username password success_callback s =
     s\<lparr>user_cookie := username,
       dialogs := filter (\<lambda>d. \<not> is_login d) (dialogs s),
       login_request := Some (username, password, success_callback)\<rparr>"

definition login_load :: "session \<Rightarrow> session" where
  "login_load s =
     (case login_request s of
        None \<Rightarrow> s
      | Some (username, password, success_callback) \<Rightarrow>
          let s0 = s\<lparr>login_request := None\<rparr>;
              s1 = (if Some username \<noteq> last_logged_in_user s0
                    then s0\<lparr>replaced_by := replaced_by s0 @ [location_pathname s0 @ location_search s0]\<rparr>
                    else s0);
              s2 = call_onLoginSuccess (s1\<lparr>login_pending := False\<rparr>);
              s3 = (if ops_suppressed s2
                    then s2\<lparr>ops_checked := (if ops_checked s2 = None then None else Some False),
                            ops_suppressed := False\<rparr>
                    else s2)
          in (case success_callback of None \<Rightarrow> s3 | Some r \<Rightarrow> s3\<lparr>sent := sent s3 @ [r]\<rparr>))"

definition login_error :: "nat \<Rightarrow> session \<Rightarrow> session" where
  "login_error status s =
     (case login_request s of
        None \<Rightarrow> s
      | Some (username, password, success_callback) \<Rightarrow>
          let s1 = s\<lparr>login_request := None, login_pending := False\<rparr>
          in if status = 401 then doLoginDialog success_callback s1 else s1)"

text \<open>\<open>logout\<close> deletes the cookie before it asks the server; the page changes on success.\<close>

definition logout_start :: "session \<Rightarrow> session" where
  "logout_start s = s\<lparr>logged_in_cookie := False, sent := sent s @ [RedoXhr ''GET'' ''/logout'' []]\<rparr>"

definition logout_load :: "session \<Rightarrow> session" where
  "logout_load s = s\<lparr>replaced_by := replaced_by s @ [''/login.html'']\<rparr>"

section \<open>Errors (error.js)\<close>

definition login_page :: "session \<Rightarrow> string" where
  "login_page s =
     (if location_search s \<noteq> [] then ''login.html'' @ location_search s @ ''&pathname='' @ location_pathname s
      else ''login.html'' @ ''?pathname='' @ location_pathname s)"

text \<open>The common 401 branch of \<open>handleXhrError\<close> and \<open>handleFetchError\<close>.\<close>

definition unauthorized :: "redo \<Rightarrow> session \<Rightarrow> session" where
  "unauthorized r s =
     (if login_pending s then s\<lparr>on_login := on_login s @ [r]\<rparr>
      else
        let s1 = (if logged_in_cookie s then s
                  else s\<lparr>replaced_by := replaced_by s @ [login_page s]\<rparr>)
        in doLoginDialog (Some r) s1)"

text \<open>
  The second component says whether the error is passed on to the caller's callback chain
  (the handler returns the response) or swallowed (it returns undefined); the third whether
  \<open>finalErrorHandler\<close> runs.
\<close>

definition handleXhrError ::
  "nat \<Rightarrow> string \<Rightarrow> string \<Rightarrow> redo \<Rightarrow> bool \<Rightarrow> session \<Rightarrow> session \<times> bool \<times> bool" where
  "handleXhrError status url responseText r has_final s =
     (if status = 401 then (unauthorized r s, False, False)
      else
        let d = (if status = 500 then ServerErrorDialog responseText
                 else ServerResponseErrorDialog status url responseText)
        in (s\<lparr>dialogs := dialogs s @ [d]\<rparr>, True, has_final))"

definition handleXhrGetError :: "nat \<Rightarrow> string \<Rightarrow> string \<Rightarrow> string \<Rightarrow> session \<Rightarrow> session \<times> bool \<times> bool" where
  "handleXhrGetError status url responseText body s =
     handleXhrError status url responseText (RedoXhr ''GET'' url body) False s"

text \<open>
  \<open>getXhrErrorHandler\<close> mixes the saved body into the arguments of the failed call, so that the
  replay carries it.
\<close>

definition getXhrErrorHandler ::
  "string \<Rightarrow> string \<Rightarrow> bool \<Rightarrow> nat \<Rightarrow> string \<Rightarrow> string \<Rightarrow> session \<Rightarrow> session \<times> bool \<times> bool" where
  "getXhrErrorHandler xhrFunc body has_final status url responseText s =
     handleXhrError status url responseText (RedoXhr xhrFunc url body) has_final s"

definition handleFetchError :: "nat \<Rightarrow> string \<Rightarrow> session \<Rightarrow> session" where
  "handleFetchError status store_url s =
     (if status = 401 then unauthorized (RedoFetch store_url) s else s)"

section \<open>The error dialogs\<close>

definition hex_digit :: "nat \<Rightarrow> char" where
  "hex_digit d = ''0123456789ABCDEF'' ! d"

definition percent :: "nat \<Rightarrow> string" where
  "percent b = [CHR ''%'', hex_digit (b div 16), hex_digit (b mod 16)]"

definition uri_unreserved :: "char \<Rightarrow> bool" where
  "uri_unreserved c =
     (c \<in> set ''ABCDEFGHIJKLMNOPQRSTUVWXYZabcdefghijklmnopqrstuvwxyz0123456789-_.!~*'' \<or>
      c \<in> set [CHR 0x27, CHR ''('', CHR '')''])"

text \<open>\<open>encodeURIComponent\<close>; a code unit from 128 to 255 has two bytes in UTF-8.\<close>

definition encode_unit :: "char \<Rightarrow> string" where
  "encode_unit c =
     (let n = of_char c :: nat in
      if uri_unreserved c then [c]
      else if n < 128 then percent n
      else percent (192 + n div 64) @ percent (128 + n mod 64))"

definition encodeURIComponent :: "string \<Rightarrow> string" where
  "encodeURIComponent s = concat (map encode_unit s)"

definition kb_url :: "string \<Rightarrow> string" where
  "kb_url text =
     (let error_description = hd (split_char (CHR '':'') text);
          encoded = encodeURIComponent ([CHR 0x22] @ error_description @ [CHR 0x22])
      in ''http://pion.org/search/node/'' @ encoded @ ''%20type%3Akb'')"

text \<open>\<open>ServerErrorDialog\<close> shows its text with the angle brackets escaped.\<close>

definition error_message_html :: "string \<Rightarrow> string" where
  "error_message_html response_text =
     replace_char (CHR ''>'') ''&gt;'' (replace_char (CHR ''<'') ''&lt;'' response_text)"

fun after_first :: "string \<Rightarrow> string \<Rightarrow> string option" where
  "after_first p [] = (if p = [] then Some [] else None)"
| "after_first p (x # xs) =
     (if starts_with p (x # xs) then Some (drop (length p) (x # xs)) else after_first p xs)"

fun before_last :: "string \<Rightarrow> string \<Rightarrow> string option" where
  "before_last p [] = (if p = [] then Some [] else None)"
| "before_last p (x # xs) =
     (case before_last p xs of
        Some u \<Rightarrow> Some (x # u)
      | None \<Rightarrow> if starts_with p (x # xs) then Some [] else None)"

text \<open>\<open>s.replace(/\s+/g, ' ')\<close>.\<close>

fun collapse_space :: "bool \<Rightarrow> string \<Rightarrow> string" where
  "collapse_space prev [] = []"
| "collapse_space prev (x # xs) =
     (if is_space x then (if prev then collapse_space True xs else CHR '' '' # collapse_space True xs)
      else x # collapse_space False xs)"

text \<open>
  The text between the first \<open><strong>\<close> and the last \<open></strong>\<close> after it, without leading
  line feeds: \<open>None\<close> when the regular expression does not match, and then the dialog keeps
  its knowledge-base button hidden.
\<close>

definition kb_string :: "string \<Rightarrow> string option" where
  "kb_string response_text =
     (case after_first ''<strong>'' response_text of
        None \<Rightarrow> None
      | Some t \<Rightarrow>
          (case before_last ''</strong>'' (dropWhile (\<lambda>c. c = CHR 0x0A) t) of
             None \<Rightarrow> None
           | Some m \<Rightarrow> Some (collapse_space False (replace_char (CHR 0x0A) '' '' m))))"

section \<open>Runs\<close>

text \<open>
  What can happen while a session is open: a request or a fetch comes back unauthorized, the
  user submits a login dialog, the login request succeeds or fails, some other request fails.
\<close>

datatype event =
    Unauthorized redo
  | Submit string string
  | LoginLoad
  | LoginError nat
  | ServerError nat string string

fun first_login :: "dialog list \<Rightarrow> redo option option" where
  "first_login [] = None"
| "first_login (LoginDialog u cb # ds) = Some cb"
| "first_login (d # ds) = first_login ds"

fun session_step :: "session \<Rightarrow> event \<Rightarrow> session" where
  "session_step s (Unauthorized r) = unauthorized r s"
| "session_step s (Submit u p) =
     (case first_login (dialogs s) of None \<Rightarrow> s | Some cb \<Rightarrow> execute_login u p cb s)"
| "session_step s LoginLoad = login_load s"
| "session_step s (LoginError st) = login_error st s"
| "session_step s (ServerError st url text) =
     (if st = 401 then s else fst (handleXhrError st url text (RedoFetch []) False s))"

fun session_run :: "session \<Rightarrow> event list \<Rightarrow> session" where
  "session_run s [] = s"
| "session_run s (e # es) = session_run (session_step s e) es"


section \<open>The session invariant\<close>

lemmas session_defs = unauthorized_def doLoginDialog_def execute_login_def login_load_def
  login_error_def call_onLoginSuccess_def onLoginSuccess_def handleXhrError_def Let_def

fun login_callbacks :: "dialog list \<Rightarrow> redo option list" where
  "login_callbacks [] = []"
| "login_callbacks (LoginDialog u cb # ds) = cb # login_callbacks ds"
| "login_callbacks (d # ds) = login_callbacks ds"

definition in_flight :: "session \<Rightarrow> redo option list" where
  "in_flight s = (case login_request s of None \<Rightarrow> [] | Some (u, p, cb) \<Rightarrow> [cb])"

text \<open>
  While a login is pending there is exactly one login dialog open or one login request in
  flight, otherwise none; and the operations counters are only suppressed with the button down.
\<close>

definition session_inv :: "session \<Rightarrow> bool" where
  "session_inv s \<longleftrightarrow>
     length (login_callbacks (dialogs s)) + length (in_flight s) = (if login_pending s then 1 else 0) \<and>
     (ops_suppressed s \<longrightarrow> ops_checked s = Some True)"

lemma login_callbacks_append [simp]:
  "login_callbacks (ds @ es) = login_callbacks ds @ login_callbacks es"
  by (induction ds rule: login_callbacks.induct) auto

lemma login_callbacks_filter [simp]: "login_callbacks (filter (\<lambda>d. \<not> is_login d) ds) = []"
  by (induction ds rule: login_callbacks.induct) auto

lemma first_login_iff: "first_login ds = (case login_callbacks ds of [] \<Rightarrow> None | cb # _ \<Rightarrow> Some cb)"
  by (induction ds rule: login_callbacks.induct) auto

lemma in_flight_simps [simp]:
  "login_request s = None \<Longrightarrow> in_flight s = []"
  "login_request s = Some (u, p, cb) \<Longrightarrow> in_flight s = [cb]"
  by (simp_all add: in_flight_def)

lemma unauthorized_inv: "session_inv s \<Longrightarrow> session_inv (unauthorized r s)"
  by (auto simp: session_inv_def session_defs in_flight_def)

lemma execute_login_inv:
  "session_inv s \<Longrightarrow> login_callbacks (dialogs s) \<noteq> [] \<Longrightarrow> session_inv (execute_login u p cb s)"
  by (cases "login_callbacks (dialogs s)") (auto simp: session_inv_def session_defs split: if_splits)

lemma login_load_inv: "session_inv s \<Longrightarrow> session_inv (login_load s)"
  by (auto simp: session_inv_def session_defs in_flight_def split: option.splits if_splits)

lemma login_error_inv: "session_inv s \<Longrightarrow> session_inv (login_error st s)"
  by (auto simp: session_inv_def session_defs in_flight_def split: option.splits if_splits)

lemma session_step_inv: "session_inv s \<Longrightarrow> session_inv (session_step s e)"
proof (cases e)
  case (Submit u p)
  assume "session_inv s"
  then show ?thesis
    using Submit execute_login_inv [of s] by (auto simp: first_login_iff split: list.splits)
next
  case (ServerError st url msg)
  assume "session_inv s"
  then show ?thesis using ServerError by (auto simp: session_inv_def session_defs in_flight_def)
qed (auto intro: unauthorized_inv login_load_inv login_error_inv)

lemma session_run_inv: "session_inv s \<Longrightarrow> session_inv (session_run s es)"
  by (induction es arbitrary: s) (auto intro: session_step_inv)

section \<open>Replay\<close>

fun given :: "redo option list \<Rightarrow> redo list" where
  "given [] = []"
| "given (None # cbs) = given cbs"
| "given (Some r # cbs) = r # given cbs"

text \<open>The failed requests that a successful login will send again.\<close>

definition waiting :: "session \<Rightarrow> redo list" where
  "waiting s = on_login s @ given (login_callbacks (dialogs s)) @ given (in_flight s)"

fun failed :: "event list \<Rightarrow> redo list" where
  "failed [] = []"
| "failed (Unauthorized r # es) = r # failed es"
| "failed (e # es) = failed es"

lemma given_append [simp]: "given (xs @ ys) = given xs @ given ys"
  by (induction xs rule: given.induct) auto

definition accounted :: "session \<Rightarrow> redo multiset" where
  "accounted s = mset (sent s) + mset (waiting s)"

lemma accounted_unauthorized: "accounted (unauthorized r s) = add_mset r (accounted s)"
  by (auto simp: accounted_def waiting_def session_defs in_flight_def)

lemma accounted_login_load: "accounted (login_load s) = accounted s"
  by (auto simp: accounted_def waiting_def session_defs in_flight_def split: option.splits)

lemma accounted_login_401: "accounted (login_error 401 s) = accounted s"
  by (auto simp: accounted_def waiting_def session_defs in_flight_def split: option.splits)

lemma accounted_submit: "session_inv s \<Longrightarrow> accounted (session_step s (Submit u p)) = accounted s"
proof (cases "login_callbacks (dialogs s)")
  case (Cons cb cbs)
  assume "session_inv s"
  with Cons have "cbs = []" and "in_flight s = []"
    by (auto simp: session_inv_def split: if_splits)
  with Cons show ?thesis
    by (cases cb) (auto simp: accounted_def waiting_def first_login_iff session_defs in_flight_def)
qed (simp add: first_login_iff)

lemma accounted_step:
  assumes "session_inv s" and "\<And>st. e = LoginError st \<Longrightarrow> st = 401"
  shows "accounted (session_step s e) = accounted s + mset (failed [e])"
proof (cases e)
  case (Submit u p)
  with accounted_submit [OF assms(1)] show ?thesis by simp
next
  case (LoginError st)
  with assms(2) accounted_login_401 show ?thesis by simp
next
  case (ServerError st url msg)
  then show ?thesis by (auto simp: accounted_def waiting_def session_defs in_flight_def)
qed (simp_all add: accounted_unauthorized accounted_login_load)

lemma failed_Cons: "failed (e # es) = failed [e] @ failed es"
  by (cases e) auto

lemma accounted_run:
  assumes "session_inv s" and "\<forall>st. LoginError st \<in> set es \<longrightarrow> st = 401"
  shows "accounted (session_run s es) = accounted s + mset (failed es)"
  using assms
proof (induction es arbitrary: s)
  case (Cons e es)
  from Cons.prems(2) have e: "\<And>st. e = LoginError st \<Longrightarrow> st = 401" by auto
  have "accounted (session_run (session_step s e) es) = accounted (session_step s e) + mset (failed es)"
    using Cons.IH [OF session_step_inv [OF Cons.prems(1)]] Cons.prems(2) by auto
  then show ?case
    using accounted_step [OF Cons.prems(1), of e] e failed_Cons [of e es] by simp
qed simp

definition fresh_session :: session where
  "fresh_session =
     \<lparr>login_pending = False, logged_in_cookie = True, user_cookie = ''joe'',
      last_logged_in_user = Some ''joe'', ops_checked = Some False, ops_suppressed = False,
      user_menu_visible = True, current_user = ''joe'', dialogs = [], login_request = None,
      on_login = [], sent = [], location_search = [], location_pathname = ''/'', replaced_by = []\<rparr>"

lemma fresh_session_inv: "session_inv fresh_session"
  by (simp add: session_inv_def fresh_session_def in_flight_def)

lemma login_load_drains:
  assumes "session_inv s" and "login_request s \<noteq> None"
  shows "waiting (login_load s) = [] \<and> \<not> login_pending (login_load s) \<and> \<not> ops_suppressed (login_load s)"
proof -
  obtain u p cb where r: "login_request s = Some (u, p, cb)" using assms(2) by (cases "login_request s") auto
  with assms(1) have "login_callbacks (dialogs s) = []"
    by (auto simp: session_inv_def split: if_splits)
  with r show ?thesis by (auto simp: waiting_def session_defs in_flight_def split: option.splits)
qed

section \<open>Properties\<close>



text \<open>
  The login dialog is modal in effect: in every state a session can reach, a pending login
  means exactly one login dialog or login request, and otherwise there is none, so no second
  login dialog is ever stacked on the first.
\<close>

theorem one_login_at_a_time:
  "let s = session_run fresh_session es in
     length (login_callbacks (dialogs s)) + length (in_flight s) = (if login_pending s then 1 else 0)"
  using session_run_inv [OF fresh_session_inv, of es] by (simp add: session_inv_def Let_def)

text \<open>
  A login request that fails with a status other than 401 drops the request that opened
  the dialog: it is not sent again by a later successful login, although the requests that
  joined the queue meanwhile are.
\<close>

theorem login_failure_drops_request:
  "sent (session_run fresh_session
     [Unauthorized (RedoFetch ''a''), Unauthorized (RedoFetch ''b''), Submit ''joe'' ''x'', LoginError 500,
      Unauthorized (RedoFetch ''c''), Submit ''joe'' ''y'', LoginLoad]) =
   [RedoFetch ''b'', RedoFetch ''c'']"
  by (simp add: fresh_session_def session_defs)

end
