(* ===== verification/Pion_Geometry.thy ===== *)
theory Pion_Geometry
  imports Pion_Prelude Complex_Main
begin

text \<open>
  The geometry of the reactor canvas: snapping a dragged box to the grid
  (\<open>getNearbyGridPointInBox\<close>), the connection line between two boxes
  (\<open>updateConnectionLine\<close>), growing a workspace with its window
  (\<open>expandWorkspaceIfNeeded\<close>) from \<open>scripts/reactors.js\<close>, and the first position of the icon
  that stands for a reactor of another workspace (\<open>computeInitialCoords\<close>) from
  \<open>scripts/widgets/CrossWorkspaceConnection.js\<close>. Box offsets are integers; the centre of a box
  may be half a pixel off, so the line is computed over the rationals.
\<close>

section \<open>The grid\<close>

definition STEP :: int where "STEP = 10"

text \<open>The operator \<open>%\<close>: the sign of the result is the sign of the dividend.\<close>

definition js_mod :: "int \<Rightarrow> int \<Rightarrow> int" where
  "js_mod a b = (if a < 0 then - ((- a) mod \<bar>b\<bar>) else a mod \<bar>b\<bar>)"

text \<open>The right and bottom limits are \<open>None\<close> when they were computed from undefined values (NaN).\<close>

record cbox =
  b_l :: int
  b_t :: int
  b_r :: "int option"
  b_b :: "int option"

definition round_up :: "int \<Rightarrow> int" where
  "round_up x = (let y = x + (STEP - 1) in y - js_mod y STEP)"

definition exceeds :: "int \<Rightarrow> int option \<Rightarrow> bool" where
  "exceeds x limit = (case limit of None \<Rightarrow> False | Some m \<Rightarrow> m < x)"

definition clamp :: "int \<Rightarrow> int option \<Rightarrow> int \<Rightarrow> int" where
  "clamp lo hi x = (if x < lo then lo else if exceeds x hi then the hi else x)"

definition snap :: "int \<Rightarrow> int" where
  "snap x = x - js_mod x STEP"

text \<open>
  The function works on the caller's constraint box and rounds its left and top edge in place,
  so the result is the new position and the box as it is left.
\<close>

definition getNearbyGridPointInBox :: "cbox \<Rightarrow> int \<times> int \<Rightarrow> (int \<times> int) \<times> cbox" where
  "getNearbyGridPointInBox constraintBox currentLeftTop =
     (let c = constraintBox\<lparr>b_l := round_up (b_l constraintBox), b_t := round_up (b_t constraintBox)\<rparr>;
          l = clamp (b_l c) (b_r c) (fst currentLeftTop);
          t = clamp (b_t c) (b_b c) (snd currentLeftTop)
      in ((snap l, snap t), c))"

section \<open>Connection lines\<close>

record nbox =
  offsetLeft :: rat
  offsetTop :: rat
  offsetWidth :: rat
  offsetHeight :: rat

type_synonym point = "rat \<times> rat"

record rect =
  d_left :: rat
  d_top :: rat
  d_width :: rat
  d_height :: rat

definition center :: "nbox \<Rightarrow> point" where
  "center n = (offsetLeft n + offsetWidth n / 2, offsetTop n + offsetHeight n / 2)"

text \<open>The end of the line and the two barbs of its arrow head.\<close>

definition line_end :: "point \<Rightarrow> nbox \<Rightarrow> point \<times> point \<times> point" where
  "line_end p e =
     (let x1 = fst p; y1 = snd p in
      if y1 < offsetTop e then
        let x2 = offsetLeft e + offsetWidth e / 2; y2 = offsetTop e
        in ((x2, y2), (x2 - 5, y2 - 5), (x2 + 5, y2 - 5))
      else if offsetTop e + offsetHeight e < y1 then
        let x2 = offsetLeft e + offsetWidth e / 2; y2 = offsetTop e + offsetHeight e
        in ((x2, y2), (x2 - 5, y2 + 5), (x2 + 5, y2 + 5))
      else if x1 < offsetLeft e then
        let x2 = offsetLeft e; y2 = y1
        in ((x2, y2), (x2 - 5, y2 - 5), (x2 - 5, y2 + 5))
      else
        let x2 = offsetLeft e + offsetWidth e; y2 = y1
        in ((x2, y2), (x2 + 5, y2 - 5), (x2 + 5, y2 + 5)))"

text \<open>
  \<open>updateConnectionLine\<close>: the points of the polyline, and the two clickable strips laid over
  its horizontal and its vertical segment.
\<close>

definition updateConnectionLine :: "nbox \<Rightarrow> nbox \<Rightarrow> point list \<times> rect \<times> rect" where
  "updateConnectionLine start_node end_node =
     (let p = center start_node; x1 = fst p; y1 = snd p;
          q = line_end p end_node; x2 = fst (fst q); y2 = snd (fst q);
          a1 = fst (snd q); a2 = snd (snd q);
          radius = 6;
          horiz = (if x1 < x2
                   then \<lparr>d_left = x1, d_top = y1 - radius, d_width = x2 - x1, d_height = 2 * radius\<rparr>
                   else \<lparr>d_left = x2, d_top = y1 - radius, d_width = x1 - x2, d_height = 2 * radius\<rparr>);
          vert = (if y1 < y2
                  then \<lparr>d_left = x2 - radius, d_top = y1, d_width = 2 * radius, d_height = y2 - y1\<rparr>
                  else \<lparr>d_left = x2 - radius, d_top = y2, d_width = 2 * radius, d_height = y1 - y2\<rparr>)
      in ([(x1, y1), (x2, y1), (x2, y2), a1, (x2, y2), a2], horiz, vert))"

section \<open>Workspace size\<close>

text \<open>
  The visible area (pane width and height) and the surface size: the new style width and
  height where they are set, and the surface size where it is set.
\<close>

definition expandWorkspaceIfNeeded ::
  "int \<times> int \<Rightarrow> int \<times> int \<Rightarrow> int option \<times> int option \<times> (int \<times> int)" where
  "expandWorkspaceIfNeeded pane surface_dims =
     (let new_width = fst pane - 2; new_height = snd pane - 6;
          old_width = fst surface_dims; old_height = snd surface_dims;
          w = (if old_width < new_width then Some new_width else None);
          h = (if old_height < new_height then Some new_height else None);
          width' = (if old_width < new_width then new_width else old_width);
          height' = (if old_height < new_height then new_height else old_height)
      in (w, h, (if old_width < new_width \<or> old_height < new_height then (width', height') else surface_dims)))"

section \<open>Proxy icons\<close>

definition default_x_offset :: int where "default_x_offset = 40"
definition default_y_offset :: int where "default_y_offset = 40"
definition icon_width :: int where "icon_width = 30"
definition icon_height :: int where "icon_height = 30"
definition reactor_width :: int where "reactor_width = 150"
definition reactor_height :: int where "reactor_height = 50"

lemmas pwc_defs = default_x_offset_def default_y_offset_def icon_width_def icon_height_def
  reactor_width_def reactor_height_def

text \<open>The loop over the positions of the existing proxies, from \<open>-1\<close>.\<close>

definition max_coord :: "int list \<Rightarrow> int" where
  "max_coord xs = foldl (\<lambda>m x. max x m) (-1) xs"

text \<open>
  \<open>others\<close> are the positions of the proxies of earlier cross-workspace connections, \<open>lx\<close> and
  \<open>ly\<close> the parsed position of the local reactor.
\<close>

definition sink_computeInitialCoords :: "(int \<times> int) list \<Rightarrow> int \<Rightarrow> int \<Rightarrow> int \<times> int" where
  "sink_computeInitialCoords others lx ly =
     (let max_X = max_coord (map fst others); max_Y = max_coord (map snd others) in
      if 0 \<le> max_X then (max_X + 10, max_Y + 10)
      else (lx + reactor_width + default_x_offset, ly + (reactor_height - icon_height) div 2))"

definition source_computeInitialCoords :: "(int \<times> int) list \<Rightarrow> int \<Rightarrow> int \<Rightarrow> int \<times> int" where
  "source_computeInitialCoords others lx ly =
     (let max_X = max_coord (map fst others); max_Y = max_coord (map snd others) in
      if 0 \<le> max_X then (max_X + 10, max_Y + 10)
      else
        let X = lx - default_x_offset - icon_width in
        if 0 \<le> X then (X, ly + (reactor_height - icon_height) div 2)
        else
          let Y = ly - default_y_offset - icon_height in
          if Y < 0 then (lx, ly + reactor_height + default_y_offset) else (lx, Y))"

section \<open>Facts\<close>

lemma js_mod_nonneg: "0 \<le> x \<Longrightarrow> js_mod x STEP = x mod 10"
  by (simp add: js_mod_def STEP_def)

lemma snap_dvd: "STEP dvd snap x"
  unfolding snap_def js_mod_def STEP_def by (cases "x < 0"; simp; presburger)

lemma round_up_dvd: "STEP dvd round_up x"
  using snap_dvd [of "x + (STEP - 1)"] by (simp add: round_up_def snap_def Let_def)

lemma round_up_bounds: "0 \<le> x \<Longrightarrow> x \<le> round_up x \<and> round_up x < x + STEP"
  using js_mod_nonneg [of "x + 9"] pos_mod_bound [of 10 "x + 9"] pos_mod_sign [of 10 "x + 9"]
  by (auto simp: round_up_def STEP_def Let_def)

lemma snap_bounds: "0 \<le> x \<Longrightarrow> snap x \<le> x \<and> x < snap x + STEP"
  by (simp add: snap_def js_mod_nonneg) (simp add: STEP_def)

lemma snap_dvd_id: "0 \<le> x \<Longrightarrow> STEP dvd x \<Longrightarrow> snap x = x"
  by (simp add: snap_def js_mod_nonneg) (simp add: STEP_def dvd_eq_mod_eq_0)

lemma snap_ge: "0 \<le> a \<Longrightarrow> STEP dvd a \<Longrightarrow> a \<le> x \<Longrightarrow> a \<le> snap x"
  using snap_bounds [of x] snap_dvd [of x] unfolding STEP_def by presburger

lemma round_up_idem: "0 \<le> x \<Longrightarrow> round_up (round_up x) = round_up x"
  using round_up_bounds [of x] round_up_bounds [of "round_up x"] round_up_dvd [of x]
    round_up_dvd [of "round_up x"] unfolding STEP_def by presburger

lemma foldl_max_ge: "(m::int) \<le> foldl (\<lambda>m x. max x m) m xs"
  by (induction xs arbitrary: m) (auto intro: order_trans [OF max.cobounded2])

lemma foldl_max_all: "x \<in> set xs \<Longrightarrow> (x::int) \<le> foldl (\<lambda>m x. max x m) m xs"
  by (induction xs arbitrary: m) (auto intro: order_trans [OF max.cobounded1 foldl_max_ge])

lemma max_coord_ge: "-1 \<le> max_coord xs" "x \<in> set xs \<Longrightarrow> x \<le> max_coord xs"
  by (simp_all add: max_coord_def foldl_max_ge foldl_max_all)


lemma clamp_bounds: "lo \<le> hi \<Longrightarrow> lo \<le> clamp lo (Some hi) x \<and> clamp lo (Some hi) x \<le> hi"
  by (auto simp: clamp_def exceeds_def)

lemma clamp_id: "lo \<le> x \<Longrightarrow> x \<le> hi \<Longrightarrow> clamp lo (Some hi) x = x"
  by (auto simp: clamp_def exceeds_def)

lemma snap_clamp:
  assumes "0 \<le> l" and "round_up l \<le> r"
  shows "STEP dvd snap (clamp (round_up l) (Some r) x)"
    "round_up l \<le> snap (clamp (round_up l) (Some r) x)"
    "snap (clamp (round_up l) (Some r) x) \<le> r"
proof -
  let ?c = "clamp (round_up l) (Some r) x"
  have lo: "0 \<le> round_up l" using round_up_bounds [OF assms(1)] assms(1) by simp
  note c = clamp_bounds [OF assms(2), of x]
  show "STEP dvd snap ?c" by (rule snap_dvd)
  show "round_up l \<le> snap ?c" by (rule snap_ge) (use lo c round_up_dvd in auto)
  show "snap ?c \<le> r" using snap_bounds [of ?c] lo c by simp
qed

section \<open>Properties\<close>

text \<open>
  A dragged box lands on the grid and inside its constraint box, and it stays there:
  snapping its new position again, with the constraint box the first call left behind, changes
  neither the position nor the box.
\<close>

theorem snapped_position_stable:
  assumes "0 \<le> b_l c" "0 \<le> b_t c" "b_r c = Some r" "b_b c = Some b"
    and "round_up (b_l c) \<le> r" "round_up (b_t c) \<le> b"
    and "getNearbyGridPointInBox c p = ((x, y), c')"
  shows "STEP dvd x \<and> STEP dvd y \<and> b_l c \<le> x \<and> x \<le> r \<and> b_t c \<le> y \<and> y \<le> b \<and>
         getNearbyGridPointInBox c' (x, y) = ((x, y), c')"
proof -
  from assms have x: "x = snap (clamp (round_up (b_l c)) (Some r) (fst p))"
    and y: "y = snap (clamp (round_up (b_t c)) (Some b) (snd p))"
    and c': "c' = c\<lparr>b_l := round_up (b_l c), b_t := round_up (b_t c)\<rparr>"
    by (auto simp: getNearbyGridPointInBox_def Let_def)
  note X = snap_clamp [OF assms(1,5), of "fst p", folded x]
  note Y = snap_clamp [OF assms(2,6), of "snd p", folded y]
  have lo: "b_l c \<le> round_up (b_l c)" "b_t c \<le> round_up (b_t c)"
    using round_up_bounds assms(1,2) by blast+
  have "snap x = x" "snap y = y"
    using snap_dvd_id X(1,2) Y(1,2) lo assms(1,2) by (meson order_trans)+
  then have "getNearbyGridPointInBox c' (x, y) = ((x, y), c')"
    unfolding c' using assms(1-4) X Y
    by (simp add: getNearbyGridPointInBox_def Let_def round_up_idem clamp_id)
  with X Y lo show ?thesis by auto
qed

theorem snapped_position_stable_witness:
  "getNearbyGridPointInBox \<lparr>b_l = 3, b_t = 0, b_r = Some 95, b_b = Some 80\<rparr> (47, 200) =
     ((40, 80), \<lparr>b_l = 10, b_t = 0, b_r = Some 95, b_b = Some 80\<rparr>) \<and>
   STEP dvd 40 \<and> STEP dvd 80 \<and>
   getNearbyGridPointInBox \<lparr>b_l = 10, b_t = 0, b_r = Some 95, b_b = Some 80\<rparr> (40, 80) =
     ((40, 80), \<lparr>b_l = 10, b_t = 0, b_r = Some 95, b_b = Some 80\<rparr>)"
proof -
  have 1: "getNearbyGridPointInBox \<lparr>b_l = 3, b_t = 0, b_r = Some 95, b_b = Some 80\<rparr> (47, 200) =
     ((40, 80), \<lparr>b_l = 10, b_t = 0, b_r = Some 95, b_b = Some 80\<rparr>)"
    by (simp add: getNearbyGridPointInBox_def round_up_def clamp_def exceeds_def snap_def js_mod_def STEP_def)
  show ?thesis
    using snapped_position_stable [OF _ _ _ _ _ _ 1, of 95 80] 1
    by (simp add: round_up_def js_mod_def STEP_def)
qed

definition on_border :: "nbox \<Rightarrow> point \<Rightarrow> bool" where
  "on_border e q \<longleftrightarrow>
     offsetLeft e \<le> fst q \<and> fst q \<le> offsetLeft e + offsetWidth e \<and>
     offsetTop e \<le> snd q \<and> snd q \<le> offsetTop e + offsetHeight e \<and>
     (fst q = offsetLeft e \<or> fst q = offsetLeft e + offsetWidth e \<or>
      snd q = offsetTop e \<or> snd q = offsetTop e + offsetHeight e)"

text \<open>
  For any two boxes, the connection line starts at the centre of the first, runs
  horizontally and then vertically, and its tip touches the border of the second; the strips
  laid over it have non-negative size and together cover both of its segments.
\<close>

theorem connection_line_touches_target:
  assumes "0 \<le> offsetWidth e" "0 \<le> offsetHeight e"
  shows "case updateConnectionLine s e of (pts, h, v) \<Rightarrow>
     (\<exists>x1 y1 x2 y2 a1 a2. pts = [(x1, y1), (x2, y1), (x2, y2), a1, (x2, y2), a2] \<and>
        (x1, y1) = center s \<and> on_border e (x2, y2) \<and>
        0 \<le> d_width h \<and> 0 \<le> d_height v \<and>
        d_left h = min x1 x2 \<and> d_left h + d_width h = max x1 x2 \<and> d_top h \<le> y1 \<and> y1 \<le> d_top h + d_height h \<and>
        d_top v = min y1 y2 \<and> d_top v + d_height v = max y1 y2 \<and> d_left v \<le> x2 \<and> x2 \<le> d_left v + d_width v)"
proof -
  obtain x1 y1 where c: "center s = (x1, y1)" by (cases "center s") auto
  obtain x2 y2 a1 a2 where q: "line_end (x1, y1) e = ((x2, y2), a1, a2)"
    by (cases "line_end (x1, y1) e") auto
  have "on_border e (fst (line_end (x1, y1) e))"
    using assms by (auto simp: on_border_def line_end_def Let_def)
  with q have "on_border e (x2, y2)" by simp
  then show ?thesis
    by (cases "x1 < x2"; cases "y1 < y2") (simp_all add: updateConnectionLine_def Let_def c q)
qed

theorem connection_line_touches_target_witness:
  "let s = \<lparr>offsetLeft = 0, offsetTop = 0, offsetWidth = 150, offsetHeight = 50\<rparr>;
       e = \<lparr>offsetLeft = 300, offsetTop = 200, offsetWidth = 150, offsetHeight = 50\<rparr>
   in fst (updateConnectionLine s e) =
        [(75, 25), (375, 25), (375, 200), (370, 195), (375, 200), (380, 195)] \<and>
      on_border e (375, 200)"
proof -
  let ?s = "\<lparr>offsetLeft = 0, offsetTop = 0, offsetWidth = 150, offsetHeight = 50\<rparr> :: nbox"
  let ?e = "\<lparr>offsetLeft = 300, offsetTop = 200, offsetWidth = 150, offsetHeight = 50\<rparr> :: nbox"
  have "fst (updateConnectionLine ?s ?e) =
        [(75, 25), (375, 25), (375, 200), (370, 195), (375, 200), (380, 195)]"
    by (simp add: updateConnectionLine_def line_end_def center_def Let_def)
  then show ?thesis
    using connection_line_touches_target [of ?e ?s] by (auto simp: split_beta)
qed

definition overlaps :: "int \<times> int \<Rightarrow> int \<times> int \<Rightarrow> bool" where
  "overlaps icon reactor \<longleftrightarrow>
     fst icon < fst reactor + reactor_width \<and> fst reactor < fst icon + icon_width \<and>
     snd icon < snd reactor + reactor_height \<and> snd reactor < snd icon + icon_height"

text \<open>
  The icon for a reactor of another workspace is never placed at a negative position, and
  a first icon never covers the reactor it belongs to; a further one is placed right of and
  below every earlier one.
\<close>

theorem proxy_placement:
  assumes "0 \<le> lx" "0 \<le> ly" and "\<forall>p\<in>set others. 0 \<le> fst p \<and> 0 \<le> snd p"
  shows "\<forall>p \<in> {sink_computeInitialCoords others lx ly, source_computeInitialCoords others lx ly}.
     0 \<le> fst p \<and> 0 \<le> snd p \<and> (others = [] \<longrightarrow> \<not> overlaps p (lx, ly)) \<and>
     (\<forall>q\<in>set others. fst q < fst p \<and> snd q < snd p)"
proof (cases others)
  case Nil
  then show ?thesis using assms
    by (auto simp: sink_computeInitialCoords_def source_computeInitialCoords_def overlaps_def
        max_coord_def pwc_defs Let_def)
next
  case (Cons o1 os)
  define MX MY where "MX = max_coord (map fst others)" and "MY = max_coord (map snd others)"
  have M: "fst q \<le> MX" "snd q \<le> MY" if "q \<in> set others" for q
    using that max_coord_ge(2) by (auto simp: MX_def MY_def)
  have pos: "0 \<le> MX" "0 \<le> MY" using M [of o1] assms(3) Cons by force+
  have eq: "sink_computeInitialCoords others lx ly = (MX + 10, MY + 10)"
    "source_computeInitialCoords others lx ly = (MX + 10, MY + 10)"
    using pos by (simp_all add: sink_computeInitialCoords_def source_computeInitialCoords_def MX_def MY_def Let_def)
  have "fst q < MX + 10 \<and> snd q < MY + 10" if "q \<in> set others" for q
    using M [OF that] by simp
  then show ?thesis unfolding eq using pos Cons by simp
qed

theorem proxy_placement_witness:
  "source_computeInitialCoords [] 50 60 = (50, 150) \<and> 0 \<le> (50::int) \<and> \<not> overlaps (50, 150) (50, 60)"
proof -
  have e: "source_computeInitialCoords [] 50 60 = (50, 150)"
    by (simp add: source_computeInitialCoords_def max_coord_def pwc_defs Let_def)
  from proxy_placement [of 50 60 "[]"] have "\<not> overlaps (source_computeInitialCoords [] 50 60) (50, 60)"
    by simp
  with e show ?thesis by simp
qed

text \<open>
  Resizing the window never shrinks a workspace, and afterwards the workspace fills the
  visible area.
\<close>

theorem workspace_only_grows:
  "case expandWorkspaceIfNeeded pane dims of (w, h, dims') \<Rightarrow>
     fst dims' = max (fst dims) (fst pane - 2) \<and> snd dims' = max (snd dims) (snd pane - 6) \<and>
     (w \<noteq> None \<longleftrightarrow> fst dims < fst dims') \<and> (h \<noteq> None \<longleftrightarrow> snd dims < snd dims')"
  by (cases dims) (auto simp: expandWorkspaceIfNeeded_def Let_def)

end
