(* ===== verification/Pion_Graph.thy ===== *)
theory Pion_Graph
  imports Pion_Geometry Pion_Format
begin

text \<open>
  The reactor canvas of \<open>scripts/reactors.js\<close> and
  \<open>scripts/widgets/CrossWorkspaceConnection.js\<close>: workspaces, the reactors in them and the
  connections between reactors, as the object graph the code keeps and mutates.

  Objects have addresses. \<open>u_robj\<close>, \<open>u_wobj\<close> and \<open>u_cwc\<close> are the reactor, workspace and
  cross-workspace-connection objects; addresses from \<open>u_next\<close> on are unused. A connection is an
  entry in \<open>reactor_outputs\<close> of its source and one in \<open>reactor_inputs\<close> of its sink. The entry's
  far end is \<open>ce_peer\<close>: the reactor itself, or \<open>external_reactor\<close> of the proxy when the
  connection crosses workspaces (\<open>ce_cwc\<close>). A connection line is named by a number; \<open>wo_divs\<close> are
  the lines whose two \<open>div\<close> elements are children of the workspace's node. Removing a child
  from a node it is not a child of is a DOM exception, and an operation that throws is \<open>None\<close>.
  Drawing, style, menus, tooltips and mouse tracking are left out.
\<close>

section \<open>Objects\<close>

record centry =
  ce_id :: string
  ce_peer :: nat
  ce_line :: nat
  ce_cwc :: "nat option"

record robj =
  ro_id :: string
  ro_ws :: nat
  ro_inputs :: "centry list"
  ro_outputs :: "centry list"
  ro_special :: "string list"          \<comment> \<open>\<open>special_config_elements\<close>\<close>
  ro_config :: "jsval jsobj"

record wobj =
  wo_uuid :: string
  wo_title :: string
  wo_reactors :: "nat list"
  wo_divs :: "nat set"

record cwc =
  cw_source :: nat
  cw_sink :: nat
  cw_conn :: string
  cw_sink_line :: nat                  \<comment> \<open>the line to the sink proxy, in the source's workspace\<close>
  cw_source_line :: nat                \<comment> \<open>the line from the source proxy, in the sink's workspace\<close>
  cw_sink_pos :: "int \<times> int"
  cw_source_pos :: "int \<times> int"

record ui =
  u_robj :: "nat \<Rightarrow> robj"
  u_wobj :: "nat \<Rightarrow> wobj"
  u_cwc :: "nat \<Rightarrow> cwc"
  u_next :: nat
  reactors_by_id :: "nat jsobj"
  connections_by_id :: "(nat \<times> nat) jsobj"
  workspaces_by_id :: "nat jsobj"
  workspace_boxes :: "nat list"
  workspace_box :: "nat option"        \<comment> \<open>the selected workspace\<close>
  u_puts :: "(string \<times> string) list"   \<comment> \<open>PUT requests sent (url, body), oldest first\<close>

definition upd_robj :: "nat \<Rightarrow> (robj \<Rightarrow> robj) \<Rightarrow> ui \<Rightarrow> ui" where
  "upd_robj a f u = u\<lparr>u_robj := (u_robj u)(a := f (u_robj u a))\<rparr>"

definition upd_wobj :: "nat \<Rightarrow> (wobj \<Rightarrow> wobj) \<Rightarrow> ui \<Rightarrow> ui" where
  "upd_wobj a f u = u\<lparr>u_wobj := (u_wobj u)(a := f (u_wobj u a))\<rparr>"

section \<open>Array loops\<close>

text \<open>
  \<open>for (j = 0; j < xs.length; ++j) if (p(xs[j])) xs.splice(j, 1)\<close>: after a removal the loop
  skips the element that moved into the gap.
\<close>

fun splice_loop :: "('a \<Rightarrow> bool) \<Rightarrow> 'a list \<Rightarrow> 'a list" where
  "splice_loop p [] = []"
| "splice_loop p (x # xs) =
     (if p x then (case xs of [] \<Rightarrow> [] | y # ys \<Rightarrow> y # splice_loop p ys) else x # splice_loop p xs)"

text \<open>The same loop with a \<open>break\<close> after the removal.\<close>

fun splice_first :: "('a \<Rightarrow> bool) \<Rightarrow> 'a list \<Rightarrow> 'a list" where
  "splice_first p [] = []"
| "splice_first p (x # xs) = (if p x then xs else x # splice_first p xs)"

text \<open>Index of the first match, the length when there is none.\<close>

fun find_index :: "('a \<Rightarrow> bool) \<Rightarrow> 'a list \<Rightarrow> nat" where
  "find_index p [] = 0"
| "find_index p (x # xs) = (if p x then 0 else Suc (find_index p xs))"

section \<open>Lines and workspaces\<close>

definition selectChild :: "nat \<Rightarrow> ui \<Rightarrow> ui" where
  "selectChild w u = u\<lparr>workspace_box := Some w\<rparr>"

text \<open>\<open>removeLine\<close> removes the line from the node of the selected workspace.\<close>

definition removeLine :: "nat \<Rightarrow> ui \<Rightarrow> ui option" where
  "removeLine line u =
     (case workspace_box u of
        None \<Rightarrow> None
      | Some w \<Rightarrow>
          if line \<in> wo_divs (u_wobj u w)
          then Some (upd_wobj w (\<lambda>x. x\<lparr>wo_divs := wo_divs x - {line}\<rparr>) u)
          else None)"

definition addWorkspace :: "string \<Rightarrow> string \<Rightarrow> ui \<Rightarrow> ui" where
  "addWorkspace uuid name u =
     (let w = u_next u
      in selectChild w
           (u\<lparr>u_wobj := (u_wobj u)(w := \<lparr>wo_uuid = uuid, wo_title = name, wo_reactors = [], wo_divs = {}\<rparr>),
              u_next := Suc w,
              workspaces_by_id := obj_put (workspaces_by_id u) uuid w,
              workspace_boxes := workspace_boxes u @ [w]\<rparr>))"

text \<open>\<open>isDuplicateWorkspaceName(workspace_pane, name)\<close>, with \<open>None\<close> for a null pane.\<close>

definition isDuplicateWorkspaceName :: "nat option \<Rightarrow> string \<Rightarrow> ui \<Rightarrow> bool" where
  "isDuplicateWorkspaceName pane name u =
     (\<exists>w\<in>set (workspace_boxes u). Some w \<noteq> pane \<and> wo_title (u_wobj u w) = name)"

section \<open>Reactors\<close>

definition config_id :: "jsval jsobj \<Rightarrow> string" where
  "config_id config = (case obj_get config ''@id'' of Some v \<Rightarrow> js_string v | None \<Rightarrow> ''undefined'')"

text \<open>
  \<open>createReactorInConfiguredWorkspace\<close>: a reactor whose workspace is unknown (or hidden from
  this user) is ignored.
\<close>

definition createReactorInConfiguredWorkspace :: "jsval jsobj \<Rightarrow> ui \<Rightarrow> ui" where
  "createReactorInConfiguredWorkspace config u =
     (case obj_get config ''Workspace'' of
        None \<Rightarrow> u
      | Some wid \<Rightarrow>
          (case obj_get (workspaces_by_id u) (js_string wid) of
             None \<Rightarrow> u
           | Some w \<Rightarrow>
               let a = u_next u; u1 = selectChild w u;
                   u2 = u1\<lparr>u_robj := (u_robj u1)(a := \<lparr>ro_id = config_id config, ro_ws = w, ro_inputs = [],
                             ro_outputs = [], ro_special = [''@id'', ''options''], ro_config = config\<rparr>),
                           u_next := Suc a,
                           reactors_by_id := obj_put (reactors_by_id u1) (config_id config) a\<rparr>
               in upd_wobj w (\<lambda>x. x\<lparr>wo_reactors := wo_reactors x @ [a]\<rparr>) u2))"

section \<open>Cross-workspace connections\<close>

definition proxy_x_tag :: "string \<Rightarrow> string" where
  "proxy_x_tag conn = ''Proxy_X_'' @ conn"

definition proxy_y_tag :: "string \<Rightarrow> string" where
  "proxy_y_tag conn = ''Proxy_Y_'' @ conn"

text \<open>
  The body \<open>updateExternalReactorConfig\<close> sends. The custom data a reactor inserts goes to its own
  \<open>put_data\<close>, not to this local string.
\<close>

definition reactor_put_data :: "robj \<Rightarrow> string" where
  "reactor_put_data r =
     ''<PionConfig><Reactor>'' @
     concat (map (\<lambda>(tag, v). makeXmlLeafElement tag v)
       (filter (\<lambda>(tag, v). tag \<notin> set (ro_special r)) (ro_config r))) @
     ''</Reactor></PionConfig>''"

definition updateExternalReactorConfig :: "nat \<Rightarrow> ui \<Rightarrow> ui" where
  "updateExternalReactorConfig a u =
     u\<lparr>u_puts := u_puts u @ [(''/config/reactors/'' @ ro_id (u_robj u a) @ ''/move'', reactor_put_data (u_robj u a))]\<rparr>"

text \<open>A position from a configuration: a number, or the text of one.\<close>

fun coord :: "jsval \<Rightarrow> int" where
  "coord (JNum n) = n"
| "coord (JStr s) = (case parseInt s of JNum n \<Rightarrow> n | _ \<Rightarrow> -1)"
| "coord _ = -1"

definition config_coord :: "robj \<Rightarrow> string \<Rightarrow> int" where
  "config_coord r tag = (case obj_get (ro_config r) tag of Some v \<Rightarrow> coord v | None \<Rightarrow> -1)"

text \<open>
  \<open>initCoords\<close> of a proxy: the position saved in the external reactor's configuration, or else
  the computed one, which is saved there and sent to the server.
\<close>

definition initCoords :: "nat \<Rightarrow> string \<Rightarrow> int \<times> int \<Rightarrow> ui \<Rightarrow> (int \<times> int) \<times> ui" where
  "initCoords external conn computed u =
     (if obj_has (ro_config (u_robj u external)) (proxy_x_tag conn) then
        ((config_coord (u_robj u external) (proxy_x_tag conn),
          config_coord (u_robj u external) (proxy_y_tag conn)), u)
      else
        (computed,
         updateExternalReactorConfig external
           (upd_robj external (\<lambda>r. r\<lparr>ro_config :=
              obj_put (obj_put (ro_config r) (proxy_x_tag conn) (JNum (fst computed)))
                (proxy_y_tag conn) (JNum (snd computed))\<rparr>) u)))"

definition sink_positions :: "nat \<Rightarrow> ui \<Rightarrow> (int \<times> int) list" where
  "sink_positions a u =
     concat (map (\<lambda>e. case ce_cwc e of None \<Rightarrow> [] | Some c \<Rightarrow> [cw_sink_pos (u_cwc u c)]) (ro_outputs (u_robj u a)))"

definition source_positions :: "nat \<Rightarrow> ui \<Rightarrow> (int \<times> int) list" where
  "source_positions a u =
     concat (map (\<lambda>e. case ce_cwc e of None \<Rightarrow> [] | Some c \<Rightarrow> [cw_source_pos (u_cwc u c)]) (ro_inputs (u_robj u a)))"

definition add_div :: "nat \<Rightarrow> nat \<Rightarrow> ui \<Rightarrow> ui" where
  "add_div w line u = upd_wobj w (\<lambda>x. x\<lparr>wo_divs := insert line (wo_divs x)\<rparr>) u"

text \<open>
  The constructor of \<open>CrossWorkspaceConnection\<close> for a connection from \<open>s\<close> to \<open>e\<close>: a proxy of the
  sink in the source's workspace, a proxy of the source in the sink's workspace. The three
  fresh addresses are the object and its two lines; the selected tab is restored at the end.
\<close>

definition newCrossWorkspaceConnection :: "nat \<Rightarrow> nat \<Rightarrow> string \<Rightarrow> ui \<Rightarrow> (nat \<times> ui) option" where
  "newCrossWorkspaceConnection s e conn u =
     (case workspace_box u of
        None \<Rightarrow> None
      | Some selected_pane \<Rightarrow>
          let c = u_next u; l1 = Suc c; l2 = Suc l1;
              u0 = u\<lparr>u_next := Suc l2\<rparr>;
              ws = ro_ws (u_robj u0 s); we = ro_ws (u_robj u0 e);
              u1 = selectChild ws u0;
              (p1, u2) = initCoords e conn
                 (sink_computeInitialCoords (sink_positions s u1)
                    (config_coord (u_robj u1 s) ''X'') (config_coord (u_robj u1 s) ''Y'')) u1;
              u3 = selectChild we (add_div ws l1 u2);
              (p2, u4) = initCoords s conn
                 (source_computeInitialCoords (source_positions e u3)
                    (config_coord (u_robj u3 e) ''X'') (config_coord (u_robj u3 e) ''Y'')) u3;
              u5 = selectChild selected_pane (add_div we l2 u4)
          in Some (c, u5\<lparr>u_cwc := (u_cwc u5)(c := \<lparr>cw_source = s, cw_sink = e, cw_conn = conn,
                       cw_sink_line = l1, cw_source_line = l2, cw_sink_pos = p1, cw_source_pos = p2\<rparr>)\<rparr>))"

text \<open>
  \<open>ReactorProxy.destroy\<close>: the saved position is forgotten if the external reactor still exists,
  and the line is removed with the local workspace selected for the moment.
\<close>

definition destroyProxy :: "nat \<Rightarrow> nat \<Rightarrow> nat \<Rightarrow> string \<Rightarrow> ui \<Rightarrow> ui option" where
  "destroyProxy local_r external line conn u =
     (let u1 = (if obj_has (reactors_by_id u) (ro_id (u_robj u external))
                then updateExternalReactorConfig external
                       (upd_robj external (\<lambda>r. r\<lparr>ro_config :=
                          obj_del (obj_del (ro_config r) (proxy_x_tag conn)) (proxy_y_tag conn)\<rparr>) u)
                else u)
      in case workspace_box u1 of
           None \<Rightarrow> None
         | Some selected_pane \<Rightarrow>
             map_option (selectChild selected_pane)
               (removeLine line (selectChild (ro_ws (u_robj u1 local_r)) u1)))"

definition destroyCwc :: "nat \<Rightarrow> ui \<Rightarrow> ui option" where
  "destroyCwc c u =
     (let x = u_cwc u c in
      Option.bind (destroyProxy (cw_source x) (cw_sink x) (cw_sink_line x) (cw_conn x) u)
        (destroyProxy (cw_sink x) (cw_source x) (cw_source_line x) (cw_conn x)))"

section \<open>Connections\<close>

definition push_output :: "nat \<Rightarrow> centry \<Rightarrow> ui \<Rightarrow> ui" where
  "push_output a x u = upd_robj a (\<lambda>r. r\<lparr>ro_outputs := ro_outputs r @ [x]\<rparr>) u"

definition push_input :: "nat \<Rightarrow> centry \<Rightarrow> ui \<Rightarrow> ui" where
  "push_input a x u = upd_robj a (\<lambda>r. r\<lparr>ro_inputs := ro_inputs r @ [x]\<rparr>) u"

text \<open>
  \<open>createConnection\<close>. Within one workspace the line is drawn in the selected workspace's node,
  whichever that is.
\<close>

definition createConnection :: "nat \<Rightarrow> nat \<Rightarrow> string \<Rightarrow> ui \<Rightarrow> ui option" where
  "createConnection s e conn u =
     (let u1 = u\<lparr>connections_by_id := obj_put (connections_by_id u) conn (s, e)\<rparr> in
      if ro_ws (u_robj u1 s) \<noteq> ro_ws (u_robj u1 e) then
        (case newCrossWorkspaceConnection s e conn u1 of
           None \<Rightarrow> None
         | Some (c, u2) \<Rightarrow>
             Some (push_input e \<lparr>ce_id = conn, ce_peer = s, ce_line = cw_source_line (u_cwc u2 c), ce_cwc = Some c\<rparr>
                    (push_output s \<lparr>ce_id = conn, ce_peer = e, ce_line = cw_sink_line (u_cwc u2 c), ce_cwc = Some c\<rparr> u2)))
      else
        (case workspace_box u1 of
           None \<Rightarrow> None
         | Some w \<Rightarrow>
             let l = u_next u1; u2 = add_div w l (u1\<lparr>u_next := Suc l\<rparr>)
             in Some (push_input e \<lparr>ce_id = conn, ce_peer = s, ce_line = l, ce_cwc = None\<rparr>
                       (push_output s \<lparr>ce_id = conn, ce_peer = e, ce_line = l, ce_cwc = None\<rparr> u2))))"

text \<open>The \<open>load\<close> handler of \<open>removeConnection\<close>, for a connection inside a workspace.\<close>

definition removeConnection_load :: "nat \<Rightarrow> nat \<Rightarrow> string \<Rightarrow> ui \<Rightarrow> ui option" where
  "removeConnection_load s e conn u =
     (let i1 = find_index (\<lambda>x. ce_id x = conn) (ro_outputs (u_robj u s));
          i2 = find_index (\<lambda>x. ce_id x = conn) (ro_inputs (u_robj u e))
      in if i1 < length (ro_outputs (u_robj u s)) then
           map_option
             (\<lambda>u1. upd_robj e (\<lambda>r. r\<lparr>ro_inputs := splice1 i2 (ro_inputs r)\<rparr>)
                     (upd_robj s (\<lambda>r. r\<lparr>ro_outputs := splice1 i1 (ro_outputs r)\<rparr>) u1))
             (removeLine (ce_line (ro_outputs (u_robj u s) ! i1)) u)
         else None)"

text \<open>The \<open>load\<close> handler of \<open>CrossWorkspaceConnection.deleteConnection\<close>.\<close>

definition deleteConnection_load :: "nat \<Rightarrow> ui \<Rightarrow> ui option" where
  "deleteConnection_load c u =
     (let x = u_cwc u c;
          u1 = upd_robj (cw_source x) (\<lambda>r. r\<lparr>ro_outputs := splice_first (\<lambda>e. ce_id e = cw_conn x) (ro_outputs r)\<rparr>) u;
          u2 = upd_robj (cw_sink x) (\<lambda>r. r\<lparr>ro_inputs := splice_first (\<lambda>e. ce_id e = cw_conn x) (ro_inputs r)\<rparr>) u1
      in destroyCwc c u2)"

text \<open>
  The \<open>load\<close> handlers of the Delete cells of the connections dialog: row \<open>i\<close> of the inputs grid
  (and of the outputs grid) of reactor \<open>a\<close>; \<open>x\<close> is the entry the click handler captured.
\<close>

definition drop_line :: "centry \<Rightarrow> ui \<Rightarrow> ui option" where
  "drop_line x u = (case ce_cwc x of Some c \<Rightarrow> destroyCwc c u | None \<Rightarrow> removeLine (ce_line x) u)"

definition deleteInputRow_load :: "nat \<Rightarrow> nat \<Rightarrow> centry \<Rightarrow> ui \<Rightarrow> ui option" where
  "deleteInputRow_load a i x u =
     drop_line x
       (upd_robj (ce_peer x) (\<lambda>r. r\<lparr>ro_outputs := splice_first (\<lambda>e. ce_id e = ce_id x) (ro_outputs r)\<rparr>)
         (upd_robj a (\<lambda>r. r\<lparr>ro_inputs := splice1 i (ro_inputs r)\<rparr>) u))"

definition deleteOutputRow_load :: "nat \<Rightarrow> nat \<Rightarrow> centry \<Rightarrow> ui \<Rightarrow> ui option" where
  "deleteOutputRow_load a i x u =
     drop_line x
       (upd_robj (ce_peer x) (\<lambda>r. r\<lparr>ro_inputs := splice_first (\<lambda>e. ce_id e = ce_id x) (ro_inputs r)\<rparr>)
         (upd_robj a (\<lambda>r. r\<lparr>ro_outputs := splice1 i (ro_outputs r)\<rparr>) u))"

section \<open>Deleting reactors and workspaces\<close>

definition drop_input :: "centry \<Rightarrow> ui \<Rightarrow> ui option" where
  "drop_input x u =
     drop_line x
       (upd_robj (ce_peer x) (\<lambda>r. r\<lparr>ro_outputs := splice_loop (\<lambda>e. ce_id e = ce_id x) (ro_outputs r)\<rparr>) u)"

definition drop_output :: "centry \<Rightarrow> ui \<Rightarrow> ui option" where
  "drop_output x u =
     drop_line x
       (upd_robj (ce_peer x) (\<lambda>r. r\<lparr>ro_inputs := splice_loop (\<lambda>e. ce_id e = ce_id x) (ro_inputs r)\<rparr>) u)"

fun each :: "('a \<Rightarrow> ui \<Rightarrow> ui option) \<Rightarrow> 'a list \<Rightarrow> ui \<Rightarrow> ui option" where
  "each f [] u = Some u"
| "each f (x # xs) u = (case f x u of None \<Rightarrow> None | Some u' \<Rightarrow> each f xs u')"

definition deleteReactorFromUI :: "nat \<Rightarrow> ui \<Rightarrow> ui option" where
  "deleteReactorFromUI a u =
     (let u1 = u\<lparr>reactors_by_id := obj_del (reactors_by_id u) (ro_id (u_robj u a))\<rparr> in
      case each drop_input (ro_inputs (u_robj u1 a)) u1 of
        None \<Rightarrow> None
      | Some u2 \<Rightarrow>
          (case each drop_output (ro_outputs (u_robj u2 a)) u2 of
             None \<Rightarrow> None
           | Some u3 \<Rightarrow>
               Some (upd_wobj (ro_ws (u_robj u3 a))
                      (\<lambda>w. w\<lparr>wo_reactors := splice_loop (\<lambda>b. b = a) (wo_reactors w)\<rparr>) u3)))"

text \<open>
  \<open>deleteWorkspaceFromUI\<close>. Removing the selected tab makes the tab container select its first
  remaining child, which is the first workspace if there is one.
\<close>

definition deleteWorkspaceFromUI :: "nat \<Rightarrow> ui \<Rightarrow> ui option" where
  "deleteWorkspaceFromUI w u =
     (case each deleteReactorFromUI (wo_reactors (u_wobj u w)) u of
        None \<Rightarrow> None
      | Some u1 \<Rightarrow>
          let boxes = filter (\<lambda>b. b \<noteq> w) (workspace_boxes u1);
              u2 = u1\<lparr>workspaces_by_id := obj_del (workspaces_by_id u1) (wo_uuid (u_wobj u1 w)),
                      workspace_boxes := boxes\<rparr>
          in Some (if workspace_box u2 = Some w
                   then (case boxes of [] \<Rightarrow> u2 | b # _ \<Rightarrow> selectChild b u2)
                   else u2))"

end
