(* ===== verification/Pion_Links.thy ===== *)
theory Pion_Links
  imports Pion_Graph
begin

text \<open>
  The connection graph behind the objects of \<open>Pion_Graph\<close>: \<open>links u\<close> are the connections
  between the reactors on the canvas, each with its two ends and the line drawn at each end.
  \<open>graph_inv\<close> says that the two entry lists of every reactor are exactly the ends of the links
  and that exactly the lines of the links are drawn, each in the workspace of its end. The
  lemmas give the effect of each operation on the links.
\<close>

section \<open>Views of the object graph\<close>

abbreviation outs :: "ui \<Rightarrow> nat \<Rightarrow> centry list" where
  "outs u a \<equiv> ro_outputs (u_robj u a)"

abbreviation ins :: "ui \<Rightarrow> nat \<Rightarrow> centry list" where
  "ins u a \<equiv> ro_inputs (u_robj u a)"

abbreviation divs :: "ui \<Rightarrow> nat \<Rightarrow> nat set" where
  "divs u w \<equiv> wo_divs (u_wobj u w)"

abbreviation ws_of :: "ui \<Rightarrow> nat \<Rightarrow> nat" where
  "ws_of u a \<equiv> ro_ws (u_robj u a)"

text \<open>Everything but the entry lists, the drawn lines, the configurations and the requests.\<close>

definition skel where
  "skel u = ((\<lambda>a. (ro_id (u_robj u a), ws_of u a)),
             (\<lambda>w. (wo_uuid (u_wobj u w), wo_title (u_wobj u w), wo_reactors (u_wobj u w))),
             u_cwc u, u_next u, (reactors_by_id u, workspaces_by_id u, connections_by_id u),
             workspace_boxes u, workspace_box u)"

lemma skelD:
  assumes "skel u' = skel u"
  shows "ws_of u' a = ws_of u a" "ro_id (u_robj u' a) = ro_id (u_robj u a)"
    "wo_reactors (u_wobj u' w) = wo_reactors (u_wobj u w)" "wo_uuid (u_wobj u' w) = wo_uuid (u_wobj u w)"
    "wo_title (u_wobj u' w) = wo_title (u_wobj u w)"
    "u_cwc u' = u_cwc u" "u_next u' = u_next u" "reactors_by_id u' = reactors_by_id u"
    "workspaces_by_id u' = workspaces_by_id u" "connections_by_id u' = connections_by_id u"
    "workspace_boxes u' = workspace_boxes u" "workspace_box u' = workspace_box u"
  using assms by (auto simp: skel_def dest: fun_cong)

record link =
  l_id :: string
  l_src :: nat
  l_dst :: nat
  l_out :: nat
  l_in :: nat
  l_cwc :: "nat option"

definition out_entry :: "link \<Rightarrow> centry" where
  "out_entry l = \<lparr>ce_id = l_id l, ce_peer = l_dst l, ce_line = l_out l, ce_cwc = l_cwc l\<rparr>"

definition in_entry :: "link \<Rightarrow> centry" where
  "in_entry l = \<lparr>ce_id = l_id l, ce_peer = l_src l, ce_line = l_in l, ce_cwc = l_cwc l\<rparr>"

lemma entry_simps [simp]:
  "ce_id (out_entry l) = l_id l" "ce_peer (out_entry l) = l_dst l" "ce_line (out_entry l) = l_out l"
  "ce_cwc (out_entry l) = l_cwc l" "ce_id (in_entry l) = l_id l" "ce_peer (in_entry l) = l_src l"
  "ce_line (in_entry l) = l_in l" "ce_cwc (in_entry l) = l_cwc l"
  by (simp_all add: out_entry_def in_entry_def)

definition lists_ok :: "link set \<Rightarrow> nat set \<Rightarrow> nat set \<Rightarrow> ui \<Rightarrow> bool" where
  "lists_ok L S T u \<longleftrightarrow>
     (\<forall>a\<in>S. set (outs u a) = out_entry ` {l \<in> L. l_src l = a} \<and> distinct (map ce_id (outs u a))) \<and>
     (\<forall>a\<in>T. set (ins u a) = in_entry ` {l \<in> L. l_dst l = a} \<and> distinct (map ce_id (ins u a)))"

definition link_ok :: "ui \<Rightarrow> link \<Rightarrow> bool" where
  "link_ok u l \<longleftrightarrow>
     ws_of u (l_src l) \<in> set (workspace_boxes u) \<and> ws_of u (l_dst l) \<in> set (workspace_boxes u) \<and>
     l_out l < u_next u \<and> l_in l < u_next u \<and>
     (case l_cwc l of
        None \<Rightarrow> l_in l = l_out l \<and> ws_of u (l_src l) = ws_of u (l_dst l)
      | Some c \<Rightarrow> ws_of u (l_src l) \<noteq> ws_of u (l_dst l) \<and> l_in l \<noteq> l_out l \<and> c < u_next u \<and>
          cw_source (u_cwc u c) = l_src l \<and> cw_sink (u_cwc u c) = l_dst l \<and> cw_conn (u_cwc u c) = l_id l \<and>
          cw_sink_line (u_cwc u c) = l_out l \<and> cw_source_line (u_cwc u c) = l_in l)"

definition link_lines :: "link \<Rightarrow> nat set" where
  "link_lines l = {l_out l, l_in l}"

definition lines_in :: "link set \<Rightarrow> ui \<Rightarrow> nat \<Rightarrow> nat set" where
  "lines_in L u w = l_out ` {l \<in> L. ws_of u (l_src l) = w} \<union> l_in ` {l \<in> L. ws_of u (l_dst l) = w}"

definition lines_ok :: "link set \<Rightarrow> ui \<Rightarrow> bool" where
  "lines_ok L u \<longleftrightarrow>
     (\<forall>l\<in>L. link_ok u l) \<and>
     (\<forall>l\<in>L. \<forall>l'\<in>L. l \<noteq> l' \<longrightarrow> l_id l \<noteq> l_id l' \<and> link_lines l \<inter> link_lines l' = {}) \<and>
     (\<forall>w\<in>set (workspace_boxes u). divs u w = lines_in L u w)"

lemma link_ok_skel:
  assumes "skel u' = skel u" shows "link_ok u' l = link_ok u l"
  by (simp add: link_ok_def skelD [OF assms] cong: option.case_cong)

lemma lines_in_skel:
  assumes "skel u' = skel u" shows "lines_in L u' w = lines_in L u w"
  by (simp add: lines_in_def skelD [OF assms])

lemma lines_ok_skel:
  assumes "skel u' = skel u" "\<And>w. divs u' w = divs u w"
  shows "lines_ok L u' = lines_ok L u"
  by (simp add: lines_ok_def skelD [OF assms(1)] link_ok_skel [OF assms(1)] lines_in_skel [OF assms(1)] assms(2))

lemma same_id: "lines_ok L u \<Longrightarrow> l \<in> L \<Longrightarrow> l' \<in> L \<Longrightarrow> l_id l = l_id l' \<Longrightarrow> l = l'"
  by (auto simp: lines_ok_def)

section \<open>Array loops on lists without repeated identifiers\<close>

lemma distinct_map_other: "distinct (map f (x # xs)) \<Longrightarrow> \<forall>y\<in>set xs. f y \<noteq> f x"
  by (simp add: image_iff) metis

lemma splice_loop_no_match [simp]: "\<forall>x\<in>set xs. \<not> p x \<Longrightarrow> splice_loop p xs = xs"
  by (induction p xs rule: splice_loop.induct) auto

lemma splice_loop_distinct:
  "distinct (map f xs) \<Longrightarrow> splice_loop (\<lambda>x. f x = k) xs = filter (\<lambda>x. f x \<noteq> k) xs"
proof (induction xs)
  case (Cons x xs)
  show ?case
  proof (cases "f x = k")
    case True
    with distinct_map_other [OF Cons.prems] have "\<forall>y\<in>set xs. f y \<noteq> k" by simp
    then show ?thesis using True by (cases xs) (auto simp: filter_id_conv)
  next
    case False
    then show ?thesis using Cons by simp
  qed
qed simp

lemma splice_first_distinct:
  "distinct (map f xs) \<Longrightarrow> splice_first (\<lambda>x. f x = k) xs = filter (\<lambda>x. f x \<noteq> k) xs"
proof (induction xs)
  case (Cons x xs)
  have "f x = k \<Longrightarrow> \<forall>y\<in>set xs. f y \<noteq> k" using distinct_map_other [OF Cons.prems] by simp
  with Cons show ?case by (auto simp: filter_id_conv)
qed simp

lemma find_index_length [simp]: "find_index p xs < length xs \<longleftrightarrow> (\<exists>x\<in>set xs. p x)"
  by (induction xs) auto

lemma find_index_nth: "x \<in> set xs \<Longrightarrow> p x \<Longrightarrow> p (xs ! find_index p xs)"
  by (induction xs) auto

lemma splice1_find_index: "splice1 (find_index p xs) xs = splice_first p xs"
  by (induction xs) (auto simp: splice1_def)

lemma splice1_nth_distinct:
  "distinct (map f xs) \<Longrightarrow> i < length xs \<Longrightarrow> splice1 i xs = filter (\<lambda>x. f x \<noteq> f (xs ! i)) xs"
proof (induction xs arbitrary: i)
  case (Cons x xs)
  show ?case
  proof (cases i)
    case 0
    have "\<forall>y\<in>set xs. f y \<noteq> f x" using distinct_map_other [OF Cons.prems(1)] .
    then show ?thesis using 0 by (simp add: filter_id_conv)
  next
    case (Suc j)
    then have "xs ! j \<in> set xs" using Cons.prems by simp
    then have "f x \<noteq> f (xs ! j)" using distinct_map_other [OF Cons.prems(1)] by metis
    then show ?thesis using Suc Cons by simp
  qed
qed simp

lemmas splice_distinct = splice_loop_distinct splice_first_distinct

section \<open>Removing the lines of a link\<close>

lemma removeLine_ok:
  assumes "workspace_box u = Some w" "line \<in> divs u w"
  obtains u' where "removeLine line u = Some u'" "skel u' = skel u"
    "\<And>v. divs u' v = (if v = w then divs u w - {line} else divs u v)"
    "\<And>a. outs u' a = outs u a" "\<And>a. ins u' a = ins u a"
proof
  show "removeLine line u = Some (upd_wobj w (\<lambda>x. x\<lparr>wo_divs := wo_divs x - {line}\<rparr>) u)"
    using assms by (simp add: removeLine_def)
qed (auto simp: skel_def upd_wobj_def fun_eq_iff)

lemma destroyProxy_ok:
  assumes "workspace_box u = Some w0" "line \<in> divs u (ws_of u a)"
  obtains u' where "destroyProxy a e line conn u = Some u'" "skel u' = skel u"
    "\<And>v. divs u' v = (if v = ws_of u a then divs u v - {line} else divs u v)"
    "\<And>b. outs u' b = outs u b" "\<And>b. ins u' b = ins u b"
proof -
  define u1 where "u1 = (if obj_has (reactors_by_id u) (ro_id (u_robj u e))
                then updateExternalReactorConfig e
                       (upd_robj e (\<lambda>r. r\<lparr>ro_config :=
                          obj_del (obj_del (ro_config r) (proxy_x_tag conn)) (proxy_y_tag conn)\<rparr>) u)
                else u)"
  have u1: "skel u1 = skel u" "\<And>v. divs u1 v = divs u v" "\<And>b. outs u1 b = outs u b" "\<And>b. ins u1 b = ins u b"
    by (auto simp: u1_def updateExternalReactorConfig_def upd_robj_def skel_def fun_eq_iff)
  let ?s = "selectChild (ws_of u1 a) u1"
  have line: "line \<in> divs ?s (ws_of u a)" and sel: "workspace_box ?s = Some (ws_of u a)"
    using assms(2) u1(2) skelD(1)[OF u1(1)] by (simp_all add: selectChild_def)
  obtain u2 where u2: "removeLine line ?s = Some u2" "skel u2 = skel ?s"
    "\<And>v. divs u2 v = (if v = ws_of u a then divs ?s (ws_of u a) - {line} else divs ?s v)"
    "\<And>a. outs u2 a = outs ?s a" "\<And>a. ins u2 a = ins ?s a"
    using removeLine_ok [OF sel line] by metis
  show thesis
  proof
    show "destroyProxy a e line conn u = Some (selectChild w0 u2)"
      using u2(1) assms(1) skelD(12)[OF u1(1)] by (simp add: destroyProxy_def u1_def [symmetric] Let_def)
    show "skel (selectChild w0 u2) = skel u"
      using u2(2) u1(1) assms(1) by (simp add: skel_def selectChild_def fun_eq_iff)
  qed (use u2 u1 in \<open>auto simp: selectChild_def\<close>)
qed

lemma lines_elsewhere:
  assumes ok: "lines_ok L u" "l \<in> L" and w: "w \<in> set (workspace_boxes u)" "w \<noteq> ws_of u (l_src l)" "w \<noteq> ws_of u (l_dst l)"
  shows "l_out l \<notin> divs u w" "l_in l \<notin> divs u w"
proof -
  have "divs u w = lines_in L u w" and dis: "\<And>l'. l' \<in> L \<Longrightarrow> l \<noteq> l' \<Longrightarrow> link_lines l \<inter> link_lines l' = {}"
    using ok w by (auto simp: lines_ok_def)
  then show "l_out l \<notin> divs u w" "l_in l \<notin> divs u w"
    using w(2,3) by (fastforce simp: lines_in_def link_lines_def)+
qed

lemma drop_line_ok:
  assumes ok: "lines_ok L u" and l: "l \<in> L" and x: "x = in_entry l \<or> x = out_entry l"
    and sel: "workspace_box u = Some w0" "l_cwc l = None \<Longrightarrow> w0 = ws_of u (l_src l)"
  obtains u' where "drop_line x u = Some u'" "skel u' = skel u"
    "\<And>w. w \<in> set (workspace_boxes u) \<Longrightarrow> divs u' w = divs u w - link_lines l"
    "\<And>a. outs u' a = outs u a" "\<And>a. ins u' a = ins u a"
proof -
  have lk: "link_ok u l" and div: "\<And>w. w \<in> set (workspace_boxes u) \<Longrightarrow> divs u w = lines_in L u w"
    and dis: "\<And>l'. l' \<in> L \<Longrightarrow> l \<noteq> l' \<Longrightarrow> link_lines l \<inter> link_lines l' = {}"
    using ok l by (auto simp: lines_ok_def)
  have out: "l_out l \<in> divs u (ws_of u (l_src l))" and inn: "l_in l \<in> divs u (ws_of u (l_dst l))"
    using lk l div by (auto simp: lines_in_def link_ok_def)
  have other: "l_out l \<notin> divs u w" "l_in l \<notin> divs u w"
    if "w \<in> set (workspace_boxes u)" "w \<noteq> ws_of u (l_src l)" "w \<noteq> ws_of u (l_dst l)" for w
    using lines_elsewhere [OF ok l that] by simp_all
  show thesis
  proof (cases "l_cwc l")
    case None
    have ln: "ce_line x = l_out l" "ce_cwc x = None" "ws_of u (l_src l) = ws_of u (l_dst l)" "l_in l = l_out l"
      using None x lk by (auto simp: link_ok_def)
    have w0: "workspace_box u = Some (ws_of u (l_src l))" using sel None by simp
    obtain u' where u': "removeLine (l_out l) u = Some u'" "skel u' = skel u"
      "\<And>v. divs u' v = (if v = ws_of u (l_src l) then divs u (ws_of u (l_src l)) - {l_out l} else divs u v)"
      "\<And>a. outs u' a = outs u a" "\<And>a. ins u' a = ins u a"
      using removeLine_ok [OF w0 out] by metis
    show thesis
      by (rule that [of u']) (use u' ln other in \<open>auto simp: drop_line_def link_lines_def\<close>)
  next
    case (Some c)
    have cw: "cw_source (u_cwc u c) = l_src l" "cw_sink (u_cwc u c) = l_dst l" "cw_conn (u_cwc u c) = l_id l"
      "cw_sink_line (u_cwc u c) = l_out l" "cw_source_line (u_cwc u c) = l_in l"
      "l_in l \<noteq> l_out l" "ws_of u (l_src l) \<noteq> ws_of u (l_dst l)"
      "ws_of u (l_src l) \<in> set (workspace_boxes u)" "ws_of u (l_dst l) \<in> set (workspace_boxes u)"
      using Some lk by (auto simp: link_ok_def)
    obtain u1 where u1: "destroyProxy (l_src l) (l_dst l) (l_out l) (l_id l) u = Some u1" "skel u1 = skel u"
      "\<And>v. divs u1 v = (if v = ws_of u (l_src l) then divs u v - {l_out l} else divs u v)"
      "\<And>a. outs u1 a = outs u a" "\<And>a. ins u1 a = ins u a"
      using destroyProxy_ok [OF sel(1) out] by metis
    have sel1: "workspace_box u1 = Some w0" and inn1: "l_in l \<in> divs u1 (ws_of u1 (l_dst l))"
      using sel(1) inn cw(7) by (auto simp: skelD [OF u1(2)] u1(3))
    obtain u2 where u2: "destroyProxy (l_dst l) (l_src l) (l_in l) (l_id l) u1 = Some u2" "skel u2 = skel u1"
      "\<And>v. divs u2 v = (if v = ws_of u1 (l_dst l) then divs u1 v - {l_in l} else divs u1 v)"
      "\<And>a. outs u2 a = outs u1 a" "\<And>a. ins u2 a = ins u1 a"
      using destroyProxy_ok [OF sel1 inn1] by metis
    have o1: "l_out l \<notin> divs u (ws_of u (l_dst l))" "l_in l \<notin> divs u (ws_of u (l_src l))"
      using dis cw(6,7) div [OF cw(8)] div [OF cw(9)]
      by (auto simp: lines_in_def link_lines_def) (metis (no_types, lifting) disjoint_iff insertCI)+
    have D: "divs u2 w = divs u w - link_lines l" if "w \<in> set (workspace_boxes u)" for w
      using u1(3) u2(3) o1 other [OF that] cw(7) skelD(1)[OF u1(2)] by (auto simp: link_lines_def)
    have E: "drop_line x u = Some u2"
      using u1(1) u2(1) x Some cw by (auto simp: drop_line_def destroyCwc_def Let_def)
    show thesis
      by (rule that [OF E _ D]) (use u1 u2 in auto)
  qed
qed

lemma lines_ok_drop:
  assumes ok: "lines_ok L u" and l: "l \<in> L" and sk: "skel u' = skel u"
    and d: "\<And>w. w \<in> set (workspace_boxes u) \<Longrightarrow> divs u' w = divs u w - link_lines l"
  shows "lines_ok (L - {l}) u'"
proof -
  have dis: "\<And>l'. l' \<in> L \<Longrightarrow> l' \<noteq> l \<Longrightarrow> link_lines l' \<inter> link_lines l = {}"
    using ok l by (auto simp: lines_ok_def)
  have "lines_in L u w - link_lines l = lines_in (L - {l}) u w" for w
    using dis by (fastforce simp: lines_in_def link_lines_def)
  with ok d show ?thesis
    by (simp add: lines_ok_def link_ok_skel [OF sk] lines_in_skel [OF sk] skelD [OF sk])
qed

section \<open>Removing the entries of a link\<close>

lemma entries_drop:
  assumes "\<And>l'. l' \<in> L \<Longrightarrow> l_id l' = l_id l \<Longrightarrow> l' = l"
  shows "set xs = out_entry ` {l' \<in> L. P l'} \<Longrightarrow>
      set (filter (\<lambda>e. ce_id e \<noteq> l_id l) xs) = out_entry ` {l' \<in> L - {l}. P l'}"
    and "set xs = in_entry ` {l' \<in> L. P l'} \<Longrightarrow>
      set (filter (\<lambda>e. ce_id e \<noteq> l_id l) xs) = in_entry ` {l' \<in> L - {l}. P l'}"
  using assms by auto

lemma lists_ok_drop:
  assumes ok: "lines_ok L u" "lists_ok L S T u" and l: "l \<in> L"
    and o': "\<And>a. a \<in> S \<Longrightarrow>
      outs u' a = (if a = l_src l then filter (\<lambda>e. ce_id e \<noteq> l_id l) (outs u a) else outs u a)"
    and i': "\<And>a. a \<in> T \<Longrightarrow>
      ins u' a = (if a = l_dst l then filter (\<lambda>e. ce_id e \<noteq> l_id l) (ins u a) else ins u a)"
  shows "lists_ok (L - {l}) S T u'"
proof -
  have uniq: "\<And>l'. l' \<in> L \<Longrightarrow> l_id l' = l_id l \<Longrightarrow> l' = l" using same_id [OF ok(1) _ l] by blast
  have "set (outs u' a) = out_entry ` {l' \<in> L - {l}. l_src l' = a} \<and> distinct (map ce_id (outs u' a))"
    if a: "a \<in> S" for a
  proof (cases "a = l_src l")
    case True
    then show ?thesis using ok(2) a o' [OF a] entries_drop(1) [OF uniq, where xs = "outs u a" and P = "\<lambda>l'. l_src l' = a"]
      by (simp add: lists_ok_def distinct_map_filter)
  next
    case False
    then have "{l' \<in> L - {l}. l_src l' = a} = {l' \<in> L. l_src l' = a}" by auto
    then show ?thesis using ok(2) a o' [OF a] False by (simp add: lists_ok_def)
  qed
  moreover have "set (ins u' a) = in_entry ` {l' \<in> L - {l}. l_dst l' = a} \<and> distinct (map ce_id (ins u' a))"
    if a: "a \<in> T" for a
  proof (cases "a = l_dst l")
    case True
    then show ?thesis using ok(2) a i' [OF a] entries_drop(2) [OF uniq, where xs = "ins u a" and P = "\<lambda>l'. l_dst l' = a"]
      by (simp add: lists_ok_def distinct_map_filter)
  next
    case False
    then have "{l' \<in> L - {l}. l_dst l' = a} = {l' \<in> L. l_dst l' = a}" by auto
    then show ?thesis using ok(2) a i' [OF a] False by (simp add: lists_ok_def)
  qed
  ultimately show ?thesis by (simp add: lists_ok_def)
qed

text \<open>Updating an entry list and then dropping the line.\<close>

lemma drop_after_update:
  assumes ok: "lines_ok L u" "lists_ok L S T u" and l: "l \<in> L" and x: "x = in_entry l \<or> x = out_entry l"
    and sel: "workspace_box u = Some w0" "l_cwc l = None \<Longrightarrow> w0 = ws_of u (l_src l)"
    and sk: "skel u1 = skel u" and dv: "\<And>w. divs u1 w = divs u w"
    and o': "\<And>a. a \<in> S \<Longrightarrow>
      outs u1 a = (if a = l_src l then filter (\<lambda>e. ce_id e \<noteq> l_id l) (outs u a) else outs u a)"
    and i': "\<And>a. a \<in> T \<Longrightarrow>
      ins u1 a = (if a = l_dst l then filter (\<lambda>e. ce_id e \<noteq> l_id l) (ins u a) else ins u a)"
  obtains u' where "drop_line x u1 = Some u'" "skel u' = skel u" "lines_ok (L - {l}) u'"
    "lists_ok (L - {l}) S T u'" "\<And>a. outs u' a = outs u1 a" "\<And>a. ins u' a = ins u1 a"
proof -
  have ok1: "lines_ok L u1" using lines_ok_skel [OF sk dv] ok(1) by simp
  have sel1: "workspace_box u1 = Some w0" "l_cwc l = None \<Longrightarrow> w0 = ws_of u1 (l_src l)"
    using sel by (simp_all add: skelD [OF sk])
  obtain u' where u': "drop_line x u1 = Some u'" "skel u' = skel u1"
    "\<And>w. w \<in> set (workspace_boxes u1) \<Longrightarrow> divs u' w = divs u1 w - link_lines l"
    "\<And>a. outs u' a = outs u1 a" "\<And>a. ins u' a = ins u1 a"
    using drop_line_ok [OF ok1 l x sel1] by metis
  show thesis
  proof
    show "lines_ok (L - {l}) u'" by (rule lines_ok_drop [OF ok1 l u'(2,3)])
    show "lists_ok (L - {l}) S T u'"
      by (rule lists_ok_drop [OF ok l]) (simp_all add: u' o' i')
  qed (use u' sk in auto)
qed

lemma drop_input_ok:
  assumes ok: "lines_ok L u" "lists_ok L S T u" and l: "l \<in> L"
    and sel: "workspace_box u = Some w0" "l_cwc l = None \<Longrightarrow> w0 = ws_of u (l_src l)"
    and ends: "l_src l \<in> S" "l_dst l \<notin> T"
  obtains u' where "drop_input (in_entry l) u = Some u'" "skel u' = skel u" "lines_ok (L - {l}) u'"
    "lists_ok (L - {l}) S T u'" "\<And>a. ins u' a = ins u a"
proof -
  define u1 where "u1 = upd_robj (l_src l)
     (\<lambda>r. r\<lparr>ro_outputs := splice_loop (\<lambda>e. ce_id e = l_id l) (ro_outputs r)\<rparr>) u"
  have d: "distinct (map ce_id (outs u (l_src l)))" using ok(2) ends(1) by (auto simp: lists_ok_def)
  obtain u' where "drop_line (in_entry l) u1 = Some u'" "skel u' = skel u" "lines_ok (L - {l}) u'"
    "lists_ok (L - {l}) S T u'" "\<And>a. outs u' a = outs u1 a" "\<And>a. ins u' a = ins u1 a"
    by (rule drop_after_update [OF ok l _ sel, of "in_entry l" u1])
      (use d ends in \<open>auto simp: u1_def upd_robj_def skel_def fun_eq_iff splice_loop_distinct\<close>)
  then show thesis
    by (intro that [of u']) (auto simp: drop_input_def u1_def upd_robj_def)
qed

lemma drop_output_ok:
  assumes ok: "lines_ok L u" "lists_ok L S T u" and l: "l \<in> L"
    and sel: "workspace_box u = Some w0" "l_cwc l = None \<Longrightarrow> w0 = ws_of u (l_src l)"
    and ends: "l_src l \<notin> S" "l_dst l \<in> T"
  obtains u' where "drop_output (out_entry l) u = Some u'" "skel u' = skel u" "lines_ok (L - {l}) u'"
    "lists_ok (L - {l}) S T u'" "\<And>a. outs u' a = outs u a"
proof -
  define u1 where "u1 = upd_robj (l_dst l)
     (\<lambda>r. r\<lparr>ro_inputs := splice_loop (\<lambda>e. ce_id e = l_id l) (ro_inputs r)\<rparr>) u"
  have d: "distinct (map ce_id (ins u (l_dst l)))" using ok(2) ends(2) by (auto simp: lists_ok_def)
  obtain u' where "drop_line (out_entry l) u1 = Some u'" "skel u' = skel u" "lines_ok (L - {l}) u'"
    "lists_ok (L - {l}) S T u'" "\<And>a. outs u' a = outs u1 a" "\<And>a. ins u' a = ins u1 a"
    by (rule drop_after_update [OF ok l _ sel, of "out_entry l" u1])
      (use d ends in \<open>auto simp: u1_def upd_robj_def skel_def fun_eq_iff splice_loop_distinct\<close>)
  then show thesis
    by (intro that [of u']) (auto simp: drop_output_def u1_def upd_robj_def)
qed

section \<open>The invariant\<close>

definition live :: "ui \<Rightarrow> nat list" where
  "live u = concat (map (\<lambda>w. wo_reactors (u_wobj u w)) (workspace_boxes u))"

definition link_of :: "ui \<Rightarrow> nat \<Rightarrow> centry \<Rightarrow> link" where
  "link_of u a x = \<lparr>l_id = ce_id x, l_src = a, l_dst = ce_peer x, l_out = ce_line x,
     l_in = (case ce_cwc x of None \<Rightarrow> ce_line x | Some c \<Rightarrow> cw_source_line (u_cwc u c)), l_cwc = ce_cwc x\<rparr>"

definition links :: "ui \<Rightarrow> link set" where
  "links u = set (concat (map (\<lambda>a. map (link_of u a) (outs u a)) (live u)))"

definition tree_inv :: "ui \<Rightarrow> bool" where
  "tree_inv u \<longleftrightarrow>
     distinct (workspace_boxes u) \<and> distinct (live u) \<and>
     (\<forall>w\<in>set (workspace_boxes u). w < u_next u \<and> (\<forall>a\<in>set (wo_reactors (u_wobj u w)). ws_of u a = w \<and> a < u_next u)) \<and>
     obj_wf (reactors_by_id u) \<and>
     (\<forall>a\<in>set (live u). obj_get (reactors_by_id u) (ro_id (u_robj u a)) = Some a) \<and>
     (\<forall>p\<in>set (reactors_by_id u). snd p \<in> set (live u) \<and> ro_id (u_robj u (snd p)) = fst p) \<and>
     obj_wf (workspaces_by_id u) \<and>
     (\<forall>w\<in>set (workspace_boxes u). obj_get (workspaces_by_id u) (wo_uuid (u_wobj u w)) = Some w) \<and>
     (\<forall>p\<in>set (workspaces_by_id u). snd p \<in> set (workspace_boxes u) \<and> wo_uuid (u_wobj u (snd p)) = fst p)"

definition graph_inv :: "ui \<Rightarrow> bool" where
  "graph_inv u \<longleftrightarrow>
     tree_inv u \<and> lists_ok (links u) (set (live u)) (set (live u)) u \<and> lines_ok (links u) u \<and>
     (\<forall>l\<in>links u. l_dst l \<in> set (live u))"

text \<open>What a user sees of a link: its identifier and the reactors it connects.\<close>

definition wires :: "ui \<Rightarrow> (string \<times> nat \<times> nat) set" where
  "wires u = (\<lambda>l. (l_id l, l_src l, l_dst l)) ` links u"

lemma in_live: "a \<in> set (live u) \<longleftrightarrow> (\<exists>w\<in>set (workspace_boxes u). a \<in> set (wo_reactors (u_wobj u w)))"
  by (auto simp: live_def)

lemma live_ws:
  assumes "tree_inv u" "a \<in> set (live u)"
  shows "ws_of u a \<in> set (workspace_boxes u)" "a \<in> set (wo_reactors (u_wobj u (ws_of u a)))" "a < u_next u"
  using assms by (auto simp: in_live tree_inv_def)

lemma links_src: "l \<in> links u \<Longrightarrow> l_src l \<in> set (live u)"
  by (auto simp: links_def link_of_def)

lemma links_eq:
  assumes lists: "lists_ok L (set (live u)) T u" and lines: "lines_ok L u"
    and src: "\<And>l. l \<in> L \<Longrightarrow> l_src l \<in> set (live u)"
  shows "links u = L"
proof -
  have id: "link_of u (l_src l) (out_entry l) = l" if "l \<in> L" for l
    using lines that by (auto simp: lines_ok_def link_ok_def link_of_def split: option.splits)
  have "links u = (\<Union>a\<in>set (live u). link_of u a ` set (outs u a))" by (simp add: links_def)
  also have "\<dots> = (\<Union>a\<in>set (live u). link_of u a ` out_entry ` {l \<in> L. l_src l = a})"
    using lists by (simp add: lists_ok_def)
  also have "\<dots> = L"
  proof (intro set_eqI iffI)
    fix l assume "l \<in> (\<Union>a\<in>set (live u). link_of u a ` out_entry ` {l \<in> L. l_src l = a})"
    then show "l \<in> L" using id by fastforce
  next
    fix l assume "l \<in> L"
    then show "l \<in> (\<Union>a\<in>set (live u). link_of u a ` out_entry ` {l \<in> L. l_src l = a})"
      using id [of l] src [of l] by force
  qed
  finally show ?thesis .
qed

lemma graph_invI:
  assumes "tree_inv u" "lists_ok L (set (live u)) (set (live u)) u" "lines_ok L u"
    and "\<And>l. l \<in> L \<Longrightarrow> l_src l \<in> set (live u) \<and> l_dst l \<in> set (live u)"
  shows "graph_inv u" "links u = L"
  using assms links_eq [of L u "set (live u)"] by (auto simp: graph_inv_def)

lemma lists_ok_mono: "lists_ok L S T u \<Longrightarrow> S' \<subseteq> S \<Longrightarrow> T' \<subseteq> T \<Longrightarrow> lists_ok L S' T' u"
  by (auto simp: lists_ok_def)

text \<open>An entry list as the list of the links it stands for.\<close>

lemma image_list:
  assumes "set xs = f ` A" "distinct xs" "inj_on f A"
  obtains ys where "xs = map f ys" "set ys = A" "distinct ys"
proof
  let ?g = "inv_into A f"
  show "xs = map f (map ?g xs)"
    using assms(1) by (intro nth_equalityI) (simp_all add: f_inv_into_f flip: assms(1))
  show "set (map ?g xs) = A" using assms(1,3) by simp
  show "distinct (map ?g xs)"
    using assms(1,2) by (simp add: distinct_map inj_on_inv_into)
qed

section \<open>Deleting a reactor\<close>

lemma each_drop_input:
  assumes "lines_ok L u" "lists_ok L S T u" "workspace_box u = Some w0" "set ls \<subseteq> L" "distinct ls"
    and "\<And>l. l \<in> set ls \<Longrightarrow> l_src l \<in> S \<and> l_dst l \<notin> T \<and> (l_cwc l = None \<longrightarrow> w0 = ws_of u (l_src l))"
  shows "\<exists>u'. each drop_input (map in_entry ls) u = Some u' \<and> skel u' = skel u \<and>
     lines_ok (L - set ls) u' \<and> lists_ok (L - set ls) S T u'"
  using assms
proof (induction ls arbitrary: u L)
  case (Cons l ls)
  have l: "l \<in> L" and sel: "l_cwc l = None \<Longrightarrow> w0 = ws_of u (l_src l)"
    and ends: "l_src l \<in> S" "l_dst l \<notin> T"
    using Cons.prems(4,6) by auto
  obtain u1 where u1: "drop_input (in_entry l) u = Some u1" "skel u1 = skel u" "lines_ok (L - {l}) u1"
    "lists_ok (L - {l}) S T u1"
    by (rule drop_input_ok [OF Cons.prems(1,2) l Cons.prems(3) sel ends])
  have "\<exists>u'. each drop_input (map in_entry ls) u1 = Some u' \<and> skel u' = skel u1 \<and>
     lines_ok (L - {l} - set ls) u' \<and> lists_ok (L - {l} - set ls) S T u'"
    using Cons.prems(3-6) by (intro Cons.IH u1) (auto simp: skelD [OF u1(2)])
  with u1 show ?case by (auto simp: Diff_insert2 [symmetric] Diff_insert [symmetric])
qed simp

lemma each_drop_output:
  assumes "lines_ok L u" "lists_ok L S T u" "workspace_box u = Some w0" "set ls \<subseteq> L" "distinct ls"
    and "\<And>l. l \<in> set ls \<Longrightarrow> l_src l \<notin> S \<and> l_dst l \<in> T \<and> (l_cwc l = None \<longrightarrow> w0 = ws_of u (l_src l))"
  shows "\<exists>u'. each drop_output (map out_entry ls) u = Some u' \<and> skel u' = skel u \<and>
     lines_ok (L - set ls) u' \<and> lists_ok (L - set ls) S T u'"
  using assms
proof (induction ls arbitrary: u L)
  case (Cons l ls)
  have l: "l \<in> L" and sel: "l_cwc l = None \<Longrightarrow> w0 = ws_of u (l_src l)"
    and ends: "l_src l \<notin> S" "l_dst l \<in> T"
    using Cons.prems(4,6) by auto
  obtain u1 where u1: "drop_output (out_entry l) u = Some u1" "skel u1 = skel u" "lines_ok (L - {l}) u1"
    "lists_ok (L - {l}) S T u1"
    by (rule drop_output_ok [OF Cons.prems(1,2) l Cons.prems(3) sel ends])
  have "\<exists>u'. each drop_output (map out_entry ls) u1 = Some u' \<and> skel u' = skel u1 \<and>
     lines_ok (L - {l} - set ls) u' \<and> lists_ok (L - {l} - set ls) S T u'"
    using Cons.prems(3-6) by (intro Cons.IH u1) (auto simp: skelD [OF u1(2)])
  with u1 show ?case by (auto simp: Diff_insert2 [symmetric] Diff_insert [symmetric])
qed simp

lemma entry_list:
  assumes "lines_ok L u" "lists_ok L S T u"
  shows "a \<in> S \<Longrightarrow> \<exists>ls. outs u a = map out_entry ls \<and> set ls = {l \<in> L. l_src l = a} \<and> distinct ls"
    "a \<in> T \<Longrightarrow> \<exists>ls. ins u a = map in_entry ls \<and> set ls = {l \<in> L. l_dst l = a} \<and> distinct ls"
proof -
  have inj: "inj_on out_entry {l \<in> L. P l}" "inj_on in_entry {l \<in> L. P l}" for P
    using same_id [OF assms(1)] by (auto intro!: inj_onI dest: arg_cong [where f = ce_id])
  {
    assume "a \<in> S"
    then have *: "set (outs u a) = out_entry ` {l \<in> L. l_src l = a}" "distinct (outs u a)"
      using assms(2) by (auto simp: lists_ok_def distinct_map)
    show "\<exists>ls. outs u a = map out_entry ls \<and> set ls = {l \<in> L. l_src l = a} \<and> distinct ls"
      by (rule image_list [OF * inj(1)]) blast
  next
    assume "a \<in> T"
    then have *: "set (ins u a) = in_entry ` {l \<in> L. l_dst l = a}" "distinct (ins u a)"
      using assms(2) by (auto simp: lists_ok_def distinct_map)
    show "\<exists>ls. ins u a = map in_entry ls \<and> set ls = {l \<in> L. l_dst l = a} \<and> distinct ls"
      by (rule image_list [OF * inj(2)]) blast
  }
qed

definition touching :: "nat \<Rightarrow> link set \<Rightarrow> link set" where
  "touching a L = {l \<in> L. l_src l = a \<or> l_dst l = a}"

text \<open>What \<open>deleteReactorFromUI\<close> does to the connections, before the reactor leaves its workspace.\<close>

lemma drop_all_ok:
  assumes lists: "lists_ok L R R u" and lines: "lines_ok L u"
    and ends: "\<And>l. l \<in> L \<Longrightarrow> l_src l \<in> R \<and> l_dst l \<in> R"
    and a: "a \<in> R" and sel: "workspace_box u = Some (ws_of u a)"
  obtains u2 u3 where "each drop_input (ins u a) u = Some u2" "each drop_output (outs u2 a) u2 = Some u3"
    "skel u3 = skel u" "lines_ok (L - touching a L) u3"
    "lists_ok (L - touching a L) (R - {a}) (R - {a}) u3"
proof -
  have same: "l_cwc l = None \<Longrightarrow> ws_of u a = ws_of u (l_src l)" if "l \<in> touching a L" for l
    using that lines by (auto simp: touching_def lines_ok_def link_ok_def)
  obtain ls where ls: "ins u a = map in_entry ls" "set ls = {l \<in> L. l_dst l = a}" "distinct ls"
    using entry_list(2) [OF lines lists a] by blast
  have "\<exists>u2. each drop_input (map in_entry ls) u = Some u2 \<and> skel u2 = skel u \<and>
     lines_ok (L - set ls) u2 \<and> lists_ok (L - set ls) R (R - {a}) u2"
    by (rule each_drop_input [OF lines lists_ok_mono [OF lists] sel])
      (use ls same ends in \<open>auto simp: touching_def\<close>)
  then obtain u2 where u2: "each drop_input (ins u a) u = Some u2" "skel u2 = skel u"
     "lines_ok (L - set ls) u2" "lists_ok (L - set ls) R (R - {a}) u2" using ls(1) by auto
  obtain ms where ms: "outs u2 a = map out_entry ms" "set ms = {l \<in> L - set ls. l_src l = a}" "distinct ms"
    using entry_list(1) [OF u2(3,4) a] by blast
  have sel2: "workspace_box u2 = Some (ws_of u a)" using sel by (simp add: skelD [OF u2(2)])
  have "\<exists>u3. each drop_output (map out_entry ms) u2 = Some u3 \<and> skel u3 = skel u2 \<and>
     lines_ok (L - set ls - set ms) u3 \<and> lists_ok (L - set ls - set ms) (R - {a}) (R - {a}) u3"
    by (rule each_drop_output [OF u2(3) lists_ok_mono [OF u2(4)] sel2])
      (use ls ms same ends in \<open>auto simp: touching_def skelD [OF u2(2)]\<close>)
  moreover have "L - set ls - set ms = L - touching a L" using ls(2) ms(2) by (auto simp: touching_def)
  ultimately show thesis using that u2 ms(1) by auto
qed

lemma in_obj_del: "p \<in> set (obj_del d k) \<longleftrightarrow> p \<in> set d \<and> fst p \<noteq> k"
  by (auto simp: obj_del_def)

lemma splice_loop_distinct_id: "distinct xs \<Longrightarrow> splice_loop (\<lambda>b. b = a) xs = filter (\<lambda>b. b \<noteq> a) xs"
  using splice_loop_distinct [of id xs a] by simp

lemma lines_ok_wobj:
  assumes "lines_ok L u" "\<And>w. divs u' w = divs u w" "\<And>a. ws_of u' a = ws_of u a" "u_cwc u' = u_cwc u"
    "u_next u' = u_next u" "workspace_boxes u' = workspace_boxes u"
  shows "lines_ok L u'"
  using assms(1) by (simp add: lines_ok_def link_ok_def lines_in_def assms(2-6) cong: option.case_cong)

lemma deleteReactorFromUI_ok:
  assumes inv: "graph_inv u" and a: "a \<in> set (live u)" and sel: "workspace_box u = Some (ws_of u a)"
  obtains u' where "deleteReactorFromUI a u = Some u'" "graph_inv u'"
    "links u' = links u - touching a (links u)" "live u' = filter (\<lambda>b. b \<noteq> a) (live u)"
    "workspace_box u' = workspace_box u" "workspace_boxes u' = workspace_boxes u"
    "\<And>b. ws_of u' b = ws_of u b" "workspaces_by_id u' = workspaces_by_id u" "\<And>w. wo_uuid (u_wobj u' w) = wo_uuid (u_wobj u w)"
    "wo_reactors (u_wobj u' (ws_of u a)) = filter (\<lambda>b. b \<noteq> a) (wo_reactors (u_wobj u (ws_of u a)))"
proof -
  let ?R = "set (live u)" and ?L = "links u" and ?w = "ws_of u a"
  define u1 where "u1 = u\<lparr>reactors_by_id := obj_del (reactors_by_id u) (ro_id (u_robj u a))\<rparr>"
  have tree: "tree_inv u" using inv by (simp add: graph_inv_def)
  note ws = live_ws [OF tree]
  have lists1: "lists_ok ?L ?R ?R u1" using inv by (simp add: graph_inv_def lists_ok_def u1_def)
  have lines1: "lines_ok ?L u1"
    by (rule lines_ok_wobj [of _ u]) (use inv in \<open>simp_all add: graph_inv_def u1_def\<close>)
  have ends: "l_src l \<in> ?R \<and> l_dst l \<in> ?R" if "l \<in> ?L" for l
    using that inv links_src by (auto simp: graph_inv_def)
  have sel1: "workspace_box u1 = Some (ws_of u1 a)" using sel by (simp add: u1_def)
  obtain u2 u3 where u3: "each drop_input (ins u1 a) u1 = Some u2" "each drop_output (outs u2 a) u2 = Some u3"
    "skel u3 = skel u1" "lines_ok (?L - touching a ?L) u3"
    "lists_ok (?L - touching a ?L) (?R - {a}) (?R - {a}) u3"
    using drop_all_ok [OF lists1 lines1 ends a sel1] by blast
  define u' where "u' = upd_wobj (ws_of u3 a) (\<lambda>w. w\<lparr>wo_reactors := splice_loop (\<lambda>b. b = a) (wo_reactors w)\<rparr>) u3"
  have del: "deleteReactorFromUI a u = Some u'"
    using u3(1,2) by (simp add: deleteReactorFromUI_def u1_def [symmetric] u'_def)
  have dw: "distinct (wo_reactors (u_wobj u w))" if "w \<in> set (workspace_boxes u)" for w
    using tree that by (auto simp: tree_inv_def live_def distinct_concat_iff)
  have r': "wo_reactors (u_wobj u' w) = filter (\<lambda>b. b \<noteq> a) (wo_reactors (u_wobj u w))"
    if w: "w \<in> set (workspace_boxes u)" for w
  proof (cases "w = ?w")
    case True
    then show ?thesis using dw [OF w]
      by (simp add: u'_def upd_wobj_def skelD [OF u3(3)]) (simp add: u1_def splice_loop_distinct_id)
  next
    case False
    then have "a \<notin> set (wo_reactors (u_wobj u w))" using tree w by (auto simp: tree_inv_def)
    then have "filter (\<lambda>b. b \<noteq> a) (wo_reactors (u_wobj u w)) = wo_reactors (u_wobj u w)"
      by (auto simp: filter_id_conv)
    then show ?thesis using False
      by (simp add: u'_def upd_wobj_def skelD [OF u3(3)]) (simp add: u1_def)
  qed
  have boxes: "workspace_boxes u' = workspace_boxes u" "workspace_box u' = workspace_box u"
    and id: "\<And>b. ws_of u' b = ws_of u b" "\<And>b. ro_id (u_robj u' b) = ro_id (u_robj u b)"
    and rest: "u_next u' = u_next u" "reactors_by_id u' = obj_del (reactors_by_id u) (ro_id (u_robj u a))"
      "workspaces_by_id u' = workspaces_by_id u" "\<And>w. wo_uuid (u_wobj u' w) = wo_uuid (u_wobj u w)"
    by (simp_all add: u'_def upd_wobj_def skelD [OF u3(3)]) (simp_all add: u1_def)
  have live': "live u' = filter (\<lambda>b. b \<noteq> a) (live u)"
    by (simp add: live_def boxes filter_concat comp_def r' cong: map_cong)
  have byid: "ro_id (u_robj u b) \<noteq> ro_id (u_robj u a)" if "b \<in> ?R" "b \<noteq> a" for b
    using tree that a unfolding tree_inv_def by (metis option.inject)
  have idx: "ro_id (u_robj u b) = k" if "(k, b) \<in> set (reactors_by_id u)" for k b
    using tree that by (auto simp: tree_inv_def)
  have tree': "tree_inv u'"
    using tree byid a unfolding tree_inv_def boxes rest id live'
    by (auto simp: r' obj_get_del obj_wf_del in_obj_del dest: idx)
  have lists': "lists_ok (?L - touching a ?L) (set (live u')) (set (live u')) u'"
  proof -
    have "set (live u') = ?R - {a}" by (auto simp: live')
    moreover have "outs u' b = outs u3 b" "ins u' b = ins u3 b" for b by (simp_all add: u'_def upd_wobj_def)
    ultimately show ?thesis using u3(5) by (simp add: lists_ok_def)
  qed
  have lines': "lines_ok (?L - touching a ?L) u'"
    by (rule lines_ok_wobj [OF u3(4)]) (simp_all add: u'_def upd_wobj_def)
  have ends': "l_src l \<in> set (live u') \<and> l_dst l \<in> set (live u')" if "l \<in> ?L - touching a ?L" for l
    using that ends by (auto simp: live' touching_def)
  note g = graph_invI [OF tree' lists' lines' ends']
  show thesis
    using that [OF del g live' boxes(2,1) id(1) rest(3,4)] r' [OF ws(1) [OF a]] by simp
qed

end
