(* ===== verification/Pion_Connect.thy ===== *)
theory Pion_Connect
  imports Pion_Links "HOL-Library.Multiset"
begin

text \<open>
  Making and deleting connections and deleting workspaces: the effect of each operation of
  \<open>Pion_Graph\<close> on the links, and the properties of the canvas.
\<close>

section \<open>Adding a link\<close>

lemma add_link_ok:
  assumes inv: "graph_inv u" and s: "l_src l \<in> set (live u)" and e: "l_dst l \<in> set (live u)"
    and new: "l_id l \<notin> l_id ` links u"
    and same: "\<And>a. ws_of u' a = ws_of u a" "\<And>a. ro_id (u_robj u' a) = ro_id (u_robj u a)"
      "\<And>w. wo_reactors (u_wobj u' w) = wo_reactors (u_wobj u w)"
      "workspace_boxes u' = workspace_boxes u" "reactors_by_id u' = reactors_by_id u"
      "workspaces_by_id u' = workspaces_by_id u" "\<And>w. wo_uuid (u_wobj u' w) = wo_uuid (u_wobj u w)"
    and nxt: "u_next u \<le> u_next u'" "u_next u \<le> l_out l" "u_next u \<le> l_in l"
    and cw: "\<And>c. c < u_next u \<Longrightarrow> u_cwc u' c = u_cwc u c"
    and o': "\<And>a. outs u' a = (if a = l_src l then outs u a @ [out_entry l] else outs u a)"
    and i': "\<And>a. ins u' a = (if a = l_dst l then ins u a @ [in_entry l] else ins u a)"
    and ok: "link_ok u' l"
    and d: "\<And>w. w \<in> set (workspace_boxes u) \<Longrightarrow> divs u' w =
      divs u w \<union> (if ws_of u (l_src l) = w then {l_out l} else {}) \<union> (if ws_of u (l_dst l) = w then {l_in l} else {})"
  shows "graph_inv u' \<and> links u' = insert l (links u) \<and> live u' = live u"
proof -
  let ?L = "links u" and ?R = "set (live u)"
  have tree: "tree_inv u" and lists: "lists_ok ?L ?R ?R u" and lines: "lines_ok ?L u"
    and dst: "\<And>l. l \<in> ?L \<Longrightarrow> l_dst l \<in> ?R" using inv by (auto simp: graph_inv_def)
  have live': "live u' = live u" by (simp add: live_def same)
  have tree': "tree_inv u'" using tree nxt(1) by (fastforce simp: tree_inv_def same live')
  have old: "link_ok u' k" "link_lines k \<inter> link_lines l = {}" "l_id k \<noteq> l_id l" if k: "k \<in> ?L" for k
  proof -
    have "link_ok u k" using lines k by (simp add: lines_ok_def)
    then show "link_ok u' k" using nxt(1) cw by (auto simp: link_ok_def same split: option.splits)
    show "link_lines k \<inter> link_lines l = {}" using \<open>link_ok u k\<close> nxt(2,3)
      by (auto simp: link_ok_def link_lines_def)
    show "l_id k \<noteq> l_id l" using new k by (metis imageI)
  qed
  have "lines_in (insert l ?L) u' w = lines_in ?L u w \<union> (if ws_of u (l_src l) = w then {l_out l} else {})
      \<union> (if ws_of u (l_dst l) = w then {l_in l} else {})" for w
    by (auto simp: lines_in_def same)
  then have lines': "lines_ok (insert l ?L) u'"
    using lines old ok d by (simp add: lines_ok_def same) (metis inf_commute)
  have "set (outs u' a) = out_entry ` {k \<in> insert l ?L. l_src k = a} \<and> distinct (map ce_id (outs u' a))"
    and "set (ins u' a) = in_entry ` {k \<in> insert l ?L. l_dst k = a} \<and> distinct (map ce_id (ins u' a))"
    if a: "a \<in> ?R" for a
  proof -
    have o: "set (outs u a) = out_entry ` {k \<in> ?L. l_src k = a}" "distinct (map ce_id (outs u a))"
      and i: "set (ins u a) = in_entry ` {k \<in> ?L. l_dst k = a}" "distinct (map ce_id (ins u a))"
      using lists a by (auto simp: lists_ok_def)
    have "l_id l \<notin> ce_id ` set (outs u a)" "l_id l \<notin> ce_id ` set (ins u a)"
      unfolding o(1) i(1) using new by auto
    moreover have "{k. (k = l \<or> k \<in> ?L) \<and> l_src k = a} =
        (if a = l_src l then insert l {k \<in> ?L. l_src k = a} else {k \<in> ?L. l_src k = a})"
      "{k. (k = l \<or> k \<in> ?L) \<and> l_dst k = a} =
        (if a = l_dst l then insert l {k \<in> ?L. l_dst k = a} else {k \<in> ?L. l_dst k = a})"
      by auto
    ultimately show "set (outs u' a) = out_entry ` {k \<in> insert l ?L. l_src k = a} \<and> distinct (map ce_id (outs u' a))"
      "set (ins u' a) = in_entry ` {k \<in> insert l ?L. l_dst k = a} \<and> distinct (map ce_id (ins u' a))"
      using o i by (auto simp: o' i')
  qed
  then have lists': "lists_ok (insert l ?L) (set (live u')) (set (live u')) u'"
    by (simp add: lists_ok_def live')
  have "l_src k \<in> set (live u') \<and> l_dst k \<in> set (live u')" if "k \<in> insert l ?L" for k
    using that s e dst links_src by (auto simp: live')
  from graph_invI [OF tree' lists' lines' this] live' show ?thesis by blast
qed

section \<open>Making a connection\<close>

lemma initCoords_frame:
  assumes "initCoords e c p u = (q, u')"
  shows "skel u' = skel u" "\<And>w. divs u' w = divs u w" "\<And>a. outs u' a = outs u a" "\<And>a. ins u' a = ins u a"
  using assms
  by (auto simp: initCoords_def updateExternalReactorConfig_def upd_robj_def skel_def fun_eq_iff split: if_splits)

lemma newCrossWorkspaceConnection_ok:
  assumes w0: "workspace_box u = Some w0"
  obtains u' p1 p2 where "newCrossWorkspaceConnection s e conn u = Some (u_next u, u')"
    "u_next u' = u_next u + 3"
    "u_cwc u' = (u_cwc u)(u_next u := \<lparr>cw_source = s, cw_sink = e, cw_conn = conn, cw_sink_line = Suc (u_next u),
       cw_source_line = Suc (Suc (u_next u)), cw_sink_pos = p1, cw_source_pos = p2\<rparr>)"
    "\<And>a. outs u' a = outs u a" "\<And>a. ins u' a = ins u a" "\<And>a. ws_of u' a = ws_of u a"
    "\<And>a. ro_id (u_robj u' a) = ro_id (u_robj u a)"
    "\<And>w. wo_reactors (u_wobj u' w) = wo_reactors (u_wobj u w)"
    "workspace_boxes u' = workspace_boxes u" "workspace_box u' = workspace_box u"
    "reactors_by_id u' = reactors_by_id u" "workspaces_by_id u' = workspaces_by_id u"
    "connections_by_id u' = connections_by_id u" "\<And>w. wo_uuid (u_wobj u' w) = wo_uuid (u_wobj u w)"
    "\<And>w. divs u' w = divs u w \<union> (if ws_of u s = w then {Suc (u_next u)} else {})
       \<union> (if ws_of u e = w then {Suc (Suc (u_next u))} else {})"
proof -
  define u1 where "u1 = selectChild (ws_of u s) (u\<lparr>u_next := Suc (Suc (Suc (u_next u)))\<rparr>)"
  obtain p1 u2 where i1: "initCoords e conn (sink_computeInitialCoords (sink_positions s u1)
       (config_coord (u_robj u1 s) ''X'') (config_coord (u_robj u1 s) ''Y'')) u1 = (p1, u2)"
    by (metis surj_pair)
  define u3 where "u3 = selectChild (ws_of u e) (add_div (ws_of u s) (Suc (u_next u)) u2)"
  obtain p2 u4 where i2: "initCoords s conn (source_computeInitialCoords (source_positions e u3)
       (config_coord (u_robj u3 e) ''X'') (config_coord (u_robj u3 e) ''Y'')) u3 = (p2, u4)"
    by (metis surj_pair)
  define u5 where "u5 = selectChild w0 (add_div (ws_of u e) (Suc (Suc (u_next u))) u4)"
  note f1 = initCoords_frame [OF i1] and f2 = initCoords_frame [OF i2]
  note sk1 = skelD [OF f1(1)] and sk2 = skelD [OF f2(1)]
  note defs = u1_def u3_def u5_def selectChild_def add_div_def upd_wobj_def
  have new: "newCrossWorkspaceConnection s e conn u = Some (u_next u,
      u5\<lparr>u_cwc := (u_cwc u5)(u_next u := \<lparr>cw_source = s, cw_sink = e, cw_conn = conn,
        cw_sink_line = Suc (u_next u), cw_source_line = Suc (Suc (u_next u)), cw_sink_pos = p1, cw_source_pos = p2\<rparr>)\<rparr>)"
    using w0 i1 i2 by (simp add: newCrossWorkspaceConnection_def Let_def u1_def u3_def u5_def)
  show thesis
    by (rule that [OF new])
      (simp_all add: u5_def selectChild_def add_div_def upd_wobj_def sk2 f2,
       simp_all add: u3_def selectChild_def add_div_def upd_wobj_def sk1 f1,
       auto simp: u1_def selectChild_def w0)
qed

lemma createConnection_ok:
  assumes inv: "graph_inv u" and s: "s \<in> set (live u)" and e: "e \<in> set (live u)"
    and new: "conn \<notin> l_id ` links u"
    and sel: "workspace_box u = Some w0" "ws_of u s = ws_of u e \<Longrightarrow> w0 = ws_of u s"
  obtains u' l where "createConnection s e conn u = Some u'" "graph_inv u'"
    "links u' = insert l (links u)" "l_id l = conn" "l_src l = s" "l_dst l = e" "live u' = live u"
    "workspace_box u' = workspace_box u" "obj_get (connections_by_id u') conn = Some (s, e)"
    "workspace_boxes u' = workspace_boxes u" "\<forall>a. ws_of u' a = ws_of u a"
proof -
  define u1 where "u1 = u\<lparr>connections_by_id := obj_put (connections_by_id u) conn (s, e)\<rparr>"
  have tree: "tree_inv u" using inv by (simp add: graph_inv_def)
  note ws = live_ws [OF tree s] live_ws [OF tree e]
  have sel1: "workspace_box u1 = Some w0" using sel by (simp add: u1_def)
  show thesis
  proof (cases "ws_of u s = ws_of u e")
    case False
    obtain u2 p1 p2 where n: "newCrossWorkspaceConnection s e conn u1 = Some (u_next u1, u2)"
      "u_next u2 = u_next u1 + 3"
      "u_cwc u2 = (u_cwc u1)(u_next u1 := \<lparr>cw_source = s, cw_sink = e, cw_conn = conn, cw_sink_line = Suc (u_next u1),
         cw_source_line = Suc (Suc (u_next u1)), cw_sink_pos = p1, cw_source_pos = p2\<rparr>)"
      "\<And>a. outs u2 a = outs u1 a" "\<And>a. ins u2 a = ins u1 a" "\<And>a. ws_of u2 a = ws_of u1 a"
      "\<And>a. ro_id (u_robj u2 a) = ro_id (u_robj u1 a)"
      "\<And>w. wo_reactors (u_wobj u2 w) = wo_reactors (u_wobj u1 w)"
      "workspace_boxes u2 = workspace_boxes u1" "workspace_box u2 = workspace_box u1"
      "reactors_by_id u2 = reactors_by_id u1" "connections_by_id u2 = connections_by_id u1"
      "workspaces_by_id u2 = workspaces_by_id u1" "\<And>w. wo_uuid (u_wobj u2 w) = wo_uuid (u_wobj u1 w)"
      "\<And>w. divs u2 w = divs u1 w \<union> (if ws_of u1 s = w then {Suc (u_next u1)} else {})
         \<union> (if ws_of u1 e = w then {Suc (Suc (u_next u1))} else {})"
      using newCrossWorkspaceConnection_ok [OF sel1] by metis
    define l where "l = \<lparr>l_id = conn, l_src = s, l_dst = e, l_out = Suc (u_next u), l_in = Suc (Suc (u_next u)),
      l_cwc = Some (u_next u)\<rparr>"
    define u' where "u' = push_input e (in_entry l) (push_output s (out_entry l) u2)"
    have c: "createConnection s e conn u = Some u'"
      using False n(1,3) by (simp add: createConnection_def u1_def [symmetric] u'_def l_def in_entry_def out_entry_def)
        (simp add: u1_def)
    have u': "outs u' a = (if a = s then outs u2 a @ [out_entry l] else outs u2 a)"
      "ins u' a = (if a = e then ins u2 a @ [in_entry l] else ins u2 a)"
      "ws_of u' a = ws_of u2 a" "ro_id (u_robj u' a) = ro_id (u_robj u2 a)"
      "u_wobj u' = u_wobj u2" "u_next u' = u_next u2" "u_cwc u' = u_cwc u2" "workspace_boxes u' = workspace_boxes u2"
      "workspace_box u' = workspace_box u2" "reactors_by_id u' = reactors_by_id u2"
      "connections_by_id u' = connections_by_id u2" "workspaces_by_id u' = workspaces_by_id u2" for a
      by (simp_all add: u'_def push_input_def push_output_def upd_robj_def)
    have l: "l_id l = conn" "l_src l = s" "l_dst l = e" "l_out l = Suc (u_next u)" "l_in l = Suc (Suc (u_next u))"
      by (simp_all add: l_def)
    have g: "graph_inv u' \<and> links u' = insert l (links u) \<and> live u' = live u"
      by (rule add_link_ok [OF inv])
        (simp_all add: l s e new u' n, simp_all add: u1_def link_ok_def u' n l ws False, simp add: l_def u1_def u' n False)
    show thesis
      by (rule that [OF c conjunct1 [OF g] conjunct1 [OF conjunct2 [OF g]]]) (simp_all add: l g u' n, simp_all add: u1_def obj_get_put)
  next
    case True
    define l where "l = \<lparr>l_id = conn, l_src = s, l_dst = e, l_out = u_next u, l_in = u_next u, l_cwc = None\<rparr>"
    define u2 where "u2 = add_div w0 (u_next u) (u1\<lparr>u_next := Suc (u_next u)\<rparr>)"
    define u' where "u' = push_input e (in_entry l) (push_output s (out_entry l) u2)"
    have c: "createConnection s e conn u = Some u'"
      using True sel by (simp add: createConnection_def u1_def u2_def u'_def l_def in_entry_def out_entry_def Let_def)
    have u': "outs u' a = (if a = s then outs u2 a @ [out_entry l] else outs u2 a)"
      "ins u' a = (if a = e then ins u2 a @ [in_entry l] else ins u2 a)"
      "ws_of u' a = ws_of u2 a" "ro_id (u_robj u' a) = ro_id (u_robj u2 a)"
      "u_wobj u' = u_wobj u2" "u_next u' = u_next u2" "u_cwc u' = u_cwc u2" "workspace_boxes u' = workspace_boxes u2"
      "workspace_box u' = workspace_box u2" "reactors_by_id u' = reactors_by_id u2"
      "connections_by_id u' = connections_by_id u2" "workspaces_by_id u' = workspaces_by_id u2" for a
      by (simp_all add: u'_def push_input_def push_output_def upd_robj_def)
    have l: "l_id l = conn" "l_src l = s" "l_dst l = e" "l_out l = u_next u" "l_in l = u_next u"
      by (simp_all add: l_def)
    note u2 = u2_def u1_def add_div_def upd_wobj_def
    have g: "graph_inv u' \<and> links u' = insert l (links u) \<and> live u' = live u"
      by (rule add_link_ok [OF inv])
        (simp_all add: l s e new u' u2 link_ok_def ws True sel(2) [OF True], auto simp: l_def u' u2 True)
    show thesis
      by (rule that [OF c conjunct1 [OF g] conjunct1 [OF conjunct2 [OF g]]]) (simp_all add: l g u', simp_all add: u2 obj_get_put)
  qed
qed

section \<open>Deleting a connection\<close>

lemma by_links:
  assumes "graph_inv u"
  shows "lines_ok (links u) u" "lists_ok (links u) (set (live u)) (set (live u)) u" "tree_inv u"
    "l \<in> links u \<Longrightarrow> l_src l \<in> set (live u)" "l \<in> links u \<Longrightarrow> l_dst l \<in> set (live u)"
  using assms links_src by (auto simp: graph_inv_def)

lemma graph_inv_drop:
  assumes inv: "graph_inv u" and l: "l \<in> links u" and sk: "skel u' = skel u"
    and ok: "lines_ok (links u - {l}) u'" "lists_ok (links u - {l}) (set (live u)) (set (live u)) u'"
  shows "graph_inv u'" "links u' = links u - {l}" "live u' = live u"
proof -
  show live': "live u' = live u" by (simp add: live_def skelD [OF sk])
  have tree: "tree_inv u'" using by_links(3) [OF inv] by (simp add: tree_inv_def skelD [OF sk] live')
  have "\<And>k. k \<in> links u - {l} \<Longrightarrow> l_src k \<in> set (live u') \<and> l_dst k \<in> set (live u')"
    using by_links(4,5) [OF inv] by (auto simp: live')
  from graph_invI [OF tree, of "links u - {l}", OF _ ok(1) this] ok(2)
  show "graph_inv u'" "links u' = links u - {l}" by (simp_all add: live')
qed

text \<open>
  Any handler that takes the two entries of a link out of the lists and then drops the line
  deletes exactly that link.
\<close>

lemma drop_link_ok:
  assumes inv: "graph_inv u" and l: "l \<in> links u" and x: "x = in_entry l \<or> x = out_entry l"
    and sel: "workspace_box u = Some w0" "l_cwc l = None \<Longrightarrow> w0 = ws_of u (l_src l)"
    and u1: "u1 = upd_robj a f (upd_robj b g u)"
    and fg: "\<And>r. ro_id (f r) = ro_id r" "\<And>r. ro_ws (f r) = ro_ws r" "\<And>r. ro_id (g r) = ro_id r" "\<And>r. ro_ws (g r) = ro_ws r"
    and o': "\<And>c. c \<in> set (live u) \<Longrightarrow>
      outs u1 c = (if c = l_src l then filter (\<lambda>e. ce_id e \<noteq> l_id l) (outs u c) else outs u c)"
    and i': "\<And>c. c \<in> set (live u) \<Longrightarrow>
      ins u1 c = (if c = l_dst l then filter (\<lambda>e. ce_id e \<noteq> l_id l) (ins u c) else ins u c)"
  obtains u' where "drop_line x u1 = Some u'" "graph_inv u'" "links u' = links u - {l}" "live u' = live u"
    "workspace_box u' = workspace_box u"
proof -
  have sk: "skel u1 = skel u" and dv: "\<And>w. divs u1 w = divs u w"
    by (auto simp: u1 skel_def upd_robj_def fun_eq_iff fg)
  obtain u' where u': "drop_line x u1 = Some u'" "skel u' = skel u" "lines_ok (links u - {l}) u'"
    "lists_ok (links u - {l}) (set (live u)) (set (live u)) u'"
    by (rule drop_after_update [OF by_links(1,2) [OF inv] l x sel sk dv o' i'])
  show thesis
    by (rule that [OF u'(1) graph_inv_drop [OF inv l u'(2,3,4)] skelD(12) [OF u'(2)]])
qed

lemma link_entries:
  assumes inv: "graph_inv u" and l: "l \<in> links u"
  shows "out_entry l \<in> set (outs u (l_src l))" "in_entry l \<in> set (ins u (l_dst l))"
    "distinct (map ce_id (outs u (l_src l)))" "distinct (map ce_id (ins u (l_dst l)))"
  using by_links [OF inv] l by (auto simp: lists_ok_def)

lemma entry_by_id:
  assumes "distinct (map ce_id xs)" "x \<in> set xs" "y \<in> set xs" "ce_id x = ce_id y"
  shows "x = y"
  using assms by (auto simp: distinct_map inj_on_def)

lemma find_entry:
  assumes "distinct (map ce_id xs)" "x \<in> set xs"
  shows "find_index (\<lambda>e. ce_id e = ce_id x) xs < length xs" "xs ! find_index (\<lambda>e. ce_id e = ce_id x) xs = x"
proof -
  show i: "find_index (\<lambda>e. ce_id e = ce_id x) xs < length xs" using assms(2) by auto
  show "xs ! find_index (\<lambda>e. ce_id e = ce_id x) xs = x"
    using entry_by_id [OF assms(1) nth_mem [OF i] assms(2)] find_index_nth [OF assms(2), of "\<lambda>e. ce_id e = ce_id x"]
    by simp
qed

lemma removeConnection_load_ok:
  assumes inv: "graph_inv u" and l: "l \<in> links u" "l_cwc l = None" and sel: "workspace_box u = Some (ws_of u (l_src l))"
  obtains u' where "removeConnection_load (l_src l) (l_dst l) (l_id l) u = Some u'" "graph_inv u'"
    "links u' = links u - {l}" "live u' = live u" "workspace_box u' = workspace_box u"
proof -
  note e = link_entries [OF inv l(1)]
  note f = find_entry [OF e(3,1), simplified] find_entry [OF e(4,2), simplified]
  have out: "ce_line (outs u (l_src l) ! find_index (\<lambda>x. ce_id x = l_id l) (outs u (l_src l))) = l_out l"
    by (simp add: f(2))
  have line: "l_out l \<in> divs u (ws_of u (l_src l))"
    using by_links(1) [OF inv] l(1) by (auto simp: lines_ok_def link_ok_def lines_in_def)
  obtain u1 where u1: "removeLine (l_out l) u = Some u1" "skel u1 = skel u"
    "\<And>v. divs u1 v = (if v = ws_of u (l_src l) then divs u (ws_of u (l_src l)) - {l_out l} else divs u v)"
    "\<And>a. outs u1 a = outs u a" "\<And>a. ins u1 a = ins u a"
    using removeLine_ok [OF sel line] by metis
  define u' where "u' = upd_robj (l_dst l) (\<lambda>r. r\<lparr>ro_inputs := splice1 (find_index (\<lambda>x. ce_id x = l_id l) (ins u (l_dst l))) (ro_inputs r)\<rparr>)
     (upd_robj (l_src l) (\<lambda>r. r\<lparr>ro_outputs := splice1 (find_index (\<lambda>x. ce_id x = l_id l) (outs u (l_src l))) (ro_outputs r)\<rparr>) u1)"
  have rem: "removeConnection_load (l_src l) (l_dst l) (l_id l) u = Some u'"
    using f(1) u1(1) by (simp add: removeConnection_load_def Let_def out u'_def)
  have sk: "skel u' = skel u" and dv: "\<And>w. divs u' w = divs u1 w"
    using u1(2) by (auto simp: u'_def skel_def upd_robj_def fun_eq_iff)
  have lists: "lists_ok (links u - {l}) (set (live u)) (set (live u)) u'"
    by (rule lists_ok_drop [OF by_links(1,2) [OF inv] l(1)])
      (auto simp: u'_def upd_robj_def u1 splice1_find_index splice_first_distinct [OF e(3)] splice_first_distinct [OF e(4)])
  have "l_in l = l_out l" "ws_of u (l_src l) = ws_of u (l_dst l)"
    using by_links(1) [OF inv] l by (auto simp: lines_ok_def link_ok_def)
  then have d': "divs u' w = divs u w - link_lines l" if "w \<in> set (workspace_boxes u)" for w
    using lines_elsewhere [OF by_links(1) [OF inv] l(1) that] by (auto simp: dv u1(3) link_lines_def)
  have lines: "lines_ok (links u - {l}) u'"
    by (rule lines_ok_drop [OF by_links(1) [OF inv] l(1) sk d'])
  show thesis
    by (rule that [OF rem graph_inv_drop [OF inv l(1) sk lines lists] skelD(12) [OF sk]])
qed

lemma deleteConnection_load_ok:
  assumes inv: "graph_inv u" and l: "l \<in> links u" "l_cwc l = Some c" and sel: "workspace_box u = Some w0"
  obtains u' where "deleteConnection_load c u = Some u'" "graph_inv u'" "links u' = links u - {l}" "live u' = live u"
    "workspace_box u' = workspace_box u"
proof -
  have cw: "cw_source (u_cwc u c) = l_src l" "cw_sink (u_cwc u c) = l_dst l" "cw_conn (u_cwc u c) = l_id l"
    using by_links(1) [OF inv] l by (auto simp: lines_ok_def link_ok_def)
  note e = link_entries [OF inv l(1)]
  define u1 where "u1 = upd_robj (l_dst l) (\<lambda>r. r\<lparr>ro_inputs := splice_first (\<lambda>e. ce_id e = l_id l) (ro_inputs r)\<rparr>)
     (upd_robj (l_src l) (\<lambda>r. r\<lparr>ro_outputs := splice_first (\<lambda>e. ce_id e = l_id l) (ro_outputs r)\<rparr>) u)"
  have o: "drop_line (in_entry l) u1 = deleteConnection_load c u"
    by (simp add: drop_line_def l(2) deleteConnection_load_def Let_def cw u1_def)
  show thesis
    by (rule drop_link_ok [OF inv l(1) _ sel _ u1_def])
      (use that o in \<open>auto simp: l(2) u1_def upd_robj_def splice_first_distinct [OF e(3)] splice_first_distinct [OF e(4)]\<close>)
qed

section \<open>Deleting a workspace\<close>

definition touching_any :: "nat list \<Rightarrow> link set \<Rightarrow> link set" where
  "touching_any as L = {l \<in> L. l_src l \<in> set as \<or> l_dst l \<in> set as}"

lemma each_deleteReactor:
  assumes "graph_inv u" "distinct rs" "set rs \<subseteq> set (wo_reactors (u_wobj u w))" "w \<in> set (workspace_boxes u)"
    and "workspace_box u = Some w"
  shows "\<exists>u'. each deleteReactorFromUI rs u = Some u' \<and> graph_inv u' \<and>
     links u' = links u - touching_any rs (links u) \<and> live u' = filter (\<lambda>b. b \<notin> set rs) (live u) \<and>
     workspace_box u' = workspace_box u \<and> workspace_boxes u' = workspace_boxes u \<and>
     workspaces_by_id u' = workspaces_by_id u \<and> wo_uuid (u_wobj u' w) = wo_uuid (u_wobj u w) \<and>
     wo_reactors (u_wobj u' w) = filter (\<lambda>b. b \<notin> set rs) (wo_reactors (u_wobj u w))"
  using assms
proof (induction rs arbitrary: u)
  case Nil
  then show ?case by (simp add: touching_any_def)
next
  case (Cons a rs)
  have a: "a \<in> set (live u)" "ws_of u a = w"
    using Cons.prems by_links(3) [OF Cons.prems(1)] by (auto simp: in_live tree_inv_def)
  obtain u1 where u1: "deleteReactorFromUI a u = Some u1" "graph_inv u1"
    "links u1 = links u - touching a (links u)" "live u1 = filter (\<lambda>b. b \<noteq> a) (live u)"
    "workspace_box u1 = workspace_box u" "workspace_boxes u1 = workspace_boxes u"
    "workspaces_by_id u1 = workspaces_by_id u" "wo_uuid (u_wobj u1 w) = wo_uuid (u_wobj u w)"
    "wo_reactors (u_wobj u1 w) = filter (\<lambda>b. b \<noteq> a) (wo_reactors (u_wobj u w))"
    by (rule deleteReactorFromUI_ok [OF Cons.prems(1) a(1)]) (use Cons.prems(5) a(2) in auto)
  have "\<exists>u'. each deleteReactorFromUI rs u1 = Some u' \<and> graph_inv u' \<and>
     links u' = links u1 - touching_any rs (links u1) \<and> live u' = filter (\<lambda>b. b \<notin> set rs) (live u1) \<and>
     workspace_box u' = workspace_box u1 \<and> workspace_boxes u' = workspace_boxes u1 \<and>
     workspaces_by_id u' = workspaces_by_id u1 \<and> wo_uuid (u_wobj u' w) = wo_uuid (u_wobj u1 w) \<and>
     wo_reactors (u_wobj u' w) = filter (\<lambda>b. b \<notin> set rs) (wo_reactors (u_wobj u1 w))"
    by (rule Cons.IH [OF u1(2)]) (use Cons.prems u1 in auto)
  moreover have "links u - touching a (links u) - touching_any rs (links u - touching a (links u)) =
      links u - touching_any (a # rs) (links u)"
    by (auto simp: touching_def touching_any_def)
  ultimately show ?case
    using u1 by (auto simp: conj_commute)
qed

lemma graph_inv_selectChild [simp]: "graph_inv (selectChild w u) = graph_inv u"
  "links (selectChild w u) = links u" "live (selectChild w u) = live u"
proof -
  show l: "live (selectChild w u) = live u" by (simp add: live_def selectChild_def)
  show k: "links (selectChild w u) = links u" by (simp add: links_def l) (simp add: selectChild_def link_of_def [abs_def] cong: option.case_cong)
  have "tree_inv (selectChild w u) = tree_inv u"
    by (simp only: tree_inv_def l) (simp add: selectChild_def)
  moreover have "lines_ok L (selectChild w u) = lines_ok L u" "lists_ok L S T (selectChild w u) = lists_ok L S T u" for L S T
    by (simp_all add: lines_ok_def lists_ok_def selectChild_def link_ok_def [abs_def] lines_in_def [abs_def]
        cong: option.case_cong)
  ultimately show "graph_inv (selectChild w u) = graph_inv u" by (simp add: graph_inv_def l k)
qed

lemma deleteWorkspaceFromUI_ok:
  assumes inv: "graph_inv u" and w: "w \<in> set (workspace_boxes u)" and sel: "workspace_box u = Some w"
  obtains u' where "deleteWorkspaceFromUI w u = Some u'" "graph_inv u'"
    "links u' = links u - touching_any (wo_reactors (u_wobj u w)) (links u)"
    "live u' = filter (\<lambda>b. b \<notin> set (wo_reactors (u_wobj u w))) (live u)"
    "workspace_boxes u' = filter (\<lambda>b. b \<noteq> w) (workspace_boxes u)"
    "workspace_boxes u' \<noteq> [] \<longrightarrow> workspace_box u' = Some (hd (workspace_boxes u'))"
proof -
  let ?rs = "wo_reactors (u_wobj u w)"
  have "distinct ?rs" using by_links(3) [OF inv] w by (auto simp: tree_inv_def live_def distinct_concat_iff)
  then obtain u1 where u1: "each deleteReactorFromUI ?rs u = Some u1" "graph_inv u1"
     "links u1 = links u - touching_any ?rs (links u)" "live u1 = filter (\<lambda>b. b \<notin> set ?rs) (live u)"
     "workspace_box u1 = workspace_box u" "workspace_boxes u1 = workspace_boxes u"
     "workspaces_by_id u1 = workspaces_by_id u" "wo_uuid (u_wobj u1 w) = wo_uuid (u_wobj u w)"
     "wo_reactors (u_wobj u1 w) = []"
    using each_deleteReactor [OF inv _ order_refl w sel] by auto
  define u2 where "u2 = u1\<lparr>workspaces_by_id := obj_del (workspaces_by_id u1) (wo_uuid (u_wobj u1 w)),
     workspace_boxes := filter (\<lambda>b. b \<noteq> w) (workspace_boxes u1)\<rparr>"
  have live2: "live u2 = live u1"
  proof -
    have "concat (map (\<lambda>w. wo_reactors (u_wobj u1 w)) (filter (\<lambda>b. b \<noteq> w) bs)) =
        concat (map (\<lambda>w. wo_reactors (u_wobj u1 w)) bs)" for bs
      by (induction bs) (auto simp: u1(9))
    then show ?thesis by (simp add: live_def u2_def)
  qed
  note tree = by_links(3) [OF u1(2)] and ends = by_links(4,5) [OF u1(2)]
  have ne: "wo_uuid (u_wobj u1 v) \<noteq> wo_uuid (u_wobj u1 w)" if "v \<in> set (workspace_boxes u1)" "v \<noteq> w" for v
    using tree that w unfolding tree_inv_def u1(6) by (metis option.inject)
  have idx: "wo_uuid (u_wobj u1 v) = k" if "(k, v) \<in> set (workspaces_by_id u1)" for k v
    using tree that by (auto simp: tree_inv_def)
  have tree2: "tree_inv u2"
    using tree ne idx unfolding tree_inv_def live2
    by (auto simp: u2_def obj_get_del in_obj_del obj_wf_del dest: idx)
  have away: "ws_of u1 a \<noteq> w" if "a \<in> set (live u1)" for a
    using live_ws(2) [OF tree that] u1(9) by auto
  have lines2: "lines_ok (links u1) u2"
    using by_links(1) [OF u1(2)] ends away unfolding lines_ok_def link_ok_def lines_in_def
    by (simp add: u2_def cong: option.case_cong)
  have lists2: "lists_ok (links u1) (set (live u2)) (set (live u2)) u2"
    using by_links(2) [OF u1(2)] unfolding live2 by (simp add: lists_ok_def u2_def)
  have g2: "graph_inv u2" "links u2 = links u1"
    using graph_invI [OF tree2 lists2 lines2] ends by (auto simp: live2)
  define u' where "u' = (if workspace_box u2 = Some w
       then (case workspace_boxes u2 of [] \<Rightarrow> u2 | b # _ \<Rightarrow> selectChild b u2) else u2)"
  have del: "deleteWorkspaceFromUI w u = Some u'"
    unfolding deleteWorkspaceFromUI_def u'_def u2_def Let_def by (simp add: u1(1))
  have box2: "workspace_box u2 = Some w" using sel u1(5) by (simp add: u2_def)
  then have u': "graph_inv u' \<and> links u' = links u2 \<and> live u' = live u2 \<and> workspace_boxes u' = workspace_boxes u2 \<and>
      (workspace_boxes u2 \<noteq> [] \<longrightarrow> workspace_box u' = Some (hd (workspace_boxes u')))"
    using g2 by (cases "workspace_boxes u2") (auto simp: u'_def, auto simp: selectChild_def)
  have boxes2: "workspace_boxes u2 = filter (\<lambda>b. b \<noteq> w) (workspace_boxes u)"
    using u1(6) by (simp add: u2_def)
  show thesis
    by (rule that [OF del]) (use u' g2 live2 u1(3,4) boxes2 in auto)
qed

section \<open>New workspaces and reactors\<close>

lemma addWorkspace_ok:
  assumes inv: "graph_inv u" and new: "\<not> obj_has (workspaces_by_id u) uuid"
  shows "graph_inv (addWorkspace uuid name u)" "links (addWorkspace uuid name u) = links u"
    "live (addWorkspace uuid name u) = live u"
proof -
  let ?w = "u_next u"
  define u1 where "u1 = u\<lparr>u_wobj := (u_wobj u)(?w := \<lparr>wo_uuid = uuid, wo_title = name, wo_reactors = [], wo_divs = {}\<rparr>),
              u_next := Suc ?w, workspaces_by_id := obj_put (workspaces_by_id u) uuid ?w,
              workspace_boxes := workspace_boxes u @ [?w]\<rparr>"
  have add: "addWorkspace uuid name u = selectChild ?w u1" by (simp add: addWorkspace_def u1_def Let_def)
  note tree = by_links(3) [OF inv]
  have fresh: "v \<noteq> ?w" if "v \<in> set (workspace_boxes u)" for v
    using tree that by (auto simp: tree_inv_def)
  have live1: "live u1 = live u" using fresh by (simp add: live_def u1_def cong: map_cong)
  have away: "ws_of u a \<noteq> ?w" "a \<noteq> ?w" if "a \<in> set (live u)" for a
    using live_ws [OF tree that] fresh by auto
  have none: "obj_get (workspaces_by_id u) uuid = None" using new by (simp add: obj_has_iff)
  have tree1: "tree_inv u1"
    using tree none fresh new unfolding tree_inv_def live1
    by (auto simp: u1_def obj_get_put set_obj_put_new obj_wf_put less_Suc_eq)
  have "lines_in (links u) u ?w = {}" using by_links(4,5) [OF inv] away by (auto simp: lines_in_def)
  moreover have "link_ok u1 l" if "l \<in> links u" for l
    using by_links(1) [OF inv] that by (auto simp: lines_ok_def link_ok_def u1_def split: option.splits)
  moreover have "lines_in (links u) u1 v = lines_in (links u) u v" for v
    by (simp add: lines_in_def u1_def)
  moreover have "divs u1 v = (if v = ?w then {} else divs u v)" for v by (simp add: u1_def)
  ultimately have "lines_ok (links u) u1"
    using by_links(1) [OF inv] fresh unfolding lines_ok_def by (simp add: u1_def)
  moreover have "lists_ok (links u) (set (live u1)) (set (live u1)) u1"
    using by_links(2) [OF inv] unfolding live1 by (simp add: lists_ok_def u1_def)
  ultimately have "graph_inv u1" "links u1 = links u"
    using graph_invI [OF tree1, of "links u"] by_links(4,5) [OF inv] by (auto simp: live1)
  then show "graph_inv (addWorkspace uuid name u)" "links (addWorkspace uuid name u) = links u"
    "live (addWorkspace uuid name u) = live u" by (simp_all add: add live1)
qed

lemma createReactor_ok:
  assumes inv: "graph_inv u" and wid: "obj_get config ''Workspace'' = Some wid"
    and w: "obj_get (workspaces_by_id u) (js_string wid) = Some w"
    and new: "\<not> obj_has (reactors_by_id u) (config_id config)"
  shows "graph_inv (createReactorInConfiguredWorkspace config u)"
    "links (createReactorInConfiguredWorkspace config u) = links u"
    "set (live (createReactorInConfiguredWorkspace config u)) = insert (u_next u) (set (live u))"
    "obj_get (reactors_by_id (createReactorInConfiguredWorkspace config u)) (config_id config) = Some (u_next u)"
    "workspace_box (createReactorInConfiguredWorkspace config u) = Some w"
    "ws_of (createReactorInConfiguredWorkspace config u) (u_next u) = w"
proof -
  let ?a = "u_next u"
  define u' where "u' = createReactorInConfiguredWorkspace config u"
  note tree = by_links(3) [OF inv]
  have wb: "w \<in> set (workspace_boxes u)" using tree obj_get_in_set [OF w] by (auto simp: tree_inv_def)
  have V: "u_robj u' = (u_robj u)(?a := \<lparr>ro_id = config_id config, ro_ws = w, ro_inputs = [],
        ro_outputs = [], ro_special = [''@id'', ''options''], ro_config = config\<rparr>)"
    "u_next u' = Suc ?a" "u_cwc u' = u_cwc u" "workspace_boxes u' = workspace_boxes u" "workspaces_by_id u' = workspaces_by_id u"
    "reactors_by_id u' = obj_put (reactors_by_id u) (config_id config) ?a" "workspace_box u' = Some w"
    "\<And>v. divs u' v = divs u v" "\<And>v. wo_uuid (u_wobj u' v) = wo_uuid (u_wobj u v)"
    "\<And>v. wo_reactors (u_wobj u' v) = (if v = w then wo_reactors (u_wobj u v) @ [?a] else wo_reactors (u_wobj u v))"
    using wid w by (auto simp: u'_def createReactorInConfiguredWorkspace_def Let_def selectChild_def upd_wobj_def)
  have fresh: "b \<noteq> ?a" if "b \<in> set (live u)" for b using live_ws(3) [OF tree that] by simp
  have live': "set (live u') = insert ?a (set (live u))" using wb by (auto simp: in_live V split: if_splits)
  have dist: "distinct (live u')"
  proof -
    have "mset (live u') = mset (live u) + {#?a#}" if "distinct (workspace_boxes u)"
    proof -
      have "mset (concat (map (\<lambda>v. if v = w then wo_reactors (u_wobj u v) @ [?a] else wo_reactors (u_wobj u v)) bs)) =
          mset (concat (map (\<lambda>v. wo_reactors (u_wobj u v)) bs)) + (if w \<in> set bs then {#?a#} else {#})"
        if "distinct bs" for bs
        using that by (induction bs) auto
      from this [OF that] show ?thesis using wb by (simp add: live_def V)
    qed
    then have "mset (live u') = mset (?a # live u)" using tree by (simp add: tree_inv_def)
    moreover have "distinct (?a # live u)" using tree fresh by (auto simp: tree_inv_def)
    ultimately show ?thesis by (metis mset_eq_imp_distinct_iff)
  qed
  have none: "obj_get (reactors_by_id u) (config_id config) = None" using new by (simp add: obj_has_iff)
  have fresh_w: "\<forall>v\<in>set (workspace_boxes u). ?a \<notin> set (wo_reactors (u_wobj u v))" using fresh by (auto simp: in_live)
  have tree': "tree_inv u'"
  proof -
    have "ro_id (u_robj u b) \<noteq> config_id config" if "b \<in> set (live u)" for b
      using tree that none by (force simp: tree_inv_def)
    then show ?thesis
      using tree none dist fresh fresh_w new unfolding tree_inv_def live'
      by (auto simp: V obj_get_put set_obj_put_new obj_wf_put less_Suc_eq)
  qed
  have le: "l_src l \<noteq> ?a" "l_dst l \<noteq> ?a" if "l \<in> links u" for l
    using fresh by_links(4,5) [OF inv that] by auto
  have "link_ok u' l" if "l \<in> links u" for l
    using by_links(1) [OF inv] that le [OF that] by (auto simp: lines_ok_def link_ok_def V split: option.splits)
  moreover have "lines_in (links u) u' v = lines_in (links u) u v" for v
    unfolding lines_in_def using le by (auto simp: V)
  ultimately have lines': "lines_ok (links u) u'"
    using by_links(1) [OF inv] by (simp add: lines_ok_def V)
  have no: "{l \<in> links u. l_src l = ?a} = {}" "{l \<in> links u. l_dst l = ?a} = {}" using le by auto
  have lists': "lists_ok (links u) (set (live u')) (set (live u')) u'"
    using by_links(2) [OF inv] fresh unfolding live' lists_ok_def by (auto simp: V no)
  have "graph_inv u'" "links u' = links u"
    using graph_invI [OF tree' lists' lines'] by_links(4,5) [OF inv] by (auto simp: live')
  then show "graph_inv (createReactorInConfiguredWorkspace config u)"
    "links (createReactorInConfiguredWorkspace config u) = links u"
    "set (live (createReactorInConfiguredWorkspace config u)) = insert (u_next u) (set (live u))"
    "obj_get (reactors_by_id (createReactorInConfiguredWorkspace config u)) (config_id config) = Some (u_next u)"
    "workspace_box (createReactorInConfiguredWorkspace config u) = Some w"
    "ws_of (createReactorInConfiguredWorkspace config u) (u_next u) = w"
    using live' V by (simp_all add: u'_def [symmetric] obj_get_put)
qed

section \<open>Drawing in the wrong tab\<close>

lemma drop_line_wrong_tab:
  assumes "lines_ok L u" "l \<in> L" "l_cwc l = None" "x = in_entry l \<or> x = out_entry l"
    and "workspace_box u = Some w" "w \<in> set (workspace_boxes u)" "w \<noteq> ws_of u (l_src l)"
    and "divs u1 w = divs u w" "workspace_box u1 = workspace_box u"
  shows "drop_line x u1 = None"
proof -
  have "l_in l = l_out l" "ws_of u (l_src l) = ws_of u (l_dst l)"
    using assms(1,2,3) by (auto simp: lines_ok_def link_ok_def)
  moreover from this have "l_out l \<notin> divs u w"
    using lines_elsewhere(1) [OF assms(1,2,6,7)] assms(7) by simp
  ultimately show ?thesis
    using assms(3,4,5,8,9) by (auto simp: drop_line_def removeLine_def)
qed

lemma local_link_ws:
  assumes "lines_ok L u" "l \<in> L" "l_cwc l = None"
  shows "ws_of u (l_src l) = ws_of u (l_dst l)"
  using assms by (auto simp: lines_ok_def link_ok_def)

text \<open>A loop that reaches the entry of a local line stops there.\<close>

lemma each_drop_input_wrong_tab:
  assumes "lines_ok L u" "lists_ok L S T u" "workspace_box u = Some w" "w \<in> set (workspace_boxes u)"
    and "set ls \<subseteq> L" "distinct ls" "\<exists>l\<in>set ls. l_cwc l = None"
    and "\<And>l. l \<in> set ls \<Longrightarrow> l_src l \<in> S \<and> l_dst l \<notin> T \<and> (l_cwc l = None \<longrightarrow> w \<noteq> ws_of u (l_src l))"
  shows "each drop_input (map in_entry ls) u = None"
  using assms
proof (induction ls arbitrary: u L)
  case (Cons l ls)
  have l: "l \<in> L" and ends: "l_src l \<in> S" "l_dst l \<notin> T" using Cons.prems(5,8) by auto
  show ?case
  proof (cases "l_cwc l")
    case None
    then have "drop_input (in_entry l) u = None"
      unfolding drop_input_def using Cons.prems(8) [of l]
      by (intro drop_line_wrong_tab [OF Cons.prems(1) l None _ Cons.prems(3,4)]) (auto simp: upd_robj_def)
    then show ?thesis by simp
  next
    case (Some c)
    then have no: "l_cwc l = None \<Longrightarrow> w = ws_of u (l_src l)" by simp
    obtain u1 where u1: "drop_input (in_entry l) u = Some u1" "skel u1 = skel u" "lines_ok (L - {l}) u1"
      "lists_ok (L - {l}) S T u1"
      by (rule drop_input_ok [OF Cons.prems(1,2) l Cons.prems(3) no ends])
    have "each drop_input (map in_entry ls) u1 = None"
      using Cons.prems(3-8) Some by (intro Cons.IH [OF u1(3,4)]) (auto simp: skelD [OF u1(2)])
    with u1(1) show ?thesis by simp
  qed
qed simp

lemma each_drop_output_wrong_tab:
  assumes "lines_ok L u" "lists_ok L S T u" "workspace_box u = Some w" "w \<in> set (workspace_boxes u)"
    and "set ls \<subseteq> L" "distinct ls" "\<exists>l\<in>set ls. l_cwc l = None"
    and "\<And>l. l \<in> set ls \<Longrightarrow> l_src l \<notin> S \<and> l_dst l \<in> T \<and> (l_cwc l = None \<longrightarrow> w \<noteq> ws_of u (l_src l))"
  shows "each drop_output (map out_entry ls) u = None"
  using assms
proof (induction ls arbitrary: u L)
  case (Cons l ls)
  have l: "l \<in> L" and ends: "l_src l \<notin> S" "l_dst l \<in> T" using Cons.prems(5,8) by auto
  show ?case
  proof (cases "l_cwc l")
    case None
    then have "drop_output (out_entry l) u = None"
      unfolding drop_output_def using Cons.prems(8) [of l]
      by (intro drop_line_wrong_tab [OF Cons.prems(1) l None _ Cons.prems(3,4)]) (auto simp: upd_robj_def)
    then show ?thesis by simp
  next
    case (Some c)
    then have no: "l_cwc l = None \<Longrightarrow> w = ws_of u (l_src l)" by simp
    obtain u1 where u1: "drop_output (out_entry l) u = Some u1" "skel u1 = skel u" "lines_ok (L - {l}) u1"
      "lists_ok (L - {l}) S T u1"
      by (rule drop_output_ok [OF Cons.prems(1,2) l Cons.prems(3) no ends])
    have "each drop_output (map out_entry ls) u1 = None"
      using Cons.prems(3-8) Some by (intro Cons.IH [OF u1(3,4)]) (auto simp: skelD [OF u1(2)])
    with u1(1) show ?thesis by simp
  qed
qed simp

lemma deleteReactorFromUI_wrong_tab:
  assumes inv: "graph_inv u" and a: "a \<in> set (live u)"
    and l: "l \<in> touching a (links u)" "l_cwc l = None"
    and sel: "workspace_box u = Some w" "w \<in> set (workspace_boxes u)" "w \<noteq> ws_of u a"
  shows "deleteReactorFromUI a u = None"
proof -
  let ?R = "set (live u)" and ?L = "links u"
  define u1 where "u1 = u\<lparr>reactors_by_id := obj_del (reactors_by_id u) (ro_id (u_robj u a))\<rparr>"
  have lists1: "lists_ok ?L ?R ?R u1" using inv by (simp add: graph_inv_def lists_ok_def u1_def)
  have lines1: "lines_ok ?L u1" by (rule lines_ok_wobj [of _ u]) (use inv in \<open>simp_all add: graph_inv_def u1_def\<close>)
  have sel1: "workspace_box u1 = Some w" "w \<in> set (workspace_boxes u1)" using sel by (simp_all add: u1_def)
  have away: "l_cwc k = None \<longrightarrow> w \<noteq> ws_of u1 (l_src k)" if "k \<in> touching a ?L" for k
    using that local_link_ws [OF lines1, of k] sel(3) by (auto simp: touching_def u1_def)
  obtain ls where ls: "ins u1 a = map in_entry ls" "set ls = {l \<in> ?L. l_dst l = a}" "distinct ls"
    using entry_list(2) [OF lines1 lists1 a] by blast
  have D: "deleteReactorFromUI a u = (case each drop_input (map in_entry ls) u1 of None \<Rightarrow> None
      | Some u2 \<Rightarrow> (case each drop_output (outs u2 a) u2 of None \<Rightarrow> None
      | Some u3 \<Rightarrow> Some (upd_wobj (ws_of u3 a) (\<lambda>w. w\<lparr>wo_reactors := splice_loop (\<lambda>b. b = a) (wo_reactors w)\<rparr>) u3)))"
    by (simp add: deleteReactorFromUI_def u1_def [symmetric] ls(1))
  note lists1' = lists_ok_mono [OF lists1, of ?R "?R - {a}"]
  have in_ends: "l_src k \<in> ?R \<and> l_dst k \<notin> ?R - {a}" if "k \<in> set ls" for k
    using that ls(2) by_links(4) [OF inv] by auto
  show ?thesis
  proof (cases "\<exists>k\<in>set ls. l_cwc k = None")
    case True
    have "each drop_input (map in_entry ls) u1 = None"
      by (rule each_drop_input_wrong_tab [OF lines1 lists1' sel1 _ ls(3) True])
        (use ls(2) in_ends away in \<open>auto simp: touching_def\<close>)
    then show ?thesis by (simp add: D)
  next
    case False
    then have "\<exists>u2. each drop_input (map in_entry ls) u1 = Some u2 \<and> skel u2 = skel u1 \<and>
        lines_ok (?L - set ls) u2 \<and> lists_ok (?L - set ls) ?R (?R - {a}) u2"
      by (intro each_drop_input [OF lines1 lists1' sel1(1) _ ls(3)])
        (use ls(2) in_ends in auto)
    then obtain u2 where u2: "each drop_input (map in_entry ls) u1 = Some u2" "skel u2 = skel u1"
        "lines_ok (?L - set ls) u2" "lists_ok (?L - set ls) ?R (?R - {a}) u2" by blast
    obtain ms where ms: "outs u2 a = map out_entry ms" "set ms = {l \<in> ?L - set ls. l_src l = a}" "distinct ms"
      using entry_list(1) [OF u2(3,4) a] by blast
    have "l \<in> set ms" using l False ls(2) ms(2) by (auto simp: touching_def)
    with l(2) have some: "\<exists>k\<in>set ms. l_cwc k = None" by blast
    have "each drop_output (map out_entry ms) u2 = None"
      by (rule each_drop_output_wrong_tab [OF u2(3) lists_ok_mono [OF u2(4), of "?R - {a}" "?R - {a}"] _ _ _ ms(3) some])
        (use sel1 ls(2) ms(2) by_links(5) [OF inv] away in \<open>auto simp: touching_def skelD [OF u2(2)]\<close>)
    then show ?thesis by (simp add: D u2(1) ms(1))
  qed
qed

end
