(* ===== verification/Pion_Canvas.thy ===== *)
theory Pion_Canvas
  imports Pion_Connect
begin

text \<open>
  The canvas as a state machine: \<open>canvas u\<close> holds of the object graphs that the user interface
  can build from an empty page with the operations of \<open>Pion_Graph\<close>, the server handing out fresh
  identifiers. In-workspace lines live in the node of the selected tab, so the operations that
  touch one are taken with the reactor's own workspace selected; \<open>wrong_tab\<close> shows what happens
  otherwise.
\<close>

section \<open>Reachable canvases\<close>

definition empty_ui :: ui where
  "empty_ui = \<lparr>u_robj = (\<lambda>_. \<lparr>ro_id = [], ro_ws = 0, ro_inputs = [], ro_outputs = [], ro_special = [], ro_config = []\<rparr>),
     u_wobj = (\<lambda>_. \<lparr>wo_uuid = [], wo_title = [], wo_reactors = [], wo_divs = {}\<rparr>),
     u_cwc = (\<lambda>_. \<lparr>cw_source = 0, cw_sink = 0, cw_conn = [], cw_sink_line = 0, cw_source_line = 0,
       cw_sink_pos = (0, 0), cw_source_pos = (0, 0)\<rparr>),
     u_next = 0, reactors_by_id = [], connections_by_id = [], workspaces_by_id = [], workspace_boxes = [],
     workspace_box = None, u_puts = []\<rparr>"

inductive canvas :: "ui \<Rightarrow> bool" where
  load: "canvas empty_ui"
| select: "canvas u \<Longrightarrow> w \<in> set (workspace_boxes u) \<Longrightarrow> canvas (selectChild w u)"
| add_workspace: "canvas u \<Longrightarrow> \<not> obj_has (workspaces_by_id u) uuid \<Longrightarrow> canvas (addWorkspace uuid name u)"
| add_reactor: "canvas u \<Longrightarrow> \<not> obj_has (reactors_by_id u) (config_id config) \<Longrightarrow>
    canvas (createReactorInConfiguredWorkspace config u)"
| connect: "canvas u \<Longrightarrow> s \<in> set (live u) \<Longrightarrow> e \<in> set (live u) \<Longrightarrow> conn \<notin> fst ` wires u \<Longrightarrow>
    ws_of u s = ws_of u e \<longrightarrow> workspace_box u = Some (ws_of u s) \<Longrightarrow>
    createConnection s e conn u = Some u' \<Longrightarrow> canvas u'"
| disconnect: "canvas u \<Longrightarrow> (conn, s, e) \<in> wires u \<Longrightarrow> ws_of u s = ws_of u e \<Longrightarrow>
    workspace_box u = Some (ws_of u s) \<Longrightarrow> removeConnection_load s e conn u = Some u' \<Longrightarrow> canvas u'"
| disconnect_far: "canvas u \<Longrightarrow> l \<in> links u \<Longrightarrow> l_cwc l = Some c \<Longrightarrow> deleteConnection_load c u = Some u' \<Longrightarrow> canvas u'"
| delete_reactor: "canvas u \<Longrightarrow> a \<in> set (live u) \<Longrightarrow> workspace_box u = Some (ws_of u a) \<Longrightarrow>
    deleteReactorFromUI a u = Some u' \<Longrightarrow> canvas u'"
| delete_workspace: "canvas u \<Longrightarrow> w \<in> set (workspace_boxes u) \<Longrightarrow> workspace_box u = Some w \<Longrightarrow>
    deleteWorkspaceFromUI w u = Some u' \<Longrightarrow> canvas u'"

inductive_cases canvas_cases: "canvas u"

lemma graph_inv_empty: "graph_inv empty_ui"
  by (simp add: graph_inv_def tree_inv_def lists_ok_def lines_ok_def links_def live_def empty_ui_def)

lemma wires_iff: "(conn, s, e) \<in> wires u \<longleftrightarrow> (\<exists>l\<in>links u. l_id l = conn \<and> l_src l = s \<and> l_dst l = e)"
  by (auto simp: wires_def image_iff)

lemma fst_wires: "fst ` wires u = l_id ` links u"
  by (simp add: wires_def image_image)

lemma local_link:
  assumes "graph_inv u" "l \<in> links u"
  shows "l_cwc l = None \<longleftrightarrow> ws_of u (l_src l) = ws_of u (l_dst l)"
  using by_links(1) [OF assms(1)] assms(2) by (auto simp: lines_ok_def link_ok_def split: option.splits)

text \<open>A page with a selected tab, once there is a workspace.\<close>

lemma canvas_inv: "canvas u \<Longrightarrow> graph_inv u \<and> (workspace_boxes u \<noteq> [] \<longrightarrow> workspace_box u \<noteq> None)"
proof (induction rule: canvas.induct)
  case load
  then show ?case by (simp add: graph_inv_empty) (simp add: empty_ui_def)
next
  case (select u w)
  then show ?case by (simp add: selectChild_def [of w u] graph_inv_selectChild(1) [of w u, unfolded selectChild_def])
next
  case (add_workspace u uuid name)
  then show ?case using addWorkspace_ok(1) by (simp add: addWorkspace_def selectChild_def Let_def)
next
  case (add_reactor u config)
  show ?case
  proof (cases "\<exists>wid w. obj_get config ''Workspace'' = Some wid \<and> obj_get (workspaces_by_id u) (js_string wid) = Some w")
    case True
    then show ?thesis using createReactor_ok(1,5) add_reactor by fastforce
  next
    case False
    then have "createReactorInConfiguredWorkspace config u = u"
      by (auto simp: createReactorInConfiguredWorkspace_def split: option.splits)
    then show ?thesis using add_reactor by simp
  qed
next
  case (connect u s e conn u')
  have "workspace_boxes u \<noteq> []" using live_ws(1) [OF by_links(3)] connect by force
  then obtain w0 where "workspace_box u = Some w0" using connect by blast
  then show ?case
    using connect createConnection_ok [of u s e conn w0] unfolding fst_wires by (metis option.inject option.simps(3))
next
  case (disconnect u conn s e u')
  then obtain l where l: "l \<in> links u" "l_id l = conn" "l_src l = s" "l_dst l = e" by (auto simp: wires_iff)
  then show ?case
    using disconnect local_link [of u l] removeConnection_load_ok [of u l] by (metis option.inject option.simps(3))
next
  case (disconnect_far u l c u')
  have "workspace_boxes u \<noteq> []" using live_ws(1) [OF by_links(3), of u "l_src l"] by_links(4) disconnect_far by force
  then obtain w0 where "workspace_box u = Some w0" using disconnect_far by blast
  then show ?case
    using disconnect_far deleteConnection_load_ok [of u l c w0] by (metis option.inject option.simps(3))
next
  case (delete_reactor u a u')
  then show ?case using deleteReactorFromUI_ok [of u a] by (metis option.inject option.simps(3))
next
  case (delete_workspace u w u')
  then show ?case using deleteWorkspaceFromUI_ok [of u w] by (metis option.inject option.simps(3))
qed

lemmas canvas_graph = canvas_inv [THEN conjunct1]

lemma canvas_selected: "canvas u \<Longrightarrow> a \<in> set (live u) \<Longrightarrow> \<exists>w. workspace_box u = Some w"
  using canvas_inv [of u] live_ws(1) [OF by_links(3), of u a] by (cases "workspace_boxes u") auto

section \<open>Effects on the wires\<close>

lemma wires_insert: "links u' = insert l (links u) \<Longrightarrow> wires u' = insert (l_id l, l_src l, l_dst l) (wires u)"
  by (simp add: wires_def)

lemma wires_remove:
  assumes "graph_inv u" "l \<in> links u" "links u' = links u - {l}"
  shows "wires u' = wires u - {(l_id l, l_src l, l_dst l)}"
  using same_id [OF by_links(1) [OF assms(1)]] assms(2,3) by (auto simp: wires_def)

lemma wires_touching:
  "links u' = links u - touching a (links u) \<Longrightarrow> wires u' = {x \<in> wires u. fst (snd x) \<noteq> a \<and> snd (snd x) \<noteq> a}"
  by (auto simp: wires_def touching_def)

lemma wires_touching_any:
  "links u' = links u - touching_any as (links u) \<Longrightarrow>
   wires u' = {x \<in> wires u. fst (snd x) \<notin> set as \<and> snd (snd x) \<notin> set as}"
  by (auto simp: wires_def touching_any_def)

lemma links_of_entries:
  assumes "graph_inv u" "a \<in> set (live u)"
  shows "x \<in> set (outs u a) \<longleftrightarrow> (\<exists>l\<in>links u. l_src l = a \<and> x = out_entry l)"
    "y \<in> set (ins u a) \<longleftrightarrow> (\<exists>l\<in>links u. l_dst l = a \<and> y = in_entry l)"
  using by_links(2) [OF assms(1)] assms(2) by (auto simp: lists_ok_def)

section \<open>Properties\<close>



lemma connect_ok:
  assumes "canvas u" "s \<in> set (live u)" "e \<in> set (live u)" "conn \<notin> fst ` wires u"
    and "ws_of u s = ws_of u e \<longrightarrow> workspace_box u = Some (ws_of u s)"
  shows "\<exists>u'. createConnection s e conn u = Some u' \<and> canvas u' \<and> wires u' = insert (conn, s, e) (wires u) \<and>
     live u' = live u \<and> workspace_box u' = workspace_box u \<and> obj_get (connections_by_id u') conn = Some (s, e) \<and>
     workspace_boxes u' = workspace_boxes u \<and> (\<forall>a. ws_of u' a = ws_of u a)"
proof -
  obtain w0 where w0: "workspace_box u = Some w0" using canvas_selected assms(1,2) by blast
  have sel: "ws_of u s = ws_of u e \<Longrightarrow> w0 = ws_of u s" using assms(5) w0 by simp
  obtain u' l where u': "createConnection s e conn u = Some u'" "links u' = insert l (links u)" "l_id l = conn"
    "l_src l = s" "l_dst l = e" "live u' = live u" "workspace_box u' = workspace_box u"
    "obj_get (connections_by_id u') conn = Some (s, e)" "workspace_boxes u' = workspace_boxes u" "\<forall>a. ws_of u' a = ws_of u a"
    by (rule createConnection_ok [OF canvas_graph [OF assms(1)] assms(2,3) assms(4) [unfolded fst_wires] w0 sel])
  show ?thesis
    using canvas.connect [OF assms u'(1)] wires_insert [OF u'(2)] u' by blast
qed

text \<open>
  C6: connecting two reactors (inside the selected workspace, or across any two) succeeds,
  adds exactly that connection, and keeps the selected tab.
\<close>

theorem createConnection_adds_one:
  assumes "canvas u" "s \<in> set (live u)" "e \<in> set (live u)" "conn \<notin> fst ` wires u"
    and "ws_of u s = ws_of u e \<longrightarrow> workspace_box u = Some (ws_of u s)"
  shows "\<exists>u'. createConnection s e conn u = Some u' \<and> canvas u' \<and> wires u' = insert (conn, s, e) (wires u) \<and>
     live u' = live u \<and> workspace_box u' = workspace_box u \<and> obj_get (connections_by_id u') conn = Some (s, e) \<and>
     workspace_boxes u' = workspace_boxes u \<and> (\<forall>a. ws_of u' a = ws_of u a)"
  using assms by (rule connect_ok)

text \<open>
  C1: with its workspace selected, deleting a reactor removes it, every connection that starts
  or ends at it (whichever workspaces they cross) and nothing else.
\<close>

theorem deleteReactor_removes_its_connections:
  assumes "canvas u" "a \<in> set (live u)" "workspace_box u = Some (ws_of u a)"
  shows "\<exists>u'. deleteReactorFromUI a u = Some u' \<and> canvas u' \<and> live u' = filter (\<lambda>b. b \<noteq> a) (live u) \<and>
     wires u' = {x \<in> wires u. fst (snd x) \<noteq> a \<and> snd (snd x) \<noteq> a} \<and> workspace_box u' = workspace_box u"
proof -
  obtain u' where u': "deleteReactorFromUI a u = Some u'" "links u' = links u - touching a (links u)"
    "live u' = filter (\<lambda>b. b \<noteq> a) (live u)" "workspace_box u' = workspace_box u"
    by (rule deleteReactorFromUI_ok [OF canvas_graph [OF assms(1)] assms(2,3)])
  show ?thesis using canvas.delete_reactor [OF assms u'(1)] wires_touching [OF u'(2)] u' by blast
qed

text \<open>
  C7: deleting the selected workspace removes its reactors with all their connections, also the
  far ends in other workspaces, and selects the first workspace that is left.
\<close>

theorem deleteWorkspace_removes_its_reactors:
  assumes "canvas u" "w \<in> set (workspace_boxes u)" "workspace_box u = Some w"
  shows "\<exists>u'. deleteWorkspaceFromUI w u = Some u' \<and> canvas u' \<and>
     workspace_boxes u' = filter (\<lambda>b. b \<noteq> w) (workspace_boxes u) \<and>
     live u' = filter (\<lambda>b. ws_of u b \<noteq> w) (live u) \<and>
     wires u' = {x \<in> wires u. ws_of u (fst (snd x)) \<noteq> w \<and> ws_of u (snd (snd x)) \<noteq> w} \<and>
     (workspace_boxes u' \<noteq> [] \<longrightarrow> workspace_box u' = Some (hd (workspace_boxes u')))"
proof -
  have inv: "graph_inv u" by (rule canvas_graph [OF assms(1)])
  note tree = by_links(3) [OF inv]
  have mem: "a \<in> set (wo_reactors (u_wobj u w)) \<longleftrightarrow> ws_of u a = w" if "a \<in> set (live u)" for a
    using tree assms(2) live_ws(2) [OF tree that] by (auto simp: tree_inv_def)
  obtain u' where u': "deleteWorkspaceFromUI w u = Some u'"
    "links u' = links u - touching_any (wo_reactors (u_wobj u w)) (links u)"
    "live u' = filter (\<lambda>b. b \<notin> set (wo_reactors (u_wobj u w))) (live u)"
    "workspace_boxes u' = filter (\<lambda>b. b \<noteq> w) (workspace_boxes u)"
    "workspace_boxes u' \<noteq> [] \<longrightarrow> workspace_box u' = Some (hd (workspace_boxes u'))"
    by (rule deleteWorkspaceFromUI_ok [OF inv assms(2,3)])
  have "live u' = filter (\<lambda>b. ws_of u b \<noteq> w) (live u)"
    unfolding u'(3) by (rule filter_cong) (simp_all add: mem)
  moreover have "wires u' = {x \<in> wires u. ws_of u (fst (snd x)) \<noteq> w \<and> ws_of u (snd (snd x)) \<noteq> w}"
    unfolding wires_touching_any [OF u'(2)] using mem by_links(4,5) [OF inv] by (auto simp: wires_def)
  ultimately show ?thesis using canvas.delete_workspace [OF assms u'(1)] u' by blast
qed


text \<open>
  Deleting a reactor while another workspace's tab is selected fails as soon as the reactor
  has a connection inside its own workspace: the line is looked for in the selected tab, the
  DOM throws, and the clean-up stops half way. (The menu of a workspace's tab button offers the
  deletion of that workspace whichever tab is selected.)
\<close>

theorem deleting_in_the_wrong_tab_fails:
  assumes "canvas u" "(conn, s, e) \<in> wires u" "ws_of u s = ws_of u e" "a = s \<or> a = e"
    and "workspace_box u = Some w" "w \<in> set (workspace_boxes u)" "w \<noteq> ws_of u a"
  shows "deleteReactorFromUI a u = None"
proof -
  have inv: "graph_inv u" by (rule canvas_graph [OF assms(1)])
  obtain l where l: "l \<in> links u" "l_src l = s" "l_dst l = e" using assms(2) by (auto simp: wires_iff)
  have "l \<in> touching a (links u)" using l assms(4) by (auto simp: touching_def)
  moreover have "l_cwc l = None" using local_link [OF inv l(1)] l assms(3) by simp
  moreover have "a \<in> set (live u)" using by_links(4,5) [OF inv l(1)] l assms(4) by auto
  ultimately show ?thesis using deleteReactorFromUI_wrong_tab [OF inv] assms(5-7) by blast
qed

text \<open>
  The index of reactors is exact: an identifier is bound to a reactor just when that reactor
  is on the canvas, and to no other reactor.
\<close>

theorem reactor_index_exact:
  assumes "canvas u"
  shows "obj_get (reactors_by_id u) i = Some a \<longleftrightarrow> a \<in> set (live u) \<and> ro_id (u_robj u a) = i"
proof -
  have tree: "tree_inv u" by (rule by_links(3) [OF canvas_graph [OF assms]])
  then have "snd p \<in> set (live u) \<and> ro_id (u_robj u (snd p)) = fst p" if "p \<in> set (reactors_by_id u)" for p
    using that by (simp add: tree_inv_def)
  from this [OF obj_get_in_set, of i a] tree show ?thesis by (auto simp: tree_inv_def)
qed

lemma deleteInputRow_load_ok:
  assumes inv: "graph_inv u" and a: "a \<in> set (live u)" and i: "i < length (ins u a)" and sel: "workspace_box u = Some (ws_of u a)"
  shows "\<exists>u'. deleteInputRow_load a i (ins u a ! i) u = Some u' \<and>
      wires u' = wires u - {(ce_id (ins u a ! i), ce_peer (ins u a ! i), a)} \<and> workspace_box u' = workspace_box u"
proof -
  obtain l where l: "l \<in> links u" "l_dst l = a" "ins u a ! i = in_entry l"
    using links_of_entries(2) [OF inv a] nth_mem [OF i] by metis
  note e = link_entries [OF inv l(1)]
  have loc: "l_cwc l = None \<Longrightarrow> ws_of u a = ws_of u (l_src l)" using local_link [OF inv l(1)] l(2) by simp
  define u1 where "u1 = upd_robj (l_src l) (\<lambda>r. r\<lparr>ro_outputs := splice_first (\<lambda>e. ce_id e = l_id l) (ro_outputs r)\<rparr>)
         (upd_robj (l_dst l) (\<lambda>r. r\<lparr>ro_inputs := splice1 i (ro_inputs r)\<rparr>) u)"
  have sp: "splice1 i (ins u (l_dst l)) = filter (\<lambda>e. ce_id e \<noteq> l_id l) (ins u (l_dst l))"
    using splice1_nth_distinct [OF e(4), of i] i l(2,3) by simp
  obtain u' where u': "drop_line (in_entry l) u1 = Some u'" "graph_inv u'" "links u' = links u - {l}" "live u' = live u"
    "workspace_box u' = workspace_box u"
    by (rule drop_link_ok [OF inv l(1) disjI1 [OF refl] sel loc u1_def])
      (auto simp: u1_def upd_robj_def sp splice_first_distinct [OF e(3)])
  then show ?thesis
    using wires_remove [OF inv l(1) u'(3)] l(2,3) by (simp add: deleteInputRow_load_def u1_def)
qed

lemma deleteOutputRow_load_ok:
  assumes inv: "graph_inv u" and a: "a \<in> set (live u)" and i: "i < length (outs u a)" and sel: "workspace_box u = Some (ws_of u a)"
  shows "\<exists>u'. deleteOutputRow_load a i (outs u a ! i) u = Some u' \<and>
      wires u' = wires u - {(ce_id (outs u a ! i), a, ce_peer (outs u a ! i))} \<and> workspace_box u' = workspace_box u"
proof -
  obtain l where l: "l \<in> links u" "l_src l = a" "outs u a ! i = out_entry l"
    using links_of_entries(1) [OF inv a] nth_mem [OF i] by metis
  note e = link_entries [OF inv l(1)]
  have loc: "l_cwc l = None \<Longrightarrow> ws_of u a = ws_of u (l_src l)" using l(2) by simp
  define u1 where "u1 = upd_robj (l_dst l) (\<lambda>r. r\<lparr>ro_inputs := splice_first (\<lambda>e. ce_id e = l_id l) (ro_inputs r)\<rparr>)
         (upd_robj (l_src l) (\<lambda>r. r\<lparr>ro_outputs := splice1 i (ro_outputs r)\<rparr>) u)"
  have sp: "splice1 i (outs u (l_src l)) = filter (\<lambda>e. ce_id e \<noteq> l_id l) (outs u (l_src l))"
    using splice1_nth_distinct [OF e(3), of i] i l(2,3) by simp
  obtain u' where u': "drop_line (out_entry l) u1 = Some u'" "graph_inv u'" "links u' = links u - {l}" "live u' = live u"
    "workspace_box u' = workspace_box u"
    by (rule drop_link_ok [OF inv l(1) disjI2 [OF refl] sel loc u1_def])
      (auto simp: u1_def upd_robj_def sp splice_first_distinct [OF e(4)])
  then show ?thesis
    using wires_remove [OF inv l(1) u'(3)] l(2,3) by (simp add: deleteOutputRow_load_def u1_def)
qed

text \<open>
  The Delete cell of row \<open>i\<close> of a reactor's connections dialog removes the connection shown
  in that row and no other, for inputs and for outputs.
\<close>

theorem dialog_row_deletes_its_connection:
  assumes "canvas u" "a \<in> set (live u)" "workspace_box u = Some (ws_of u a)"
  shows "(\<forall>i<length (ins u a). \<exists>u'. deleteInputRow_load a i (ins u a ! i) u = Some u' \<and>
      wires u' = wires u - {(ce_id (ins u a ! i), ce_peer (ins u a ! i), a)} \<and> workspace_box u' = workspace_box u) \<and>
    (\<forall>i<length (outs u a). \<exists>u'. deleteOutputRow_load a i (outs u a ! i) u = Some u' \<and>
      wires u' = wires u - {(ce_id (outs u a ! i), a, ce_peer (outs u a ! i))} \<and> workspace_box u' = workspace_box u)"
  using deleteInputRow_load_ok [OF canvas_graph [OF assms(1)] assms(2) _ assms(3)]
    deleteOutputRow_load_ok [OF canvas_graph [OF assms(1)] assms(2) _ assms(3)] by blast

section \<open>A concrete canvas\<close>

text \<open>Two workspaces, two reactors in the first and one in the second; the second tab is selected, then the first.\<close>

definition demo_config :: "string \<Rightarrow> string \<Rightarrow> jsval jsobj" where
  "demo_config rid wid = [(''@id'', JStr rid), (''Workspace'', JStr wid), (''X'', JNum 100), (''Y'', JNum 100)]"

definition demo :: ui where
  "demo = selectChild 0
     (createReactorInConfiguredWorkspace (demo_config ''r3'' ''w2'')
     (createReactorInConfiguredWorkspace (demo_config ''r2'' ''w1'')
     (createReactorInConfiguredWorkspace (demo_config ''r1'' ''w1'')
       (addWorkspace ''w2'' ''Two'' (addWorkspace ''w1'' ''One'' empty_ui)))))"

lemmas demo_defs = demo_def empty_ui_def addWorkspace_def createReactorInConfiguredWorkspace_def selectChild_def
  upd_wobj_def demo_config_def config_id_def Let_def

lemma demo_canvas: "canvas demo"
  unfolding demo_def
  by (rule canvas.intros canvas.add_reactor | simp add: demo_defs obj_has_def)+

lemma demo_facts:
  "live demo = [2, 3, 4]" "links demo = {}" "wires demo = {}" "workspace_box demo = Some 0"
  "workspace_boxes demo = [0, 1]" "ws_of demo 2 = 0" "ws_of demo 3 = 0" "ws_of demo 4 = 1"
  by (simp_all add: live_def links_def wires_def demo_defs)

text \<open>The same with the connections \<open>c1\<close> inside the first workspace and \<open>c2\<close> into the second.\<close>

lemma demo_connected:
  obtains u1 u2 where "createConnection 2 3 ''c1'' demo = Some u1" "createConnection 3 4 ''c2'' u1 = Some u2"
    "canvas u2" "wires u2 = {(''c1'', 2, 3), (''c2'', 3, 4)}" "live u2 = [2, 3, 4]" "workspace_box u2 = Some 0"
    "workspace_boxes u2 = [0, 1]" "ws_of u2 2 = 0" "ws_of u2 3 = 0" "ws_of u2 4 = 1" "canvas u1" "wires u1 = {(''c1'', 2, 3)}"
proof -
  have "\<exists>u'. createConnection 2 3 ''c1'' demo = Some u' \<and> canvas u' \<and> wires u' = insert (''c1'', 2, 3) (wires demo) \<and>
     live u' = live demo \<and> workspace_box u' = workspace_box demo \<and> obj_get (connections_by_id u') ''c1'' = Some (2, 3) \<and>
     workspace_boxes u' = workspace_boxes demo \<and> (\<forall>a. ws_of u' a = ws_of demo a)"
    by (rule connect_ok) (simp_all add: demo_canvas demo_facts)
  then obtain u1 where u1: "createConnection 2 3 ''c1'' demo = Some u1" "canvas u1" "wires u1 = {(''c1'', 2, 3)}"
    "live u1 = [2, 3, 4]" "workspace_box u1 = Some 0" "workspace_boxes u1 = [0, 1]" "\<forall>a. ws_of u1 a = ws_of demo a"
    by (auto simp: demo_facts)
  have "\<exists>u'. createConnection 3 4 ''c2'' u1 = Some u' \<and> canvas u' \<and> wires u' = insert (''c2'', 3, 4) (wires u1) \<and>
     live u' = live u1 \<and> workspace_box u' = workspace_box u1 \<and> obj_get (connections_by_id u') ''c2'' = Some (3, 4) \<and>
     workspace_boxes u' = workspace_boxes u1 \<and> (\<forall>a. ws_of u' a = ws_of u1 a)"
    by (rule connect_ok) (simp_all add: u1 demo_facts)
  then show thesis using that [OF u1(1)] u1 by (auto simp: demo_facts insert_commute)
qed



theorem createConnection_adds_one_witness:
  "\<exists>u1. createConnection 2 3 ''c1'' demo = Some u1 \<and> wires u1 = {(''c1'', 2, 3)}"
  using createConnection_adds_one [OF demo_canvas, of 2 3 "''c1''"] by (auto simp: demo_facts)

theorem deleteReactor_removes_its_connections_witness:
  "\<exists>u1 u2 u3. createConnection 2 3 ''c1'' demo = Some u1 \<and> createConnection 3 4 ''c2'' u1 = Some u2 \<and>
     deleteReactorFromUI 3 u2 = Some u3 \<and> wires u3 = {} \<and> live u3 = [2, 4]"
proof (rule demo_connected)
  fix u1 u2 assume *: "createConnection 2 3 ''c1'' demo = Some u1" "createConnection 3 4 ''c2'' u1 = Some u2"
    "canvas u2" "wires u2 = {(''c1'', 2, 3), (''c2'', 3, 4)}" "live u2 = [2, 3, 4]" "workspace_box u2 = Some 0" "ws_of u2 3 = 0"
  obtain u3 where "deleteReactorFromUI 3 u2 = Some u3" "live u3 = filter (\<lambda>b. b \<noteq> 3) (live u2)"
    "wires u3 = {x \<in> wires u2. fst (snd x) \<noteq> 3 \<and> snd (snd x) \<noteq> 3}"
    using deleteReactor_removes_its_connections [OF *(3), of 3] * by auto
  with * show ?thesis by auto
qed

theorem deleteWorkspace_removes_its_reactors_witness:
  "\<exists>u1 u2 u3. createConnection 2 3 ''c1'' demo = Some u1 \<and> createConnection 3 4 ''c2'' u1 = Some u2 \<and>
     deleteWorkspaceFromUI 0 u2 = Some u3 \<and> wires u3 = {} \<and> live u3 = [4] \<and> workspace_box u3 = Some 1"
proof (rule demo_connected)
  fix u1 u2 assume *: "createConnection 2 3 ''c1'' demo = Some u1" "createConnection 3 4 ''c2'' u1 = Some u2"
    "canvas u2" "wires u2 = {(''c1'', 2, 3), (''c2'', 3, 4)}" "live u2 = [2, 3, 4]" "workspace_box u2 = Some 0"
    "workspace_boxes u2 = [0, 1]" "ws_of u2 2 = 0" "ws_of u2 3 = 0" "ws_of u2 4 = 1"
  obtain u3 where "deleteWorkspaceFromUI 0 u2 = Some u3" "workspace_boxes u3 = [1]"
    "live u3 = filter (\<lambda>b. ws_of u2 b \<noteq> 0) (live u2)"
    "wires u3 = {x \<in> wires u2. ws_of u2 (fst (snd x)) \<noteq> 0 \<and> ws_of u2 (snd (snd x)) \<noteq> 0}" "workspace_box u3 = Some 1"
    using deleteWorkspace_removes_its_reactors [OF *(3), of 0] * by auto
  with * show ?thesis by auto
qed


theorem deleting_in_the_wrong_tab_fails_witness:
  "\<exists>u1 u2. createConnection 2 3 ''c1'' demo = Some u1 \<and> createConnection 3 4 ''c2'' u1 = Some u2 \<and>
     deleteReactorFromUI 2 (selectChild 1 u2) = None"
proof (rule demo_connected)
  fix u1 u2 assume *: "createConnection 2 3 ''c1'' demo = Some u1" "createConnection 3 4 ''c2'' u1 = Some u2"
    "canvas u2" "wires u2 = {(''c1'', 2, 3), (''c2'', 3, 4)}" "workspace_boxes u2 = [0, 1]" "ws_of u2 2 = 0" "ws_of u2 3 = 0"
  have s: "ws_of (selectChild k u2) a = ws_of u2 a" "workspace_box (selectChild k u2) = Some k"
    "workspace_boxes (selectChild k u2) = workspace_boxes u2" "wires (selectChild k u2) = wires u2" for a k
    by (simp_all add: wires_def) (simp_all add: selectChild_def)
  have "canvas (selectChild 1 u2)" using canvas.select [OF *(3), of 1] *(5) by simp
  then have "deleteReactorFromUI 2 (selectChild 1 u2) = None"
    using deleting_in_the_wrong_tab_fails [of "selectChild 1 u2" "''c1''" 2 3 2 1] * by (simp add: s)
  with * show ?thesis by blast
qed

theorem reactor_index_exact_witness: "obj_get (reactors_by_id demo) ''r2'' = Some 3 \<and> 3 \<in> set (live demo)"
  using reactor_index_exact [OF demo_canvas, of "''r2''" 3] by (simp add: demo_facts) (simp add: demo_defs)

theorem dialog_row_deletes_its_connection_witness:
  "\<exists>u1 u2. createConnection 2 3 ''c1'' demo = Some u1 \<and> deleteInputRow_load 3 0 (ins u1 3 ! 0) u1 = Some u2 \<and> wires u2 = {}"
proof (rule demo_connected)
  fix u1 assume *: "createConnection 2 3 ''c1'' demo = Some u1" "canvas u1" "wires u1 = {(''c1'', 2, 3)}"
  obtain v where "createConnection 2 3 ''c1'' demo = Some v" "workspace_box v = workspace_box demo" "\<forall>a. ws_of v a = ws_of demo a"
    "live v = live demo"
    using connect_ok [OF demo_canvas, of 2 3 "''c1''"] by (auto simp: demo_facts)
  then have u1: "workspace_box u1 = Some 0" "ws_of u1 3 = 0" "3 \<in> set (live u1)" using *(1) by (auto simp: demo_facts)
  obtain l where l: "l \<in> links u1" "l_id l = ''c1''" "l_src l = 2" "l_dst l = 3" using *(3) by (metis insertI1 wires_iff)
  note inv = canvas_graph [OF *(2)]
  have "in_entry l \<in> set (ins u1 3)" using link_entries(2) [OF inv l(1)] l by simp
  then have len: "0 < length (ins u1 3)" by (cases "ins u1 3") auto
  then obtain k where k: "k \<in> links u1" "l_dst k = 3" "ins u1 3 ! 0 = in_entry k"
    using links_of_entries(2) [OF inv u1(3)] nth_mem by metis
  then have "(l_id k, l_src k, l_dst k) \<in> wires u1" by (auto simp: wires_def)
  then have "ce_id (ins u1 3 ! 0) = ''c1''" "ce_peer (ins u1 3 ! 0) = 2" using k *(3) by auto
  with dialog_row_deletes_its_connection [OF *(2) u1(3)] len u1 *(1,3) show ?thesis by auto
qed

end
