(* ===== verification/Pion_Wizard.thy ===== *)
theory Pion_Wizard
  imports Pion_Xml
begin

text \<open>
  The setup wizard of \<open>scripts/widgets/Wizard.js\<close>, up to the point where the configuration is
  built: its state (\<open>pion.wizard\<close> and the form fields of its panes), the functions that
  prefill a pane from cookies (\<open>prepare...\<close>), the functions that check a pane when the user
  presses Next (\<open>check...\<close>), navigation, and the cookies that are saved from the existing
  reactors when the wizard is started again.

  A form field is found by its widget id in \<open>wz_form\<close>; a cookie by its name in \<open>wz_jar\<close>. The
  order of the panes and their Back buttons are those of \<open>index.html\<close>.
\<close>

section \<open>State\<close>

record wizard =
  wz_edition :: string
  wz_hosts :: "string list"
  wz_cookies :: "(string \<times> bool) list"     \<comment> \<open>\<open>name\<close>, \<open>is_visitor_cookie\<close>\<close>
  wz_provider :: string
  wz_label :: string
  wz_account :: "string jsobj"               \<comment> \<open>\<open>omniture_host\<close>, \<open>webtrends_account_id\<close>, ...\<close>
  wz_strip :: string
  wz_devices :: "string list"
  wz_device_found :: bool
  wz_ports :: "string list"
  wz_keys :: "string list"
  wz_dashboards :: "string list"
  wz_max_disk :: jsval
  wz_pane :: string
  wz_return :: "string jsobj"                \<comment> \<open>\<open>returnPane\<close> of each pane\<close>
  wz_form :: "jsval jsobj"
  wz_jar :: "string jsobj"
  wz_ready :: "string list"                  \<comment> \<open>panes already prefilled\<close>

text \<open>What a pass function returns: true, false or a message to show.\<close>

datatype check = Pass | Stay | Say string

definition field_text :: "wizard \<Rightarrow> string \<Rightarrow> string" where
  "field_text w i = (case obj_get (wz_form w) i of Some v \<Rightarrow> js_string v | None \<Rightarrow> [])"

definition field_checked :: "wizard \<Rightarrow> string \<Rightarrow> bool" where
  "field_checked w i = (case obj_get (wz_form w) i of Some v \<Rightarrow> truthy v | None \<Rightarrow> False)"

definition field_list :: "wizard \<Rightarrow> string \<Rightarrow> string list" where
  "field_list w i = (case obj_get (wz_form w) i of Some (JArr xs) \<Rightarrow> map js_string xs | _ \<Rightarrow> [])"

definition set_field :: "string \<Rightarrow> jsval \<Rightarrow> wizard \<Rightarrow> wizard" where
  "set_field i v w = w\<lparr>wz_form := obj_put (wz_form w) i v\<rparr>"

text \<open>\<open>dojo.cookie(name)\<close> as a condition.\<close>

definition cookie :: "wizard \<Rightarrow> string \<Rightarrow> string option" where
  "cookie w n = (case obj_get (wz_jar w) n of Some v \<Rightarrow> if v = [] then None else Some v | None \<Rightarrow> None)"

definition set_account :: "string \<Rightarrow> string \<Rightarrow> wizard \<Rightarrow> wizard" where
  "set_account k v w = w\<lparr>wz_account := obj_put (wz_account w) k v\<rparr>"

section \<open>Prefilling the panes\<close>

text \<open>A pane is prefilled the first time it is shown.\<close>

definition once :: "string \<Rightarrow> (wizard \<Rightarrow> wizard) \<Rightarrow> wizard \<Rightarrow> wizard" where
  "once pane f w = (if pane \<in> set (wz_ready w) then w else (f w)\<lparr>wz_ready := pane # wz_ready w\<rparr>)"

definition fill :: "string \<Rightarrow> string \<Rightarrow> wizard \<Rightarrow> wizard" where
  "fill c i w = (case cookie w c of Some v \<Rightarrow> set_field i (JStr v) w | None \<Rightarrow> w)"

definition fill_check :: "string \<Rightarrow> string \<Rightarrow> wizard \<Rightarrow> wizard" where
  "fill_check c i w = (case cookie w c of Some v \<Rightarrow> set_field i (JBool (v = ''true'')) w | None \<Rightarrow> w)"

definition prepareHostPane :: "wizard \<Rightarrow> wizard" where
  "prepareHostPane = once ''host_pane'' (fill ''host_suffixes'' ''host_suffixes'')"

definition prepareCookiePane :: "wizard \<Rightarrow> wizard" where
  "prepareCookiePane =
     once ''cookie_pane'' (fill ''session_cookies'' ''session_cookies'' \<circ> fill ''visitor_cookies'' ''visitor_cookies'')"

definition prepareAnalyticsProviderPane :: "wizard \<Rightarrow> wizard" where
  "prepareAnalyticsProviderPane = once ''analytics_provider_pane'' (fill ''analytics_provider'' ''analytics_provider'')"

definition prepareOmniturePane :: "wizard \<Rightarrow> wizard" where
  "prepareOmniturePane =
     once ''omniture_pane'' (fill_check ''strip_client_ip'' ''omniture_strip_cip_checkbox'' \<circ>
       fill ''omniture_report_suite'' ''omniture_report_suite'' \<circ> fill ''omniture_host'' ''omniture_host'')"

definition prepareWebtrendsPane :: "wizard \<Rightarrow> wizard" where
  "prepareWebtrendsPane =
     once ''webtrends_pane'' (fill_check ''strip_client_ip'' ''webtrends_strip_cip_checkbox'' \<circ>
       fill ''webtrends_host'' ''webtrends_host'' \<circ> fill ''webtrends_account_id'' ''webtrends_account_id'')"

definition prepareGooglePane :: "wizard \<Rightarrow> wizard" where
  "prepareGooglePane =
     once ''google_pane'' (fill_check ''strip_client_ip'' ''google_strip_cip_checkbox'' \<circ>
       fill ''google_account_id'' ''google_account_id'')"

definition prepareUnicaPane :: "wizard \<Rightarrow> wizard" where
  "prepareUnicaPane =
     once ''unica_pane'' (fill_check ''strip_client_ip'' ''unica_strip_cip_checkbox'' \<circ>
       fill ''unica_host'' ''unica_host'' \<circ> fill ''unica_account_id'' ''unica_account_id'')"

definition prepareReplaySetupPane :: "wizard \<Rightarrow> wizard" where
  "prepareReplaySetupPane = once ''replay_setup_pane'' (fill ''max_disk_usage'' ''max_disk_usage'')"

definition prepareDashboardSelectionPane :: "wizard \<Rightarrow> wizard" where
  "prepareDashboardSelectionPane =
     once ''dashboard_pane''
       (\<lambda>w. case obj_get (wz_jar w) ''sample_dashboards'' of
              Some v \<Rightarrow> set_field ''dashboard_check_boxes'' (JArr (map JStr (split_char (CHR '','') v))) w
            | None \<Rightarrow> w)"

definition prepareLicensePane :: "wizard \<Rightarrow> wizard" where
  "prepareLicensePane = set_field ''license_accept_checkbox'' (JBool False)"

text \<open>
  The capture devices are asked from a temporary reactor. \<open>device_item\<close> is one answer: a check box
  for the device, checked if the device was selected before.
\<close>

definition dummy_sniffer :: "string \<Rightarrow> string" where
  "dummy_sniffer default_id =
     ''<PionConfig><Reactor><Plugin>SnifferReactor</Plugin><Workspace>dummy</Workspace><Protocol>'' @ default_id @
     ''</Protocol></Reactor></PionConfig>''"

definition device_item :: "string \<Rightarrow> wizard \<Rightarrow> wizard" where
  "device_item device_name w =
     (let selected = (case cookie w ''selected_interfaces'' of Some v \<Rightarrow> split_char (CHR '','') v | None \<Rightarrow> []);
          boxes = field_list w ''device_check_boxes''
      in (set_field ''device_check_boxes''
            (JArr (map JStr (if device_name \<in> set selected then boxes @ [device_name] else boxes))) w)\<lparr>wz_device_found := True\<rparr>)"

definition devices_complete :: "string \<Rightarrow> wizard \<Rightarrow> string \<times> wizard" where
  "devices_complete dummy_id w =
     (''/config/reactors/'' @ dummy_id, w\<lparr>wz_ready := ''capture_devices_pane'' # wz_ready w\<rparr>)"

text \<open>The \<open>init\<close> functions that \<open>start\<close> gives the panes; the capture devices are asked for separately.\<close>

definition init_pane :: "string \<Rightarrow> wizard \<Rightarrow> wizard" where
  "init_pane pane =
     (if pane = ''license_acceptance_pane'' then prepareLicensePane
      else if pane = ''host_pane'' then prepareHostPane
      else if pane = ''cookie_pane'' then prepareCookiePane
      else if pane = ''analytics_provider_pane'' then prepareAnalyticsProviderPane
      else if pane = ''omniture_pane'' then prepareOmniturePane
      else if pane = ''webtrends_pane'' then prepareWebtrendsPane
      else if pane = ''google_pane'' then prepareGooglePane
      else if pane = ''unica_pane'' then prepareUnicaPane
      else if pane = ''replay_setup_pane'' then prepareReplaySetupPane
      else if pane = ''dashboard_pane'' then prepareDashboardSelectionPane
      else id)"

section \<open>Navigation\<close>

definition pane_order :: "string list" where
  "pane_order = [''select_edition_pane'', ''license_key_pane'', ''(pane without id)'', ''license_acceptance_pane'', ''host_pane'',
     ''cookie_pane'', ''analytics_provider_pane'', ''omniture_pane'', ''webtrends_pane'', ''google_pane'',
     ''unica_pane'', ''capture_devices_pane'', ''port_configuration_pane'', ''ssl_key_pane'',
     ''replay_setup_pane'', ''dashboard_pane'', ''review_setup'']"

text \<open>The \<open>returnPane\<close> attributes of the Back buttons: for all editions, or for one.\<close>

definition prev_button :: "string \<Rightarrow> string option" where
  "prev_button pane =
     (if pane = ''license_acceptance_pane'' then Some ''select_edition_pane''
      else if pane \<in> set [''omniture_pane'', ''webtrends_pane'', ''google_pane'', ''unica_pane'', ''capture_devices_pane'']
      then Some ''analytics_provider_pane'' else None)"

definition prev_button_for :: "string \<Rightarrow> string \<Rightarrow> string option" where
  "prev_button_for edition pane =
     (if pane = ''dashboard_pane'' then
        (if edition = ''Replay'' then Some ''replay_setup_pane''
         else if edition = ''Lite'' \<or> edition = ''Enterprise'' then Some ''ssl_key_pane'' else None)
      else if pane = ''review_setup'' then
        (if edition = ''Lite'' then Some ''ssl_key_pane''
         else if edition = ''Enterprise'' \<or> edition = ''Replay'' then Some ''dashboard_pane'' else None)
      else None)"

definition set_return :: "string \<Rightarrow> string option \<Rightarrow> wizard \<Rightarrow> wizard" where
  "set_return pane r w =
     (case r of None \<Rightarrow> w | Some p \<Rightarrow> w\<lparr>wz_return := obj_put (wz_return w) pane p\<rparr>)"

text \<open>Selecting a pane, with the subscriber that \<open>start\<close> installs.\<close>

definition select_pane :: "string \<Rightarrow> wizard \<Rightarrow> wizard" where
  "select_pane pane w =
     init_pane pane
       (set_return pane (prev_button_for (wz_edition w) pane)
         (set_return pane (prev_button pane) (w\<lparr>wz_pane := pane\<rparr>)))"

fun previous_in :: "string list \<Rightarrow> string \<Rightarrow> string option" where
  "previous_in (a # b # ps) p = (if b = p then Some a else previous_in (b # ps) p)"
| "previous_in _ p = None"

fun next_in :: "string list \<Rightarrow> string \<Rightarrow> string option" where
  "next_in (a # b # ps) p = (if a = p then Some b else next_in (b # ps) p)"
| "next_in _ p = None"

definition wizard_back :: "wizard \<Rightarrow> wizard" where
  "wizard_back w =
     (case obj_get (wz_return w) (wz_pane w) of
        Some p \<Rightarrow> if p \<noteq> [] then select_pane p w
                  else (case previous_in pane_order (wz_pane w) of Some q \<Rightarrow> select_pane q w | None \<Rightarrow> w)
      | None \<Rightarrow> (case previous_in pane_order (wz_pane w) of Some q \<Rightarrow> select_pane q w | None \<Rightarrow> w))"

text \<open>The library's Next button: ask the pane's pass function, and go on when it says so.\<close>

definition forward :: "(wizard \<Rightarrow> check \<times> wizard) \<Rightarrow> wizard \<Rightarrow> check \<times> wizard" where
  "forward pass w =
     (case pass w of
        (Pass, w') \<Rightarrow> (Pass, case next_in pane_order (wz_pane w') of Some q \<Rightarrow> select_pane q w' | None \<Rightarrow> w')
      | r \<Rightarrow> r)"

section \<open>Checking the panes\<close>

definition checkLicenseAccepted :: "wizard \<Rightarrow> check" where
  "checkLicenseAccepted w =
     (if field_checked w ''license_accept_checkbox'' then Pass
      else Say ''You must agree to the license before continuing.'')"

definition getArrayFromCSVString :: "string \<Rightarrow> string list" where
  "getArrayFromCSVString csv_str = filter (\<lambda>s. s \<noteq> []) (map trim (split_char (CHR '','') csv_str))"

definition checkHosts :: "wizard \<Rightarrow> check \<times> wizard" where
  "checkHosts w =
     (let hosts = filter (\<lambda>s. s \<noteq> []) (map trim (split_char (CHR '','') (field_text w ''host_suffixes'')));
          w1 = w\<lparr>wz_hosts := hosts\<rparr>
      in if hosts = []
         then (Stay, select_pane ''analytics_provider_pane''
                       (w1\<lparr>wz_return := obj_put (wz_return w1) ''analytics_provider_pane'' ''host_pane''\<rparr>))
         else (Pass, w1))"

definition checkCookies :: "wizard \<Rightarrow> check \<times> wizard" where
  "checkCookies w =
     (Pass, w\<lparr>wz_cookies :=
        map (\<lambda>c. (c, True)) (getArrayFromCSVString (field_text w ''visitor_cookies'')) @
        map (\<lambda>c. (c, False)) (getArrayFromCSVString (field_text w ''session_cookies''))\<rparr>)"

definition checkAnalyticsProvider :: "wizard \<Rightarrow> check \<times> wizard" where
  "checkAnalyticsProvider w =
     (let p = field_text w ''analytics_provider'';
          w1 = w\<lparr>wz_provider := p\<rparr>;
          go = (\<lambda>pane l. (Stay, (select_pane pane w1)\<lparr>wz_label := l\<rparr>))
      in if p = ''Omniture'' then go ''omniture_pane'' ''Omniture Genesis''
         else if p = ''Webtrends'' then go ''webtrends_pane'' ''Webtrends Analytics''
         else if p = ''Google'' then go ''google_pane'' ''Google Analytics''
         else if p = ''Unica'' then go ''unica_pane'' ''Unica OnDemand''
         else go ''capture_devices_pane'' ''None'')"

definition skipAnalyticsProvider :: "wizard \<Rightarrow> check \<times> wizard" where
  "skipAnalyticsProvider w = (Stay, (select_pane ''capture_devices_pane'' (w\<lparr>wz_provider := []\<rparr>))\<lparr>wz_label := ''None''\<rparr>)"

definition strip_flag :: "wizard \<Rightarrow> string \<Rightarrow> string" where
  "strip_flag w i = (if field_checked w i then ''true'' else ''false'')"

definition checkOmnitureConfig :: "wizard \<Rightarrow> check \<times> wizard" where
  "checkOmnitureConfig w =
     (let h = trim (field_text w ''omniture_host''); s = trim (field_text w ''omniture_report_suite'');
          w1 = set_account ''omniture_report_suite'' s (set_account ''omniture_host'' h w)
      in if h = [] then (Say ''You must specify a Host.'', w1)
         else if s = [] then (Say ''You must specify a Report Suite.'', w1)
         else (Stay, select_pane ''capture_devices_pane'' (w1\<lparr>wz_strip := strip_flag w ''omniture_strip_cip_checkbox''\<rparr>)))"

definition checkWebtrendsConfig :: "wizard \<Rightarrow> check \<times> wizard" where
  "checkWebtrendsConfig w =
     (let a = trim (field_text w ''webtrends_account_id''); h = trim (field_text w ''webtrends_host'');
          w1 = set_account ''webtrends_host'' h (set_account ''webtrends_account_id'' a w)
      in if a = [] then (Say ''You must specify an Account ID.'', w1)
         else if h = [] then (Say ''You must specify a Host.'', w1)
         else (Stay, select_pane ''capture_devices_pane'' (w1\<lparr>wz_strip := strip_flag w ''webtrends_strip_cip_checkbox''\<rparr>)))"

definition checkGoogleConfig :: "wizard \<Rightarrow> check \<times> wizard" where
  "checkGoogleConfig w =
     (let a = trim (field_text w ''google_account_id''); w1 = set_account ''google_account_id'' a w
      in if a = [] then (Say ''You must specify an Account ID.'', w1)
         else (Stay, select_pane ''capture_devices_pane'' (w1\<lparr>wz_strip := strip_flag w ''google_strip_cip_checkbox''\<rparr>)))"

definition checkUnicaConfig :: "wizard \<Rightarrow> check \<times> wizard" where
  "checkUnicaConfig w =
     (let a = trim (field_text w ''unica_account_id''); h = trim (field_text w ''unica_host'');
          w1 = set_account ''unica_host'' h (set_account ''unica_account_id'' a w)
      in if a = [] then (Say ''You must specify a Site.'', w1)
         else if h = [] then (Say ''You must specify a Host.'', w1)
         else (Stay, select_pane ''capture_devices_pane'' (w1\<lparr>wz_strip := strip_flag w ''unica_strip_cip_checkbox''\<rparr>)))"

definition checkCaptureDevices :: "wizard \<Rightarrow> check \<times> wizard" where
  "checkCaptureDevices w =
     (if \<not> wz_device_found w then (Say ''Error: no capture devices found.'', w)
      else
        let w1 = w\<lparr>wz_devices := field_list w ''device_check_boxes''\<rparr>
        in if wz_devices w1 = [] then (Say ''You must select at least one device.'', w1) else (Pass, w1))"

definition checkPorts :: "wizard \<Rightarrow> check \<times> wizard" where
  "checkPorts w =
     (let w1 = w\<lparr>wz_ports := getArrayFromCSVString (field_text w ''ports'')\<rparr>
      in if wz_ports w1 = [] then (Say ''You must enter at least one port.'', w1) else (Pass, w1))"

text \<open>The keys come from the key store; the pane that follows depends on the edition.\<close>

definition checkSSLKeys :: "string list \<Rightarrow> wizard \<Rightarrow> check \<times> wizard" where
  "checkSSLKeys key_names w =
     (let w1 = w\<lparr>wz_keys := key_names\<rparr>;
          w2 = (if wz_edition w = ''Lite'' then select_pane ''review_setup'' w1
                else if wz_edition w = ''Enterprise'' then select_pane ''dashboard_pane'' (prepareDashboardSelectionPane w1)
                else w1)
      in (if wz_edition w = ''Replay'' then Pass else Stay, w2))"

text \<open>\<open>value < 10\<close> for the value of a number field: a number, or undefined when it is not valid.\<close>

fun below_10 :: "jsval \<Rightarrow> bool" where
  "below_10 (JNum n) = (n < 10)"
| "below_10 _ = False"

definition checkReplaySetup :: "wizard \<Rightarrow> check \<times> wizard" where
  "checkReplaySetup w =
     (let v = (case obj_get (wz_form w) ''max_disk_usage'' of Some x \<Rightarrow> x | None \<Rightarrow> JUndef)
      in if below_10 v then (Say ''Maximum disk usage must be at least 10 GB.'', w)
         else (Pass, prepareDashboardSelectionPane (w\<lparr>wz_max_disk := v\<rparr>)))"

definition checkDashboardSelection :: "wizard \<Rightarrow> check \<times> wizard" where
  "checkDashboardSelection w =
     (let ds = field_list w ''dashboard_check_boxes''
      in (Pass, w\<lparr>wz_dashboards := ds, wz_jar := obj_put (wz_jar w) ''sample_dashboards'' (join '','' ds)\<rparr>))"

section \<open>Lists in text fields\<close>

definition listable :: "string list \<Rightarrow> bool" where
  "listable xs = list_all (\<lambda>x. x \<noteq> [] \<and> CHR '','' \<notin> set x \<and> trim x = x) xs"

lemma trim_space [simp]: "trim (CHR '' '' # x) = trim x"
  by (simp add: trim_def is_space_def)

lemma split_join_sep:
  "list_all (\<lambda>x. CHR '','' \<notin> set x) (x # xs) \<Longrightarrow>
   split_char (CHR '','') (join '', '' (x # xs)) = x # map (Cons (CHR '' '')) xs"
proof (induction xs arbitrary: x)
  case (Cons y ys)
  then show ?case
    using split_char_append_sep [of "CHR '',''" x "CHR '' '' # join '', '' (y # ys)"] by simp
qed (simp add: split_char_plain)

lemma getArrayFromCSVString_join:
  assumes "listable xs"
  shows "getArrayFromCSVString (join '', '' xs) = xs"
proof (cases xs)
  case Nil
  then show ?thesis by (simp add: getArrayFromCSVString_def trim_def)
next
  case (Cons x ys)
  have "map trim (split_char (CHR '','') (join '', '' xs)) = xs"
    using assms split_join_sep [of x ys] Cons
    by (simp add: listable_def list_all_iff map_idI o_def)
  moreover have "filter (\<lambda>s. s \<noteq> []) xs = xs" using assms by (simp add: listable_def list_all_iff filter_id_conv)
  ultimately show ?thesis by (simp add: getArrayFromCSVString_def)
qed

lemma getArrayFromCSVString_listable: "listable (getArrayFromCSVString s)"
proof -
  have "CHR '','' \<notin> set (trim p)" if "p \<in> set (split_char (CHR '','') s)" for p
    using split_char_no_sep [OF that] set_trim [of p] by blast
  then show ?thesis by (auto simp: listable_def list_all_iff getArrayFromCSVString_def)
qed

section \<open>Moving between panes\<close>

lemma set_field_frame [simp]:
  "wz_pane (set_field i v w) = wz_pane w" "wz_return (set_field i v w) = wz_return w"
  "wz_edition (set_field i v w) = wz_edition w" "wz_jar (set_field i v w) = wz_jar w" "wz_hosts (set_field i v w) = wz_hosts w"
  by (simp_all add: set_field_def)

lemma fill_frame [simp]:
  "wz_pane (fill c i w) = wz_pane w" "wz_return (fill c i w) = wz_return w"
  "wz_edition (fill c i w) = wz_edition w" "wz_jar (fill c i w) = wz_jar w" "wz_hosts (fill c i w) = wz_hosts w"
  "wz_pane (fill_check c i w) = wz_pane w" "wz_return (fill_check c i w) = wz_return w"
  "wz_edition (fill_check c i w) = wz_edition w" "wz_jar (fill_check c i w) = wz_jar w" "wz_hosts (fill_check c i w) = wz_hosts w"
  by (simp_all add: fill_def fill_check_def split: option.splits)

lemma once_frame [simp]:
  "wz_pane (f w) = wz_pane w \<Longrightarrow> wz_pane (once p f w) = wz_pane w"
  "wz_return (f w) = wz_return w \<Longrightarrow> wz_return (once p f w) = wz_return w"
  "wz_edition (f w) = wz_edition w \<Longrightarrow> wz_edition (once p f w) = wz_edition w"
  "wz_jar (f w) = wz_jar w \<Longrightarrow> wz_jar (once p f w) = wz_jar w"
  "wz_hosts (f w) = wz_hosts w \<Longrightarrow> wz_hosts (once p f w) = wz_hosts w"
  by (simp_all add: once_def)

lemmas prepare_defs = prepareLicensePane_def prepareHostPane_def prepareCookiePane_def
  prepareAnalyticsProviderPane_def prepareOmniturePane_def prepareWebtrendsPane_def prepareGooglePane_def
  prepareUnicaPane_def prepareReplaySetupPane_def

lemma prepareDashboard_frame [simp]:
  "wz_pane (prepareDashboardSelectionPane w) = wz_pane w" "wz_return (prepareDashboardSelectionPane w) = wz_return w"
  "wz_edition (prepareDashboardSelectionPane w) = wz_edition w" "wz_jar (prepareDashboardSelectionPane w) = wz_jar w"
  "wz_hosts (prepareDashboardSelectionPane w) = wz_hosts w"
  by (simp_all add: prepareDashboardSelectionPane_def split: option.splits)

lemma init_pane_frame [simp]:
  "wz_pane (init_pane p w) = wz_pane w" "wz_return (init_pane p w) = wz_return w"
  "wz_edition (init_pane p w) = wz_edition w" "wz_jar (init_pane p w) = wz_jar w" "wz_hosts (init_pane p w) = wz_hosts w"
  by (simp_all add: init_pane_def prepare_defs)

lemma set_return_frame [simp]:
  "wz_pane (set_return p r w) = wz_pane w" "wz_edition (set_return p r w) = wz_edition w"
  "obj_get (wz_return (set_return p r w)) q = (if q = p \<and> r \<noteq> None then r else obj_get (wz_return w) q)"
  by (auto simp: set_return_def obj_get_put split: option.splits)

lemma select_pane_pane [simp]: "wz_pane (select_pane p w) = p"
  by (simp add: select_pane_def)

lemma select_pane_return:
  "prev_button q = None \<Longrightarrow> prev_button_for (wz_edition w) q = None \<Longrightarrow>
   obj_get (wz_return (select_pane p w)) q = obj_get (wz_return w) q"
  by (auto simp: select_pane_def)

lemma wizard_back_to: "obj_get (wz_return w) (wz_pane w) = Some p \<Longrightarrow> p \<noteq> [] \<Longrightarrow> wizard_back w = select_pane p w"
  by (simp add: wizard_back_def)

lemma forward_Pass: "pass w = (Pass, w') \<Longrightarrow> next_in pane_order (wz_pane w') = Some q \<Longrightarrow> forward pass w = (Pass, select_pane q w')"
  by (simp add: forward_def)

lemma analytics_button [simp]: "prev_button ''analytics_provider_pane'' = None"
    "prev_button_for e ''analytics_provider_pane'' = None"
  by (simp_all add: prev_button_def prev_button_for_def)

lemma checkHosts_hosts: "wz_hosts (snd (checkHosts w)) = getArrayFromCSVString (field_text w ''host_suffixes'')"
  by (simp add: checkHosts_def Let_def getArrayFromCSVString_def select_pane_def set_return_def)

section \<open>Properties\<close>

text \<open>
  Once the host pane has been left without any host, the Back button of the analytics pane
  leads to the host pane for good: also after hosts were entered and the user came through the
  cookie pane, which \<open>back\<close> then skips.
\<close>

theorem back_skips_the_cookie_pane:
  assumes "wz_pane w = ''host_pane''" "fst (checkHosts w) = Stay"
    and "getArrayFromCSVString hosts \<noteq> []"
  defines "w1 \<equiv> snd (checkHosts w)"
  defines "w2 \<equiv> set_field ''host_suffixes'' (JStr hosts) (wizard_back w1)"
  defines "w3 \<equiv> snd (forward checkHosts w2)"
  defines "w4 \<equiv> snd (forward checkCookies w3)"
  shows "wz_pane w1 = ''analytics_provider_pane'' \<and> wz_pane w2 = ''host_pane'' \<and> wz_pane w3 = ''cookie_pane'' \<and>
     wz_pane w4 = ''analytics_provider_pane'' \<and> wz_pane (wizard_back w4) = ''host_pane''"
proof -
  let ?a = "''analytics_provider_pane''"
  have w1: "wz_pane w1 = ?a" "obj_get (wz_return w1) ?a = Some ''host_pane''"
    using assms(2) by (auto simp: w1_def checkHosts_def Let_def select_pane_return obj_get_put split: if_splits)
  have b1: "wizard_back w1 = select_pane ''host_pane'' w1" using w1 by (intro wizard_back_to) simp_all
  have w2: "wz_pane w2 = ''host_pane''" "obj_get (wz_return w2) ?a = Some ''host_pane''" "field_text w2 ''host_suffixes'' = hosts"
    using w1 by (simp_all add: w2_def b1 set_field_def select_pane_return field_text_def obj_get_put)
  define hs where "hs = filter (\<lambda>s. s \<noteq> []) (map trim (split_char (CHR '','') hosts))"
  have "hs \<noteq> []" using assms(3) by (simp add: hs_def getArrayFromCSVString_def)
  then have c2: "checkHosts w2 = (Pass, w2\<lparr>wz_hosts := hs\<rparr>)"
    unfolding checkHosts_def Let_def w2(3) hs_def [symmetric] by simp
  have n: "next_in pane_order ''host_pane'' = Some ''cookie_pane''" "next_in pane_order ''cookie_pane'' = Some ?a"
    by (simp_all add: pane_order_def)
  have w3: "w3 = select_pane ''cookie_pane'' (w2\<lparr>wz_hosts := hs\<rparr>)"
    using forward_Pass [of checkHosts, OF c2] w2(1) n(1) by (simp add: w3_def)
  have r3: "obj_get (wz_return w3) ?a = Some ''host_pane''" by (simp add: w3 select_pane_return w2(2))
  obtain v where v: "checkCookies w3 = (Pass, v)" "wz_pane v = wz_pane w3" "wz_return v = wz_return w3"
    by (simp add: checkCookies_def)
  have w4: "w4 = select_pane ?a v" using forward_Pass [of checkCookies, OF v(1)] v(2) n(2) by (simp add: w4_def w3)
  have r4: "obj_get (wz_return w4) (wz_pane w4) = Some ''host_pane''"
    by (simp add: w4 select_pane_return v(3) r3)
  show ?thesis
    using w1(1) w2(1) w3 w4 wizard_back_to [OF r4] by simp
qed

definition fresh_wizard :: wizard where
  "fresh_wizard = \<lparr>wz_edition = ''Enterprise'', wz_hosts = [], wz_cookies = [], wz_provider = [], wz_label = [], wz_account = [],
     wz_strip = [], wz_devices = [], wz_device_found = False, wz_ports = [], wz_keys = [], wz_dashboards = [],
     wz_max_disk = JStr ''NA'', wz_pane = ''host_pane'', wz_return = [], wz_form = [], wz_jar = [], wz_ready = []\<rparr>"

theorem back_skips_the_cookie_pane_witness:
  "wz_pane (wizard_back (snd (forward checkCookies (snd (forward checkHosts
     (set_field ''host_suffixes'' (JStr ''pion.org'') (wizard_back (snd (checkHosts fresh_wizard))))))))) = ''host_pane''"
proof -
  have "fst (checkHosts fresh_wizard) = Stay" by (simp add: checkHosts_def fresh_wizard_def field_text_def trim_def Let_def)
  moreover have "getArrayFromCSVString ''pion.org'' = [''pion.org'']"
    using getArrayFromCSVString_join [of "[''pion.org'']"] by (simp add: listable_def trim_def is_space_def)
  ultimately show ?thesis
    using back_skips_the_cookie_pane [of fresh_wizard "''pion.org''"] by (simp add: fresh_wizard_def)
qed

end
