(* ===== verification/Pion_Countdown.thy ===== *)
theory Pion_Countdown
  imports Pion_Prelude
begin

text \<open>
  The join that the code writes out wherever it sends a request per item and goes on when all
  have answered: a counter next to the requests, \<open>if (++count == total) callback()\<close> in every
  response handler. The locale states what such a handler does to its counter; inside it, for
  any order of the responses, the callback fires exactly once and at the last response.
\<close>

text \<open>All responses in the given order: the final state, and which of them fired the callback.\<close>

fun responses :: "('i \<Rightarrow> 's \<Rightarrow> 's \<times> bool) \<Rightarrow> 'i list \<Rightarrow> 's \<Rightarrow> 's \<times> bool list" where
  "responses step [] s = (s, [])"
| "responses step (i # is) s =
     (let (s', b) = step i s; (s'', bs) = responses step is s' in (s'', b # bs))"

lemma responses_Cons: "responses step (i # is) s =
  (fst (responses step is (fst (step i s))), snd (step i s) # snd (responses step is (fst (step i s))))"
  by (simp add: split_beta)

declare responses.simps(2) [simp del]

lemma responses_snoc: "fst (responses step (is @ [i]) s) = fst (step i (fst (responses step is s)))"
  by (induction "is" arbitrary: s) (simp_all add: responses_Cons)

text \<open>What every response preserves holds at the end.\<close>

lemma responses_induct:
  assumes "P s" "\<And>i s. i \<in> set is \<Longrightarrow> P s \<Longrightarrow> P (fst (step i s))"
  shows "P (fst (responses step is s))"
  using assms by (induction "is" arbitrary: s) (simp_all add: responses_Cons)

definition fired_at_the_end :: "bool list \<Rightarrow> bool" where
  "fired_at_the_end bs = (bs = replicate (length bs - 1) False @ [True])"

locale countdown =
  fixes step :: "'i \<Rightarrow> 's \<Rightarrow> 's \<times> bool"
    and count :: "'s \<Rightarrow> nat"
    and total :: "'s \<Rightarrow> nat"
    and valid :: "'i \<Rightarrow> 's \<Rightarrow> bool"      \<comment> \<open>responses the handler gets through without an exception\<close>
  assumes count_step: "valid i s \<Longrightarrow> count (fst (step i s)) = Suc (count s)"
    and total_step: "valid i s \<Longrightarrow> total (fst (step i s)) = total s"
    and fires_iff: "valid i s \<Longrightarrow> snd (step i s) \<longleftrightarrow> Suc (count s) = total s"
    and valid_step: "valid i s \<Longrightarrow> valid j s \<Longrightarrow> valid j (fst (step i s))"
begin

lemma valid_rest: "\<forall>j\<in>set (i # is). valid j s \<Longrightarrow> \<forall>j\<in>set is. valid j (fst (step i s))"
  using valid_step by simp

lemma fires_at:
  "\<forall>j\<in>set is. valid j s \<Longrightarrow> snd (responses step is s) = map (\<lambda>n. Suc (count s + n) = total s) [0..<length is]"
proof (induction "is" arbitrary: s)
  case (Cons i "is")
  have v: "valid i s" using Cons.prems by simp
  have "map (\<lambda>n. Suc (Suc (count s + n)) = total s) [0..<length is] =
      map (\<lambda>n. Suc (count s + n) = total s) [Suc 0..<Suc (length is)]"
    by (simp add: map_Suc_upt [symmetric] del: upt_Suc)
  moreover have "[0..<Suc (length is)] = 0 # [Suc 0..<Suc (length is)]" by (rule upt_conv_Cons) simp
  ultimately show ?case
    using Cons.IH [OF valid_rest [OF Cons.prems]]
    by (simp add: responses_Cons fires_iff [OF v] count_step [OF v] total_step [OF v] del: upt_Suc)
qed simp

lemma fires_once:
  assumes "\<forall>j\<in>set is. valid j s" "count s = 0" "length is = total s" "is \<noteq> []"
  shows "snd (responses step is s) = replicate (length is - 1) False @ [True]"
proof (rule nth_equalityI)
  show "length (snd (responses step is s)) = length (replicate (length is - 1) False @ [True])"
    using assms(1,4) by (simp add: fires_at)
next
  fix n assume "n < length (snd (responses step is s))"
  then have "n < length is" using assms(1) by (simp add: fires_at)
  then show "snd (responses step is s) ! n = (replicate (length is - 1) False @ [True]) ! n"
    using assms by (auto simp: fires_at nth_append)
qed

lemma fires_at_the_end:
  assumes "\<forall>j\<in>set is. valid j s" "count s = 0" "length is = total s" "total s \<noteq> 0"
  shows "fired_at_the_end (snd (responses step is s))"
proof -
  have "is \<noteq> []" using assms(3,4) by auto
  then show ?thesis using fires_once [OF assms(1-3)] by (simp add: fired_at_the_end_def)
qed

lemma never_early:
  assumes "\<forall>j\<in>set is. valid j s" "count s = 0" "length is < total s"
  shows "True \<notin> set (snd (responses step is s))"
  using assms by (auto simp: fires_at)

end

end
