(* ===== verification/Pion_Setup.thy ===== *)
theory Pion_Setup
  imports Pion_Wizard Pion_Countdown Pion_Config
begin

text \<open>
  What the wizard does when the user finishes (\<open>finish\<close>): it builds a configuration of
  templates, workspaces, reactors and connections, completes the reactors from template files,
  and creates everything on the server, each kind in parallel and one kind after the other.
  Also the way back: the cookies saved from the reactors that a restart of the wizard deletes.

  The template files and the identifiers come from the server. \<open>substitute\<close> is the library
  function \<open>dojo.string.substitute\<close>, an argument of the one definition that calls it.
\<close>

section \<open>The configuration\<close>

record template =
  t_label :: string
  t_json :: bool
  t_source :: string                     \<comment> \<open>\<open>url\<close>, or \<open>plugin\<close> for a JSON template\<close>
  t_subs :: "jsval jsobj"

record wreactor =
  wr_label :: string
  wr_workspace :: "string option"
  wr_config :: string

record setup_config =
  s_templates :: "template list"
  s_reactors :: "wreactor list"
  s_connections :: "(string \<times> string) list"
  s_workspaces :: "(string \<times> string) list"
  s_dashboards :: "string list"
  s_workspace_ids :: "string jsobj"
  s_reactor_ids :: "string jsobj"

definition sniffer_config :: "string \<Rightarrow> wizard \<Rightarrow> string" where
  "sniffer_config default_id w =
     ''<Plugin>SnifferReactor</Plugin><X>50</X><Y>100</Y><Name>Capture Traffic</Name>'' @
     ''<Comment>Captures raw network traffic to generate HTTP request events</Comment><Protocol>'' @ default_id @
     ''</Protocol><ProcessingThreads>1</ProcessingThreads><MaxPacketQueueSize>100000</MaxPacketQueueSize>'' @
     ''<QueueEventDelivery>true</QueueEventDelivery><HideCreditCardNumbers>false</HideCreditCardNumbers>'' @
     concat (map (\<lambda>device. ''<Capture><Interface>'' @ device @ ''</Interface><Filter>'' @
       join '' or '' (map (\<lambda>p. ''tcp port '' @ p) (wz_ports w)) @ ''</Filter></Capture>'') (wz_devices w))"

definition session_group_name :: "string \<Rightarrow> string" where
  "session_group_name host =
     (let pieces = split_char (CHR ''.'') host; n = length pieces in pieces ! (if n = 1 then 0 else n - 2))"

definition host_element :: "string \<Rightarrow> string" where
  "host_element host = ''<Host>'' @ trim host @ ''</Host>''"

definition cookie_element :: "string \<times> bool \<Rightarrow> string" where
  "cookie_element c =
     ''<Cookie type='' @ [CHR 0x22] @ (if snd c then ''v'' else ''s'') @ [CHR 0x22] @ ''>'' @ fst c @ ''</Cookie>''"

definition session_group_config :: "wizard \<Rightarrow> string" where
  "session_group_config w =
     (if wz_hosts w = [] then []
      else
        let name = session_group_name (wz_hosts w ! 0)
        in ''<SessionGroup id='' @ [CHR 0x22] @ name @ [CHR 0x22] @ ''><Name>'' @ name @ ''</Name>'' @
           concat (map host_element (wz_hosts w)) @ concat (map cookie_element (wz_cookies w)) @ ''</SessionGroup>'')"

definition text_template :: "string \<Rightarrow> string \<Rightarrow> jsval jsobj \<Rightarrow> template" where
  "text_template l url subs = \<lparr>t_label = l, t_json = False, t_source = url, t_subs = subs\<rparr>"

definition account :: "wizard \<Rightarrow> string \<Rightarrow> string" where
  "account w k = (case obj_get (wz_account w) k of Some v \<Rightarrow> v | None \<Rightarrow> ''undefined'')"

definition json_template :: "string \<Rightarrow> string \<Rightarrow> string \<Rightarrow> wizard \<Rightarrow> template" where
  "json_template plugin acct host w =
     \<lparr>t_label = ''analytics'', t_json = True, t_source = plugin,
      t_subs = [(''AccountId'', JStr (account w acct)), (''HttpHost'', JStr (account w host)),
                (''StripClientIP'', JStr (wz_strip w))]\<rparr>"

definition query_element :: "string \<times> string \<Rightarrow> string" where
  "query_element q = ''<Query name='' @ [CHR 0x22] @ fst q @ [CHR 0x22] @ ''>'' @ snd q @ ''</Query>''"

text \<open>The analytics reactor's configuration, if there is one, and its template.\<close>

definition analytics_config :: "wizard \<Rightarrow> string option \<times> template list" where
  "analytics_config w =
     (if wz_provider w = ''Omniture'' then
        (Some (''<Plugin>OmnitureAnalyticsReactor</Plugin><X>50</X><Y>300</Y><Name>Omniture Analytics</Name>'' @
           ''<NumConnections>32</NumConnections><HttpHost>'' @ account w ''omniture_host'' @ ''</HttpHost><AccountId>'' @
           account w ''omniture_report_suite'' @ ''</AccountId><EncryptConnections>false</EncryptConnections>'' @
           ''<SendTimestamp>true</SendTimestamp><StripClientIP>'' @ wz_strip w @ ''</StripClientIP>'' @
           concat (map query_element
             [(''ipaddress'', ''urn:vocab:clickstream#c-ip''), (''userAgent'', ''urn:vocab:clickstream#useragent''),
              (''pageName'', ''urn:vocab:clickstream#page-title''), (''referrer'', ''urn:vocab:clickstream#referer''),
              (''visitorID'', ''[computed]''), (''server'', ''[computed]''), (''pageURL'', ''[computed]''),
              (''timestamp'', ''[computed]''), (''reportSuiteID'', ''[computed]'')])), [])
      else if wz_provider w = ''Webtrends'' then
        (Some ''<X>50</X><Y>300</Y>'',
         [json_template ''WebTrendsAnalyticsReactor'' ''webtrends_account_id'' ''webtrends_host'' w])
      else if wz_provider w = ''Google'' then
        (Some (''<Plugin>GoogleAnalyticsReactor</Plugin><X>50</X><Y>300</Y><Name>Google Analytics</Name><AccountId>'' @
           account w ''google_account_id'' @ ''</AccountId><NumConnections>32</NumConnections>'' @
           ''<EncryptConnections>false</EncryptConnections><StripClientIP>'' @ wz_strip w @ ''</StripClientIP>''), [])
      else if wz_provider w = ''Unica'' then
        (Some ''<X>50</X><Y>300</Y>'',
         [json_template ''UnicaAnalyticsReactor'' ''unica_account_id'' ''unica_host'' w])
      else (None, []))"

definition chr_config :: string where
  "chr_config =
     ''<Plugin>ContentHashReactor</Plugin><X>250</X><Y>100</Y><Name>Detect Page Content</Name>'' @
     ''<SourceTerm>urn:vocab:clickstream#sc-content</SourceTerm><MatchAllComparisons>true</MatchAllComparisons>'' @
     ''<Comment>Looks for page content in HTTP events that will be stored for Replay</Comment>'' @
     ''<Comparison><Term>urn:vocab:clickstream#status</Term><Type>equals</Type><Value>200</Value>'' @
     ''<MatchAllValues>false</MatchAllValues></Comparison>'' @
     ''<Comparison><Term>urn:vocab:clickstream#content-type</Term><Type>regex</Type>'' @
     ''<Value>^(text/html|application/xhtml|text/vnd.wap.wml)</Value>'' @
     ''<MatchAllValues>false</MatchAllValues></Comparison>''"

definition wreactor :: "string \<Rightarrow> string \<Rightarrow> wreactor" where
  "wreactor l config = \<lparr>wr_label = l, wr_workspace = None, wr_config = config\<rparr>"

text \<open>A report reactor with its template file, connected to the reactor it takes events from.\<close>

definition add_report :: "string \<Rightarrow> string \<Rightarrow> setup_config \<Rightarrow> setup_config" where
  "add_report from l s =
     s\<lparr>s_templates := s_templates s @ [text_template l (''/resources/'' @ l @ ''.tmpl'') []],
       s_reactors := s_reactors s @ [\<lparr>wr_label = l, wr_workspace = Some ''reports'', wr_config = []\<rparr>],
       s_connections := s_connections s @ [(from, l)]\<rparr>"

definition add_dashboard :: "string \<Rightarrow> setup_config \<Rightarrow> setup_config" where
  "add_dashboard url s = s\<lparr>s_dashboards := s_dashboards s @ [url]\<rparr>"

definition base_setup :: "string \<Rightarrow> wizard \<Rightarrow> setup_config" where
  "base_setup default_id w =
     (let clickstream = text_template ''clickstream'' ''/resources/ClickstreamTemplate.tmpl''
            [(''IgnoreDefaultGroup'', JBool (wz_hosts w \<noteq> [])), (''SessionGroupConfig'', JStr (session_group_config w))];
          (analytics, ts) = analytics_config w;
          sniffer = wreactor ''sniffer'' (sniffer_config default_id w);
          click = wreactor ''clickstream'' ''<X>250</X><Y>200</Y>'';
          replay = (wz_edition w = ''Replay'');
          templates = clickstream # ts @
            (if replay then [text_template ''mdr'' ''/resources/MDRTemplate.tmpl'' [(''MaxDiskUsage'', wz_max_disk w)]] else []);
          reactors = (if replay then [sniffer, wreactor ''chr'' chr_config, click, wreactor ''mdr'' ''<X>250</X><Y>300</Y>'']
                      else [sniffer, click]);
          connections = (if replay then [(''sniffer'', ''chr''), (''chr'', ''clickstream''), (''clickstream'', ''mdr'')]
                         else [(''sniffer'', ''clickstream'')])
      in \<lparr>s_templates = templates,
          s_reactors = reactors @ (case analytics of Some c \<Rightarrow> [wreactor ''analytics'' c] | None \<Rightarrow> []),
          s_connections = connections @ (case analytics of Some c \<Rightarrow> [(''clickstream'', ''analytics'')] | None \<Rightarrow> []),
          s_workspaces = [(''clickstream'', ''Clickstream'')], s_dashboards = [], s_workspace_ids = [], s_reactor_ids = []\<rparr>)"

definition add_anchors :: "setup_config \<Rightarrow> setup_config" where
  "add_anchors s =
     add_report ''ReportsAnchorFilterReactor'' ''HTTPEventsFilterReactor''
       (add_report ''clickstream'' ''ReportsAnchorFilterReactor''
         (s\<lparr>s_workspaces := s_workspaces s @ [(''reports'', ''Dashboard Reports'')]\<rparr>))"

definition add_activity :: "setup_config \<Rightarrow> setup_config" where
  "add_activity s =
     add_report ''HTTPEventsFilterReactor'' ''AutomatedRequestsAggregateReactor''
       (add_report ''HTTPEventsFilterReactor'' ''RealUserRequestsAggregateReactor''
         (add_dashboard ''/resources/ActivityDashboard.json'' s))"

definition add_availability :: "setup_config \<Rightarrow> setup_config" where
  "add_availability s =
     add_report ''HTTPEventsFilterReactor'' ''ServerErrorsAggregateReactor''
       (add_report ''HTTPEventsFilterReactor'' ''ClientErrorsAggregateReactor''
         (add_report ''HTTPEventsFilterReactor'' ''RefusedRequestsAggregateReactor''
           (add_report ''HTTPEventsFilterReactor'' ''SuccessfulRequestsAggregateReactor''
             (add_dashboard ''/resources/AvailabilityDashboard.json'' s))))"

definition add_performance :: "setup_config \<Rightarrow> setup_config" where
  "add_performance s =
     add_report ''HTTPEventsFilterReactor'' ''DataCenterTimeAggregateReactor''
       (add_report ''HTTPEventsFilterReactor'' ''ServerReplyTimeAggregateReactor''
         (add_report ''PageViewEventsFilterReactor'' ''PageLoadTimeAggregateReactor''
           (add_report ''PageViewEventsFilterReactor'' ''TotalPageViewsAggregateReactor''
             (add_report ''ReportsAnchorFilterReactor'' ''PageViewEventsFilterReactor''
               (add_dashboard ''/resources/PerformanceDashboard.json'' s)))))"

definition finish :: "string \<Rightarrow> wizard \<Rightarrow> setup_config" where
  "finish default_id w =
     (let s = base_setup default_id w;
          s = (if wz_dashboards w \<noteq> [] then add_anchors s else s);
          s = (if ''Activity'' \<in> set (wz_dashboards w) then add_activity s else s);
          s = (if ''Availability'' \<in> set (wz_dashboards w) then add_availability s else s)
      in if ''Performance'' \<in> set (wz_dashboards w) then add_performance s else s)"

section \<open>Templates\<close>

record json_resource =
  required_input :: "string list"
  option_defaults :: "jsval jsobj"
  value_defaults :: "jsval jsobj"
  multivalued_defaults :: "(string \<times> string \<times> jsval jsobj) list"  \<comment> \<open>tag, identifier, data\<close>

definition raw_element :: "string \<Rightarrow> string \<Rightarrow> string" where
  "raw_element tag v = ''<'' @ tag @ ''>'' @ v @ ''</'' @ tag @ ''>''"

definition sub_string :: "jsval jsobj \<Rightarrow> string \<Rightarrow> string" where
  "sub_string subs name = (case obj_get subs name of Some v \<Rightarrow> js_string v | None \<Rightarrow> ''undefined'')"

definition json_xml :: "template \<Rightarrow> json_resource \<Rightarrow> string" where
  "json_xml t res =
     raw_element ''Plugin'' (t_source t) @
     concat (map (\<lambda>n. raw_element n (sub_string (t_subs t) n)) (required_input res)) @
     concat (map (\<lambda>(n, v). raw_element n (js_string v)) (filter (\<lambda>(n, v). n \<notin> set (required_input res)) (option_defaults res))) @
     concat (map (\<lambda>(n, v). raw_element n (js_string v)) (filter (\<lambda>(n, v). n \<notin> set (required_input res)) (value_defaults res))) @
     concat (map (\<lambda>(tag, ident, data). concat (map (\<lambda>(k, v).
       ''<'' @ tag @ '' '' @ ident @ ''='' @ [CHR 0x22] @ k @ [CHR 0x22] @ ''>'' @ js_string v @ ''</'' @ tag @ ''>'') data))
       (multivalued_defaults res))"

text \<open>\<open>replace(/>\s*/g, '>')\<close>.\<close>

fun strip_after_gt :: "bool \<Rightarrow> string \<Rightarrow> string" where
  "strip_after_gt after [] = []"
| "strip_after_gt after (c # s) =
     (if after \<and> is_space c then strip_after_gt True s else c # strip_after_gt (c = CHR ''>'') s)"

definition template_xml :: "(string \<Rightarrow> jsval jsobj \<Rightarrow> string) \<Rightarrow> template \<Rightarrow> string \<Rightarrow> string" where
  "template_xml substitute t response = strip_after_gt False (substitute response (t_subs t))"

text \<open>
  \<open>wizard_config.reactors[index].config += xml\<close> with \<open>index = dojo.indexOf(labels, label)\<close>; for a label that
  is not there the assignment throws (\<open>None\<close>).
\<close>

definition append_config :: "string \<Rightarrow> string \<Rightarrow> wreactor list \<Rightarrow> wreactor list option" where
  "append_config l xml rs =
     (let i = index_of (map wr_label rs) l in
      if i = -1 then None
      else Some (rs[nat i := (rs ! nat i)\<lparr>wr_config := wr_config (rs ! nat i) @ xml\<rparr>]))"

end
