(* ===== verification/Pion_SetupRun.thy ===== *)
theory Pion_SetupRun
  imports Pion_Setup "HOL-Library.Multiset"
begin

text \<open>
  Creating the wizard's configuration on the server, and its properties: the configuration that
  \<open>finish\<close> builds is a tree of uniquely named reactors whatever the user chose, each of the
  parallel steps goes on exactly once and after its last response, and the connections are
  requested with the identifiers that the server gave, in whatever order it answered.
\<close>

section \<open>Requests and responses\<close>

text \<open>Looking up an identifier that is not there gives the text \<open>undefined\<close>.\<close>

definition id_text :: "string jsobj \<Rightarrow> string \<Rightarrow> string" where
  "id_text ids l = (case obj_get ids l of Some i \<Rightarrow> i | None \<Rightarrow> ''undefined'')"

definition workspace_post :: "string \<Rightarrow> string" where
  "workspace_post name = ''<PionConfig><Workspace><Name>'' @ name @ ''</Name></Workspace></PionConfig>''"

definition reactor_post :: "setup_config \<Rightarrow> wreactor \<Rightarrow> string" where
  "reactor_post s r =
     ''<PionConfig><Reactor><Source>Wizard</Source><Workspace>'' @
     id_text (s_workspace_ids s) (case wr_workspace r of Some l \<Rightarrow> l | None \<Rightarrow> ''clickstream'') @
     ''</Workspace>'' @ wr_config r @ ''</Reactor></PionConfig>''"

definition connection_post :: "setup_config \<Rightarrow> string \<times> string \<Rightarrow> string" where
  "connection_post s c =
     ''<PionConfig><Connection><Type>reactor</Type><From>'' @ id_text (s_reactor_ids s) (fst c) @ ''</From><To>'' @
     id_text (s_reactor_ids s) (snd c) @ ''</To></Connection></PionConfig>''"

definition replay_post :: "setup_config \<Rightarrow> string" where
  "replay_post s =
     ''<PionConfig><PlatformService><Name>Replay Query Service</Name><Comment>Pion Replay query service</Comment>'' @
     ''<Plugin>ReplayService</Plugin><Resource>/replay</Resource><Server>main-server</Server><Namespace id='' @
     [CHR 0x22] @ ''0'' @ [CHR 0x22] @ ''><Comment>Default Instance</Comment><MultiDatabaseOutputReactor>'' @
     id_text (s_reactor_ids s) ''mdr'' @ ''</MultiDatabaseOutputReactor></Namespace></PlatformService></PionConfig>''"

definition addReplayIfNeeded :: "string \<Rightarrow> setup_config \<Rightarrow> string option" where
  "addReplayIfNeeded edition s = (if edition \<noteq> ''Replay'' then None else Some (replay_post s))"

definition startSniffer_url :: "setup_config \<Rightarrow> string" where
  "startSniffer_url s = ''/config/reactors/'' @ id_text (s_reactor_ids s) ''sniffer'' @ ''/start''"

text \<open>
  The response handlers, on the configuration and the counter of the step. The result says
  whether the handler fired the step's \<open>Deferred\<close>. A response is the label of the item and the
  identifier in the answer; for a template, the text to append.
\<close>

definition template_load :: "string \<times> string \<Rightarrow> setup_config \<times> nat \<Rightarrow> (setup_config \<times> nat) \<times> bool" where
  "template_load r st =
     (case append_config (fst r) (snd r) (s_reactors (fst st)) of
        None \<Rightarrow> (st, False)
      | Some rs \<Rightarrow> (((fst st)\<lparr>s_reactors := rs\<rparr>, Suc (snd st)), Suc (snd st) = length (s_templates (fst st))))"

definition workspace_load :: "string \<times> string \<Rightarrow> setup_config \<times> nat \<Rightarrow> (setup_config \<times> nat) \<times> bool" where
  "workspace_load r st =
     (((fst st)\<lparr>s_workspace_ids := obj_put (s_workspace_ids (fst st)) (fst r) (snd r)\<rparr>, Suc (snd st)),
      Suc (snd st) = length (s_workspaces (fst st)))"

definition reactor_load :: "string \<times> string \<Rightarrow> setup_config \<times> nat \<Rightarrow> (setup_config \<times> nat) \<times> bool" where
  "reactor_load r st =
     (((fst st)\<lparr>s_reactor_ids := obj_put (s_reactor_ids (fst st)) (fst r) (snd r)\<rparr>, Suc (snd st)),
      Suc (snd st) = length (s_reactors (fst st)))"

definition connection_load :: "string \<times> string \<Rightarrow> setup_config \<times> nat \<Rightarrow> (setup_config \<times> nat) \<times> bool" where
  "connection_load r st = ((fst st, Suc (snd st)), Suc (snd st) = length (s_connections (fst st)))"

text \<open>\<open>deleteAllReactorsAndReload\<close> and \<open>deleteAllWorkspaces\<close>: the counter and the number of items.\<close>

definition delete_load :: "string \<Rightarrow> nat \<times> nat \<Rightarrow> (nat \<times> nat) \<times> bool" where
  "delete_load i st = ((Suc (fst st), snd st), Suc (fst st) = snd st)"

lemma index_of_nth: "x \<in> set xs \<Longrightarrow> 0 \<le> index_of xs x \<and> nat (index_of xs x) < length xs \<and> xs ! nat (index_of xs x) = x"
proof (induction xs)
  case (Cons y ys)
  show ?case
  proof (cases "y = x")
    case False
    with Cons have "0 \<le> index_of ys x" "nat (index_of ys x) < length ys" "ys ! nat (index_of ys x) = x" by auto
    then show ?thesis using False by (auto simp: Let_def nat_add_distrib)
  qed simp
qed simp

lemma labels_append_config:
  "append_config l xml rs = Some rs' \<Longrightarrow> map wr_label rs' = map wr_label rs \<and> map wr_workspace rs' = map wr_workspace rs"
proof -
  assume a: "append_config l xml rs = Some rs'"
  define i where "i = nat (index_of (map wr_label rs) l)"
  have rs': "rs' = rs[i := (rs ! i)\<lparr>wr_config := wr_config (rs ! i) @ xml\<rparr>]"
    using a by (auto simp: append_config_def i_def Let_def split: if_splits)
  show ?thesis
  proof (cases "i < length rs")
    case True
    then show ?thesis using True by (simp add: rs' map_update list_update_same_conv)
  qed (simp add: rs' list_update_beyond)
qed

abbreviation has_label :: "string \<times> string \<Rightarrow> setup_config \<times> nat \<Rightarrow> bool" where
  "has_label r st \<equiv> fst r \<in> set (map wr_label (s_reactors (fst st)))"

interpretation templates: countdown template_load snd "\<lambda>st. length (s_templates (fst st))" has_label
proof
  fix i j :: "string \<times> string" and st :: "setup_config \<times> nat"
  assume i: "has_label i st"
  then have "index_of (map wr_label (s_reactors (fst st))) (fst i) \<noteq> -1" by (simp add: index_of_absent)
  then obtain rs where rs: "append_config (fst i) (snd i) (s_reactors (fst st)) = Some rs"
    by (auto simp: append_config_def Let_def)
  show "snd (fst (template_load i st)) = Suc (snd st)"
    "length (s_templates (fst (fst (template_load i st)))) = length (s_templates (fst st))"
    "snd (template_load i st) \<longleftrightarrow> Suc (snd st) = length (s_templates (fst st))"
    by (simp_all add: template_load_def rs)
  show "has_label j (fst (template_load i st))" if "has_label j st"
  proof -
    have "map wr_label rs = map wr_label (s_reactors (fst st))" using labels_append_config [OF rs] by simp
    then show ?thesis using that by (simp add: template_load_def rs del: set_map)
  qed
qed

interpretation workspaces: countdown workspace_load snd "\<lambda>st. length (s_workspaces (fst st))" "\<lambda>_ _. True"
  by unfold_locales (simp_all add: workspace_load_def)

interpretation reactors: countdown reactor_load snd "\<lambda>st. length (s_reactors (fst st))" "\<lambda>_ _. True"
  by unfold_locales (simp_all add: reactor_load_def)

interpretation connections: countdown connection_load snd "\<lambda>st. length (s_connections (fst st))" "\<lambda>_ _. True"
  by unfold_locales (simp_all add: connection_load_def)

interpretation deletions: countdown delete_load fst snd "\<lambda>_ _. True"
  by unfold_locales (simp_all add: delete_load_def)

section \<open>The configuration is a tree\<close>

abbreviation labels :: "setup_config \<Rightarrow> string list" where
  "labels s \<equiv> map wr_label (s_reactors s)"

text \<open>
  The first reactor is the sniffer, each other reactor has exactly one incoming connection, and
  that comes from a reactor earlier in the list. \<open>wired\<close> follows the two lists together.
\<close>

fun wired_from :: "string list \<Rightarrow> string list \<Rightarrow> (string \<times> string) list \<Rightarrow> bool" where
  "wired_from seen [] [] = True"
| "wired_from seen (l # ls) (c # cs) =
     (snd c = l \<and> fst c \<in> set seen \<and> l \<notin> set seen \<and> wired_from (l # seen) ls cs)"
| "wired_from seen _ _ = False"

definition wired :: "setup_config \<Rightarrow> bool" where
  "wired s =
     (labels s \<noteq> [] \<and> hd (labels s) = ''sniffer'' \<and> wired_from [''sniffer''] (tl (labels s)) (s_connections s) \<and>
      list_all (\<lambda>t. t_label t \<in> set (labels s)) (s_templates s) \<and>
      list_all (\<lambda>r. (case wr_workspace r of None \<Rightarrow> ''clickstream'' | Some l \<Rightarrow> l) \<in> set (map fst (s_workspaces s))) (s_reactors s))"

lemma wired_from_append:
  "wired_from seen ls cs \<Longrightarrow> from \<in> set seen \<union> set ls \<Longrightarrow> l \<notin> set seen \<union> set ls \<Longrightarrow>
   wired_from seen (ls @ [l]) (cs @ [(from, l)])"
  by (induction seen ls cs rule: wired_from.induct) auto

lemma wired_from_distinct: "wired_from seen ls cs \<Longrightarrow> distinct seen \<Longrightarrow> distinct ls \<and> set ls \<inter> set seen = {}"
  by (induction seen ls cs rule: wired_from.induct) auto

lemma wired_from_targets: "wired_from seen ls cs \<Longrightarrow> map snd cs = ls"
  by (induction seen ls cs rule: wired_from.induct) auto

lemma wired_from_sources: "wired_from seen ls cs \<Longrightarrow> c \<in> set cs \<Longrightarrow> fst c \<in> set seen \<union> set ls"
  by (induction seen ls cs rule: wired_from.induct) auto

lemma wired_add_report:
  assumes "wired s" "from \<in> set (labels s)" "l \<notin> set (labels s)" "''reports'' \<in> set (map fst (s_workspaces s))"
  shows "wired (add_report from l s)" "labels (add_report from l s) = labels s @ [l]"
    "s_workspaces (add_report from l s) = s_workspaces s"
proof -
  show lab: "labels (add_report from l s) = labels s @ [l]" "s_workspaces (add_report from l s) = s_workspaces s"
    by (simp_all add: add_report_def)
  obtain ls where ls: "labels s = ''sniffer'' # ls" using assms(1) by (cases "labels s") (auto simp: wired_def)
  have "wired_from [''sniffer''] (ls @ [l]) (s_connections s @ [(from, l)])"
    using assms(1-3) ls by (intro wired_from_append) (auto simp: wired_def)
  then show "wired (add_report from l s)"
    using assms(1,4) ls lab unfolding wired_def
    by (auto simp: add_report_def text_template_def list_all_iff)
qed

lemma wired_add_dashboard [simp]:
  "wired (add_dashboard url s) = wired s" "labels (add_dashboard url s) = labels s"
  "s_workspaces (add_dashboard url s) = s_workspaces s"
  by (simp_all add: wired_def add_dashboard_def)

lemma wired_base:
  "wired (base_setup d w) \<and> ''clickstream'' \<in> set (labels (base_setup d w)) \<and>
   set (labels (base_setup d w)) \<subseteq> set [''sniffer'', ''chr'', ''clickstream'', ''mdr'', ''analytics''] \<and>
   s_workspaces (base_setup d w) = [(''clickstream'', ''Clickstream'')]"
proof -
  obtain a ts where a: "analytics_config w = (a, ts)" by (cases "analytics_config w")
  have ts: "list_all (\<lambda>t. t_label t = ''analytics'') ts" "a = None \<Longrightarrow> ts = []"
    using a by (auto simp: analytics_config_def json_template_def split: if_splits)
  show ?thesis
    using ts a
    by (cases a; cases "wz_edition w = ''Replay''")
      (simp_all add: base_setup_def Let_def wired_def wreactor_def text_template_def list_all_iff)
qed

lemma reports_workspace: "s_workspaces (add_anchors s) = s_workspaces s @ [(''reports'', ''Dashboard Reports'')]"
  "labels (add_anchors s) = labels s @ [''ReportsAnchorFilterReactor'', ''HTTPEventsFilterReactor'']"
  by (simp_all add: add_anchors_def add_report_def)

lemma add_report_shape:
  "labels (add_report from l s) = labels s @ [l]" "s_workspaces (add_report from l s) = s_workspaces s"
  by (simp_all add: add_report_def)

lemma wired_more_workspaces: "wired s \<Longrightarrow> wired (s\<lparr>s_workspaces := s_workspaces s @ ws\<rparr>)"
  by (auto simp: wired_def list_all_iff)

lemma labels_base:
  "labels (base_setup d w) =
     [''sniffer''] @ (if wz_edition w = ''Replay'' then [''chr'', ''clickstream'', ''mdr''] else [''clickstream'']) @
     (if fst (analytics_config w) = None then [] else [''analytics''])"
  by (cases "analytics_config w"; cases "fst (analytics_config w)")
    (simp_all add: base_setup_def Let_def wreactor_def)

text \<open>The report reactors that each choice of dashboards adds.\<close>

definition base_labels :: "string list" where
  "base_labels = [''sniffer'', ''chr'', ''clickstream'', ''mdr'', ''analytics'']"

definition anchor_labels :: "string list" where
  "anchor_labels = [''ReportsAnchorFilterReactor'', ''HTTPEventsFilterReactor'']"

definition activity_labels :: "string list" where
  "activity_labels = [''RealUserRequestsAggregateReactor'', ''AutomatedRequestsAggregateReactor'']"

definition availability_labels :: "string list" where
  "availability_labels = [''SuccessfulRequestsAggregateReactor'', ''RefusedRequestsAggregateReactor'',
     ''ClientErrorsAggregateReactor'', ''ServerErrorsAggregateReactor'']"

definition performance_labels :: "string list" where
  "performance_labels = [''PageViewEventsFilterReactor'', ''TotalPageViewsAggregateReactor'',
     ''PageLoadTimeAggregateReactor'', ''ServerReplyTimeAggregateReactor'', ''DataCenterTimeAggregateReactor'']"

lemma labels_apart:
  "set anchor_labels \<inter> set base_labels = {}"
  "set activity_labels \<inter> set (base_labels @ anchor_labels) = {}"
  "set availability_labels \<inter> set (base_labels @ anchor_labels @ activity_labels) = {}"
  "set performance_labels \<inter> set (base_labels @ anchor_labels @ activity_labels @ availability_labels) = {}"
  by code_simp+

lemma apart_subset: "A \<inter> B = {} \<Longrightarrow> X \<subseteq> B \<Longrightarrow> A \<inter> X = {}"
  by blast

lemma anchors_in: "set anchor_labels = {''ReportsAnchorFilterReactor'', ''HTTPEventsFilterReactor''}"
  by (simp add: anchor_labels_def)

abbreviation reports_in :: "setup_config \<Rightarrow> bool" where
  "reports_in s \<equiv> ''reports'' \<in> set (map fst (s_workspaces s))"

lemma wired_anchors:
  "wired s \<Longrightarrow> ''clickstream'' \<in> set (labels s) \<Longrightarrow> set anchor_labels \<inter> set (labels s) = {} \<Longrightarrow>
   wired (add_anchors s) \<and> reports_in (add_anchors s) \<and> labels (add_anchors s) = labels s @ anchor_labels"
  unfolding add_anchors_def anchor_labels_def
  by (intro conjI wired_add_report wired_more_workspaces) (simp_all add: add_report_shape)

lemma wired_activity:
  "wired s \<Longrightarrow> reports_in s \<Longrightarrow> ''HTTPEventsFilterReactor'' \<in> set (labels s) \<Longrightarrow>
   set activity_labels \<inter> set (labels s) = {} \<Longrightarrow>
   wired (add_activity s) \<and> reports_in (add_activity s) \<and> labels (add_activity s) = labels s @ activity_labels"
  unfolding add_activity_def activity_labels_def
  by (intro conjI wired_add_report) (simp_all add: add_report_shape)

lemma wired_availability:
  "wired s \<Longrightarrow> reports_in s \<Longrightarrow> ''HTTPEventsFilterReactor'' \<in> set (labels s) \<Longrightarrow>
   set availability_labels \<inter> set (labels s) = {} \<Longrightarrow>
   wired (add_availability s) \<and> reports_in (add_availability s) \<and>
   labels (add_availability s) = labels s @ availability_labels"
  unfolding add_availability_def availability_labels_def
  by (intro conjI wired_add_report) (simp_all add: add_report_shape)

lemma wired_performance:
  "wired s \<Longrightarrow> reports_in s \<Longrightarrow> set [''HTTPEventsFilterReactor'', ''ReportsAnchorFilterReactor''] \<subseteq> set (labels s) \<Longrightarrow>
   set performance_labels \<inter> set (labels s) = {} \<Longrightarrow>
   wired (add_performance s) \<and> reports_in (add_performance s) \<and>
   labels (add_performance s) = labels s @ performance_labels"
  unfolding add_performance_def performance_labels_def
  by (intro conjI wired_add_report) (simp_all add: add_report_shape)

lemma wired_finish: "wired (finish d w)"
proof (cases "wz_dashboards w = []")
  case True
  then show ?thesis using wired_base [of d w] by (simp add: finish_def Let_def)
next
  case False
  let ?b = "base_setup d w"
  let ?chosen = "\<lambda>name ls. if name \<in> set (wz_dashboards w) then ls else []"
  have b: "wired ?b" "''clickstream'' \<in> set (labels ?b)" "set (labels ?b) \<subseteq> set base_labels"
    using wired_base [of d w] by (simp_all add: base_labels_def)
  define s1 where "s1 = add_anchors ?b"
  have s1: "wired s1" "reports_in s1" "labels s1 = labels ?b @ anchor_labels"
    using wired_anchors [OF b(1,2) apart_subset [OF labels_apart(1) b(3)]] by (simp_all add: s1_def)
  define s2 where "s2 = (if ''Activity'' \<in> set (wz_dashboards w) then add_activity s1 else s1)"
  have h1: "set anchor_labels \<subseteq> set (labels s1)" unfolding s1(3) set_append by (rule Un_upper2)
  have sub1: "set (labels s1) \<subseteq> set (base_labels @ anchor_labels)" using b(3) unfolding s1(3) by (simp add: le_supI1)
  have s2: "wired s2" "reports_in s2" "labels s2 = labels s1 @ ?chosen ''Activity'' activity_labels"
    using wired_activity [OF s1(1,2) _ apart_subset [OF labels_apart(2) sub1]] s1(1,2) h1 anchors_in
    by (simp_all add: s2_def)
  define s3 where "s3 = (if ''Availability'' \<in> set (wz_dashboards w) then add_availability s2 else s2)"
  have h2: "set anchor_labels \<subseteq> set (labels s2)" using h1 unfolding s2(3) set_append by (rule le_supI1)
  have sub2: "set (labels s2) \<subseteq> set (base_labels @ anchor_labels @ activity_labels)"
    using sub1 unfolding s2(3) by (auto split: if_splits)
  have s3: "wired s3" "reports_in s3" "labels s3 = labels s2 @ ?chosen ''Availability'' availability_labels"
    using wired_availability [OF s2(1,2) _ apart_subset [OF labels_apart(3) sub2]] s2(1,2) h2 anchors_in
    by (simp_all add: s3_def)
  have h3: "set anchor_labels \<subseteq> set (labels s3)" using h2 unfolding s3(3) set_append by (rule le_supI1)
  have sub3: "set (labels s3) \<subseteq> set (base_labels @ anchor_labels @ activity_labels @ availability_labels)"
    using sub2 unfolding s3(3) by (auto split: if_splits)
  have "wired (add_performance s3)"
    using wired_performance [OF s3(1,2) _ apart_subset [OF labels_apart(4) sub3]] h3 anchors_in by simp
  moreover have "finish d w = (if ''Performance'' \<in> set (wz_dashboards w) then add_performance s3 else s3)"
    using False by (simp only: finish_def Let_def s1_def s2_def s3_def if_True simp_thms)
  ultimately show ?thesis using s3(1) by presburger
qed

section \<open>Running the steps\<close>

text \<open>
  The beginning of a step: the requests it sends, the configuration with its counter, and
  whether it goes on at once.
\<close>

definition addWorkspacesFromWizard :: "setup_config \<Rightarrow> string list \<times> (setup_config \<times> nat)" where
  "addWorkspacesFromWizard s =
     (map (\<lambda>w. workspace_post (snd w)) (s_workspaces s), (s\<lparr>s_workspace_ids := []\<rparr>, 0))"

definition addReactorsFromWizard :: "setup_config \<Rightarrow> string list \<times> (setup_config \<times> nat) \<times> bool" where
  "addReactorsFromWizard s =
     (if s_reactors s = [] then ([], (s, 0), True)
      else (map (reactor_post s) (s_reactors s), (s\<lparr>s_reactor_ids := []\<rparr>, 0), False))"

definition addConnectionsFromWizard :: "setup_config \<Rightarrow> string list \<times> (setup_config \<times> nat) \<times> bool" where
  "addConnectionsFromWizard s = (map (connection_post s) (s_connections s), (s, 0), s_connections s = [])"

text \<open>The steps of \<open>finish\<close> up to the connections, for given responses in the order they arrive.\<close>

definition after_templates :: "(string \<times> string) list \<Rightarrow> setup_config \<Rightarrow> setup_config" where
  "after_templates ts s = fst (fst (responses template_load ts (s, 0)))"

definition after_workspaces :: "(string \<times> string) list \<Rightarrow> setup_config \<Rightarrow> setup_config" where
  "after_workspaces ws s = fst (fst (responses workspace_load ws (snd (addWorkspacesFromWizard s))))"

definition after_reactors :: "(string \<times> string) list \<Rightarrow> setup_config \<Rightarrow> setup_config" where
  "after_reactors rs s = fst (fst (responses reactor_load rs (fst (snd (addReactorsFromWizard s)))))"

text \<open>What the steps leave alone.\<close>

abbreviation frame :: "setup_config \<Rightarrow> string list \<times> string option list \<times> template list \<times> (string \<times> string) list \<times> (string \<times> string) list" where
  "frame s \<equiv> (labels s, map wr_workspace (s_reactors s), s_templates s, s_connections s, s_workspaces s)"

lemma frame_template_load: "frame (fst (fst (template_load r st))) = frame (fst st)"
  by (auto simp: template_load_def labels_append_config split: option.splits)

lemma frame_workspace_load: "frame (fst (fst (workspace_load r st))) = frame (fst st)"
  by (simp add: workspace_load_def)

lemma frame_reactor_load: "frame (fst (fst (reactor_load r st))) = frame (fst st)"
  by (simp add: reactor_load_def)

lemma frame_after:
  "frame (after_templates ts s) = frame s" "frame (after_workspaces ws s) = frame s" "frame (after_reactors rs s) = frame s"
proof -
  show "frame (after_templates ts s) = frame s"
    unfolding after_templates_def
    using responses_induct [of "\<lambda>st. frame (fst st) = frame s" "(s, 0)" ts template_load] frame_template_load by force
  show "frame (after_workspaces ws s) = frame s"
    unfolding after_workspaces_def
    using responses_induct [of "\<lambda>st. frame (fst st) = frame s" "snd (addWorkspacesFromWizard s)" ws workspace_load]
      frame_workspace_load by (force simp: addWorkspacesFromWizard_def)
  show "frame (after_reactors rs s) = frame s"
    unfolding after_reactors_def
    using responses_induct [of "\<lambda>st. frame (fst st) = frame s" "fst (snd (addReactorsFromWizard s))" rs reactor_load]
      frame_reactor_load by (force simp: addReactorsFromWizard_def)
qed

lemma workspace_ids_kept: "s_workspace_ids (after_reactors rs s) = s_workspace_ids s"
  unfolding after_reactors_def
  using responses_induct [of "\<lambda>st. s_workspace_ids (fst st) = s_workspace_ids s" "fst (snd (addReactorsFromWizard s))" rs reactor_load]
  by (force simp: addReactorsFromWizard_def reactor_load_def)

text \<open>The identifiers after the responses.\<close>

lemma workspace_ids_run:
  "l \<in> set (map fst ws) \<Longrightarrow> \<exists>i. (l, i) \<in> set ws \<and>
     obj_get (s_workspace_ids (fst (fst (responses workspace_load ws st)))) l = Some i"
proof (induction ws arbitrary: st rule: rev_induct)
  case (snoc r ws)
  show ?case
  proof (cases "fst r = l")
    case False
    then have "l \<in> set (map fst ws)" using snoc.prems by auto
    then show ?thesis using False snoc.IH [of st] by (auto simp: responses_snoc workspace_load_def obj_get_put)
  qed (auto simp: responses_snoc workspace_load_def obj_get_put intro: exI [of _ "snd r"])
qed simp

lemma reactor_ids_run:
  "l \<in> set (map fst rs) \<Longrightarrow> \<exists>i. (l, i) \<in> set rs \<and>
     obj_get (s_reactor_ids (fst (fst (responses reactor_load rs st)))) l = Some i"
proof (induction rs arbitrary: st rule: rev_induct)
  case (snoc r rs)
  show ?case
  proof (cases "fst r = l")
    case False
    then have "l \<in> set (map fst rs)" using snoc.prems by auto
    then show ?thesis using False snoc.IH [of st] by (auto simp: responses_snoc reactor_load_def obj_get_put)
  qed (auto simp: responses_snoc reactor_load_def obj_get_put intro: exI [of _ "snd r"])
qed simp

lemma id_text_workspaces:
  "l \<in> set (map fst ws) \<Longrightarrow> \<exists>i. (l, i) \<in> set ws \<and> id_text (s_workspace_ids (after_workspaces ws s)) l = i"
  using workspace_ids_run [of l ws "snd (addWorkspacesFromWizard s)"] by (auto simp: after_workspaces_def id_text_def)

lemma id_text_reactors:
  "l \<in> set (map fst rs) \<Longrightarrow> \<exists>i. (l, i) \<in> set rs \<and> id_text (s_reactor_ids (after_reactors rs s)) l = i"
  using reactor_ids_run [of l rs "fst (snd (addReactorsFromWizard s))"] by (auto simp: after_reactors_def id_text_def)

text \<open>A step fires once, at its last response, when every item is answered once.\<close>

lemma templates_fire:
  assumes "mset (map fst ts) = mset (map t_label (s_templates s))" "s_templates s \<noteq> []"
    and "list_all (\<lambda>t. t_label t \<in> set (labels s)) (s_templates s)"
  shows "fired_at_the_end (snd (responses template_load ts (s, 0)))"
proof -
  have v: "\<forall>r\<in>set ts. has_label r (s, 0)"
  proof
    fix r assume "r \<in> set ts"
    then have "fst r \<in> set (map t_label (s_templates s))" using mset_eq_setD [OF assms(1)] by (metis image_eqI set_map)
    then show "has_label r (s, 0)" using assms(3) by (auto simp: list_all_iff)
  qed
  show ?thesis
    using mset_eq_length [OF assms(1)] assms(2) by (intro templates.fires_at_the_end [OF v]) simp_all
qed

lemma workspaces_fire:
  assumes "mset (map fst ws) = mset (map fst (s_workspaces s))" "s_workspaces s \<noteq> []"
  shows "fired_at_the_end (snd (responses workspace_load ws (snd (addWorkspacesFromWizard s))))"
  using mset_eq_length [OF assms(1)] assms(2)
  by (intro workspaces.fires_at_the_end) (simp_all add: addWorkspacesFromWizard_def)

lemma reactors_fire:
  assumes "mset (map fst rs) = mset (labels s)" "s_reactors s \<noteq> []"
  shows "fired_at_the_end (snd (responses reactor_load rs (fst (snd (addReactorsFromWizard s)))))"
  using mset_eq_length [OF assms(1)] assms(2)
  by (intro reactors.fires_at_the_end) (simp_all add: addReactorsFromWizard_def)

lemma connections_fire:
  assumes "length cs = length (s_connections s)" "s_connections s \<noteq> []"
  shows "fired_at_the_end (snd (responses connection_load cs (fst (snd (addConnectionsFromWizard s)))))"
  using assms by (intro connections.fires_at_the_end) (simp_all add: addConnectionsFromWizard_def)

section \<open>Properties\<close>

text \<open>
  C10: whatever the user chose in the wizard, the configuration that \<open>finish\<close> builds is a tree:
  the reactors have different labels, the first is the sniffer, and each other reactor has
  exactly one incoming connection, from a reactor before it in the list; every template belongs
  to a reactor, and every reactor lies in a workspace of the configuration.
\<close>

theorem finished_setup_is_a_tree:
  "wired (finish d w) \<and> distinct (labels (finish d w)) \<and>
   map snd (s_connections (finish d w)) = tl (labels (finish d w))"
proof -
  have w: "wired (finish d w)" by (rule wired_finish)
  then obtain ls where ls: "labels (finish d w) = ''sniffer'' # ls"
    by (cases "labels (finish d w)") (auto simp: wired_def)
  then have "wired_from [''sniffer''] ls (s_connections (finish d w))" using w by (simp add: wired_def)
  from wired_from_distinct [OF this] wired_from_targets [OF this] show ?thesis using w ls by simp
qed

lemma templates_report [simp]: "s_templates (add_report f l s) \<noteq> []"
  by (simp add: add_report_def)

lemma templates_finish: "s_templates (finish d w) \<noteq> []"
  by (simp add: finish_def Let_def add_anchors_def add_activity_def add_availability_def add_performance_def)
    (simp add: base_setup_def Let_def split: prod.splits)

definition connection_request :: "string \<Rightarrow> string \<Rightarrow> string" where
  "connection_request i j =
     ''<PionConfig><Connection><Type>reactor</Type><From>'' @ i @ ''</From><To>'' @ j @ ''</To></Connection></PionConfig>''"

definition reactor_request :: "string \<Rightarrow> string \<Rightarrow> string" where
  "reactor_request i config =
     ''<PionConfig><Reactor><Source>Wizard</Source><Workspace>'' @ i @ ''</Workspace>'' @ config @ ''</Reactor></PionConfig>''"

text \<open>
  C9: in whatever order the server answers, each step of the set-up goes on exactly once and
  not before its last answer, and the requests of the next step use the identifiers of the
  answers: every reactor is created in its own workspace, every connection between its own two
  reactors. No request contains \<open>undefined\<close> for an identifier that was not there yet.
\<close>

theorem setup_uses_server_ids:
  fixes d w ts ws rs
  defines "s1 \<equiv> after_templates ts (finish d w)"
  defines "s2 \<equiv> after_workspaces ws s1"
  defines "s3 \<equiv> after_reactors rs s2"
  assumes "mset (map fst ts) = mset (map t_label (s_templates (finish d w)))"
    and "mset (map fst ws) = mset (map fst (s_workspaces (finish d w)))"
    and "mset (map fst rs) = mset (labels (finish d w))"
  shows "fired_at_the_end (snd (responses template_load ts (finish d w, 0))) \<and>
     fired_at_the_end (snd (responses workspace_load ws (snd (addWorkspacesFromWizard s1)))) \<and>
     fired_at_the_end (snd (responses reactor_load rs (fst (snd (addReactorsFromWizard s2))))) \<and>
     (\<forall>r\<in>set (s_reactors s2). \<exists>l i. l = (case wr_workspace r of None \<Rightarrow> ''clickstream'' | Some l \<Rightarrow> l) \<and>
        (l, i) \<in> set ws \<and> reactor_post s2 r = reactor_request i (wr_config r)) \<and>
     (\<forall>c\<in>set (s_connections s3). \<exists>i j. (fst c, i) \<in> set rs \<and> (snd c, j) \<in> set rs \<and>
        connection_post s3 c = connection_request i j)"
proof -
  let ?s = "finish d w"
  note w = wired_finish [of d w, unfolded wired_def]
  have f1: "frame s1 = frame ?s" and f2: "frame s2 = frame ?s" and f3: "frame s3 = frame ?s"
    using frame_after by (simp_all add: s1_def s2_def s3_def)
  have ne: "s_reactors ?s \<noteq> []" "s_workspaces ?s \<noteq> []" using w by (auto simp: list_all_iff)
  obtain ls where ls: "labels ?s = ''sniffer'' # ls" using w by (cases "labels ?s") auto
  have ws_in: "\<forall>x\<in>set (map wr_workspace (s_reactors ?s)). (case x of None \<Rightarrow> ''clickstream'' | Some l \<Rightarrow> l) \<in> set (map fst ws)"
    using w mset_eq_setD [OF assms(5)] by (simp add: list_all_iff)
  have templates: "fired_at_the_end (snd (responses template_load ts (?s, 0)))"
    using w by (intro templates_fire assms(4) templates_finish) simp
  have workspaces: "fired_at_the_end (snd (responses workspace_load ws (snd (addWorkspacesFromWizard s1))))"
    using f1 assms(5) ne(2) by (intro workspaces_fire) simp_all
  have reactors: "fired_at_the_end (snd (responses reactor_load rs (fst (snd (addReactorsFromWizard s2)))))"
    using f2 assms(6) ne(1) by (intro reactors_fire) (simp, metis Pair_inject map_is_Nil_conv)
  have posts: "\<exists>l i. l = (case wr_workspace r of None \<Rightarrow> ''clickstream'' | Some l \<Rightarrow> l) \<and>
      (l, i) \<in> set ws \<and> reactor_post s2 r = reactor_request i (wr_config r)" if "r \<in> set (s_reactors s2)" for r
  proof -
    have "wr_workspace r \<in> set (map wr_workspace (s_reactors s2))" using that by simp
    then have "(case wr_workspace r of None \<Rightarrow> ''clickstream'' | Some l \<Rightarrow> l) \<in> set (map fst ws)"
      using ws_in f2 by (metis Pair_inject)
    from id_text_workspaces [OF this, of s1] show ?thesis
      by (auto simp: reactor_post_def reactor_request_def s2_def)
  qed
  have conns: "\<exists>i j. (fst c, i) \<in> set rs \<and> (snd c, j) \<in> set rs \<and> connection_post s3 c = connection_request i j"
    if "c \<in> set (s_connections s3)" for c
  proof -
    have c: "c \<in> set (s_connections ?s)" using that f3 by simp
    have wf: "wired_from [''sniffer''] ls (s_connections ?s)" using w ls by simp
    have "fst c \<in> set (labels ?s)" using wired_from_sources [OF wf c] by (simp add: ls)
    moreover have "snd c \<in> set (labels ?s)" using wired_from_targets [OF wf] c by (metis image_eqI list.set_intros(2) ls set_map)
    ultimately have "fst c \<in> set (map fst rs)" "snd c \<in> set (map fst rs)" using mset_eq_setD [OF assms(6)] by simp_all
    then show ?thesis
      using id_text_reactors [of "fst c" rs s2] id_text_reactors [of "snd c" rs s2]
      by (auto simp: connection_post_def connection_request_def s3_def)
  qed
  show ?thesis using templates workspaces reactors posts conns by blast
qed

lemma finish_fresh:
  "s_templates (finish d fresh_wizard) = [text_template ''clickstream'' ''/resources/ClickstreamTemplate.tmpl''
     [(''IgnoreDefaultGroup'', JBool False), (''SessionGroupConfig'', JStr [])]]"
  "s_workspaces (finish d fresh_wizard) = [(''clickstream'', ''Clickstream'')]"
  "labels (finish d fresh_wizard) = [''sniffer'', ''clickstream'']"
  "s_connections (finish d fresh_wizard) = [(''sniffer'', ''clickstream'')]"
  by (simp_all add: finish_def base_setup_def analytics_config_def fresh_wizard_def wreactor_def Let_def session_group_config_def)

theorem setup_uses_server_ids_witness:
  "\<exists>s. s_connections s = [(''sniffer'', ''clickstream'')] \<and>
     connection_post s (''sniffer'', ''clickstream'') = connection_request ''r1'' ''r2''"
proof -
  let ?ts = "[(''clickstream'', ''<Plugin>ClickstreamReactor</Plugin>'')]" and ?ws = "[(''clickstream'', ''w1'')]"
    and ?rs = "[(''clickstream'', ''r2''), (''sniffer'', ''r1'')]"
  let ?s = "after_reactors ?rs (after_workspaces ?ws (after_templates ?ts (finish ''http'' fresh_wizard)))"
  have c: "s_connections ?s = [(''sniffer'', ''clickstream'')]" using frame_after finish_fresh(4) by simp
  then obtain i j where "(''sniffer'', i) \<in> set ?rs" "(''clickstream'', j) \<in> set ?rs"
    "connection_post ?s (''sniffer'', ''clickstream'') = connection_request i j"
    using setup_uses_server_ids [of ?ts "''http''" fresh_wizard ?ws ?rs]
    by (force simp: finish_fresh text_template_def)
  with c show ?thesis by (intro exI [of _ ?s]) auto
qed

end
