(* ===== verification/Pion_Restart.thy ===== *)
theory Pion_Restart
  imports Pion_SetupRun
begin

text \<open>
  The way back from a finished configuration to a fresh wizard: what the user is asked
  (\<open>restart\<close>), which of the deleted reactors' settings are kept in cookies
  (\<open>deleteAllReactorsAndReload\<close>), what the clean-up sends, and how the license key step and the
  review pane use the wizard's state. The main property is the round trip: the hosts and
  cookies of a configuration made by the wizard are those the wizard offers, and accepts, after
  a restart.
\<close>

section \<open>Saving the settings of the deleted reactors\<close>

text \<open>
  Steps on the cookie jar that may throw: reading the text of an element that is not there
  does, and the cookies set before remain. The flag is true when the step got through.
\<close>

type_synonym jar = "string jsobj"

definition then_do :: "(jar \<Rightarrow> jar \<times> bool) \<Rightarrow> (jar \<Rightarrow> jar \<times> bool) \<Rightarrow> jar \<Rightarrow> jar \<times> bool" where
  "then_do f g j = (case f j of (j', True) \<Rightarrow> g j' | (j', False) \<Rightarrow> (j', False))"

definition put_cookie :: "string \<Rightarrow> string \<Rightarrow> jar \<Rightarrow> jar \<times> bool" where
  "put_cookie n v j = (obj_put j n v, True)"

text \<open>\<open>dojo.cookie(name, getContent(reactor.getElementsByTagName(tag)[0]))\<close>.\<close>

definition put_first :: "node \<Rightarrow> string \<Rightarrow> string \<Rightarrow> jar \<Rightarrow> jar \<times> bool" where
  "put_first r n tag j =
     (case getElementsByTagName r tag of [] \<Rightarrow> (j, False) | e # _ \<Rightarrow> put_cookie n (textContent e) j)"

definition texts :: "node \<Rightarrow> string \<Rightarrow> string list" where
  "texts e tag = map textContent (getElementsByTagName e tag)"

definition cookies_of_type :: "char \<Rightarrow> node \<Rightarrow> string list" where
  "cookies_of_type c sg =
     map textContent (filter (\<lambda>e. case getAttribute e ''type'' of Some t \<Rightarrow> c \<in> set t | None \<Rightarrow> False)
       (getElementsByTagName sg ''Cookie''))"

definition save_clickstream :: "node \<Rightarrow> jar \<Rightarrow> jar \<times> bool" where
  "save_clickstream r =
     (let groups = dropWhile (\<lambda>g. getAttribute g ''id'' = Some ''default'') (getElementsByTagName r ''SessionGroup'');
          (hosts, session, visitor) =
            (case groups of
               [] \<Rightarrow> ([], [], [])
             | g # _ \<Rightarrow> (texts g ''Host'', cookies_of_type (CHR ''s'') g, cookies_of_type (CHR ''v'') g))
      in then_do (put_cookie ''host_suffixes'' (join '', '' hosts))
           (then_do (put_cookie ''session_cookies'' (join '', '' session))
              (put_cookie ''visitor_cookies'' (join '', '' visitor))))"

definition save_settings :: "string \<Rightarrow> node \<Rightarrow> jar \<Rightarrow> jar \<times> bool" where
  "save_settings plugin r =
     (if plugin = ''ClickstreamReactor'' then save_clickstream r
      else if plugin = ''OmnitureAnalyticsReactor'' then
        then_do (put_cookie ''analytics_provider'' ''Omniture'') (then_do (put_first r ''omniture_host'' ''HttpHost'')
          (then_do (put_first r ''omniture_report_suite'' ''AccountId'') (put_first r ''strip_client_ip'' ''StripClientIP'')))
      else if plugin = ''WebTrendsAnalyticsReactor'' then
        then_do (put_cookie ''analytics_provider'' ''Webtrends'') (then_do (put_first r ''webtrends_account_id'' ''AccountId'')
          (then_do (put_first r ''webtrends_host'' ''HttpHost'') (put_first r ''strip_client_ip'' ''StripClientIP'')))
      else if plugin = ''GoogleAnalyticsReactor'' then
        then_do (put_cookie ''analytics_provider'' ''Google'') (then_do (put_first r ''google_account_id'' ''AccountId'')
          (put_first r ''strip_client_ip'' ''StripClientIP''))
      else if plugin = ''UnicaAnalyticsReactor'' then
        then_do (put_cookie ''analytics_provider'' ''Unica'') (then_do (put_first r ''unica_account_id'' ''AccountId'')
          (then_do (put_first r ''unica_host'' ''HttpHost'') (put_first r ''strip_client_ip'' ''StripClientIP'')))
      else if plugin = ''SnifferReactor'' then put_cookie ''selected_interfaces'' (join '','' (texts r ''Interface''))
      else if plugin = ''MultiDatabaseReactor'' then put_first r ''max_disk_usage'' ''MaxDiskUsage''
      else (\<lambda>j. (j, True)))"

definition save_reactor :: "node \<Rightarrow> jar \<Rightarrow> jar \<times> bool" where
  "save_reactor r j =
     (case texts r ''Source'' of
        s # _ \<Rightarrow>
          if s = ''Wizard'' then
            (case texts r ''Plugin'' of p # _ \<Rightarrow> save_settings p r j | [] \<Rightarrow> (j, False))
          else (j, True)
      | [] \<Rightarrow> (j, True))"

definition delete_reactor_url :: "node \<Rightarrow> string" where
  "delete_reactor_url r =
     ''/config/reactors/'' @ (case getAttribute r ''id'' of Some i \<Rightarrow> i | None \<Rightarrow> ''null'')"

text \<open>The loop: the cookies, the requests sent, and whether it got through.\<close>

fun delete_reactors :: "node list \<Rightarrow> jar \<Rightarrow> jar \<times> string list \<times> bool" where
  "delete_reactors [] j = (j, [], True)"
| "delete_reactors (r # rs) j =
     (case save_reactor r j of
        (j', True) \<Rightarrow> (let (j'', us, b) = delete_reactors rs j' in (j'', delete_reactor_url r # us, b))
      | (j', False) \<Rightarrow> (j', [], False))"

definition deleteAllReactorsAndReload :: "node list \<Rightarrow> jar \<Rightarrow> jar \<times> string list \<times> bool" where
  "deleteAllReactorsAndReload rs j = delete_reactors rs (obj_put j ''analytics_provider'' ''none'')"

section \<open>The question before a restart\<close>

definition restart_message :: "int \<Rightarrow> bool \<Rightarrow> int \<Rightarrow> string" where
  "restart_message n replay panes =
     ''Warning: You currently have '' @ (if n = 1 then ''one Reactor'' else int_string n @ '' Reactors'') @
     (if replay \<and> panes = 0 then '' and a Replay Service'' else []) @
     (if replay \<and> panes = 1 then '', a Replay Service and one Dashboard chart'' else []) @
     (if replay \<and> panes > 1 then '', a Replay Service and '' @ int_string panes @ '' Dashboard charts'' else []) @
     (if \<not> replay \<and> panes = 1 then '' and one Dashboard chart'' else []) @
     (if \<not> replay \<and> panes > 1 then '' and '' @ int_string panes @ '' Dashboard charts'' else []) @
     '' configured.  If you continue, '' @ (if n = 1 \<and> \<not> replay \<and> panes = 0 then ''it '' else ''they '') @
     ''will be deleted, and the Wizard will guide you through '' @
     ''creating a new configuration from scratch.  If you want to edit the configuration of a '' @
     ''particular Reactor, you can do so by double clicking on it in the Reactors '' @
     ''tab, or by editing reactors.xml.  '' @
     (if replay then ''The Replay Service can be edited by editing services.xml.  '' else []) @
     (if panes > 0 then ''Dashboards can be edited by editing dashboards.xml.  '' else []) @
     ''Do you want to delete your current '' @ ''Reactors'' @
     (if replay \<and> panes = 0 then '' and Replay Service'' else []) @
     (if replay \<and> panes > 0 then '', Replay Service and Dashboard charts'' else []) @
     (if \<not> replay \<and> panes > 0 then '' and Dashboard charts'' else []) @
     '' and continue to the Wizard?''"

text \<open>What \<open>restart\<close> does when the reactors have arrived: clean up at once, or ask.\<close>

datatype restart_action = CleanUp | Ask string

definition restart :: "node list \<Rightarrow> string list \<Rightarrow> int \<Rightarrow> restart_action" where
  "restart reactors service_plugins panes =
     (if reactors = [] then CleanUp
      else Ask (restart_message (int (length reactors)) (''ReplayService'' \<in> set service_plugins) panes))"

text \<open>The list of things in English: \<open>a\<close>, \<open>a and b\<close>, \<open>a, b and c\<close>.\<close>

fun and_list :: "string list \<Rightarrow> string" where
  "and_list [] = []"
| "and_list [a] = a"
| "and_list [a, b] = a @ '' and '' @ b"
| "and_list (a # rest) = a @ '', '' @ and_list rest"

definition counted :: "int \<Rightarrow> string \<Rightarrow> string" where
  "counted n noun = (if n = 1 then ''one '' @ noun else int_string n @ '' '' @ noun @ ''s'')"

section \<open>The license key and the end of the wizard\<close>

datatype key_result = KeyMessage string | KeyAccepted string

definition license_state :: "string list \<Rightarrow> string" where
  "license_state products =
     (if ''Pion Replay'' \<in> set products then ''replay''
      else if ''Pion Enterprise'' \<in> set products then ''enterprise'' else ''lite'')"

text \<open>The reply to a key: its type, and the products that the response names.\<close>

definition key_reply :: "string \<Rightarrow> string \<Rightarrow> node \<Rightarrow> key_result" where
  "key_reply edition key_type response =
     (if key_type = ''invalid'' then KeyMessage ''Invalid license key (may have expired).''
      else
        let products = texts response ''Product'' in
        if index_of products (''Pion '' @ edition) = -1
        then KeyMessage (''Error: Key not valid for '' @ (''Pion '' @ edition) @ ''.'')
        else KeyAccepted (license_state products))"

definition checkLicenseKey :: "string \<Rightarrow> string \<Rightarrow> check" where
  "checkLicenseKey edition key =
     (if key = [] then Say (''You must enter a valid license key to use '' @ (''Pion '' @ edition) @ ''.'') else Stay)"

text \<open>
  \<open>deleteAllWorkspaces\<close>, when the list of workspaces has arrived: the requests, the counter, and
  whether its \<open>Deferred\<close> fires at once. The responses are counted by \<open>delete_load\<close>.
\<close>

definition deleteAllWorkspaces :: "node \<Rightarrow> string list \<times> (nat \<times> nat) \<times> bool" where
  "deleteAllWorkspaces response =
     (let ws = getElementsByTagName response ''Workspace'' in
      (map (\<lambda>w. ''/config/workspaces/'' @ (case getAttribute w ''id'' of Some i \<Rightarrow> i | None \<Rightarrow> ''null'')) ws,
       (0, length ws), ws = []))"

text \<open>
  What the clean-up does when the dashboards are gone, in order: the callback that asks for the
  workspaces returns nothing, so the next one follows at once.
\<close>

datatype cleanup = ListWorkspaces | Reload

definition finishCleanupAndReload :: "jar \<Rightarrow> jar \<times> cleanup list" where
  "finishCleanupAndReload j = (obj_del j ''pion_edition'', [ListWorkspaces, Reload])"

text \<open>
  \<open>start\<close>: the initial selections, the edition to preselect, and the requests that delete a
  Replay service which is left over, for the plugin and identifier of each service.
\<close>

definition start :: "string \<Rightarrow> (string \<times> string) list \<Rightarrow> wizard \<Rightarrow> wizard \<times> string list" where
  "start license_key_type services w =
     (let w1 = w\<lparr>wz_cookies := [], wz_devices := [], wz_dashboards := [], wz_max_disk := JStr ''NA''\<rparr>
      in (case cookie w ''pion_edition'' of
            Some e \<Rightarrow> set_field ''edition'' (JStr e) (w1\<lparr>wz_edition := e\<rparr>)
          | None \<Rightarrow>
              if license_key_type = ''enterprise'' then set_field ''edition'' (JStr ''Enterprise'') w1
              else if license_key_type = ''replay'' then set_field ''edition'' (JStr ''Replay'') w1 else w1,
          map (\<lambda>(p, i). ''/config/services/'' @ i) (filter (\<lambda>(p, i). p = ''ReplayService'') services)))"

text \<open>The review pane: the fields that \<open>prepareSetupReview\<close> fills, in its order.\<close>

definition prepareSetupReview :: "wizard \<Rightarrow> (string \<times> string) list" where
  "prepareSetupReview w =
     [(''edition'', ''Pion '' @ wz_edition w), (''web_site'', join '', '' (wz_hosts w)),
      (''web_analytics'', wz_label w), (''cookies'', join '', '' (map fst (wz_cookies w))),
      (''devices'', join '', '' (wz_devices w)), (''ports'', join '', '' (wz_ports w)),
      (''ssl_keys'', join '', '' (wz_keys w)), (''replay_alloc'', js_string (wz_max_disk w)),
      (''dashboards'', join '', '' (wz_dashboards w))]"

section \<open>The session group of the wizard's configuration\<close>

text \<open>Names that survive: listable, and without characters that XML would need escaped.\<close>

definition plain_list :: "string list \<Rightarrow> bool" where
  "plain_list xs = (listable xs \<and> list_all (\<lambda>x. list_all (\<lambda>c. \<not> special c) x) xs)"

definition wizard_cookies :: "string list \<Rightarrow> string list \<Rightarrow> (string \<times> bool) list" where
  "wizard_cookies visitor session = map (\<lambda>c. (c, True)) visitor @ map (\<lambda>c. (c, False)) session"

lemma plain_listD:
  "plain_list xs \<Longrightarrow> x \<in> set xs \<Longrightarrow> x \<noteq> [] \<and> trim x = x \<and> (\<forall>c\<in>set x. \<not> special c)"
  by (simp add: plain_list_def listable_def list_all_iff)

lemma set_split_char: "p \<in> set (split_char c s) \<Longrightarrow> set p \<subseteq> set s"
proof (induction c s arbitrary: p rule: split_char.induct)
  case (2 c x xs)
  then show ?case by (auto split: if_splits list.splits) blast+
qed simp

lemma session_group_name_in: "session_group_name h \<in> set (split_char (CHR ''.'') h)"
  unfolding session_group_name_def Let_def by (rule nth_mem) (cases "split_char (CHR ''.'') h", auto)

definition host_node :: "string \<Rightarrow> node" where
  "host_node h = Element ''Host'' [] (text_nodes h)"

definition cookie_node :: "string \<times> bool \<Rightarrow> node" where
  "cookie_node c = Element ''Cookie'' [(''type'', if snd c then ''v'' else ''s'')] (text_nodes (fst c))"

definition group_node :: "wizard \<Rightarrow> node" where
  "group_node w =
     (let name = session_group_name (wz_hosts w ! 0) in
      Element ''SessionGroup'' [(''id'', name)]
        (Element ''Name'' [] (text_nodes name) # map host_node (wz_hosts w) @ map cookie_node (wz_cookies w)))"

lemma reads_host: "h \<in> set hs \<Longrightarrow> plain_list hs \<Longrightarrow> reads (host_element h) [host_node h]"
  using reads_leaf_plain [of "''Host''" h] plain_listD [of hs h]
  by (simp add: host_element_def host_node_def valid_name_def is_name_char_def)

lemma reads_cookie: "\<forall>x\<in>set (fst c). \<not> special x \<Longrightarrow> reads (cookie_element c) [cookie_node c]"
  using reads_leaf_attr [of "''Cookie''" "''type''" "if snd c then ''v'' else ''s''" "fst c"]
    escape_chain_plain [of "fst c"] escape_chain_plain [of "if snd c then ''v'' else ''s''"]
  by (simp add: cookie_element_def cookie_node_def valid_name_def is_name_char_def special_def)

lemma reads_session_group:
  assumes "wz_hosts w \<noteq> []" "plain_list (wz_hosts w)" "plain_list (map fst (wz_cookies w))"
  shows "reads (session_group_config w) [group_node w]"
proof -
  define name where "name = session_group_name (wz_hosts w ! 0)"
  have "\<forall>c\<in>set name. \<not> special c"
    using set_split_char [OF session_group_name_in [of "wz_hosts w ! 0"]] plain_listD [OF assms(2), of "wz_hosts w ! 0"] assms(1)
    by (auto simp: name_def)
  note pl = escape_chain_plain [OF this]
  have vn: "valid_name ''Name''" "valid_name ''SessionGroup''" "valid_name ''id''"
    by (simp_all add: valid_name_def is_name_char_def)
  have hosts: "reads (concat (map host_element (wz_hosts w))) (concat (map (\<lambda>h. [host_node h]) (wz_hosts w)))"
    using assms(2) by (intro reads_concat) (rule reads_host)
  have cookies: "reads (concat (map cookie_element (wz_cookies w))) (concat (map (\<lambda>c. [cookie_node c]) (wz_cookies w)))"
    using plain_listD [OF assms(3)] by (intro reads_concat reads_cookie) auto
  have nm: "reads (''<Name>'' @ name @ ''</Name>'') [Element ''Name'' [] (text_nodes name)]"
    using reads_leaf [OF vn(1), of name] by (simp add: pl)
  show ?thesis
    using reads_elem_attr [OF vn(2,3) reads_append [OF nm reads_append [OF hosts cookies]], of name]
      assms(1) by (simp add: session_group_config_def group_node_def Let_def name_def [symmetric] pl)
qed

lemma textContent_leaf [simp]: "concat (map textContent (text_nodes s)) = s"
  by (simp add: text_nodes_def)

lemma matching_text_nodes [simp]: "concat (map (matching_nodes t) (text_nodes s)) = []"
  by (simp add: text_nodes_def)

lemma group_hosts: "texts (group_node w) ''Host'' = wz_hosts w"
proof -
  have h: "concat (map (matching_nodes ''Host'') (map host_node hs)) = map host_node hs" for hs
    by (induction hs) (simp_all add: host_node_def)
  have c: "concat (map (matching_nodes ''Host'') (map cookie_node cs)) = []" for cs
    by (induction cs) (simp_all add: cookie_node_def)
  have t: "map textContent (map host_node hs) = hs" for hs by (induction hs) (simp_all add: host_node_def)
  show ?thesis using h c t by (simp add: texts_def getElementsByTagName_def group_node_def Let_def del: map_map)
qed

lemma group_cookies:
  "cookies_of_type (CHR ''v'') (group_node w) = map fst (filter snd (wz_cookies w))"
  "cookies_of_type (CHR ''s'') (group_node w) = map fst (filter (\<lambda>c. \<not> snd c) (wz_cookies w))"
proof -
  have h: "concat (map (matching_nodes ''Cookie'') (map host_node hs)) = []" for hs
    by (induction hs) (simp_all add: host_node_def)
  have c: "concat (map (matching_nodes ''Cookie'') (map cookie_node cs)) = map cookie_node cs" for cs
    by (induction cs) (simp_all add: cookie_node_def)
  have all: "getElementsByTagName (group_node w) ''Cookie'' = map cookie_node (wz_cookies w)"
    using h c by (simp add: getElementsByTagName_def group_node_def Let_def del: map_map)
  show "cookies_of_type (CHR ''v'') (group_node w) = map fst (filter snd (wz_cookies w))"
    unfolding cookies_of_type_def all by (simp add: cookie_node_def getAttribute_def filter_map o_def if_distrib)
  show "cookies_of_type (CHR ''s'') (group_node w) = map fst (filter (\<lambda>c. \<not> snd c) (wz_cookies w))"
    unfolding cookies_of_type_def all by (simp add: cookie_node_def getAttribute_def filter_map o_def if_distrib)
qed

section \<open>Restarting\<close>

lemma field_text_fill:
  "field_text (fill c i w) i = (case cookie w c of Some v \<Rightarrow> v | None \<Rightarrow> field_text w i)"
  "i \<noteq> j \<Longrightarrow> field_text (fill c j w) i = field_text w i"
  "cookie (fill c i w) d = cookie w d"
  by (auto simp: fill_def field_text_def set_field_def obj_get_put cookie_def split: option.splits)

lemma csv_Nil [simp]: "getArrayFromCSVString [] = []"
  by (simp add: getArrayFromCSVString_def trim_def)

text \<open>A prefilled field that is then read as a list gives the list that was saved.\<close>

lemma csv_of_cookie:
  assumes "listable xs" "obj_get (wz_jar w) c = Some (join '', '' xs)"
  shows "getArrayFromCSVString (case cookie w c of Some v \<Rightarrow> v | None \<Rightarrow> []) = xs"
  using assms getArrayFromCSVString_join [OF assms(1)] by (auto simp: cookie_def)

lemma host_pane_of_cookie:
  assumes "listable hosts" "obj_get (wz_jar w) ''host_suffixes'' = Some (join '', '' hosts)" "wz_ready w = []" "wz_form w = []"
  shows "wz_hosts (snd (checkHosts (prepareHostPane w))) = hosts"
proof -
  have "field_text (prepareHostPane w) ''host_suffixes'' = (case cookie w ''host_suffixes'' of Some v \<Rightarrow> v | None \<Rightarrow> [])"
    using field_text_fill(1) [of "''host_suffixes''" "''host_suffixes''" w] assms(3,4)
    by (simp add: prepareHostPane_def once_def field_text_def split: option.splits)
  then show ?thesis using csv_of_cookie [OF assms(1,2)] by (simp only: checkHosts_hosts)
qed

lemma cookie_pane_of_cookies:
  assumes "listable vs" "obj_get (wz_jar w) ''visitor_cookies'' = Some (join '', '' vs)"
    and "listable ss" "obj_get (wz_jar w) ''session_cookies'' = Some (join '', '' ss)" "wz_ready w = []" "wz_form w = []"
  shows "wz_cookies (snd (checkCookies (prepareCookiePane w))) = wizard_cookies vs ss"
proof -
  have f: "field_text (prepareCookiePane w) i = field_text (fill ''session_cookies'' ''session_cookies'' (fill ''visitor_cookies'' ''visitor_cookies'' w)) i" for i
    using assms(5) by (simp add: prepareCookiePane_def once_def field_text_def)
  have "field_text w i = []" for i using assms(6) by (simp add: field_text_def)
  then have "field_text (prepareCookiePane w) ''visitor_cookies'' = (case cookie w ''visitor_cookies'' of Some v \<Rightarrow> v | None \<Rightarrow> [])"
    "field_text (prepareCookiePane w) ''session_cookies'' = (case cookie w ''session_cookies'' of Some v \<Rightarrow> v | None \<Rightarrow> [])"
    unfolding f by (simp_all add: field_text_fill split: option.splits)
  then show ?thesis
    using csv_of_cookie [OF assms(1,2)] csv_of_cookie [OF assms(3,4)] by (simp add: checkCookies_def wizard_cookies_def)
qed

lemma filter_wizard_cookies:
  "map fst (filter snd (wizard_cookies vs ss)) = vs" "map fst (filter (\<lambda>c. \<not> snd c) (wizard_cookies vs ss)) = ss"
  "map fst (wizard_cookies vs ss) = vs @ ss"
  by (simp_all add: wizard_cookies_def filter_map o_def)

lemma save_clickstream_first:
  assumes "getElementsByTagName r ''SessionGroup'' = ds @ g # later"
    and "\<forall>d\<in>set ds. getAttribute d ''id'' = Some ''default''" "getAttribute g ''id'' \<noteq> Some ''default''"
  shows "save_clickstream r j =
     (obj_put (obj_put (obj_put j ''host_suffixes'' (join '', '' (texts g ''Host'')))
        ''session_cookies'' (join '', '' (cookies_of_type (CHR ''s'') g)))
        ''visitor_cookies'' (join '', '' (cookies_of_type (CHR ''v'') g)), True)"
proof -
  have "dropWhile (\<lambda>g. getAttribute g ''id'' = Some ''default'') (ds @ g # later) = g # later"
    using assms(2,3) by (subst dropWhile_append2) auto
  then show ?thesis using assms(1) by (simp add: save_clickstream_def then_do_def put_cookie_def)
qed

text \<open>
  Restarting the wizard restores the web site settings. Take a configuration with the
  session group that \<open>finish\<close> sends; let the server hand the Clickstream reactor back with that
  group behind any number of default ones. The cookies that the restart saves from it make the
  fresh wizard's host and cookie panes, when accepted as offered, produce the same hosts and
  the same cookies, visitor cookies marked as such.
\<close>

theorem restart_restores_session_group:
  assumes "wz_hosts w \<noteq> []" "plain_list (wz_hosts w)" "wz_cookies w = wizard_cookies vs ss" "plain_list (vs @ ss)"
    and "session_group_name (wz_hosts w ! 0) \<noteq> ''default''"
    and "texts r ''Source'' = [''Wizard'']" "texts r ''Plugin'' = [''ClickstreamReactor'']"
    and "getElementsByTagName r ''SessionGroup'' = ds @ g # later"
    and "\<forall>d\<in>set ds. getAttribute d ''id'' = Some ''default''"
    and "read_xml (session_group_config w) = Some g"
    and "wz_jar w0 = fst (save_reactor r j)" "wz_ready w0 = []" "wz_form w0 = []"
  shows "snd (save_reactor r j) \<and>
     wz_hosts (snd (checkHosts (prepareHostPane w0))) = wz_hosts w \<and>
     wz_cookies (snd (checkCookies (prepareCookiePane w0))) = wz_cookies w"
proof -
  have pc: "plain_list (map fst (wz_cookies w))" using assms(3,4) by (simp add: filter_wizard_cookies)
  have g: "g = group_node w"
    using reads_read_xml [OF reads_session_group [OF assms(1,2) pc, unfolded group_node_def Let_def]] assms(10)
    by (simp add: group_node_def Let_def)
  have id: "getAttribute g ''id'' \<noteq> Some ''default''" using assms(5) by (simp add: g group_node_def Let_def getAttribute_def)
  have l: "listable (wz_hosts w)" "listable vs" "listable ss"
    using assms(2,4) by (simp_all add: plain_list_def listable_def)
  have save: "save_reactor r j =
     (obj_put (obj_put (obj_put j ''host_suffixes'' (join '', '' (wz_hosts w)))
        ''session_cookies'' (join '', '' ss)) ''visitor_cookies'' (join '', '' vs), True)"
    using assms(3,6,7) save_clickstream_first [OF assms(8,9) id, of j]
    by (simp add: save_reactor_def save_settings_def g group_hosts group_cookies filter_wizard_cookies)
  show ?thesis
    using host_pane_of_cookie [OF l(1) _ assms(12,13)] cookie_pane_of_cookies [OF l(2) _ l(3) _ assms(12,13)] assms(3,11)
    by (simp add: save obj_get_put)
qed

definition saved_reactor :: node where
  "saved_reactor = Element ''Reactor'' [(''id'', ''r1'')]
     [Element ''Source'' [] [TextNode ''Wizard''], Element ''Plugin'' [] [TextNode ''ClickstreamReactor''],
      Element ''SessionGroup'' [(''id'', ''default'')] [],
      Element ''SessionGroup'' [(''id'', ''pion'')]
        [Element ''Name'' [] [TextNode ''pion''], Element ''Host'' [] [TextNode ''pion.org''],
         Element ''Cookie'' [(''type'', ''v'')] [TextNode ''vid''], Element ''Cookie'' [(''type'', ''s'')] [TextNode ''sid'']]]"

theorem restart_restores_session_group_witness:
  "\<exists>w0. wz_jar w0 = fst (save_reactor saved_reactor []) \<and>
     wz_hosts (snd (checkHosts (prepareHostPane w0))) = [''pion.org''] \<and>
     wz_cookies (snd (checkCookies (prepareCookiePane w0))) = [(''vid'', True), (''sid'', False)]"
proof -
  define w where "w = fresh_wizard\<lparr>wz_hosts := [''pion.org''], wz_cookies := wizard_cookies [''vid''] [''sid'']\<rparr>"
  define w0 where "w0 = fresh_wizard\<lparr>wz_jar := fst (save_reactor saved_reactor [])\<rparr>"
  have pl: "plain_list [''pion.org'']" "plain_list ([''vid''] @ [''sid''])"
    by (simp_all add: plain_list_def listable_def special_def trim_def is_space_def)
  have n: "session_group_name ''pion.org'' = ''pion''" by (simp add: session_group_name_def)
  have g: "read_xml (session_group_config w) = Some (group_node w)"
    using reads_read_xml [OF reads_session_group [of w, unfolded group_node_def Let_def]] pl
    by (simp add: w_def group_node_def Let_def filter_wizard_cookies fresh_wizard_def)
  have e: "group_node w = Element ''SessionGroup'' [(''id'', ''pion'')]
        [Element ''Name'' [] [TextNode ''pion''], Element ''Host'' [] [TextNode ''pion.org''],
         Element ''Cookie'' [(''type'', ''v'')] [TextNode ''vid''], Element ''Cookie'' [(''type'', ''s'')] [TextNode ''sid'']]"
    by (simp add: group_node_def w_def n host_node_def cookie_node_def text_nodes_def wizard_cookies_def Let_def)
  have groups: "getElementsByTagName saved_reactor ''SessionGroup'' = [Element ''SessionGroup'' [(''id'', ''default'')] []] @ group_node w # []"
    unfolding e by (simp add: saved_reactor_def getElementsByTagName_def)
  have src: "texts saved_reactor ''Source'' = [''Wizard'']" "texts saved_reactor ''Plugin'' = [''ClickstreamReactor'']"
    by (simp_all add: saved_reactor_def texts_def getElementsByTagName_def)
  have "wz_hosts (snd (checkHosts (prepareHostPane w0))) = wz_hosts w \<and>
      wz_cookies (snd (checkCookies (prepareCookiePane w0))) = wz_cookies w"
    using restart_restores_session_group [of w "[''vid'']" "[''sid'']" saved_reactor _ _ "[]" w0, OF _ _ _ _ _ src groups _ g] pl n
    by (simp add: w_def w0_def fresh_wizard_def getAttribute_def)
  then show ?thesis by (intro exI [of _ w0]) (simp add: w_def w0_def wizard_cookies_def)
qed

lemma what_is_there:
  assumes "0 \<le> panes"
  shows "(if n = 1 then ''one Reactor'' else int_string n @ '' Reactors'') @
     (if replay \<and> panes = 0 then '' and a Replay Service'' else []) @
     (if replay \<and> panes = 1 then '', a Replay Service and one Dashboard chart'' else []) @
     (if replay \<and> panes > 1 then '', a Replay Service and '' @ int_string panes @ '' Dashboard charts'' else []) @
     (if \<not> replay \<and> panes = 1 then '' and one Dashboard chart'' else []) @
     (if \<not> replay \<and> panes > 1 then '' and '' @ int_string panes @ '' Dashboard charts'' else []) @ rest =
   and_list ([counted n ''Reactor''] @ (if replay then [''a Replay Service''] else []) @
       (if panes = 0 then [] else [counted panes ''Dashboard chart''])) @ rest"
  using assms by (cases "panes = 0"; cases "panes = 1"; cases replay; cases "n = 1") (simp_all add: counted_def)

lemma what_is_deleted:
  assumes "0 \<le> (panes :: int)"
  shows "''Reactors'' @ (if replay \<and> panes = 0 then '' and Replay Service'' else []) @
     (if replay \<and> panes > 0 then '', Replay Service and Dashboard charts'' else []) @
     (if \<not> replay \<and> panes > 0 then '' and Dashboard charts'' else []) @ rest =
   and_list ([''Reactors''] @ (if replay then [''Replay Service''] else []) @ (if panes = 0 then [] else [''Dashboard charts''])) @ rest"
  using assms by (cases "panes = 0"; cases replay) simp_all

text \<open>
  The question before a restart names everything that the clean-up deletes, in an English
  list, agrees in number with it, and names the files only of what exists: the message is the
  one below for every number of reactors and of dashboard charts, with or without a Replay
  service.
\<close>

theorem restart_message_lists_what_is_deleted:
  assumes "0 \<le> panes"
  shows "restart_message n replay panes =
     ''Warning: You currently have '' @
     and_list ([counted n ''Reactor''] @ (if replay then [''a Replay Service''] else []) @
       (if panes = 0 then [] else [counted panes ''Dashboard chart''])) @
     '' configured.  If you continue, '' @ (if n = 1 \<and> \<not> replay \<and> panes = 0 then ''it '' else ''they '') @
     ''will be deleted, and the Wizard will guide you through '' @
     ''creating a new configuration from scratch.  If you want to edit the configuration of a '' @
     ''particular Reactor, you can do so by double clicking on it in the Reactors '' @
     ''tab, or by editing reactors.xml.  '' @
     (if replay then ''The Replay Service can be edited by editing services.xml.  '' else []) @
     (if panes > 0 then ''Dashboards can be edited by editing dashboards.xml.  '' else []) @
     ''Do you want to delete your current '' @
     and_list ([''Reactors''] @ (if replay then [''Replay Service''] else []) @ (if panes = 0 then [] else [''Dashboard charts''])) @
     '' and continue to the Wizard?''"
  by (simp only: restart_message_def what_is_there [OF assms] what_is_deleted [OF assms])

theorem restart_message_lists_what_is_deleted_witness:
  "starts_with ''Warning: You currently have one Reactor, a Replay Service and 2 Dashboard charts configured.'' (restart_message 1 True 2)"
  using restart_message_lists_what_is_deleted [of 2 1 True]
  by (simp add: counted_def int_string_def nat_digits.simps digit_char_def)

end
