(* ===== verification/Pion_ReactorConfig.thy ===== *)
theory Pion_ReactorConfig
  imports Pion_Config
begin

text \<open>
  A reactor's configuration in the interface, \<open>plugins/reactors/Reactor.js\<close>: creating a reactor
  from its dialog, reading the server's answer, the option check boxes, saving the
  configuration dialog and the position after a move.

  A configuration is the dictionary \<open>reactor.config\<close>; \<open>option_defaults\<close> and \<open>other_defaults\<close> are
  those of the reactor's class (\<open>None\<close> when the class has none). What a subclass adds with
  \<open>_insertCustomData\<close> is an argument.
\<close>

section \<open>Requests\<close>

text \<open>The elements that go into a request: not special, and not starting with an underscore.\<close>

definition sent_fields :: "string list \<Rightarrow> jsval jsobj \<Rightarrow> jsval jsobj" where
  "sent_fields special_elements config = filter (\<lambda>(tag, v). tag \<notin> set special_elements \<and> take 1 tag \<noteq> ''_'') config"

definition config_elements :: "jsval jsobj \<Rightarrow> string" where
  "config_elements config = concat (map (\<lambda>(tag, v). makeXmlLeafElement tag v) config)"

definition reactor_body :: "string list \<Rightarrow> string \<Rightarrow> jsval jsobj \<Rightarrow> string" where
  "reactor_body special_elements custom config =
     ''<PionConfig><Reactor>'' @ config_elements (sent_fields special_elements config) @ custom @ ''</Reactor></PionConfig>''"

definition raw_value :: "string \<Rightarrow> string \<Rightarrow> string" where
  "raw_value tag v = ''<'' @ tag @ ''>'' @ v @ ''</'' @ tag @ ''>''"

definition is_checked :: "string \<Rightarrow> jsval \<Rightarrow> bool" where
  "is_checked opt v = (case v of JArr xs \<Rightarrow> JStr opt \<in> set xs | _ \<Rightarrow> False)"

definition option_names :: "jsval jsobj option \<Rightarrow> string list" where
  "option_names option_defaults = (case option_defaults of Some ds \<Rightarrow> map fst ds | None \<Rightarrow> [])"

text \<open>\<open>ReactorInitDialog.tryConfig\<close>: the body of the request that creates a reactor.\<close>

definition tryConfig ::
  "string \<Rightarrow> string \<Rightarrow> int \<Rightarrow> int \<Rightarrow> jsval jsobj option \<Rightarrow> jsval jsobj option \<Rightarrow> string \<Rightarrow> jsval jsobj \<Rightarrow> string" where
  "tryConfig plugin workspace_uuid x y option_defaults other_defaults custom dialogFields =
     ''<PionConfig><Reactor>'' @ makeXmlLeafElement ''Plugin'' (JStr plugin) @
     makeXmlLeafElement ''Workspace'' (JStr workspace_uuid) @
     ''<X>'' @ int_string x @ ''</X><Y>'' @ int_string y @ ''</Y>'' @
     config_elements (sent_fields [''options''] dialogFields) @
     (case obj_get dialogFields ''options'' of
        Some v \<Rightarrow> concat (map (\<lambda>opt. raw_value opt (js_string (JBool (is_checked opt v)))) (option_names option_defaults))
      | None \<Rightarrow> []) @
     custom @
     (case other_defaults of Some ds \<Rightarrow> concat (map (\<lambda>(k, v). raw_value k (js_string v)) ds) | None \<Rightarrow> []) @
     ''</Reactor></PionConfig>''"

text \<open>The configuration that \<open>tryConfig\<close> reads from the answer.\<close>

fun add_child_values :: "node list \<Rightarrow> jsval jsobj \<Rightarrow> jsval jsobj" where
  "add_child_values [] config = config"
| "add_child_values (n # ns) config =
     (case childNodes n of
        [] \<Rightarrow> add_child_values ns config
      | c # _ \<Rightarrow> add_child_values ns
          (obj_put config (nodeName n) (case nodeValue c of Some s \<Rightarrow> JStr s | None \<Rightarrow> JNull)))"

definition config_from_response :: "node \<Rightarrow> jsval jsobj" where
  "config_from_response reactor_node =
     add_child_values (childNodes reactor_node)
       [(''@id'', case getAttribute reactor_node ''id'' of Some i \<Rightarrow> JStr i | None \<Rightarrow> JNull)]"

section \<open>Options\<close>

text \<open>\<open>_initOptions\<close>, for the configuration item of the reactor.\<close>

fun read_options :: "node \<Rightarrow> jsval jsobj \<Rightarrow> jsval jsobj \<times> string list \<Rightarrow> jsval jsobj \<times> string list" where
  "read_options item [] st = st"
| "read_options item ((opt, d) # ds) (config, checked) =
     (let v = (if xs_hasAttribute None item opt
               then JBool (sval_toString (xs_getValue None item opt SUndef) = Some ''true'') else d)
      in read_options item ds (obj_put config opt v, if truthy v then checked @ [opt] else checked))"

definition initOptions :: "jsval jsobj \<Rightarrow> node \<Rightarrow> jsval jsobj \<Rightarrow> jsval jsobj" where
  "initOptions option_defaults config_item config =
     (let (c, checked) = read_options config_item option_defaults (obj_put config ''options'' (JArr []), [])
      in obj_put c ''options'' (JArr (map JStr checked)))"

text \<open>The check boxes that are set when the dialog for a new reactor opens.\<close>

definition initial_options :: "jsval jsobj \<Rightarrow> string list" where
  "initial_options option_defaults = map fst (filter (\<lambda>(opt, v). truthy v) option_defaults)"

section \<open>Saving\<close>

fun set_options :: "jsval \<Rightarrow> string list \<Rightarrow> jsval jsobj \<Rightarrow> jsval jsobj" where
  "set_options v [] config = config"
| "set_options v (opt # opts) config = set_options v opts (obj_put config opt (JBool (is_checked opt v)))"

text \<open>
  \<open>ReactorDialog.execute\<close>: the new configuration, the reactor's label, and the request
  (address and body).
\<close>

definition new_config :: "jsval jsobj option \<Rightarrow> jsval jsobj \<Rightarrow> jsval jsobj \<Rightarrow> jsval jsobj" where
  "new_config option_defaults dialogFields config =
     (case obj_get dialogFields ''options'' of
        Some v \<Rightarrow> set_options v (option_names option_defaults) (mixin config dialogFields)
      | None \<Rightarrow> mixin config dialogFields)"

definition field_js :: "jsval jsobj \<Rightarrow> string \<Rightarrow> jsval" where
  "field_js ob k = (case obj_get ob k of Some v \<Rightarrow> v | None \<Rightarrow> JUndef)"

definition execute ::
  "string list \<Rightarrow> jsval jsobj option \<Rightarrow> string \<Rightarrow> jsval jsobj \<Rightarrow> jsval jsobj \<Rightarrow> jsval jsobj \<times> string \<times> string \<times> string" where
  "execute special_elements option_defaults custom dialogFields config =
     (let c = new_config option_defaults dialogFields config
      in (c, escapeXml (field_js dialogFields ''Name''), ''/config/reactors/'' @ js_string (field_js c ''@id''),
          reactor_body special_elements custom c))"

text \<open>
  \<open>handleMoveStop\<close>. A position that the server sent is a text; it is compared with the number
  by value. (Other spellings of an
  integer than plain decimal digits, which the server does not send, are taken as different.)
\<close>

fun same_number :: "jsval \<Rightarrow> int \<Rightarrow> bool" where
  "same_number (JNum m) n = (m = n)"
| "same_number (JBool b) n = ((if b then 1 else 0) = n)"
| "same_number JNull n = False"
| "same_number (JStr s) n =
     (let t = trim s in if t = [] then n = 0 else (t = int_string n \<or> (0 \<le> n \<and> dropWhile (\<lambda>c. c = CHR ''0'') t = int_string n)
        \<or> (n = 0 \<and> set t = {CHR ''0''})))"
| "same_number _ n = False"

definition handleMoveStop ::
  "string list \<Rightarrow> string \<Rightarrow> int \<Rightarrow> int \<Rightarrow> jsval jsobj \<Rightarrow> jsval jsobj \<times> (string \<times> string) option" where
  "handleMoveStop special_elements custom l t config =
     (if same_number (field_js config ''X'') l \<and> same_number (field_js config ''Y'') t then (config, None)
      else
        let c = obj_put (obj_put config ''X'' (JNum l)) ''Y'' (JNum t)
        in (c, Some (''/config/reactors/'' @ js_string (field_js c ''@id'') @ ''/move'', reactor_body special_elements custom c)))"

section \<open>Reading requests back\<close>

text \<open>The text an element gets for a value.\<close>

definition value_text :: "jsval \<Rightarrow> string" where
  "value_text v = (if v = JBool False \<or> v = JNum 0 \<or> truthy v then js_string v else [])"

lemma escapeXml_text: "escapeXml v = escape_chain (value_text v)"
proof -
  have "\<forall>c\<in>set (js_string v). \<not> special c" if "v = JBool False \<or> v = JNum 0"
    using that by (auto simp: special_def int_string_def nat_digits.simps digit_char_def)
  then show ?thesis by (auto simp: escapeXml_def value_text_def escape_chain_plain)
qed

definition field_node :: "string \<times> jsval \<Rightarrow> node" where
  "field_node f = Element (fst f) [] (text_nodes (value_text (snd f)))"

definition named_ok :: "jsval jsobj \<Rightarrow> bool" where
  "named_ok fs = list_all (\<lambda>(k, v). valid_name k) fs"

lemma reads_makeXmlLeafElement_value: "valid_name t \<Longrightarrow> reads (makeXmlLeafElement t v) [field_node (t, v)]"
  using reads_leaf [of t "value_text v"] by (simp add: makeXmlLeafElement_def escapeXml_text field_node_def)

lemma reads_config_elements: "named_ok fs \<Longrightarrow> reads (config_elements fs) (map field_node fs)"
  unfolding config_elements_def
  by (induction fs) (auto simp: named_ok_def intro!: reads_Cons reads_makeXmlLeafElement_value)

lemma plain_names: "valid_name ''PionConfig''" "valid_name ''Reactor''"
  by (simp_all add: valid_name_def is_name_char_def)

lemma reads_reactor_body:
  assumes "named_ok (sent_fields sp config)" "reads custom ns"
  shows "read_xml (reactor_body sp custom config) =
     Some (Element ''PionConfig'' [] [Element ''Reactor'' [] (map field_node (sent_fields sp config) @ ns)])"
proof -
  have "reads (config_elements (sent_fields sp config) @ custom) (map field_node (sent_fields sp config) @ ns)"
    by (rule reads_append [OF reads_config_elements [OF assms(1)] assms(2)])
  from reads_elem [OF plain_names(1) reads_elem [OF plain_names(2) this]] show ?thesis
    by (intro reads_read_xml) (simp add: reactor_body_def)
qed

section \<open>What saving changes\<close>

lemma obj_get_set_options:
  "obj_get (set_options v opts c) k = (if k \<in> set opts then Some (JBool (is_checked k v)) else obj_get c k)"
  by (induction opts arbitrary: c) (auto simp: obj_get_put)

lemma obj_wf_set_options [intro]: "obj_wf c \<Longrightarrow> obj_wf (set_options v opts c)"
  by (induction opts arbitrary: c) auto

lemma obj_get_new_config:
  assumes "obj_wf flds"
  shows "obj_get (new_config ods flds config) k =
     (case obj_get flds ''options'' of
        Some v \<Rightarrow> if k \<in> set (option_names ods) then Some (JBool (is_checked k v))
                  else (case obj_get flds k of Some x \<Rightarrow> Some x | None \<Rightarrow> obj_get config k)
      | None \<Rightarrow> (case obj_get flds k of Some x \<Rightarrow> Some x | None \<Rightarrow> obj_get config k))"
  using assms by (auto simp: new_config_def obj_get_mixin obj_get_set_options split: option.splits)

lemma obj_wf_new_config: "obj_wf config \<Longrightarrow> obj_wf (new_config ods flds config)"
  by (auto simp: new_config_def split: option.splits)

lemma keys_put: "set (map fst (obj_put ob k v)) = insert k (set (map fst ob))"
  by (induction ob k v rule: obj_put.induct) auto

lemma keys_mixin: "set (map fst (mixin ob flds)) = set (map fst ob) \<union> set (map fst flds)"
  by (induction ob flds rule: mixin.induct) (simp_all del: set_map add: keys_put)

lemma keys_set_options: "set (map fst (set_options v opts c)) = set (map fst c) \<union> set opts"
  by (induction opts arbitrary: c) (simp_all del: set_map add: keys_put)

lemma keys_new_config:
  "set (map fst (new_config ods flds config)) \<subseteq> set (map fst config) \<union> set (map fst flds) \<union> set (option_names ods)"
  by (auto simp: new_config_def keys_mixin keys_set_options simp del: set_map split: option.splits)

text \<open>Every name that is sent is an element name.\<close>

definition tags_ok :: "string list \<Rightarrow> string list \<Rightarrow> bool" where
  "tags_ok special_elements names = list_all (\<lambda>k. k \<in> set special_elements \<or> valid_name k) names"

lemma named_ok_sent:
  assumes "tags_ok sp names" "set (map fst c) \<subseteq> set names"
  shows "named_ok (sent_fields sp c)"
  using assms by (force simp: named_ok_def sent_fields_def tags_ok_def list_all_iff)

lemma obj_get_sent:
  "k \<notin> set sp \<Longrightarrow> take 1 k \<noteq> ''_'' \<Longrightarrow> obj_get (sent_fields sp c) k = obj_get c k"
  by (induction c) (auto simp: sent_fields_def split: if_splits)

lemma obj_wf_sent [intro]: "obj_wf c \<Longrightarrow> obj_wf (sent_fields sp c)"
  by (simp add: obj_wf_def sent_fields_def distinct_map_filter)

section \<open>Options, saved and read again\<close>

lemma field_node_simps [simp]: "nodeType (field_node f) = 1" "nodeName (field_node f) = fst f"
  "is_element (field_node f)" "item_string (field_node f) = value_text (snd f)"
  by (simp_all add: field_node_def is_element_def item_string_def text_nodes_def is_text_def node_text_def)

lemma child_fields:
  assumes "obj_wf fs" "obj_get fs k = Some v" "\<forall>n\<in>set ns. nodeName n \<noteq> k"
  shows "child_elements (Element t as (map field_node fs @ ns)) k = [field_node (k, v)]"
proof -
  have ns: "filter (\<lambda>n. is_element n \<and> nodeName n = k) ns = []" using assms(3) by (simp add: filter_empty_conv)
  have "filter (\<lambda>n. is_element n \<and> nodeName n = k) (map field_node fs) = [field_node (k, v)]"
    using assms(1,2)
  proof (induction fs)
    case (Cons f fs)
    have "filter (\<lambda>n. is_element n \<and> nodeName n = k) (map field_node fs) = []" if "fst f = k"
      using that distinct_map_fst [of f fs] Cons.prems(1) by (auto simp: obj_wf_def filter_empty_conv)
    then show ?case using Cons by (cases f) (auto simp: obj_wf_def split: if_splits)
  qed simp
  with ns show ?thesis by (simp add: child_elements_def)
qed

text \<open>Option names that the store reads as plain elements and that are sent.\<close>

definition option_name :: "string list \<Rightarrow> string \<Rightarrow> bool" where
  "option_name sp k =
     (k \<notin> set sp \<and> take 1 k \<noteq> ''_'' \<and> \<not> starts_with ''@'' k \<and> k \<notin> set [''tagName'', ''childNodes'', ''text()'', ''options''])"

lemma xs_getValue_field:
  assumes "option_name sp k" "child_elements item k = [e]"
  shows "xs_getValue None item k d = SItem e" "xs_hasAttribute None item k"
  using assms by (simp_all add: option_name_def xs_hasAttribute_def xs_getValue_def getAttributeName_def)

lemma read_options_stored:
  assumes "\<forall>k\<in>set (map fst ds). xs_hasAttribute None item k \<and>
      sval_toString (xs_getValue None item k SUndef) = Some (js_string (JBool (P k)))"
  shows "snd (read_options item ds (c, chk)) = chk @ filter P (map fst ds) \<and>
     (\<forall>k. obj_get (fst (read_options item ds (c, chk))) k =
        (if k \<in> set (map fst ds) then Some (JBool (P k)) else obj_get c k))"
  using assms
proof (induction ds arbitrary: c chk)
  case (Cons d ds)
  obtain k v where d: "d = (k, v)" by (cases d)
  have k: "xs_hasAttribute None item k" "(sval_toString (xs_getValue None item k SUndef) = Some ''true'') = P k"
    using Cons.prems by (auto simp: d)
  show ?case using Cons k by (simp add: d obj_get_put Let_def)
qed simp

section \<open>Properties\<close>

text \<open>
  C12: saving a reactor's configuration dialog changes the dialog's fields and the options and
  nothing else, and the request says so: read as XML, its body holds one text element for each
  setting of the new configuration (special ones excepted), with that setting's text whatever
  characters it contains, followed by what the plugin adds.
\<close>

theorem saving_changes_only_the_dialog:
  assumes "obj_wf flds" "reads custom ns"
    and "tags_ok sp (map fst config @ map fst flds @ option_names ods)"
  defines "c \<equiv> fst (execute sp ods custom flds config)"
  shows "read_xml (snd (snd (snd (execute sp ods custom flds config)))) =
       Some (Element ''PionConfig'' [] [Element ''Reactor'' [] (map field_node (sent_fields sp c) @ ns)]) \<and>
     (\<forall>k. obj_get c k =
        (case obj_get flds ''options'' of
           Some v \<Rightarrow> if k \<in> set (option_names ods) then Some (JBool (is_checked k v))
                     else (case obj_get flds k of Some x \<Rightarrow> Some x | None \<Rightarrow> obj_get config k)
         | None \<Rightarrow> (case obj_get flds k of Some x \<Rightarrow> Some x | None \<Rightarrow> obj_get config k)))"
proof -
  have c: "c = new_config ods flds config" by (simp add: c_def execute_def Let_def)
  have "named_ok (sent_fields sp c)"
    using keys_new_config [of ods flds config] by (intro named_ok_sent [OF assms(3)]) (simp add: c Un_assoc)
  from reads_reactor_body [OF this assms(2)] show ?thesis
    using obj_get_new_config [OF assms(1)] by (simp add: execute_def Let_def c)
qed

definition demo_config :: "jsval jsobj" where
  "demo_config = [(''@id'', JStr ''r1''), (''Name'', JStr ''old''), (''X'', JStr ''50''), (''Running'', JBool True)]"

theorem saving_changes_only_the_dialog_witness:
  "obj_get (fst (execute [''@id'', ''options''] None [] [(''Name'', JStr ''a<b'')] demo_config)) ''Name'' = Some (JStr ''a<b'') \<and>
   obj_get (fst (execute [''@id'', ''options''] None [] [(''Name'', JStr ''a<b'')] demo_config)) ''X'' = Some (JStr ''50'')"
proof -
  have "tags_ok [''@id'', ''options''] (map fst demo_config @ map fst [(''Name'', JStr ''a<b'')] @ option_names None)"
    by (simp add: tags_ok_def demo_config_def valid_name_def is_name_char_def option_names_def)
  from saving_changes_only_the_dialog [OF _ reads_Nil this] show ?thesis
    by (simp add: obj_wf_def demo_config_def)
qed

text \<open>
  Option check boxes survive being saved: after \<open>execute\<close>, reading the options back from the
  request (as \<open>_initOptions\<close> does from the server's copy when the dialog opens again) gives
  exactly the boxes that were checked, in the order of the class's options, and a boolean for
  each option in the configuration, whatever that contained before.
\<close>

theorem options_read_back:
  assumes "obj_wf config" "obj_wf flds" "obj_get flds ''options'' = Some v" "reads custom ns"
    and "tags_ok sp (map fst config @ map fst flds @ map fst ds)"
    and "\<forall>k\<in>set (map fst ds). option_name sp k \<and> (\<forall>n\<in>set ns. nodeName n \<noteq> k)"
    and "read_xml (snd (snd (snd (execute sp (Some ds) custom flds config)))) = Some (Element ''PionConfig'' [] [item])"
  shows "obj_get (initOptions ds item c) ''options'' =
       Some (JArr (map JStr (filter (\<lambda>k. is_checked k v) (map fst ds)))) \<and>
     (\<forall>k\<in>set (map fst ds). obj_get (initOptions ds item c) k = Some (JBool (is_checked k v)))"
proof -
  let ?c = "new_config (Some ds) flds config"
  have ods: "option_names (Some ds) = map fst ds" by (simp add: option_names_def)
  have "named_ok (sent_fields sp ?c)"
    using keys_new_config [of "Some ds" flds config] by (intro named_ok_sent [OF assms(5)]) (simp add: ods Un_assoc)
  from reads_reactor_body [OF this assms(4)]
  have item: "item = Element ''Reactor'' [] (map field_node (sent_fields sp ?c) @ ns)"
    using assms(7) by (simp add: execute_def Let_def)
  have wf: "obj_wf (sent_fields sp ?c)" using obj_wf_new_config [OF assms(1)] by (rule obj_wf_sent)
  have st: "\<forall>k\<in>set (map fst ds). xs_hasAttribute None item k \<and>
      sval_toString (xs_getValue None item k SUndef) = Some (js_string (JBool (is_checked k v)))"
  proof
    fix k assume k: "k \<in> set (map fst ds)"
    then have on: "option_name sp k" and ns: "\<forall>n\<in>set ns. nodeName n \<noteq> k" using assms(6) by blast+
    have "obj_get (sent_fields sp ?c) k = Some (JBool (is_checked k v))"
      using on k obj_get_new_config [OF assms(2), of "Some ds" config k] assms(3)
      by (subst obj_get_sent) (auto simp: option_name_def ods)
    from xs_getValue_field [OF on child_fields [OF wf this ns, of "''Reactor''" "[]"]]
    show "xs_hasAttribute None item k \<and>
        sval_toString (xs_getValue None item k SUndef) = Some (js_string (JBool (is_checked k v)))"
      by (simp add: item value_text_def)
  qed
  have no: "''options'' \<notin> set (map fst ds)" using assms(6) by (auto simp: option_name_def)
  obtain c2 chk where r: "read_options item ds (obj_put c ''options'' (JArr []), []) = (c2, chk)"
    by (cases "read_options item ds (obj_put c ''options'' (JArr []), [])")
  have "chk = filter (\<lambda>k. is_checked k v) (map fst ds)"
    "\<forall>k\<in>set (map fst ds). obj_get c2 k = Some (JBool (is_checked k v))"
    using read_options_stored [OF st, of "obj_put c ''options'' (JArr [])" "[]"] by (simp_all add: r)
  then show ?thesis using no by (simp add: initOptions_def r obj_get_put del: set_map) metis
qed

theorem options_read_back_witness:
  "\<exists>item. obj_get (initOptions [(''A'', JBool True), (''B'', JBool False)] item []) ''options'' = Some (JArr [JStr ''B''])"
proof -
  let ?ds = "[(''A'', JBool True), (''B'', JBool False)]" and ?flds = "[(''options'', JArr [JStr ''B''])]"
    and ?sp = "[''@id'', ''options'']"
  have t: "tags_ok ?sp (map fst demo_config @ map fst ?flds @ map fst ?ds)"
    by (simp add: tags_ok_def demo_config_def valid_name_def is_name_char_def)
  let ?c = "new_config (Some ?ds) ?flds demo_config"
  have "named_ok (sent_fields ?sp ?c)"
    using keys_new_config [of "Some ?ds" ?flds demo_config]
    by (intro named_ok_sent [OF t]) (simp add: option_names_def insert_commute)
  from reads_reactor_body [OF this reads_Nil]
  have r: "read_xml (snd (snd (snd (execute ?sp (Some ?ds) [] ?flds demo_config)))) =
      Some (Element ''PionConfig'' [] [Element ''Reactor'' [] (map field_node (sent_fields ?sp ?c) @ [])])"
    by (simp add: execute_def Let_def)
  have "obj_get (initOptions ?ds (Element ''Reactor'' [] (map field_node (sent_fields ?sp ?c) @ [])) []) ''options'' =
      Some (JArr (map JStr (filter (\<lambda>k. is_checked k (JArr [JStr ''B''])) (map fst ?ds))))"
    using options_read_back [OF _ _ _ reads_Nil t _ r, of "JArr [JStr ''B'']" "[]"]
    by (simp add: obj_wf_def demo_config_def option_name_def)
  then show ?thesis by (auto simp: is_checked_def)
qed

text \<open>The text of a value that \<open>+\<close> appends without escaping it.\<close>

definition plain_defaults :: "jsval jsobj option \<Rightarrow> bool" where
  "plain_defaults ds =
     list_all (\<lambda>(k, v). valid_name k \<and> list_all (\<lambda>c. \<not> special c) (js_string v)) (case ds of Some d \<Rightarrow> d | None \<Rightarrow> [])"

definition text_node_of :: "string \<Rightarrow> string \<Rightarrow> node" where
  "text_node_of k t = Element k [] (text_nodes t)"

lemma reads_raw_values:
  "list_all (\<lambda>(k, v). valid_name k \<and> list_all (\<lambda>c. \<not> special c) (f v)) xs \<Longrightarrow>
   reads (concat (map (\<lambda>(k, v). raw_value k (f v)) xs)) (map (\<lambda>(k, v). text_node_of k (f v)) xs)"
proof (induction xs)
  case (Cons x xs)
  obtain k v where x: "x = (k, v)" by (cases x)
  have "reads (raw_value k (f v)) [text_node_of k (f v)]"
    using Cons.prems reads_leaf_plain [of k "f v"] by (simp add: x raw_value_def text_node_of_def list_all_iff)
  from reads_Cons [OF this] Cons show ?case by (simp add: x)
qed simp

text \<open>
  The request that creates a reactor is well formed, and its elements are, in this order:
  plugin, workspace, position, every dialog field but the options with its exact text, each
  option of the class as true or false according to its check box, the plugin's own elements
  and the class's other defaults.
\<close>

theorem new_reactor_request:
  assumes "tags_ok [''options''] (map fst flds)" "list_all valid_name (option_names ods)" "plain_defaults others" "reads custom ns"
  shows "read_xml (tryConfig plugin uuid x y ods others custom flds) =
     Some (Element ''PionConfig'' [] [Element ''Reactor'' []
       ([text_node_of ''Plugin'' plugin, text_node_of ''Workspace'' uuid,
         text_node_of ''X'' (int_string x), text_node_of ''Y'' (int_string y)] @
        map field_node (sent_fields [''options''] flds) @
        (case obj_get flds ''options'' of
           Some v \<Rightarrow> map (\<lambda>k. text_node_of k (if is_checked k v then ''true'' else ''false'')) (option_names ods)
         | None \<Rightarrow> []) @
        ns @
        (case others of Some ds \<Rightarrow> map (\<lambda>(k, v). text_node_of k (js_string v)) ds | None \<Rightarrow> []))])"
proof -
  have nm: "valid_name ''Plugin''" "valid_name ''Workspace''" "valid_name ''X''" "valid_name ''Y''"
    by (simp_all add: valid_name_def is_name_char_def)
  have num: "\<forall>c\<in>set (int_string i). \<not> special c" for i
    using set_int_string [of i] by (auto simp: special_def)
  have xy: "reads (''<X>'' @ int_string x @ ''</X>'') [text_node_of ''X'' (int_string x)]"
    "reads (''<Y>'' @ int_string y @ ''</Y>'') [text_node_of ''Y'' (int_string y)]"
    using reads_leaf_plain [OF nm(3) num [of x]] reads_leaf_plain [OF nm(4) num [of y]] by (simp_all add: text_node_of_def)
  have pw: "reads (makeXmlLeafElement ''Plugin'' (JStr plugin)) [text_node_of ''Plugin'' plugin]"
    "reads (makeXmlLeafElement ''Workspace'' (JStr uuid)) [text_node_of ''Workspace'' uuid]"
    using reads_makeXmlLeafElement nm by (simp_all add: text_node_of_def)
  have fl: "reads (config_elements (sent_fields [''options''] flds)) (map field_node (sent_fields [''options''] flds))"
    using named_ok_sent [OF assms(1)] by (intro reads_config_elements) simp
  define O_text where "O_text = (case obj_get flds ''options'' of
        Some v \<Rightarrow> concat (map (\<lambda>opt. raw_value opt (js_string (JBool (is_checked opt v)))) (option_names ods)) | None \<Rightarrow> [])"
  define O_nodes where "O_nodes = (case obj_get flds ''options'' of
        Some v \<Rightarrow> map (\<lambda>k. text_node_of k (if is_checked k v then ''true'' else ''false'')) (option_names ods) | None \<Rightarrow> [])"
  define D_text where "D_text = (case others of Some ds \<Rightarrow> concat (map (\<lambda>(k, v). raw_value k (js_string v)) ds) | None \<Rightarrow> [])"
  define D_nodes where "D_nodes = (case others of Some ds \<Rightarrow> map (\<lambda>(k, v). text_node_of k (js_string v)) ds | None \<Rightarrow> [])"
  have op: "reads O_text O_nodes"
  proof (cases "obj_get flds ''options''")
    case (Some v)
    have "list_all (\<lambda>(k, o'). valid_name k \<and> list_all (\<lambda>c. \<not> special c) (js_string (JBool (is_checked o' v)))) (map (\<lambda>k. (k, k)) (option_names ods))"
      using assms(2) by (auto simp: list_all_iff special_def)
    from reads_raw_values [OF this] show ?thesis by (simp add: O_text_def O_nodes_def Some o_def)
  qed (simp add: O_text_def O_nodes_def)
  have df: "reads D_text D_nodes"
    using assms(3) reads_raw_values [of js_string] by (auto simp: D_text_def D_nodes_def plain_defaults_def split: option.splits)
  note body = reads_append [OF pw(1) reads_append [OF pw(2) reads_append [OF xy(1) reads_append [OF xy(2)
      reads_append [OF fl reads_append [OF op reads_append [OF assms(4) df]]]]]]]
  from reads_elem [OF plain_names(1) reads_elem [OF plain_names(2) body]] show ?thesis
    by (intro reads_read_xml) (simp add: tryConfig_def O_text_def O_nodes_def D_text_def D_nodes_def)
qed

theorem new_reactor_request_witness:
  "read_xml (tryConfig ''SnifferReactor'' ''w1'' 50 100 (Some [(''Promisc'', JBool True)]) None [] [(''Name'', JStr ''R&D''), (''options'', JArr [])]) =
     Some (Element ''PionConfig'' [] [Element ''Reactor'' []
       [text_node_of ''Plugin'' ''SnifferReactor'', text_node_of ''Workspace'' ''w1'', text_node_of ''X'' ''50'',
        text_node_of ''Y'' ''100'', Element ''Name'' [] [TextNode ''R&D''], text_node_of ''Promisc'' ''false'']])"
  using new_reactor_request [of "[(''Name'', JStr ''R&D''), (''options'', JArr [])]" "Some [(''Promisc'', JBool True)]" None "[]" "[]"
      "''SnifferReactor''" "''w1''" 50 100]
  by (simp add: tags_ok_def valid_name_def is_name_char_def option_names_def plain_defaults_def sent_fields_def
      field_node_def value_text_def text_nodes_def is_checked_def int_string_def nat_digits.simps digit_char_def)

end
