(* ===== verification/Pion_ItemCache.thy ===== *)
theory Pion_ItemCache
  imports Pion_ReadStore "HOL-Library.Multiset"
begin

text \<open>
  \<open>Reactor.getConfigItem\<close> of \<open>plugins/reactors/Reactor.js\<close>: a reactor's configuration item is
  fetched at most once at a time; callers that come while the fetch is under way wait for its
  answer. The state machine here has the calls, the answer of the server (a list of items), a
  failed fetch, and the configuration dialog, which forgets the item.
\<close>

section \<open>State and operations\<close>

record item_cache =
  ic_item :: "node option"               \<comment> \<open>\<open>config_item\<close>\<close>
  ic_pending :: "nat list option"        \<comment> \<open>the callers that wait on \<open>pending_fetch_dfd\<close>\<close>
  ic_flight :: nat                       \<comment> \<open>fetches without an answer yet\<close>
  ic_asked :: "nat list"                 \<comment> \<open>all callers so far\<close>
  ic_given :: "(nat \<times> node) list"        \<comment> \<open>callers that have been called back, with the item\<close>

definition empty_cache :: item_cache where
  "empty_cache = \<lparr>ic_item = None, ic_pending = None, ic_flight = 0, ic_asked = [], ic_given = []\<rparr>"

definition getConfigItem :: "nat \<Rightarrow> item_cache \<Rightarrow> item_cache" where
  "getConfigItem caller s0 =
     (let s = s0\<lparr>ic_asked := ic_asked s0 @ [caller]\<rparr> in
      case ic_item s of
        Some i \<Rightarrow> s\<lparr>ic_given := ic_given s @ [(caller, i)]\<rparr>
      | None \<Rightarrow>
          (case ic_pending s of
             None \<Rightarrow> s\<lparr>ic_pending := Some [caller], ic_flight := Suc (ic_flight s)\<rparr>
           | Some ws \<Rightarrow> s\<lparr>ic_pending := Some (ws @ [caller])\<rparr>))"

text \<open>\<open>onComplete\<close>. Without an item it throws, and the pending \<open>Deferred\<close> stays.\<close>

definition fetch_complete :: "node list \<Rightarrow> item_cache \<Rightarrow> item_cache" where
  "fetch_complete items s0 =
     (let s = s0\<lparr>ic_flight := ic_flight s0 - 1\<rparr> in
      case items of
        [] \<Rightarrow> s
      | i # _ \<Rightarrow> s\<lparr>ic_item := Some i, ic_pending := None,
                  ic_given := ic_given s @ map (\<lambda>w. (w, i)) (case ic_pending s of Some ws \<Rightarrow> ws | None \<Rightarrow> [])\<rparr>)"

text \<open>\<open>onError\<close> only shows the error.\<close>

definition fetch_failed :: "item_cache \<Rightarrow> item_cache" where
  "fetch_failed s = s\<lparr>ic_flight := ic_flight s - 1\<rparr>"

text \<open>Opening the configuration dialog deletes \<open>config_item\<close>.\<close>

definition invalidate :: "item_cache \<Rightarrow> item_cache" where
  "invalidate s = s\<lparr>ic_item := None\<rparr>"

inductive cache_step :: "item_cache \<Rightarrow> item_cache \<Rightarrow> bool" where
  call: "cache_step s (getConfigItem n s)"
| complete: "0 < ic_flight s \<Longrightarrow> cache_step s (fetch_complete items s)"
| failed: "0 < ic_flight s \<Longrightarrow> cache_step s (fetch_failed s)"
| forget: "cache_step s (invalidate s)"

inductive_simps cache_step_iff: "cache_step s t"
inductive_cases cache_stepE: "cache_step s t"

inductive cache_run :: "item_cache \<Rightarrow> item_cache \<Rightarrow> bool" where
  stay: "cache_run s s"
| more: "cache_run s t \<Longrightarrow> cache_step t u \<Longrightarrow> cache_run s u"

lemmas cache_defs = getConfigItem_def fetch_complete_def fetch_failed_def invalidate_def Let_def

text \<open>What holds in every state: one fetch at most, and every caller is waiting or called back, once.\<close>

definition cache_ok :: "item_cache \<Rightarrow> bool" where
  "cache_ok s =
     (ic_flight s \<le> (case ic_pending s of None \<Rightarrow> 0 | Some ws \<Rightarrow> 1) \<and>
      mset (ic_asked s) = mset (map fst (ic_given s)) + mset (case ic_pending s of None \<Rightarrow> [] | Some ws \<Rightarrow> ws))"

lemma image_mset_tag [simp]: "image_mset fst (image_mset (\<lambda>w. (w, x)) M) = M"
  by (simp add: multiset.map_comp o_def)

lemma cache_ok_step: "cache_step s t \<Longrightarrow> cache_ok s \<Longrightarrow> cache_ok t"
  by (elim cache_stepE) (auto simp: cache_ok_def cache_defs o_def split: option.splits list.splits)

lemma cache_ok_run: "cache_run s t \<Longrightarrow> cache_ok s \<Longrightarrow> cache_ok t"
  by (induction rule: cache_run.induct) (auto intro: cache_ok_step)

text \<open>After a fetch that gave nothing: callers pile up and no fetch is sent.\<close>

definition stuck :: "item_cache \<Rightarrow> bool" where
  "stuck s = (ic_item s = None \<and> ic_pending s \<noteq> None \<and> ic_flight s = 0)"

lemma stuck_step: "cache_step s t \<Longrightarrow> stuck s \<Longrightarrow> stuck t \<and> ic_given t = ic_given s"
  by (elim cache_stepE) (auto simp: stuck_def cache_defs split: option.splits)

lemma stuck_run: "cache_run s t \<Longrightarrow> stuck s \<Longrightarrow> stuck t \<and> ic_given t = ic_given s"
  by (induction rule: cache_run.induct) (auto dest: stuck_step)

section \<open>Properties\<close>

text \<open>
  C13: however calls, answers and dialogs interleave, at most one fetch of a reactor's
  configuration is under way, and every call of \<open>getConfigItem\<close> has been called back once or is
  waiting once, never both; when the answer arrives, all waiting callers get its item.
\<close>

theorem one_config_fetch_at_a_time:
  assumes "cache_run empty_cache s"
  shows "ic_flight s \<le> 1 \<and>
     mset (ic_asked s) = mset (map fst (ic_given s)) + mset (case ic_pending s of None \<Rightarrow> [] | Some ws \<Rightarrow> ws) \<and>
     mset (map fst (ic_given (fetch_complete (i # later) s))) = mset (ic_asked s)"
proof -
  have "cache_ok empty_cache" by (simp add: cache_ok_def empty_cache_def)
  then have ok: "cache_ok s" using cache_ok_run [OF assms] by simp
  then have "mset (map fst (ic_given (fetch_complete (i # later) s))) = mset (ic_asked s)"
    by (auto simp: cache_ok_def fetch_complete_def o_def split: option.splits)
  then show ?thesis using ok by (auto simp: cache_ok_def split: option.splits)
qed

theorem one_config_fetch_at_a_time_witness:
  "ic_flight (getConfigItem 2 (getConfigItem 1 empty_cache)) \<le> 1 \<and>
   mset (map fst (ic_given (fetch_complete [TextNode []] (getConfigItem 2 (getConfigItem 1 empty_cache))))) = mset [1, 2]"
  using one_config_fetch_at_a_time [OF cache_run.more [OF cache_run.more [OF cache_run.stay cache_step.call] cache_step.call],
      of 2 1 "TextNode []" "[]"]
  by (simp add: getConfigItem_def empty_cache_def)

text \<open>
  When a fetch fails, or finds no configuration, the pending \<open>Deferred\<close> is kept: from then on
  no call is ever answered, whatever is asked or opened, and no further fetch is sent.
\<close>

theorem failed_fetch_blocks_later_calls:
  assumes "cache_run empty_cache s" "ic_pending s \<noteq> None" "ic_item s = None"
    and "s' = fetch_failed s \<or> s' = fetch_complete [] s" and "cache_run s' t"
  shows "ic_given t = ic_given s \<and> ic_flight t = 0"
proof -
  have "cache_ok empty_cache" by (simp add: cache_ok_def empty_cache_def)
  then have "cache_ok s" using cache_ok_run [OF assms(1)] by simp
  then have "stuck s'" "ic_given s' = ic_given s"
    using assms(2-4) by (auto simp: stuck_def cache_ok_def fetch_failed_def fetch_complete_def)
  then show ?thesis using stuck_run [OF assms(5)] by (simp add: stuck_def)
qed

theorem failed_fetch_blocks_later_calls_witness:
  "ic_given (getConfigItem 2 (invalidate (fetch_failed (getConfigItem 1 empty_cache)))) = []"
proof -
  let ?s = "getConfigItem 1 empty_cache"
  have run: "cache_run empty_cache ?s" by (rule cache_run.more [OF cache_run.stay cache_step.call])
  have later: "cache_run (fetch_failed ?s) (getConfigItem 2 (invalidate (fetch_failed ?s)))"
    by (rule cache_run.more [OF cache_run.more [OF cache_run.stay cache_step.forget] cache_step.call])
  show ?thesis
    using failed_fetch_blocks_later_calls [OF run _ _ _ later] by (simp add: getConfigItem_def empty_cache_def)
qed

end
