(* ===== verification/Pion_Startup.thy ===== *)
theory Pion_Startup
  imports Pion_Canvas Pion_ReadStore
begin

text \<open>
  Loading the reactor page (\<open>_initConfiguredWorkspaces\<close> and \<open>_initConfiguredReactors\<close> of
  \<open>scripts/reactors.js\<close>): which workspaces the user may see, and the canvas that the server's
  workspaces, reactors and connections produce. The main property says that the result is a
  reachable canvas, so that everything proved of canvases holds from the start, and which
  connections are on it.
\<close>

section \<open>Items and permissions\<close>

text \<open>A configuration item as a dictionary: every attribute but two, with its text.\<close>

definition item_config :: "node \<Rightarrow> string jsobj option" where
  "item_config item = makeObjectFromItem (getAttributes None) (xs_getValue None) item"

text \<open>
  The restriction in the user's permissions: no restriction (\<open>Some None\<close>), the identifiers of the
  permitted workspaces, or the exception that a missing \<open>Reactors\<close> entry causes (\<open>None\<close>).
\<close>

definition workspace_restriction :: "node jsobj \<Rightarrow> string list option option" where
  "workspace_restriction permissions_object =
     (if obj_has permissions_object ''Admin'' then Some None
      else
        (case obj_get permissions_object ''Reactors'' of
           None \<Rightarrow> None
         | Some n \<Rightarrow>
             if getElementsByTagName n ''Unrestricted'' = []
             then Some (Some (map textContent (getElementsByTagName n ''Workspace'')))
             else Some None))"

definition workspace_permitted :: "string list option \<Rightarrow> string \<Rightarrow> bool" where
  "workspace_permitted restriction i = (case restriction of None \<Rightarrow> True | Some ids \<Rightarrow> i \<in> set ids)"

section \<open>Loading\<close>

text \<open>For each workspace of the server, its identifier and name.\<close>

fun init_workspaces :: "string list option \<Rightarrow> (string \<times> string) list \<Rightarrow> ui \<Rightarrow> ui" where
  "init_workspaces restriction [] u = u"
| "init_workspaces restriction ((i, name) # ws) u =
     init_workspaces restriction ws (if workspace_permitted restriction i then addWorkspace i name u else u)"

fun init_reactors :: "jsval jsobj list \<Rightarrow> ui \<Rightarrow> ui" where
  "init_reactors [] u = u"
| "init_reactors (c # cs) u = init_reactors cs (createReactorInConfiguredWorkspace c u)"

text \<open>A connection of the server: its identifier, \<open>From\<close> and \<open>To\<close>.\<close>

definition init_connection :: "string \<times> string \<times> string \<Rightarrow> ui \<Rightarrow> ui option" where
  "init_connection c u =
     (case (obj_get (reactors_by_id u) (fst (snd c)), obj_get (reactors_by_id u) (snd (snd c))) of
        (Some s, Some e) \<Rightarrow> createConnection s e (fst c) (selectChild (ro_ws (u_robj u s)) u)
      | _ \<Rightarrow> Some u)"

definition select_first :: "ui \<Rightarrow> ui option" where
  "select_first u = (case workspace_boxes u of [] \<Rightarrow> None | w # _ \<Rightarrow> Some (selectChild w u))"

definition load_page ::
  "string list option \<Rightarrow> (string \<times> string) list \<Rightarrow> jsval jsobj list \<Rightarrow> (string \<times> string \<times> string) list \<Rightarrow> ui option" where
  "load_page restriction ws rs cs =
     Option.bind (each init_connection cs (init_reactors rs (init_workspaces restriction ws empty_ui))) select_first"

section \<open>Frames\<close>

lemma initCoords_index: "reactors_by_id (snd (initCoords a c p u)) = reactors_by_id u"
  by (auto simp: initCoords_def updateExternalReactorConfig_def upd_robj_def)

lemma createConnection_index: "createConnection s e conn u = Some u' \<Longrightarrow> reactors_by_id u' = reactors_by_id u"
  by (auto simp: createConnection_def newCrossWorkspaceConnection_def push_input_def push_output_def add_div_def
      upd_wobj_def upd_robj_def selectChild_def Let_def split: if_splits option.splits prod.splits
      dest!: arg_cong [where f = "\<lambda>r. reactors_by_id (snd r)"] simp: initCoords_index)

lemma addWorkspace_frame:
  "workspaces_by_id (addWorkspace i n u) = obj_put (workspaces_by_id u) i (u_next u)"
  "workspace_boxes (addWorkspace i n u) = workspace_boxes u @ [u_next u]"
  "reactors_by_id (addWorkspace i n u) = reactors_by_id u"
  "workspace_box (addWorkspace i n u) = Some (u_next u)"
  by (simp_all add: addWorkspace_def selectChild_def Let_def)

definition reactor_visible :: "ui \<Rightarrow> jsval jsobj \<Rightarrow> bool" where
  "reactor_visible u c =
     (case obj_get c ''Workspace'' of Some w \<Rightarrow> obj_has (workspaces_by_id u) (js_string w) | None \<Rightarrow> False)"

lemma createReactor_frame:
  "workspaces_by_id (createReactorInConfiguredWorkspace c u) = workspaces_by_id u"
  "workspace_boxes (createReactorInConfiguredWorkspace c u) = workspace_boxes u"
  "reactors_by_id (createReactorInConfiguredWorkspace c u) =
     (if reactor_visible u c then obj_put (reactors_by_id u) (config_id c) (u_next u) else reactors_by_id u)"
  by (auto simp: createReactorInConfiguredWorkspace_def reactor_visible_def selectChild_def upd_wobj_def Let_def
      obj_has_iff split: option.splits)

lemma wires_select [simp]: "wires (selectChild w u) = wires u" "live (selectChild w u) = live u"
  "reactors_by_id (selectChild w u) = reactors_by_id u" "workspace_boxes (selectChild w u) = workspace_boxes u"
  "ws_of (selectChild w u) a = ws_of u a" "workspace_box (selectChild w u) = Some w"
  by (simp_all add: wires_def) (simp_all add: selectChild_def)

lemma indexed_live:
  assumes "graph_inv u" "obj_get (reactors_by_id u) i = Some a"
  shows "a \<in> set (live u)" "ws_of u a \<in> set (workspace_boxes u)"
proof -
  have t: "tree_inv u" by (rule by_links(3) [OF assms(1)])
  from t obj_get_in_set [OF assms(2)] show a: "a \<in> set (live u)" by (force simp: tree_inv_def)
  show "ws_of u a \<in> set (workspace_boxes u)" using live_ws(1) [OF t a] by simp
qed

section \<open>The loops\<close>

lemma addWorkspace_canvas:
  assumes "canvas u" "\<not> obj_has (workspaces_by_id u) i"
  shows "canvas (addWorkspace i n u)" "wires (addWorkspace i n u) = wires u"
  using canvas.add_workspace [OF assms] addWorkspace_ok(2) [OF canvas_graph [OF assms(1)] assms(2)]
  by (simp_all add: wires_def)

lemma init_workspaces_ok:
  assumes "canvas u" "distinct (map fst ws)" "\<forall>w\<in>set ws. \<not> obj_has (workspaces_by_id u) (fst w)"
  shows "canvas (init_workspaces r ws u) \<and> wires (init_workspaces r ws u) = wires u \<and>
     reactors_by_id (init_workspaces r ws u) = reactors_by_id u \<and>
     (\<forall>i. obj_has (workspaces_by_id (init_workspaces r ws u)) i \<longleftrightarrow>
        obj_has (workspaces_by_id u) i \<or> (i \<in> set (map fst ws) \<and> workspace_permitted r i)) \<and>
     length (workspace_boxes (init_workspaces r ws u)) =
        length (workspace_boxes u) + length (filter (workspace_permitted r) (map fst ws))"
  using assms
proof (induction ws arbitrary: u)
  case (Cons w ws)
  obtain i n where w: "w = (i, n)" by (cases w)
  let ?u = "if workspace_permitted r i then addWorkspace i n u else u"
  have new: "\<not> obj_has (workspaces_by_id u) i" using Cons.prems(3) by (simp add: w)
  have u: "canvas ?u" "wires ?u = wires u" "reactors_by_id ?u = reactors_by_id u"
    using addWorkspace_canvas [OF Cons.prems(1) new] Cons.prems(1) by (simp_all add: addWorkspace_frame)
  have has: "obj_has (workspaces_by_id ?u) j \<longleftrightarrow> obj_has (workspaces_by_id u) j \<or> (j = i \<and> workspace_permitted r i)" for j
    by (simp add: addWorkspace_frame obj_has_iff obj_get_put)
  have "\<forall>w\<in>set ws. \<not> obj_has (workspaces_by_id ?u) (fst w)" using Cons.prems(2,3) unfolding has by (auto simp: w)
  moreover have "distinct (map fst ws)" using Cons.prems(2) by simp
  ultimately have IH: "canvas (init_workspaces r ws ?u) \<and> wires (init_workspaces r ws ?u) = wires ?u \<and>
     reactors_by_id (init_workspaces r ws ?u) = reactors_by_id ?u \<and>
     (\<forall>i. obj_has (workspaces_by_id (init_workspaces r ws ?u)) i \<longleftrightarrow>
        obj_has (workspaces_by_id ?u) i \<or> (i \<in> set (map fst ws) \<and> workspace_permitted r i)) \<and>
     length (workspace_boxes (init_workspaces r ws ?u)) =
        length (workspace_boxes ?u) + length (filter (workspace_permitted r) (map fst ws))"
    using Cons.IH [OF u(1)] by blast
  then show ?case unfolding u(2,3) has by (auto simp: w addWorkspace_frame)
qed simp

lemma createReactor_canvas:
  assumes "canvas u" "\<not> obj_has (reactors_by_id u) (config_id c)"
  shows "canvas (createReactorInConfiguredWorkspace c u)" "wires (createReactorInConfiguredWorkspace c u) = wires u"
proof -
  show "canvas (createReactorInConfiguredWorkspace c u)" by (rule canvas.add_reactor [OF assms])
  show "wires (createReactorInConfiguredWorkspace c u) = wires u"
  proof (cases "\<exists>wid w. obj_get c ''Workspace'' = Some wid \<and> obj_get (workspaces_by_id u) (js_string wid) = Some w")
    case True
    then show ?thesis using createReactor_ok(2) [OF canvas_graph [OF assms(1)] _ _ assms(2)] by (auto simp: wires_def)
  next
    case False
    then have "createReactorInConfiguredWorkspace c u = u"
      by (auto simp: createReactorInConfiguredWorkspace_def split: option.splits)
    then show ?thesis by simp
  qed
qed

lemma init_reactors_ok:
  assumes "canvas u" "distinct (map config_id cs)" "\<forall>c\<in>set cs. \<not> obj_has (reactors_by_id u) (config_id c)"
  shows "canvas (init_reactors cs u) \<and> wires (init_reactors cs u) = wires u \<and>
     workspaces_by_id (init_reactors cs u) = workspaces_by_id u \<and> workspace_boxes (init_reactors cs u) = workspace_boxes u \<and>
     (\<forall>i. obj_has (reactors_by_id (init_reactors cs u)) i \<longleftrightarrow>
        obj_has (reactors_by_id u) i \<or> (\<exists>c\<in>set cs. config_id c = i \<and> reactor_visible u c))"
  using assms
proof (induction cs arbitrary: u)
  case (Cons c cs)
  let ?u = "createReactorInConfiguredWorkspace c u"
  have new: "\<not> obj_has (reactors_by_id u) (config_id c)" using Cons.prems(3) by simp
  note u = createReactor_canvas [OF Cons.prems(1) new]
  have has: "obj_has (reactors_by_id ?u) j \<longleftrightarrow> obj_has (reactors_by_id u) j \<or> (j = config_id c \<and> reactor_visible u c)" for j
    by (auto simp: createReactor_frame obj_has_iff obj_get_put)
  have vis: "reactor_visible ?u d = reactor_visible u d" for d
    by (simp add: reactor_visible_def createReactor_frame split: option.splits)
  have "\<forall>d\<in>set cs. \<not> obj_has (reactors_by_id ?u) (config_id d)" using Cons.prems(2,3) unfolding has by (auto simp: rev_image_eqI)
  moreover have "distinct (map config_id cs)" using Cons.prems(2) by simp
  ultimately have IH: "canvas (init_reactors cs ?u) \<and> wires (init_reactors cs ?u) = wires ?u \<and>
     workspaces_by_id (init_reactors cs ?u) = workspaces_by_id ?u \<and> workspace_boxes (init_reactors cs ?u) = workspace_boxes ?u \<and>
     (\<forall>i. obj_has (reactors_by_id (init_reactors cs ?u)) i \<longleftrightarrow>
        obj_has (reactors_by_id ?u) i \<or> (\<exists>c\<in>set cs. config_id c = i \<and> reactor_visible ?u c))"
    using Cons.IH [OF u(1)] by blast
  then show ?case using has vis by (auto simp: u(2) createReactor_frame)
qed simp

text \<open>The wires that a list of connections adds, for an index of reactors.\<close>

definition wire_of :: "nat jsobj \<Rightarrow> string \<times> string \<times> string \<Rightarrow> (string \<times> nat \<times> nat) set" where
  "wire_of idx c =
     (case (obj_get idx (fst (snd c)), obj_get idx (snd (snd c))) of
        (Some s, Some e) \<Rightarrow> {(fst c, s, e)}
      | _ \<Rightarrow> {})"

definition visible_wires :: "nat jsobj \<Rightarrow> (string \<times> string \<times> string) list \<Rightarrow> (string \<times> nat \<times> nat) set" where
  "visible_wires idx cs = (\<Union>c\<in>set cs. wire_of idx c)"

lemma visible_wires_simps [simp]: "visible_wires idx [] = {}" "visible_wires idx (c # cs) = wire_of idx c \<union> visible_wires idx cs"
  by (simp_all add: visible_wires_def)

lemma wire_of_id: "x \<in> wire_of idx c \<Longrightarrow> fst x = fst c"
  by (auto simp: wire_of_def split: option.splits)

lemma init_connection_ok:
  assumes "canvas u" "i \<notin> fst ` wires u"
  shows "\<exists>u'. init_connection (i, f, t) u = Some u' \<and> canvas u' \<and>
     wires u' = wires u \<union> wire_of (reactors_by_id u) (i, f, t) \<and>
     reactors_by_id u' = reactors_by_id u \<and> workspace_boxes u' = workspace_boxes u"
proof (cases "\<exists>s e. obj_get (reactors_by_id u) f = Some s \<and> obj_get (reactors_by_id u) t = Some e")
  case True
  then obtain s e where se: "obj_get (reactors_by_id u) f = Some s" "obj_get (reactors_by_id u) t = Some e" by blast
  note inv = canvas_graph [OF assms(1)]
  let ?u = "selectChild (ws_of u s) u"
  have c: "canvas ?u" by (rule canvas.select [OF assms(1) indexed_live(2) [OF inv se(1)]])
  obtain u' where u': "createConnection s e i ?u = Some u'" "canvas u'" "wires u' = insert (i, s, e) (wires u)"
    "workspace_boxes u' = workspace_boxes u"
    using connect_ok [OF c, of s e i] indexed_live(1) [OF inv se(1)] indexed_live(1) [OF inv se(2)] assms(2) by auto
  have "reactors_by_id u' = reactors_by_id u" using createConnection_index [OF u'(1)] by simp
  moreover have "wire_of (reactors_by_id u) (i, f, t) = {(i, s, e)}" using se by (simp add: wire_of_def)
  ultimately show ?thesis using u' se by (simp add: init_connection_def)
next
  case False
  then have "init_connection (i, f, t) u = Some u" by (auto simp: init_connection_def split: option.splits)
  moreover have "wire_of (reactors_by_id u) (i, f, t) = {}" using False by (auto simp: wire_of_def split: option.splits)
  ultimately show ?thesis using assms(1) by simp
qed

lemma init_connections_ok:
  assumes "canvas u" "distinct (map fst cs)" "set (map fst cs) \<inter> fst ` wires u = {}"
  shows "\<exists>u'. each init_connection cs u = Some u' \<and> canvas u' \<and> wires u' = wires u \<union> visible_wires (reactors_by_id u) cs \<and>
     reactors_by_id u' = reactors_by_id u \<and> workspace_boxes u' = workspace_boxes u"
  using assms
proof (induction cs arbitrary: u)
  case Nil
  then show ?case by simp
next
  case (Cons c cs)
  obtain i f t where c: "c = (i, f, t)" by (cases c)
  obtain u1 where u1: "init_connection c u = Some u1" "canvas u1" "wires u1 = wires u \<union> wire_of (reactors_by_id u) c"
    "reactors_by_id u1 = reactors_by_id u" "workspace_boxes u1 = workspace_boxes u"
    using init_connection_ok [OF Cons.prems(1), of i f t] Cons.prems(3) by (auto simp: c)
  have "set (map fst cs) \<inter> fst ` wires u1 = {}"
  proof (rule Int_emptyI)
    fix j assume j: "j \<in> set (map fst cs)" "j \<in> fst ` wires u1"
    then obtain x where x: "x \<in> wires u1" "j = fst x" by blast
    have "j \<noteq> fst c" using j(1) Cons.prems(2) by (metis distinct.simps(2) list.simps(9))
    then have "x \<in> wires u" using x u1(3) wire_of_id by blast
    then have "j \<in> fst ` wires u" using x(2) by simp
    moreover have "j \<in> set (map fst (c # cs))" using j(1) by simp
    ultimately show False using Cons.prems(3) by blast
  qed
  then obtain u' where "each init_connection cs u1 = Some u'" "canvas u'" "wires u' = wires u1 \<union> visible_wires (reactors_by_id u1) cs"
    "reactors_by_id u' = reactors_by_id u1" "workspace_boxes u' = workspace_boxes u1"
    using Cons.IH [OF u1(2)] Cons.prems(2) by auto
  then show ?case using u1 by (simp add: Un_assoc)
qed

section \<open>Properties\<close>

text \<open>
  C11: loading the page produces a reachable canvas, with the first visible workspace selected,
  as many workspaces as the user may see, and the reactors of these workspaces only; of the
  server's connections exactly those are drawn whose two reactors are on the canvas, each once
  and between the reactors it names.
\<close>

theorem loaded_page_is_a_canvas:
  assumes "distinct (map fst ws)" "distinct (map config_id rs)" "distinct (map fst cs)"
    and "\<exists>w\<in>set ws. workspace_permitted restriction (fst w)"
  shows "\<exists>u. load_page restriction ws rs cs = Some u \<and> canvas u \<and>
     length (workspace_boxes u) = length (filter (workspace_permitted restriction) (map fst ws)) \<and>
     workspace_box u = Some (hd (workspace_boxes u)) \<and>
     (\<forall>i. obj_has (reactors_by_id u) i \<longleftrightarrow>
        (\<exists>c\<in>set rs. config_id c = i \<and>
           (\<exists>w. obj_get c ''Workspace'' = Some w \<and> js_string w \<in> set (map fst ws) \<and>
                workspace_permitted restriction (js_string w)))) \<and>
     wires u = visible_wires (reactors_by_id u) cs"
proof -
  let ?u1 = "init_workspaces restriction ws empty_ui"
  let ?u2 = "init_reactors rs ?u1"
  have e: "workspaces_by_id empty_ui = []" "reactors_by_id empty_ui = []" "workspace_boxes empty_ui = []" "wires empty_ui = {}"
    by (simp_all add: wires_def links_def live_def) (simp_all add: empty_ui_def)
  have u1: "canvas ?u1" "wires ?u1 = {}" "reactors_by_id ?u1 = []"
    "\<And>i. obj_has (workspaces_by_id ?u1) i \<longleftrightarrow> i \<in> set (map fst ws) \<and> workspace_permitted restriction i"
    "length (workspace_boxes ?u1) = length (filter (workspace_permitted restriction) (map fst ws))"
    using init_workspaces_ok [OF canvas.load assms(1), of restriction] by (simp_all add: e obj_has_def)
  have u2: "canvas ?u2" "wires ?u2 = {}" "workspace_boxes ?u2 = workspace_boxes ?u1"
    "\<And>i. obj_has (reactors_by_id ?u2) i \<longleftrightarrow> (\<exists>c\<in>set rs. config_id c = i \<and> reactor_visible ?u1 c)"
    using init_reactors_ok [OF u1(1) assms(2)] by (simp_all add: u1(2,3) obj_has_def)
  obtain u3 where u3: "each init_connection cs ?u2 = Some u3" "canvas u3" "wires u3 = visible_wires (reactors_by_id ?u2) cs"
    "reactors_by_id u3 = reactors_by_id ?u2" "workspace_boxes u3 = workspace_boxes ?u2"
    using init_connections_ok [OF u2(1) assms(3)] by (auto simp: u2(2))
  have "filter (workspace_permitted restriction) (map fst ws) \<noteq> []" using assms(4) by (auto simp: filter_empty_conv)
  then have "workspace_boxes ?u1 \<noteq> []" using u1(5) by (metis length_0_conv)
  then obtain w bs where w: "workspace_boxes u3 = w # bs" using u3(5) u2(3) by (cases "workspace_boxes ?u1") auto
  have "load_page restriction ws rs cs = Some (selectChild w u3)" by (simp add: load_page_def u3(1) select_first_def w)
  moreover have "canvas (selectChild w u3)" by (rule canvas.select [OF u3(2)]) (simp add: w)
  moreover have "reactor_visible ?u1 c \<longleftrightarrow> (\<exists>w. obj_get c ''Workspace'' = Some w \<and> js_string w \<in> set (map fst ws) \<and>
                workspace_permitted restriction (js_string w))" for c
    by (auto simp: reactor_visible_def u1(4) split: option.splits)
  moreover have "workspace_box (selectChild w u3) = Some (hd (workspace_boxes (selectChild w u3)))" by (simp add: w)
  ultimately show ?thesis using u1(5) u2(3,4) u3(3-5) by (intro exI [of _ "selectChild w u3"]) simp
qed

theorem loaded_page_is_a_canvas_witness:
  "\<exists>u. load_page (Some [''w2'']) [(''w1'', ''One''), (''w2'', ''Two'')] [demo_config ''r1'' ''w1'', demo_config ''r2'' ''w2''] [(''c1'', ''r1'', ''r2'')] = Some u \<and>
     canvas u \<and> wires u = {} \<and> \<not> obj_has (reactors_by_id u) ''r1''"
proof -
  have ids: "config_id (demo_config i w) = i" "obj_get (demo_config i w) ''Workspace'' = Some (JStr w)" for i w
    by (simp_all add: demo_config_def config_id_def)
  let ?ws = "[(''w1'', ''One''), (''w2'', ''Two'')]" and ?rs = "[demo_config ''r1'' ''w1'', demo_config ''r2'' ''w2'']"
  have "\<exists>u. load_page (Some [''w2'']) ?ws ?rs [(''c1'', ''r1'', ''r2'')] = Some u \<and> canvas u \<and>
     length (workspace_boxes u) = length (filter (workspace_permitted (Some [''w2''])) (map fst ?ws)) \<and>
     workspace_box u = Some (hd (workspace_boxes u)) \<and>
     (\<forall>i. obj_has (reactors_by_id u) i \<longleftrightarrow>
        (\<exists>c\<in>set ?rs. config_id c = i \<and>
           (\<exists>w. obj_get c ''Workspace'' = Some w \<and> js_string w \<in> set (map fst ?ws) \<and>
                workspace_permitted (Some [''w2'']) (js_string w)))) \<and>
     wires u = visible_wires (reactors_by_id u) [(''c1'', ''r1'', ''r2'')]"
    by (rule loaded_page_is_a_canvas) (simp_all add: ids workspace_permitted_def)
  then obtain u where u: "load_page (Some [''w2'']) ?ws ?rs [(''c1'', ''r1'', ''r2'')] = Some u" "canvas u"
    "\<forall>i. obj_has (reactors_by_id u) i \<longleftrightarrow>
        (\<exists>c\<in>set ?rs. config_id c = i \<and>
           (\<exists>w. obj_get c ''Workspace'' = Some w \<and> js_string w \<in> set (map fst ?ws) \<and>
                workspace_permitted (Some [''w2'']) (js_string w)))"
    "wires u = visible_wires (reactors_by_id u) [(''c1'', ''r1'', ''r2'')]" by blast
  have no: "\<not> obj_has (reactors_by_id u) ''r1''" using u(3) by (simp add: ids workspace_permitted_def)
  then have "wires u = {}" using u(4) by (simp add: wire_of_def obj_has_iff)
  with u(1,2) no show ?thesis by blast
qed

end
