(* ===== verification/Pion_Page.thy ===== *)
theory Pion_Page
  imports Pion_Startup
begin

text \<open>
  The rest of the reactor page: the menus and rows of the connections dialog, the license check
  before a connection changes, drawing a new connection with the mouse, naming and renaming
  workspaces, and the event counters (\<open>scripts/reactors.js\<close>, and \<open>ReactorConnections\<close> of
  \<open>plugins/reactors/Reactor.js\<close>).
\<close>

section \<open>The connections dialog\<close>

text \<open>The items of the two menus: each reactor with whether its item can be chosen.\<close>

definition input_items :: "ui \<Rightarrow> nat \<Rightarrow> (nat \<times> bool) list" where
  "input_items u sink =
     map (\<lambda>(i, b). (b, \<not> (b = sink \<or> b \<in> set (map ce_peer (ro_inputs (u_robj u sink)))))) (reactors_by_id u)"

definition output_items :: "ui \<Rightarrow> nat \<Rightarrow> (nat \<times> bool) list" where
  "output_items u src =
     map (\<lambda>(i, b). (b, \<not> (b = src \<or> b \<in> set (map ce_peer (ro_outputs (u_robj u src)))))) (reactors_by_id u)"

text \<open>The menu: a submenu for each workspace, with the items of its reactors.\<close>

definition submenus :: "ui \<Rightarrow> (nat \<times> bool) list \<Rightarrow> (string \<times> (nat \<times> bool) list) list" where
  "submenus u items =
     map (\<lambda>(uuid, w). (wo_title (u_wobj u w), filter (\<lambda>(b, on). wo_uuid (u_wobj u (ro_ws (u_robj u b))) = uuid) items))
       (workspaces_by_id u)"

definition makeMenuOfInputs :: "ui \<Rightarrow> nat \<Rightarrow> (string \<times> (nat \<times> bool) list) list" where
  "makeMenuOfInputs u sink = submenus u (input_items u sink)"

definition makeMenuOfOutputs :: "ui \<Rightarrow> nat \<Rightarrow> (string \<times> (nat \<times> bool) list) list" where
  "makeMenuOfOutputs u src = submenus u (output_items u src)"

definition connection_body :: "ui \<Rightarrow> nat \<Rightarrow> nat \<Rightarrow> string" where
  "connection_body u s e =
     ''<PionConfig><Connection><Type>reactor</Type><From>'' @ ro_id (u_robj u s) @ ''</From><To>'' @ ro_id (u_robj u e) @
     ''</To></Connection></PionConfig>''"

definition reactor_name :: "ui \<Rightarrow> nat \<Rightarrow> string" where
  "reactor_name u a = (case obj_get (ro_config (u_robj u a)) ''Name'' of Some v \<Rightarrow> js_string v | None \<Rightarrow> ''undefined'')"

definition titled :: "ui \<Rightarrow> nat \<Rightarrow> nat \<Rightarrow> string" where
  "titled u w a = ''['' @ wo_title (u_wobj u w) @ ''] '' @ reactor_name u a"

text \<open>The rows for a connection; \<open>None\<close> is the exception for an identifier that is not known.\<close>

definition addInputConnectionItem :: "ui \<Rightarrow> string \<Rightarrow> (string \<times> string) option" where
  "addInputConnectionItem u conn =
     (case obj_get (connections_by_id u) conn of
        None \<Rightarrow> None
      | Some (s, e) \<Rightarrow>
          Some (conn, if ws_of u s = ws_of u e then reactor_name u s else titled u (ws_of u s) s))"

definition addOutputConnectionItem :: "ui \<Rightarrow> string \<Rightarrow> (string \<times> string) option" where
  "addOutputConnectionItem u conn =
     (case obj_get (connections_by_id u) conn of
        None \<Rightarrow> None
      | Some (s, e) \<Rightarrow>
          Some (conn, if ws_of u s = ws_of u e then reactor_name u e else titled u (ws_of u s) e))"

section \<open>The license check\<close>

datatype change = Proceed | NotAllowed string

text \<open>
  \<open>license\<close> is the state known so far and \<open>checked\<close> the state after asking again; a reactor is
  given by whether its class needs a license, and the label of the class.
\<close>

definition doConnectionChangeIfAllowed :: "string \<Rightarrow> string \<Rightarrow> bool \<times> string \<Rightarrow> bool \<times> string \<Rightarrow> change" where
  "doConnectionChangeIfAllowed license checked source_reactor sink_reactor =
     (if license = ''lite'' \<and> (fst source_reactor \<or> fst sink_reactor) then
        (if checked = ''lite''
         then NotAllowed (''You must have a commercial license to modify the connections of a '' @
                (if fst source_reactor then snd source_reactor else snd sink_reactor) @ ''.<br/>'')
         else Proceed)
      else Proceed)"

section \<open>Drawing a connection\<close>

record tracking =
  tr_source :: "nat option"            \<comment> \<open>the reactor the line starts at, while \<open>isTracking\<close>\<close>
  tr_pane :: nat                       \<comment> \<open>\<open>mouse_connection.starting_pane\<close>\<close>

definition handleDropOnReactor :: "nat \<Rightarrow> ui \<Rightarrow> tracking \<Rightarrow> tracking option" where
  "handleDropOnReactor a u t =
     (if tr_source t \<noteq> None then Some t
      else (case workspace_box u of None \<Rightarrow> None | Some w \<Rightarrow> Some \<lparr>tr_source = Some a, tr_pane = w\<rparr>))"

definition stopTracking :: "tracking \<Rightarrow> tracking" where
  "stopTracking t = t\<lparr>tr_source := None\<rparr>"

text \<open>Escape ends the tracking and goes back to the tab it started in.\<close>

definition handleEscape :: "ui \<Rightarrow> tracking \<Rightarrow> ui \<times> tracking" where
  "handleEscape u t =
     (if tr_source t = None then (u, t)
      else (if workspace_box u \<noteq> Some (tr_pane t) then selectChild (tr_pane t) u else u, stopTracking t))"

text \<open>
  A click on a reactor ends it too: the source's tab is selected if the sink lies elsewhere, and
  the connection is requested. The answer creates it, whatever tab is selected by then.
\<close>

definition handleSelectionOfConnectorEndpoint :: "nat \<Rightarrow> ui \<Rightarrow> tracking \<Rightarrow> ui \<times> tracking \<times> string option" where
  "handleSelectionOfConnectorEndpoint sink u t =
     (case tr_source t of
        None \<Rightarrow> (u, t, None)
      | Some src \<Rightarrow>
          (let u1 = (if ws_of u src \<noteq> ws_of u sink then selectChild (ws_of u src) u else u)
           in (u1, stopTracking t, Some (connection_body u1 src sink))))"

section \<open>Workspaces\<close>

text \<open>The title for a new workspace: the first \<open>Workspace n\<close> from the number of workspaces on that is free.\<close>

partial_function (option) free_title :: "(string \<Rightarrow> bool) \<Rightarrow> nat \<Rightarrow> string \<Rightarrow> string option" where
  "free_title dup j title =
     (if dup title then free_title dup (Suc j) (''Workspace '' @ int_string (int j)) else Some title)"

definition new_workspace_title :: "ui \<Rightarrow> string option" where
  "new_workspace_title u =
     (let i = length (workspace_boxes u) in
      free_title (\<lambda>t. isDuplicateWorkspaceName None t u) (i + 2) (''Workspace '' @ int_string (int (i + 1))))"

definition new_workspace_body :: "string \<Rightarrow> string" where
  "new_workspace_body title = ''<PionConfig><Workspace><Name>'' @ title @ ''</Name></Workspace></PionConfig>''"

text \<open>\<open>updateWorkspaceConfig\<close>: the request, and what its answer changes.\<close>

definition workspace_put :: "string \<Rightarrow> string \<Rightarrow> string" where
  "workspace_put name comment =
     ''<PionConfig><Workspace><Name>'' @ name @ ''</Name>'' @
     (if comment \<noteq> [] then ''<Comment>'' @ comment @ ''</Comment>'' else []) @ ''</Workspace></PionConfig>''"

definition updateWorkspaceConfig_load :: "nat \<Rightarrow> string \<Rightarrow> ui \<Rightarrow> ui" where
  "updateWorkspaceConfig_load w name u = upd_wobj w (\<lambda>x. x\<lparr>wo_title := name\<rparr>) u"

text \<open>Deleting a workspace: at once when it is empty, else after a question, the reactors first.\<close>

datatype deletion = DeleteNow string | AskFirst string string

definition deleteWorkspaceIfConfirmed :: "nat \<Rightarrow> ui \<Rightarrow> deletion" where
  "deleteWorkspaceIfConfirmed w u =
     (if wo_reactors (u_wobj u w) = [] then DeleteNow (''/config/workspaces/'' @ wo_uuid (u_wobj u w))
      else AskFirst (''Are you sure you want to delete workspace '' @ [CHR 0x27] @ wo_title (u_wobj u w) @ [CHR 0x27] @
             '' and all the reactors it contains?'') (''/config/reactors/'' @ wo_uuid (u_wobj u w)))"

section \<open>Event counters\<close>

record stats =
  st_global :: int                     \<comment> \<open>\<open>prev_global_ops\<close>\<close>
  st_workspace :: int                  \<comment> \<open>\<open>prev_events_in_for_workspace\<close>\<close>
  st_reactor :: "nat \<Rightarrow> int"           \<comment> \<open>\<open>prev_events_in\<close> of each reactor\<close>
  st_running :: "nat \<Rightarrow> bool"          \<comment> \<open>\<open>run_button\<close> and \<open>config.Running\<close>\<close>

record shown =
  sh_global :: int
  sh_workspace :: int
  sh_reactor :: "nat \<Rightarrow> int option"    \<comment> \<open>new \<open>ops_per_sec\<close> text\<close>

definition shown_delta :: "int \<Rightarrow> int" where
  "shown_delta d = (if d > 0 then d else 0)"

text \<open>The loop over the reactors in the answer: identifier, \<open>EventsIn\<close>, \<open>Running\<close>.\<close>

fun count_reactors ::
  "ui \<Rightarrow> (string \<times> int \<times> bool) list \<Rightarrow> stats \<times> (nat \<Rightarrow> int option) \<times> int \<Rightarrow> stats \<times> (nat \<Rightarrow> int option) \<times> int" where
  "count_reactors u [] st = st"
| "count_reactors u ((i, events_in, running) # rs) (s, sh, tot) =
     (case obj_get (reactors_by_id u) i of
        None \<Rightarrow> count_reactors u rs (s, sh, tot)
      | Some a \<Rightarrow>
          if workspace_box u = Some (ws_of u a) then
            count_reactors u rs
              (s\<lparr>st_reactor := (st_reactor s)(a := events_in), st_running := (st_running s)(a := running)\<rparr>,
               sh(a := Some (events_in - st_reactor s a)), tot + events_in)
          else count_reactors u rs (s\<lparr>st_running := (st_running s)(a := running)\<rparr>, sh, tot))"

definition stats_load :: "ui \<Rightarrow> int \<Rightarrow> (string \<times> int \<times> bool) list \<Rightarrow> stats \<Rightarrow> stats \<times> shown" where
  "stats_load u global_ops rs s =
     (let (s1, sh, tot) = count_reactors u rs (s, \<lambda>_. None, 0)
      in (s1\<lparr>st_global := global_ops, st_workspace := tot\<rparr>,
          \<lparr>sh_global = shown_delta (global_ops - st_global s), sh_workspace = shown_delta (tot - st_workspace s),
           sh_reactor = sh\<rparr>))"

fun updateRunButtons_load :: "ui \<Rightarrow> (string \<times> bool) list \<Rightarrow> stats \<Rightarrow> stats" where
  "updateRunButtons_load u [] s = s"
| "updateRunButtons_load u ((i, running) # rs) s =
     (case obj_get (reactors_by_id u) i of
        None \<Rightarrow> updateRunButtons_load u rs s
      | Some a \<Rightarrow> updateRunButtons_load u rs (s\<lparr>st_running := (st_running s)(a := running)\<rparr>))"

section \<open>Menus\<close>

lemma index_range:
  assumes "graph_inv u"
  shows "snd ` set (reactors_by_id u) = set (live u)"
proof -
  note t = by_links(3) [OF assms]
  have "b \<in> snd ` set (reactors_by_id u)" if "b \<in> set (live u)" for b
    using t that obj_get_in_set [of "reactors_by_id u" "ro_id (u_robj u b)" b] by (force simp: tree_inv_def)
  moreover have "snd p \<in> set (live u)" if "p \<in> set (reactors_by_id u)" for p using t that by (simp add: tree_inv_def)
  ultimately show ?thesis by blast
qed

lemma items_in_submenus:
  assumes "graph_inv u" "fst ` set items \<subseteq> set (live u)"
  shows "set (concat (map snd (submenus u items))) = set items"
proof (intro equalityI subsetI)
  fix x assume "x \<in> set (concat (map snd (submenus u items)))"
  then show "x \<in> set items" by (auto simp: submenus_def)
next
  fix x assume x: "x \<in> set items"
  note t = by_links(3) [OF assms(1)]
  obtain b on where b: "x = (b, on)" by (cases x)
  define i where "i = wo_uuid (u_wobj u (ws_of u b))"
  have "b \<in> set (live u)" using x assms(2) by (auto simp: b)
  then have "ws_of u b \<in> set (workspace_boxes u)" using live_ws(1) [OF t] by simp
  then have "obj_get (workspaces_by_id u) i = Some (ws_of u b)" using t by (simp add: tree_inv_def i_def)
  then have "(i, ws_of u b) \<in> set (workspaces_by_id u)" by (rule obj_get_in_set)
  moreover have "x \<in> set (filter (\<lambda>(b, on). wo_uuid (u_wobj u (ro_ws (u_robj u b))) = i) items)"
    using x by (simp add: b i_def)
  ultimately show "x \<in> set (concat (map snd (submenus u items)))"
    unfolding submenus_def by (auto intro!: bexI [of _ "(i, ws_of u b)"])
qed

lemma existing_inputs:
  assumes "graph_inv u" "a \<in> set (live u)"
  shows "set (map ce_peer (ins u a)) = {b. \<exists>conn. (conn, b, a) \<in> wires u}"
    "set (map ce_peer (outs u a)) = {b. \<exists>conn. (conn, a, b) \<in> wires u}"
proof -
  have "b \<in> ce_peer ` set (ins u a) \<longleftrightarrow> (\<exists>l\<in>links u. l_dst l = a \<and> l_src l = b)" for b
    unfolding image_iff Bex_def links_of_entries(2) [OF assms] by auto
  then show "set (map ce_peer (ins u a)) = {b. \<exists>conn. (conn, b, a) \<in> wires u}" unfolding set_map wires_iff by blast
  have "b \<in> ce_peer ` set (outs u a) \<longleftrightarrow> (\<exists>l\<in>links u. l_src l = a \<and> l_dst l = b)" for b
    unfolding image_iff Bex_def links_of_entries(1) [OF assms] by auto
  then show "set (map ce_peer (outs u a)) = {b. \<exists>conn. (conn, a, b) \<in> wires u}" unfolding set_map wires_iff by blast
qed

text \<open>
  The menus of the connections dialog list every reactor of the canvas, and let the user
  choose exactly those that are neither the reactor itself nor connected to it yet in that
  direction, so a chosen item never doubles a connection.
\<close>

theorem menus_offer_only_new_connections:
  assumes "canvas u" "a \<in> set (live u)"
  shows "set (concat (map snd (makeMenuOfInputs u a))) =
       {(b, b \<noteq> a \<and> (\<forall>conn. (conn, b, a) \<notin> wires u)) |b. b \<in> set (live u)} \<and>
     set (concat (map snd (makeMenuOfOutputs u a))) =
       {(b, b \<noteq> a \<and> (\<forall>conn. (conn, a, b) \<notin> wires u)) |b. b \<in> set (live u)}"
proof -
  have inv: "graph_inv u" by (rule canvas_graph [OF assms(1)])
  note r = index_range [OF inv] and ex = existing_inputs [OF inv assms(2)]
  have i: "set (input_items u a) = (\<lambda>b. (b, b \<noteq> a \<and> (\<forall>conn. (conn, b, a) \<notin> wires u))) ` set (live u)"
    unfolding input_items_def r [symmetric] ex by (force simp: image_image)
  have o': "set (output_items u a) = (\<lambda>b. (b, b \<noteq> a \<and> (\<forall>conn. (conn, a, b) \<notin> wires u))) ` set (live u)"
    unfolding output_items_def r [symmetric] ex by (force simp: image_image)
  have sub: "fst ` set (input_items u a) \<subseteq> set (live u)" "fst ` set (output_items u a) \<subseteq> set (live u)"
    unfolding i o' by auto
  show ?thesis
    unfolding makeMenuOfInputs_def makeMenuOfOutputs_def items_in_submenus [OF inv sub(1)] items_in_submenus [OF inv sub(2)] i o'
    by auto
qed

theorem menus_offer_only_new_connections_witness:
  "\<exists>u1. createConnection 2 3 ''c1'' demo = Some u1 \<and>
     set (concat (map snd (makeMenuOfInputs u1 3))) = {(2, False), (3, False), (4, True)}"
proof (rule demo_connected)
  fix u1 assume *: "createConnection 2 3 ''c1'' demo = Some u1" "canvas u1" "wires u1 = {(''c1'', 2, 3)}"
  have l: "live u1 = [2, 3, 4]"
    using connect_ok [OF demo_canvas, of 2 3 "''c1''"] *(1) by (auto simp: demo_facts)
  have "set (concat (map snd (makeMenuOfInputs u1 3))) =
       {(b, b \<noteq> 3 \<and> (\<forall>conn. (conn, b, 3) \<notin> wires u1)) |b. b \<in> set (live u1)}"
    using menus_offer_only_new_connections [OF *(2), of 3] l by simp
  also have "\<dots> = {(2, False), (3, False), (4, True)}" unfolding *(3) l by auto
  finally show ?thesis using *(1) by blast
qed

end
