(* ===== verification/Pion_PageFacts.thy ===== *)
theory Pion_PageFacts
  imports Pion_Page
begin

text \<open>
  Properties of the page operations of \<open>Pion_Page\<close>: the search for a free workspace title ends,
  the event counters agree with each other, and two places where the page goes wrong: the row
  of an outgoing connection names the wrong workspace, and the answer to a connection request
  draws into whatever tab is selected when it arrives.
\<close>

section \<open>Titles\<close>

lemma int_string_inj: "int_string m = int_string n \<Longrightarrow> m = n"
  by (drule arg_cong [where f = parseInt]) (simp only: parseInt_int_string jsval.inject)

lemma fresh_number:
  assumes "finite T"
  shows "\<exists>k\<ge>j. ''Workspace '' @ int_string (int k) \<notin> T"
proof (rule ccontr)
  let ?f = "\<lambda>k. ''Workspace '' @ int_string (int k)"
  assume "\<not> ?thesis"
  then have "?f ` {j..} \<subseteq> T" by auto
  moreover have "inj_on ?f {j..}" by (rule inj_onI) (auto dest: int_string_inj)
  then have "infinite (?f ` {j..})" using infinite_Ici by (simp add: finite_image_iff)
  ultimately show False using assms finite_subset by blast
qed

definition numbered :: "nat \<Rightarrow> string" where
  "numbered k = ''Workspace '' @ int_string (int k)"

lemma free_title_step: "free_title dup j t = (if dup t then free_title dup (Suc j) (numbered j) else Some t)"
  by (subst free_title.simps) (simp add: numbered_def)

lemma free_title_found:
  assumes "\<not> dup (numbered k)" "j \<le> k"
  shows "\<exists>t. free_title dup j title = Some t \<and> \<not> dup t"
  using assms(2)
proof (induction "k - j" arbitrary: j title)
  case 0
  then have "j = k" by simp
  moreover have "free_title dup (Suc k) (numbered k) = Some (numbered k)" by (subst free_title_step) (simp add: assms(1))
  ultimately show ?case using assms(1) by (subst free_title_step) simp
next
  case (Suc m)
  have "m = k - Suc j" "Suc j \<le> k" using Suc.hyps(2) by simp_all
  from Suc.hyps(1) [OF this, of "numbered j"] show ?case by (subst free_title_step) simp
qed

lemma duplicate_iff: "isDuplicateWorkspaceName None t u \<longleftrightarrow> t \<in> (\<lambda>w. wo_title (u_wobj u w)) ` set (workspace_boxes u)"
  by (auto simp: isDuplicateWorkspaceName_def)

text \<open>
  C14: the search for the title of a new workspace ends, whatever workspaces there are, with a
  title that no workspace has.
\<close>

theorem new_workspace_title_is_free:
  "\<exists>t. new_workspace_title u = Some t \<and> \<not> isDuplicateWorkspaceName None t u"
proof -
  let ?dup = "\<lambda>t. isDuplicateWorkspaceName None t u"
  have "finite ((\<lambda>w. wo_title (u_wobj u w)) ` set (workspace_boxes u))" by simp
  from fresh_number [OF this, of "length (workspace_boxes u) + 2"] obtain k
    where k: "length (workspace_boxes u) + 2 \<le> k"
      "''Workspace '' @ int_string (int k) \<notin> (\<lambda>w. wo_title (u_wobj u w)) ` set (workspace_boxes u)" by blast
  then have "\<not> ?dup (numbered k)" by (simp add: duplicate_iff numbered_def)
  from free_title_found [of ?dup, OF this k(1)] show ?thesis by (simp add: new_workspace_title_def Let_def)
qed

section \<open>Rows\<close>

text \<open>
  In the dialog's rows, an input from another workspace is shown with that workspace's
  title, but an output into another workspace is shown with the title of the workspace that the
  connection comes from: when the two titles differ, the row does not name the place where the
  sink is.
\<close>

theorem output_row_names_the_wrong_workspace:
  assumes "obj_get (connections_by_id u) conn = Some (s, e)" "ws_of u s \<noteq> ws_of u e"
    and "wo_title (u_wobj u (ws_of u s)) \<noteq> wo_title (u_wobj u (ws_of u e))"
    and "CHR '']'' \<notin> set (wo_title (u_wobj u (ws_of u s))) \<union> set (wo_title (u_wobj u (ws_of u e)))"
  shows "addInputConnectionItem u conn = Some (conn, titled u (ws_of u s) s) \<and>
     addOutputConnectionItem u conn = Some (conn, titled u (ws_of u s) e) \<and>
     addOutputConnectionItem u conn \<noteq> Some (conn, titled u (ws_of u e) e)"
proof -
  have "takeWhile (\<lambda>c. c \<noteq> CHR '']'') (titled u w a) = CHR ''['' # wo_title (u_wobj u w)"
    if "CHR '']'' \<notin> set (wo_title (u_wobj u w))" for w a
    using that by (auto simp: titled_def takeWhile_append2 takeWhile_append)
  then have "titled u (ws_of u s) e \<noteq> titled u (ws_of u e) e" using assms(3,4) by (metis UnI1 UnI2 list.inject)
  then show ?thesis using assms(1,2) by (simp add: addInputConnectionItem_def addOutputConnectionItem_def)
qed

theorem output_row_names_the_wrong_workspace_witness:
  "\<exists>u. addOutputConnectionItem u ''c2'' = Some (''c2'', titled u 0 4) \<and> titled u 0 4 \<noteq> titled u 1 4"
proof -
  define u where "u = demo\<lparr>connections_by_id := [(''c2'', (3, 4))]\<rparr>"
  have t: "wo_title (u_wobj u 0) = ''One''" "wo_title (u_wobj u 1) = ''Two''" by (simp_all add: u_def demo_defs)
  have w: "ws_of u 3 = 0" "ws_of u 4 = 1" using demo_facts by (simp_all add: u_def)
  have g: "obj_get (connections_by_id u) ''c2'' = Some (3, 4)" by (simp add: u_def)
  have "addInputConnectionItem u ''c2'' = Some (''c2'', titled u (ws_of u 3) 3) \<and>
     addOutputConnectionItem u ''c2'' = Some (''c2'', titled u (ws_of u 3) 4) \<and>
     addOutputConnectionItem u ''c2'' \<noteq> Some (''c2'', titled u (ws_of u 4) 4)"
    by (rule output_row_names_the_wrong_workspace [OF g]) (unfold w t, simp_all)
  then show ?thesis unfolding w by (intro exI [of _ u]) auto
qed

section \<open>Late answers\<close>

lemma line_bound:
  assumes "graph_inv u" "w \<in> set (workspace_boxes u)" "n \<in> divs u w"
  shows "n < u_next u"
proof -
  have "n \<in> lines_in (links u) u w" using by_links(1) [OF assms(1)] assms(2,3) by (simp add: lines_ok_def)
  moreover have "l_out l < u_next u \<and> l_in l < u_next u" if "l \<in> links u" for l
    using by_links(1) [OF assms(1)] that by (simp add: lines_ok_def link_ok_def)
  ultimately show ?thesis by (auto simp: lines_in_def)
qed

lemma createConnection_local:
  assumes "ws_of u s = ws_of u e" "workspace_box u = Some w"
  shows "\<exists>u'. createConnection s e conn u = Some u' \<and>
     \<lparr>ce_id = conn, ce_peer = e, ce_line = u_next u, ce_cwc = None\<rparr> \<in> set (outs u' s) \<and>
     divs u' w = insert (u_next u) (divs u w) \<and> (\<forall>v. v \<noteq> w \<longrightarrow> divs u' v = divs u v) \<and> ws_of u' s = ws_of u s"
  using assms
  by (auto simp: createConnection_def Let_def push_input_def push_output_def add_div_def upd_robj_def upd_wobj_def)

text \<open>
  C27: \<open>createConnection\<close> runs when the server's answer arrives. If the user has meanwhile selected
  another tab than that of the two reactors, the line of the new connection is drawn in the
  wrong workspace and not in its own.
\<close>

theorem late_answer_draws_in_the_wrong_tab:
  assumes "canvas u" "s \<in> set (live u)" "ws_of u s = ws_of u e"
    and "workspace_box u = Some w" "w \<noteq> ws_of u s"
  shows "\<exists>u' x. createConnection s e conn u = Some u' \<and> x \<in> set (outs u' s) \<and> ce_id x = conn \<and>
     ce_line x \<in> divs u' w \<and> ce_line x \<notin> divs u' (ws_of u' s)"
proof -
  have inv: "graph_inv u" by (rule canvas_graph [OF assms(1)])
  obtain u' where u': "createConnection s e conn u = Some u'"
    "\<lparr>ce_id = conn, ce_peer = e, ce_line = u_next u, ce_cwc = None\<rparr> \<in> set (outs u' s)"
    "divs u' w = insert (u_next u) (divs u w)" "\<forall>v. v \<noteq> w \<longrightarrow> divs u' v = divs u v" "ws_of u' s = ws_of u s"
    using createConnection_local [OF assms(3,4)] by blast
  have "ws_of u s \<in> set (workspace_boxes u)" using live_ws(1) [OF by_links(3) [OF inv] assms(2)] .
  then have "u_next u \<notin> divs u (ws_of u s)" using line_bound [OF inv] by blast
  then have "u_next u \<notin> divs u' (ws_of u' s)" using u'(4,5) assms(5) by simp
  with u'(1-3) show ?thesis by (intro exI conjI) (assumption | simp)+
qed

theorem late_answer_draws_in_the_wrong_tab_witness:
  "\<exists>u' x. createConnection 2 3 ''c1'' (selectChild 1 demo) = Some u' \<and> x \<in> set (outs u' 2) \<and> ce_line x \<in> divs u' 1 \<and> ce_line x \<notin> divs u' (ws_of u' 2)"
proof -
  have "canvas (selectChild 1 demo)" by (rule canvas.select [OF demo_canvas]) (simp add: demo_facts)
  then have "\<exists>u' x. createConnection 2 3 ''c1'' (selectChild 1 demo) = Some u' \<and> x \<in> set (outs u' 2) \<and> ce_id x = ''c1'' \<and>
     ce_line x \<in> divs u' 1 \<and> ce_line x \<notin> divs u' (ws_of u' 2)"
    by (rule late_answer_draws_in_the_wrong_tab) (simp_all add: demo_facts)
  then show ?thesis by blast
qed

section \<open>Counters\<close>

text \<open>The reactors of the answer that are on the canvas and in the selected workspace, with their counts.\<close>

fun seen_counts :: "ui \<Rightarrow> (string \<times> int \<times> bool) list \<Rightarrow> (nat \<times> int) list" where
  "seen_counts u [] = []"
| "seen_counts u ((i, events_in, running) # rs) =
     (case obj_get (reactors_by_id u) i of
        Some a \<Rightarrow> if workspace_box u = Some (ws_of u a) then (a, events_in) # seen_counts u rs else seen_counts u rs
      | None \<Rightarrow> seen_counts u rs)"

lemma count_reactors_seen:
  "count_reactors u rs (s, sh, tot) = (s', sh', tot') \<Longrightarrow> distinct (map fst (seen_counts u rs)) \<Longrightarrow>
   tot' = tot + sum_list (map snd (seen_counts u rs)) \<and>
   (\<forall>a c. (a, c) \<in> set (seen_counts u rs) \<longrightarrow> sh' a = Some (c - st_reactor s a) \<and> st_reactor s' a = c) \<and>
   (\<forall>a. a \<notin> fst ` set (seen_counts u rs) \<longrightarrow> sh' a = sh a \<and> st_reactor s' a = st_reactor s a)"
proof (induction u rs "(s, sh, tot)" arbitrary: s sh tot rule: count_reactors.induct)
  case (2 u i c b rs s sh tot)
  show ?case
  proof (cases "obj_get (reactors_by_id u) i")
    case None
    then show ?thesis using 2 by auto
  next
    case (Some a)
    show ?thesis
    proof (cases "workspace_box u = Some (ws_of u a)")
      case True
      then show ?thesis using 2(2) [OF Some True] 2(4,5) Some by (auto simp: image_iff)
    next
      case False
      then show ?thesis using 2(3) [OF Some False] 2(4,5) Some by auto
    qed
  qed
qed auto

lemma seen_distinct:
  assumes "graph_inv u" "distinct (map fst rs)"
  shows "distinct (map fst (seen_counts u rs)) \<and> (\<forall>p\<in>set (seen_counts u rs). ro_id (u_robj u (fst p)) \<in> set (map fst rs))"
  using assms(2)
proof (induction rs)
  case (Cons r rs)
  obtain i c b where r: "r = (i, c, b)" by (cases r)
  have id: "ro_id (u_robj u a) = i" if "obj_get (reactors_by_id u) i = Some a" for a
    using by_links(3) [OF assms(1)] obj_get_in_set [OF that] by (force simp: tree_inv_def)
  have IH: "distinct (map fst (seen_counts u rs))" "\<forall>p\<in>set (seen_counts u rs). ro_id (u_robj u (fst p)) \<in> set (map fst rs)"
    and i: "i \<notin> set (map fst rs)" using Cons by (simp_all add: r)
  have "a \<notin> set (map fst (seen_counts u rs))" if "obj_get (reactors_by_id u) i = Some a" for a
    using id [OF that] IH(2) i by auto
  then show ?case using IH id by (auto simp: r split: option.splits)
qed simp

text \<open>
  The counters agree. For two answers in a row with the same workspace selected, about the
  same reactors and with counts that do not decrease, the rate shown for the workspace is the
  sum of the rates shown at its reactors, each of them the increase of that reactor's count.
\<close>

theorem workspace_rate_is_the_sum:
  fixes g g' :: int and s :: stats
  assumes "canvas u" "distinct (map fst rs1)" "distinct (map fst rs2)"
    and "list_all2 (\<lambda>p q. fst p = fst q \<and> snd p \<le> snd q) (seen_counts u rs1) (seen_counts u rs2)"
  defines "s1 \<equiv> fst (stats_load u g rs1 s)"
  defines "d2 \<equiv> snd (stats_load u g' rs2 s1)"
  shows "sh_workspace d2 = (\<Sum>a\<leftarrow>map fst (seen_counts u rs2). the (sh_reactor d2 a)) \<and>
     (\<forall>n<length (seen_counts u rs2). sh_reactor d2 (fst (seen_counts u rs2 ! n)) =
        Some (snd (seen_counts u rs2 ! n) - snd (seen_counts u rs1 ! n)))"
proof -
  have inv: "graph_inv u" by (rule canvas_graph [OF assms(1)])
  let ?A = "seen_counts u rs1" and ?B = "seen_counts u rs2"
  note dist = seen_distinct [OF inv assms(2), THEN conjunct1] seen_distinct [OF inv assms(3), THEN conjunct1]
  have len: "length ?A = length ?B" by (rule list_all2_lengthD [OF assms(4)])
  have nth: "fst (?A ! n) = fst (?B ! n)" "snd (?A ! n) \<le> snd (?B ! n)" if "n < length ?B" for n
    using list_all2_nthD2 [OF assms(4) that] by simp_all
  obtain c1 sh1 t1 where r1: "count_reactors u rs1 (s, \<lambda>_. None, 0) = (c1, sh1, t1)" by (cases "count_reactors u rs1 (s, \<lambda>_. None, 0)")
  note k1 = count_reactors_seen [OF r1 dist(1)]
  have s1: "s1 = c1\<lparr>st_global := g, st_workspace := t1\<rparr>" by (simp add: s1_def stats_load_def r1)
  obtain c2 sh2 t2 where r2: "count_reactors u rs2 (s1, \<lambda>_. None, 0) = (c2, sh2, t2)" by (cases "count_reactors u rs2 (s1, \<lambda>_. None, 0)")
  note k2 = count_reactors_seen [OF r2 dist(2)]
  have d2: "sh_workspace d2 = shown_delta (t2 - t1)" "sh_reactor d2 = sh2"
    by (simp_all add: d2_def stats_load_def r2) (simp add: s1)
  have each: "sh2 (fst (?B ! n)) = Some (snd (?B ! n) - snd (?A ! n))" if n: "n < length ?B" for n
  proof -
    have "(fst (?B ! n), snd (?A ! n)) \<in> set ?A" using n nth(1) [OF n] len by (metis nth_mem prod.collapse)
    then have st: "st_reactor s1 (fst (?B ! n)) = snd (?A ! n)" using k1 by (auto simp: s1)
    moreover have "(fst (?B ! n), snd (?B ! n)) \<in> set ?B" using n by simp
    ultimately have "sh2 (fst (?B ! n)) = Some (snd (?B ! n) - st_reactor s1 (fst (?B ! n)))" using k2 by blast
    with st show ?thesis by simp
  qed
  have "(\<Sum>a\<leftarrow>map fst ?B. the (sh2 a)) = (\<Sum>n<length ?B. snd (?B ! n) - snd (?A ! n))"
    using each by (simp add: sum_list_sum_nth atLeast0LessThan)
  also have "\<dots> = t2 - t1"
    using k1 k2 len by (simp add: sum_list_sum_nth atLeast0LessThan sum_subtractf)
  finally have sum: "(\<Sum>a\<leftarrow>map fst ?B. the (sh2 a)) = t2 - t1" .
  have "0 \<le> (\<Sum>n<length ?B. snd (?B ! n) - snd (?A ! n))" using nth(2) by (intro sum_nonneg) simp
  then have "0 \<le> t2 - t1" using k1 k2 len by (simp add: sum_list_sum_nth atLeast0LessThan sum_subtractf)
  then show ?thesis using each sum by (auto simp: d2 shown_delta_def)
qed

theorem workspace_rate_is_the_sum_witness:
  "sh_workspace (snd (stats_load demo 20 [(''r1'', 7, True), (''r2'', 9, True)]
     (fst (stats_load demo 10 [(''r1'', 5, True), (''r2'', 6, True)]
        \<lparr>st_global = 0, st_workspace = 0, st_reactor = (\<lambda>_. 0), st_running = (\<lambda>_. False)\<rparr>)))) = 5"
proof -
  have g: "obj_get (reactors_by_id demo) ''r1'' = Some 2" "obj_get (reactors_by_id demo) ''r2'' = Some 3"
    by (simp_all add: demo_defs)
  have seen: "seen_counts demo [(''r1'', a, True), (''r2'', b, True)] = [(2, a), (3, b)]" for a b
    by (simp add: g demo_facts)
  have a2: "list_all2 (\<lambda>p q. fst p = fst q \<and> snd p \<le> snd q) (seen_counts demo [(''r1'', 5, True), (''r2'', 6, True)])
      (seen_counts demo [(''r1'', 7, True), (''r2'', 9, True)])"
    unfolding seen by simp
  have d: "distinct (map fst [(''r1'', a :: int, True), (''r2'', b, True)])" for a b by simp
  show ?thesis
    using workspace_rate_is_the_sum [OF demo_canvas d d a2, where g = 10 and g' = 20 and
        s = "\<lparr>st_global = 0, st_workspace = 0, st_reactor = (\<lambda>_. 0), st_running = (\<lambda>_. False)\<rparr>"]
    unfolding seen by (simp add: less_Suc_eq)
qed

end
