(* ===== verification/Pion_ItemStore.thy ===== *)
theory Pion_ItemStore
  imports Pion_ReadStore
begin

text \<open>
  \<open>dojo.data.ItemFileWriteStore\<close>, the bundled class behind every editable grid of the
  interface (\<open>dojo-release/dojo/dojo-for-pion.js\<close>): items with an identity, changes that are
  pending until \<open>save\<close>, and \<open>revert\<close>. No item of this interface has another item as a
  value, so the reference map of the class stays empty and is left out; an item is known by
  its identity, which cannot change. An assertion that fails is an exception, \<open>None\<close>.
\<close>

section \<open>Items\<close>

text \<open>
  An attribute has an array of values. A value is a JavaScript value or an object without an
  identity (the pairs and rules inside a transformation). An \<open>XmlItem\<close> copied from a
  configuration store is the string it prints as: the grids and the request builders only
  print it and compare it with strings.
\<close>

datatype cell = Val jsval | Obj "jsval jsobj"

type_synonym row = "cell list jsobj"

definition row_values :: "row \<Rightarrow> string \<Rightarrow> cell list" where
  "row_values r a = (case obj_get r a of None \<Rightarrow> [] | Some vs \<Rightarrow> vs)"

definition row_value :: "row \<Rightarrow> string \<Rightarrow> cell" where
  "row_value r a = (case row_values r a of [] \<Rightarrow> Val JUndef | v # _ \<Rightarrow> v)"

definition row_has :: "row \<Rightarrow> string \<Rightarrow> bool" where
  "row_has r a = obj_has r a"

fun cell_js :: "cell \<Rightarrow> jsval" where
  "cell_js (Val v) = v"
| "cell_js (Obj ob) = JStr ''[object Object]''"

text \<open>The value as a primitive, for the attributes that hold one.\<close>

definition cell_of :: "row \<Rightarrow> string \<Rightarrow> jsval" where
  "cell_of r a = cell_js (row_value r a)"

text \<open>A value read from a configuration store, as the value of a row.\<close>

definition attribute_js :: "sval \<Rightarrow> jsval" where
  "attribute_js v = (case sval_toString v of Some s \<Rightarrow> JStr s | None \<Rightarrow> JUndef)"

section \<open>The store\<close>

record istore =
  is_rows :: "row jsobj"          \<comment> \<open>the top-level items by identity, in order\<close>
  is_new :: "string list"
  is_modified :: "row jsobj"      \<comment> \<open>the items as they were before their first change\<close>
  is_deleted :: "row jsobj"
  is_saving :: bool

definition empty_store :: istore where
  "empty_store = \<lparr>is_rows = [], is_new = [], is_modified = [], is_deleted = [], is_saving = False\<rparr>"

definition loaded_store :: "row jsobj \<Rightarrow> istore" where
  "loaded_store rows = empty_store\<lparr>is_rows := rows\<rparr>"

definition newItem :: "string \<Rightarrow> row \<Rightarrow> istore \<Rightarrow> istore option" where
  "newItem i r s =
     (if is_saving s \<or> obj_has (is_rows s) i \<or> i \<in> set (is_new s) \<or> obj_has (is_deleted s) i then None
      else Some (s\<lparr>is_rows := is_rows s @ [(i, r)], is_new := is_new s @ [i]\<rparr>))"

definition deleteItem :: "string \<Rightarrow> istore \<Rightarrow> istore option" where
  "deleteItem i s =
     (if is_saving s then None
      else (case obj_get (is_rows s) i of
              None \<Rightarrow> None
            | Some r \<Rightarrow> Some (s\<lparr>is_rows := obj_del (is_rows s) i, is_deleted := obj_put (is_deleted s) i r\<rparr>)))"

text \<open>\<open>setValues\<close> with no values removes the attribute; \<open>ID\<close> is the identifier attribute.\<close>

definition setValues :: "string \<Rightarrow> string \<Rightarrow> cell list \<Rightarrow> istore \<Rightarrow> istore option" where
  "setValues i a vs s =
     (if is_saving s \<or> a = ''ID'' then None
      else (case obj_get (is_rows s) i of
              None \<Rightarrow> None
            | Some r \<Rightarrow> Some (s\<lparr>
                is_modified := (if obj_has (is_modified s) i then is_modified s else obj_put (is_modified s) i r),
                is_rows := obj_put (is_rows s) i (if vs = [] then obj_del r a else obj_put r a vs)\<rparr>)))"

definition setValue :: "string \<Rightarrow> string \<Rightarrow> cell \<Rightarrow> istore \<Rightarrow> istore option" where
  "setValue i a v s = (if v = Val JUndef then None else setValues i a [v] s)"

definition unsetAttribute :: "string \<Rightarrow> string \<Rightarrow> istore \<Rightarrow> istore option" where
  "unsetAttribute i a s = setValues i a [] s"

text \<open>
  The two ends of \<open>save\<close>: it sets the flag and calls the custom save function, which calls
  \<open>save_complete\<close> when it is done.
\<close>

definition save_begin :: "istore \<Rightarrow> istore option" where
  "save_begin s = (if is_saving s then None else Some (s\<lparr>is_saving := True\<rparr>))"

definition save_complete :: "istore \<Rightarrow> istore" where
  "save_complete s = s\<lparr>is_new := [], is_modified := [], is_deleted := [], is_saving := False\<rparr>"

text \<open>
  \<open>revert\<close>: first the changed items that are still there get their old attributes back, then
  the deleted items are appended as they were when they were deleted, then new items go.
\<close>

fun restore_modified :: "row jsobj \<Rightarrow> row jsobj \<Rightarrow> row jsobj" where
  "restore_modified [] rows = rows"
| "restore_modified ((i, b) # ms) rows =
     restore_modified ms (if obj_has rows i then obj_put rows i b else rows)"

definition revert :: "istore \<Rightarrow> istore option" where
  "revert s =
     (if is_saving s then None
      else Some (s\<lparr>
        is_rows := filter (\<lambda>p. fst p \<notin> set (is_new s)) (restore_modified (is_modified s) (is_rows s) @ is_deleted s),
        is_new := [], is_modified := [], is_deleted := []\<rparr>))"

definition isDirty :: "istore \<Rightarrow> bool" where
  "isDirty s = (is_new s \<noteq> [] \<or> is_modified s \<noteq> [] \<or> is_deleted s \<noteq> [])"

section \<open>Reading rows\<close>

lemma row_values_put: "row_values (obj_put r a vs) b = (if b = a then vs else row_values r b)"
  by (simp add: row_values_def obj_get_put)

lemma row_value_put: "row_value (obj_put r a (v # vs)) b = (if b = a then v else row_value r b)"
  by (simp add: row_value_def row_values_put)

lemma row_has_put: "row_has (obj_put r a vs) b = (b = a \<or> row_has r b)"
  by (auto simp: row_has_def obj_has_iff obj_get_put)

lemma row_simps [simp]:
  "row_values ((a, vs) # r) b = (if b = a then vs else row_values r b)"
  "row_value ((a, v # vs) # r) b = (if b = a then v else row_value r b)"
  "row_has ((a, vs) # r) b = (b = a \<or> row_has r b)"
  "row_values [] b = []" "row_value [] b = Val JUndef" "\<not> row_has [] b"
  by (auto simp: row_values_def row_value_def row_has_def obj_has_def)

section \<open>What is pending\<close>

text \<open>
  A store relative to the items it held when it was last saved: nothing is listed twice, each
  saved item is there or deleted, and an item that is there and not new had, before its
  changes, its saved attributes.
\<close>

definition tracks :: "row jsobj \<Rightarrow> istore \<Rightarrow> bool" where
  "tracks base s =
     (obj_wf base \<and> obj_wf (is_rows s) \<and> obj_wf (is_deleted s) \<and>
      (\<forall>i. obj_has (is_rows s) i \<longrightarrow> \<not> obj_has (is_deleted s) i) \<and>
      (\<forall>i. (obj_has (is_rows s) i \<or> obj_has (is_deleted s) i) \<longleftrightarrow> (obj_has base i \<or> i \<in> set (is_new s))) \<and>
      (\<forall>i\<in>set (is_new s). \<not> obj_has base i) \<and>
      (\<forall>i. obj_has (is_rows s) i \<and> obj_has base i \<longrightarrow>
         obj_get base i = (if obj_has (is_modified s) i then obj_get (is_modified s) i else obj_get (is_rows s) i)) \<and>
      (\<forall>i. obj_has (is_deleted s) i \<and> obj_has base i \<and> \<not> obj_has (is_modified s) i \<longrightarrow>
         obj_get base i = obj_get (is_deleted s) i) \<and>
      obj_wf (is_modified s) \<and> distinct (is_new s) \<and>
      (\<forall>i. obj_has (is_modified s) i \<longrightarrow> obj_has base i \<or> i \<in> set (is_new s)))"

lemma tracks_loaded: "obj_wf rows \<Longrightarrow> tracks rows (loaded_store rows)"
  by (auto simp: tracks_def loaded_store_def empty_store_def obj_has_def)

lemma obj_has_put: "obj_has (obj_put ob k v) k' \<longleftrightarrow> k' = k \<or> obj_has ob k'"
  by (simp add: obj_has_iff obj_get_put)

lemma obj_has_del: "obj_has (obj_del ob k) k' \<longleftrightarrow> k' \<noteq> k \<and> obj_has ob k'"
  by (simp add: obj_has_iff obj_get_del)

lemma obj_has_snoc: "obj_has (ob @ [(k, v)]) k' \<longleftrightarrow> k' = k \<or> obj_has ob k'"
  by (auto simp: obj_has_def)

lemma obj_get_snoc: "\<not> obj_has ob k \<Longrightarrow> obj_get (ob @ [(k, v)]) k' = (if k' = k then Some v else obj_get ob k')"
  using obj_get_put [of ob k v k'] by (simp add: obj_put_new)

lemmas obj_has_simps = obj_has_put obj_has_del obj_has_snoc

lemma tracks_newItem:
  assumes "tracks base s" "newItem i r s = Some s'"
  shows "tracks base s'"
proof -
  from assms(2) have s': "s' = s\<lparr>is_rows := is_rows s @ [(i, r)], is_new := is_new s @ [i]\<rparr>"
    and fresh: "\<not> obj_has (is_rows s) i" "i \<notin> set (is_new s)" "\<not> obj_has (is_deleted s) i"
    by (auto simp: newItem_def split: if_splits)
  have base: "\<not> obj_has base i" using assms(1) fresh unfolding tracks_def by blast
  have "obj_wf (is_rows s @ [(i, r)])" using assms(1) fresh(1) by (auto simp: tracks_def obj_wf_def obj_has_def)
  then show ?thesis
    using assms(1) fresh base unfolding s' tracks_def by (auto simp: obj_has_simps obj_get_snoc)
qed

lemma tracks_deleteItem:
  assumes "tracks base s" "deleteItem i s = Some s'"
  shows "tracks base s'"
proof -
  from assms(2) obtain r where r: "obj_get (is_rows s) i = Some r"
    and s': "s' = s\<lparr>is_rows := obj_del (is_rows s) i, is_deleted := obj_put (is_deleted s) i r\<rparr>"
    by (auto simp: deleteItem_def split: if_splits option.splits)
  have "obj_has (is_rows s) i" using r by (simp add: obj_has_iff)
  then show ?thesis
    using assms(1) r unfolding s' tracks_def by (auto simp: obj_has_simps obj_get_put obj_get_del)
qed

lemma tracks_setValues:
  assumes "tracks base s" "setValues i a vs s = Some s'"
  shows "tracks base s'"
proof -
  from assms(2) obtain r where r: "obj_get (is_rows s) i = Some r"
    and s': "s' = s\<lparr>is_modified := (if obj_has (is_modified s) i then is_modified s else obj_put (is_modified s) i r),
                is_rows := obj_put (is_rows s) i (if vs = [] then obj_del r a else obj_put r a vs)\<rparr>"
    by (auto simp: setValues_def split: if_splits option.splits)
  have "obj_has (is_rows s) i" using r by (simp add: obj_has_iff)
  then show ?thesis
    using assms(1) r unfolding s' tracks_def by (auto simp: obj_has_simps obj_get_put)
qed

section \<open>Editing\<close>

datatype edit = Add string row | Delete string | Change string string "cell list"

fun edit1 :: "edit \<Rightarrow> istore \<Rightarrow> istore option" where
  "edit1 (Add i r) s = newItem i r s"
| "edit1 (Delete i) s = deleteItem i s"
| "edit1 (Change i a vs) s = setValues i a vs s"

fun edits :: "edit list \<Rightarrow> istore \<Rightarrow> istore option" where
  "edits [] s = Some s"
| "edits (e # es) s = Option.bind (edit1 e s) (edits es)"

lemma tracks_edits: "tracks base s \<Longrightarrow> edits es s = Some s' \<Longrightarrow> tracks base s'"
proof (induction es arbitrary: s)
  case (Cons e es)
  from Cons.prems(2) obtain t where t: "edit1 e s = Some t" "edits es t = Some s'" by (auto split: bind_splits)
  have "tracks base t"
    using t(1) Cons.prems(1) by (cases e) (auto intro: tracks_newItem tracks_deleteItem tracks_setValues)
  then show ?case using Cons.IH t(2) by blast
qed simp

lemma edits_saving: "edits es s = Some s' \<Longrightarrow> is_saving s' = is_saving s"
proof (induction es arbitrary: s)
  case (Cons e es)
  from Cons.prems obtain t where t: "edit1 e s = Some t" "edits es t = Some s'" by (auto split: bind_splits)
  have "is_saving t = is_saving s"
    using t(1) by (cases e) (auto simp: newItem_def deleteItem_def setValues_def split: if_splits option.splits)
  then show ?case using Cons.IH t(2) by simp
qed simp

lemma restore_modified_get:
  "obj_wf ms \<Longrightarrow> obj_get (restore_modified ms rows) i =
     (if obj_has rows i \<and> obj_has ms i then obj_get ms i else obj_get rows i)"
proof (induction ms rows rule: restore_modified.induct)
  case (2 j b ms rows)
  then have "obj_wf ms" "\<not> obj_has ms j" by (auto simp: obj_wf_def obj_has_def)
  with 2 show ?case by (auto simp: obj_get_put obj_has_put obj_has_iff)
qed (simp add: obj_has_def)

lemma obj_get_filter: "obj_get (filter (\<lambda>p. Q (fst p)) ob) k = (if Q k then obj_get ob k else None)"
  by (induction ob) auto

lemma obj_get_append: "obj_get (xs @ ys) k = (case obj_get xs k of None \<Rightarrow> obj_get ys k | Some v \<Rightarrow> Some v)"
  by (induction xs) auto

text \<open>
  Reverting gives back every saved item, with its saved attributes unless it was first changed
  and then deleted, and nothing else.
\<close>

lemma revert_get:
  assumes t: "tracks base s" and "\<not> is_saving s" and s': "revert s = Some s'"
  shows "obj_has (is_rows s') i = obj_has base i"
    and "\<not> (obj_has (is_deleted s) i \<and> obj_has (is_modified s) i) \<Longrightarrow> obj_get (is_rows s') i = obj_get base i"
proof -
  let ?m = "restore_modified (is_modified s) (is_rows s)"
  have rows: "is_rows s' = filter (\<lambda>p. fst p \<notin> set (is_new s)) (?m @ is_deleted s)"
    using s' assms(2) by (auto simp: revert_def)
  have get: "obj_get (is_rows s') i = (if i \<notin> set (is_new s) then (case obj_get ?m i of None \<Rightarrow> obj_get (is_deleted s) i | Some v \<Rightarrow> Some v) else None)"
    using obj_get_filter [of "\<lambda>i. i \<notin> set (is_new s)" "?m @ is_deleted s" i] unfolding rows obj_get_append by simp
  have m: "obj_get ?m i = (if obj_has (is_rows s) i \<and> obj_has (is_modified s) i then obj_get (is_modified s) i else obj_get (is_rows s) i)"
    using t by (intro restore_modified_get) (simp add: tracks_def)
  have known: "(obj_has (is_rows s) i \<or> obj_has (is_deleted s) i) \<longleftrightarrow> (obj_has base i \<or> i \<in> set (is_new s))"
    and new: "i \<in> set (is_new s) \<Longrightarrow> \<not> obj_has base i"
    and apart: "obj_has (is_rows s) i \<Longrightarrow> \<not> obj_has (is_deleted s) i"
    using t unfolding tracks_def by blast+
  show "obj_has (is_rows s') i = obj_has base i"
    using known new apart by (auto simp: obj_has_iff get m split: option.splits)
  assume a: "\<not> (obj_has (is_deleted s) i \<and> obj_has (is_modified s) i)"
  have live: "obj_has (is_rows s) i \<Longrightarrow> obj_has base i \<Longrightarrow>
      obj_get base i = (if obj_has (is_modified s) i then obj_get (is_modified s) i else obj_get (is_rows s) i)"
    and dead: "obj_has (is_deleted s) i \<Longrightarrow> obj_has base i \<Longrightarrow> \<not> obj_has (is_modified s) i \<Longrightarrow>
      obj_get base i = obj_get (is_deleted s) i"
    using t unfolding tracks_def by blast+
  consider "i \<in> set (is_new s)" | "i \<notin> set (is_new s)" "obj_has (is_rows s) i" | "i \<notin> set (is_new s)" "\<not> obj_has (is_rows s) i"
    by blast
  then show "obj_get (is_rows s') i = obj_get base i"
  proof cases
    case 1
    then show ?thesis using new get by (auto simp: obj_has_iff)
  next
    case 2
    then have "obj_has base i" using known by blast
    then have "obj_get ?m i = obj_get base i" using live 2 m by simp
    moreover have "obj_get base i \<noteq> None" using \<open>obj_has base i\<close> by (simp add: obj_has_iff)
    ultimately show ?thesis using get 2 by (auto split: option.splits)
  next
    case 3
    then have none: "obj_get ?m i = None" using m by (simp add: obj_has_iff)
    show ?thesis
    proof (cases "obj_has (is_deleted s) i")
      case True
      then show ?thesis using 3 known dead a get none by auto
    next
      case False
      then have "\<not> obj_has base i" using 3 known by blast
      then show ?thesis using 3 False get none by (simp add: obj_has_iff)
    qed
  qed
qed

section \<open>Properties\<close>

text \<open>
  C22: whatever is added, deleted and changed, the store stays well formed: no identity is listed
  twice among the items, the changed items or the deleted items, no item is both there and
  deleted, every new item is one or the other, and only known items count as changed. So
  reverting is always possible and leaves exactly the items there were, each as it was unless it
  had been changed before it was deleted, and nothing pending.
\<close>

theorem item_store_stays_well_formed:
  assumes rows: "obj_wf rows" and es: "edits es (loaded_store rows) = Some s"
  shows "obj_wf (is_rows s) \<and> obj_wf (is_modified s) \<and> obj_wf (is_deleted s) \<and> distinct (is_new s) \<and>
     set (map fst (is_rows s)) \<inter> set (map fst (is_deleted s)) = {} \<and>
     set (is_new s) \<union> set (map fst (is_modified s)) \<subseteq> set (map fst (is_rows s)) \<union> set (map fst (is_deleted s)) \<and>
     (\<exists>s'. revert s = Some s' \<and> \<not> isDirty s' \<and> (\<forall>i. obj_has (is_rows s') i = obj_has rows i) \<and>
        (\<forall>i. obj_has (is_rows s) i \<or> \<not> obj_has (is_modified s) i \<longrightarrow> obj_get (is_rows s') i = obj_get rows i))"
proof -
  have t: "tracks rows s" by (rule tracks_edits [OF tracks_loaded [OF rows] es])
  have names: "set (map fst ob) = {i. obj_has ob i}" for ob :: "'a jsobj"
    by (auto simp: obj_has_def)
  have "is_saving s = is_saving (loaded_store rows)" by (rule edits_saving [OF es])
  then have idle: "\<not> is_saving s" by (simp add: loaded_store_def empty_store_def)
  then obtain s' where s': "revert s = Some s'" "\<not> isDirty s'" by (simp add: revert_def isDirty_def)
  have apart: "obj_has (is_rows s) i \<Longrightarrow> \<not> obj_has (is_deleted s) i" for i using t unfolding tracks_def by blast
  have restored: "obj_has (is_rows s') i = obj_has rows i" "obj_has (is_rows s) i \<or> \<not> obj_has (is_modified s) i \<Longrightarrow> obj_get (is_rows s') i = obj_get rows i" for i
    using revert_get [OF t idle s'(1), of i] apart [of i] by blast+
  show ?thesis using t s' restored unfolding names tracks_def by blast
qed

theorem item_store_stays_well_formed_witness:
  "\<exists>s s'. edits [Add ''2'' [(''Term'', [])], Change ''1'' ''Term'' [Val (JStr ''b'')], Delete ''1''] (loaded_store [(''1'', [(''Term'', [Val (JStr ''a'')])])]) = Some s \<and>
     is_new s = [''2''] \<and> revert s = Some s' \<and> obj_has (is_rows s') ''1'' \<and> \<not> obj_has (is_rows s') ''2''"
proof -
  let ?rows = "[(''1'', [(''Term'', [Val (JStr ''a'')])])]"
  obtain s where s: "edits [Add ''2'' [(''Term'', [])], Change ''1'' ''Term'' [Val (JStr ''b'')], Delete ''1''] (loaded_store ?rows) = Some s"
    "is_new s = [''2'']"
    by (simp add: newItem_def setValues_def deleteItem_def loaded_store_def empty_store_def obj_has_def)
  have "obj_wf ?rows" by (simp add: obj_wf_def)
  from item_store_stays_well_formed [OF this s(1)] s show ?thesis by (auto simp: obj_has_def)
qed

end
