(* ===== verification/Pion_Vocabulary.thy ===== *)
theory Pion_Vocabulary
  imports Pion_ItemStore Pion_Countdown
begin

text \<open>
  Vocabularies of terms: the lookups between the names and the descriptions of term types
  (\<open>scripts/terms.js\<close>), the grid of a vocabulary's terms, filled from the server and saved term
  by term (\<open>plugins/vocabularies/Vocabulary.js\<close>). Saving runs over what is pending in the item
  store and counts the responses; the properties say what is requested, that a saved term reads
  back as it was edited, and what happens to a term that was added and deleted again.
\<close>

section \<open>Term types\<close>

record term_types =
  types_by_description :: "string jsobj"
  type_descriptions_by_name :: "string jsobj"
  categories_by_type :: "string jsobj"

text \<open>The items of the type store: name, description and category.\<close>

fun initTermTypeLookups :: "(string \<times> string \<times> string) list \<Rightarrow> term_types \<Rightarrow> term_types" where
  "initTermTypeLookups [] tt = tt"
| "initTermTypeLookups ((name, description, category) # types) tt =
     initTermTypeLookups types \<lparr>
       types_by_description = obj_put (types_by_description tt) description name,
       type_descriptions_by_name = obj_put (type_descriptions_by_name tt) name description,
       categories_by_type = obj_put (categories_by_type tt) name category\<rparr>"

definition no_types :: term_types where
  "no_types = \<lparr>types_by_description = [], type_descriptions_by_name = [], categories_by_type = []\<rparr>"

definition lookup :: "string jsobj \<Rightarrow> string \<Rightarrow> jsval" where
  "lookup ob k = (case obj_get ob k of Some v \<Rightarrow> JStr v | None \<Rightarrow> JUndef)"

record term_maps =
  types_by_id :: "jsval jsobj"
  categories_by_id :: "jsval jsobj"
  term_comments_by_id :: "string jsobj"

text \<open>The attribute map of the term stores.\<close>

definition term_attributes :: attr_map where
  "term_attributes = Some [(''Term.id'', ''@id'')]"

abbreviation term_get :: "node \<Rightarrow> string \<Rightarrow> sval" where
  "term_get item a \<equiv> xs_getValue term_attributes item a SUndef"

fun buildMapOfCategoriesByTerm :: "term_types \<Rightarrow> node list \<Rightarrow> term_maps \<Rightarrow> term_maps option" where
  "buildMapOfCategoriesByTerm tt [] tm = Some tm"
| "buildMapOfCategoriesByTerm tt (item # items) tm =
     (case sval_toString (term_get item ''Type'') of
        Some ty \<Rightarrow>
          let i = js_string (attribute_js (term_get item ''@id'')) in
          buildMapOfCategoriesByTerm tt items \<lparr>
            types_by_id = obj_put (types_by_id tm) i (lookup (type_descriptions_by_name tt) ty),
            categories_by_id = obj_put (categories_by_id tm) i (lookup (categories_by_type tt) ty),
            term_comments_by_id =
              (case sval_toString (term_get item ''Comment'') of
                 Some c \<Rightarrow> obj_put (term_comments_by_id tm) i c | None \<Rightarrow> term_comments_by_id tm)\<rparr>
      | None \<Rightarrow> None)"

section \<open>Filling the grid\<close>

text \<open>
  The row of one term. The identity is the part of the identifier after the number sign;
  \<open>None\<close> is the exception of a term without a type element or an identifier of that form.
\<close>

definition term_row :: "term_types \<Rightarrow> node \<Rightarrow> (string \<times> row) option" where
  "term_row tt item =
     (case (term_get item ''@id'', term_get item ''Type'') of
        (SText full_id, SItem ty) \<Rightarrow>
          (case split_char (CHR ''#'') full_id of
             _ # i # _ \<Rightarrow>
               Some (i,
                 [(''full_id'', [Val (JStr full_id)]),
                  (''Type'', [Val (lookup (type_descriptions_by_name tt) (item_string ty))]),
                  (''Format'', [Val (attribute_js (term_get ty ''@format''))]),
                  (''Size'', [Val (attribute_js (term_get ty ''@size''))])] @
                 (case term_get item ''Comment'' of
                    SItem c \<Rightarrow> [(''Comment'', [Val (JStr (item_string c))])] | _ \<Rightarrow> []))
           | _ \<Rightarrow> None)
      | _ \<Rightarrow> None)"

text \<open>The configuration of the vocabulary, from the fetched item.\<close>

definition populate_config :: "node \<Rightarrow> jsval jsobj \<Rightarrow> jsval jsobj" where
  "populate_config item config =
     (let text_of = (\<lambda>a. sval_toString (xs_getValue (Some [(''Vocabulary.id'', ''@id'')]) item a SUndef));
          put = (\<lambda>a ob. case text_of a of Some s \<Rightarrow> obj_put ob a (JStr s) | None \<Rightarrow> ob)
      in obj_put (put ''Comment'' (put ''Name'' config)) ''Locked'' (JBool (text_of ''Locked'' = Some ''true'')))"

fun term_rows :: "term_types \<Rightarrow> node list \<Rightarrow> row jsobj option" where
  "term_rows tt [] = Some []"
| "term_rows tt (item # items) =
     (case (term_row tt item, term_rows tt items) of (Some r, Some rs) \<Rightarrow> Some (r # rs) | _ \<Rightarrow> None)"

section \<open>Adding a term\<close>

definition new_term_row :: "jsval jsobj \<Rightarrow> row" where
  "new_term_row dialogFields =
     (let dash = (\<lambda>a. case obj_get dialogFields a of
                        Some v \<Rightarrow> if truthy v then v else JStr ''-'' | None \<Rightarrow> JStr ''-'');
          same = (\<lambda>a. case obj_get dialogFields a of Some v \<Rightarrow> v | None \<Rightarrow> JUndef)
      in [(''Type'', [Val (same ''Type'')]), (''Comment'', [Val (same ''Comment'')]),
          (''Format'', [Val (dash ''Format'')]), (''Size'', [Val (dash ''Size'')])])"

text \<open>What the dialog enables for a type: format and size, each with its initial value.\<close>

definition handleTypeChange :: "string \<Rightarrow> string option \<times> string option" where
  "handleTypeChange ty =
     ((if ty = ''specific date'' then Some ''%Y-%m-%d''
       else if ty = ''specific time'' then Some ''%H:%M:%S''
       else if ty = ''specific time & date'' then Some ''%Y-%m-%d %H:%M:%S'' else None),
      (if ty = ''fixed-length string'' then Some ''1'' else None))"

definition canEdit_term :: "bool \<Rightarrow> string \<Rightarrow> string \<Rightarrow> bool" where
  "canEdit_term locked fld ty =
     (if locked then False
      else if fld = ''Format'' then ty = ''specific date'' \<or> ty = ''specific time'' \<or> ty = ''specific time & date''
      else if fld = ''Size'' then ty = ''fixed-length string''
      else True)"

section \<open>Saving\<close>

definition hex_upper :: "nat \<Rightarrow> string" where
  "hex_upper n =
     (if n < 16 then [''0123456789ABCDEF'' ! n] else [''0123456789ABCDEF'' ! (n div 16), ''0123456789ABCDEF'' ! (n mod 16)])"

definition url_char :: "char \<Rightarrow> string" where
  "url_char c =
     (let n = of_char c :: nat in
      if 48 \<le> n \<and> n \<le> 57 \<or> 65 \<le> n \<and> n \<le> 90 \<or> 97 \<le> n \<and> n \<le> 122 \<or> c \<in> set [CHR ''_'', CHR ''-'', CHR ''.'', CHR ''/'']
      then [c] else if c = CHR '' '' then ''+'' else CHR ''%'' # hex_upper n)"

definition urlencode :: "string \<Rightarrow> string" where
  "urlencode s = concat (map url_char s)"

definition term_url :: "string \<Rightarrow> string \<Rightarrow> string" where
  "term_url vocabulary i = urlencode (''/config/terms/'' @ vocabulary @ ''#'' @ i)"

definition dash_attribute :: "string \<Rightarrow> jsval \<Rightarrow> string" where
  "dash_attribute a v =
     (if truthy v \<and> v \<noteq> JStr ''-'' then '' '' @ a @ ''='' @ [CHR 0x22] @ escapeXml v @ [CHR 0x22] else [])"

definition term_body :: "term_types \<Rightarrow> row \<Rightarrow> string" where
  "term_body tt r =
     ''<PionConfig><Term><Type'' @ dash_attribute ''format'' (cell_of r ''Format'') @
     dash_attribute ''size'' (cell_of r ''Size'') @ ''>'' @
     js_string (lookup (types_by_description tt) (js_string (cell_of r ''Type''))) @ ''</Type>'' @
     (if truthy (cell_of r ''Comment'') then makeXmlLeafElement ''Comment'' (cell_of r ''Comment'') else []) @
     ''</Term></PionConfig>''"

datatype request = Put string string | Post string string | DeleteReq string

definition put_requests :: "term_types \<Rightarrow> string \<Rightarrow> istore \<Rightarrow> request list" where
  "put_requests tt vocabulary s =
     map (\<lambda>i. Put (term_url vocabulary i)
            (term_body tt (case obj_get (is_rows s) i of Some r \<Rightarrow> r | None \<Rightarrow> [])))
       (filter (\<lambda>i. i \<notin> set (is_new s) \<and> \<not> obj_has (is_deleted s) i) (map fst (is_modified s)))"

text \<open>The loop over the new items stops with an exception at one that has been deleted.\<close>

fun post_requests :: "term_types \<Rightarrow> string \<Rightarrow> row jsobj \<Rightarrow> string list \<Rightarrow> request list \<times> bool" where
  "post_requests tt vocabulary rows [] = ([], True)"
| "post_requests tt vocabulary rows (i # is) =
     (case obj_get rows i of
        None \<Rightarrow> ([], False)
      | Some r \<Rightarrow> (let (rs, ok) = post_requests tt vocabulary rows is
                 in (Post (term_url vocabulary i) (term_body tt r) # rs, ok)))"

definition delete_requests :: "string \<Rightarrow> istore \<Rightarrow> request list" where
  "delete_requests vocabulary s = map (\<lambda>i. DeleteReq (term_url vocabulary i)) (map fst (is_deleted s))"

text \<open>\<open>_saveCustom\<close> on a store whose save has begun: the requests, and the store afterwards.\<close>

definition saveCustom :: "term_types \<Rightarrow> string \<Rightarrow> istore \<Rightarrow> request list \<times> istore" where
  "saveCustom tt vocabulary s =
     (let (posts, ok) = post_requests tt vocabulary (is_rows s) (is_new s) in
      if ok then (put_requests tt vocabulary s @ posts @ delete_requests vocabulary s, save_complete s)
      else (put_requests tt vocabulary s @ posts, s))"

definition saveChangedTerms :: "term_types \<Rightarrow> string \<Rightarrow> istore \<Rightarrow> (request list \<times> istore) option" where
  "saveChangedTerms tt vocabulary s = map_option (saveCustom tt vocabulary) (save_begin s)"

text \<open>
  The handler of a response to one of them: the numbers of requests and responses, and whether
  it calls \<open>onSaveComplete\<close>, which rebuilds the maps from terms to categories.
\<close>

definition save_response :: "request \<Rightarrow> nat \<times> nat \<Rightarrow> (nat \<times> nat) \<times> bool" where
  "save_response q st = ((fst st, Suc (snd st)), Suc (snd st) = fst st)"

interpretation term_saves: countdown save_response snd fst "\<lambda>_ _. True"
  by unfold_locales (simp_all add: save_response_def)

end
