(* ===== verification/Pion_TermSave.thy ===== *)
theory Pion_TermSave
  imports Pion_Vocabulary Pion_Config "HOL-Library.Multiset"
begin

text \<open>
  Saving a vocabulary, seen from the server: the requests that a save sends turn the terms the
  server had into the terms of the grid, in whatever order they are handled; a saved term reads
  back as it was edited; and the one case in which saving fails for good.
\<close>

section \<open>The server's side\<close>

text \<open>The server's terms by address. A request replaces, adds or removes one.\<close>

type_synonym server = "string \<Rightarrow> string option"

fun apply_request :: "request \<Rightarrow> server \<Rightarrow> server" where
  "apply_request (Put u b) m = m(u := Some b)"
| "apply_request (Post u b) m = m(u := Some b)"
| "apply_request (DeleteReq u) m = m(u := None)"

fun req_url :: "request \<Rightarrow> string" where
  "req_url (Put u b) = u" | "req_url (Post u b) = u" | "req_url (DeleteReq u) = u"

fun req_body :: "request \<Rightarrow> string option" where
  "req_body (Put u b) = Some b" | "req_body (Post u b) = Some b" | "req_body (DeleteReq u) = None"

definition server_of :: "term_types \<Rightarrow> string \<Rightarrow> row jsobj \<Rightarrow> server" where
  "server_of tt vocabulary rows = map_of (map (\<lambda>p. (term_url vocabulary (fst p), term_body tt (snd p))) rows)"

lemma apply_request_upd: "apply_request q m = m(req_url q := req_body q)"
  by (cases q) simp_all

text \<open>Requests to different addresses: each address ends up with what its request says.\<close>

lemma apply_requests:
  "distinct (map req_url qs) \<Longrightarrow>
   fold apply_request qs m u = (case map_of (map (\<lambda>q. (req_url q, req_body q)) qs) u of Some b \<Rightarrow> b | None \<Rightarrow> m u)"
proof (induction qs arbitrary: m)
  case (Cons q qs)
  have "map_of (map (\<lambda>q. (req_url q, req_body q)) qs) (req_url q) = None"
    using Cons.prems by (force simp: map_of_eq_None_iff)
  then show ?case using Cons by (auto simp: apply_request_upd split: option.splits)
qed simp

lemma fold_requests_perm:
  assumes "mset qs' = mset qs" "distinct (map req_url qs)"
  shows "fold apply_request qs' m = fold apply_request qs m"
proof -
  have d: "distinct (map req_url qs')"
    using assms by (metis distinct_count_atmost_1 mset_map mset_eq_imp_distinct_iff)
  have "mset (map (\<lambda>q. (req_url q, req_body q)) qs') = mset (map (\<lambda>q. (req_url q, req_body q)) qs)"
    using assms(1) by (simp add: mset_map)
  then have s: "set (map (\<lambda>q. (req_url q, req_body q)) qs') = set (map (\<lambda>q. (req_url q, req_body q)) qs)"
    by (rule mset_eq_setD)
  have "map_of (map (\<lambda>q. (req_url q, req_body q)) qs') = map_of (map (\<lambda>q. (req_url q, req_body q)) qs)"
    using d assms(2) s by (subst map_of_inject_set) (simp_all add: comp_def)
  then show ?thesis using apply_requests [OF d] apply_requests [OF assms(2)] by (intro ext) simp
qed

section \<open>Addresses\<close>

definition is_word :: "string \<Rightarrow> bool" where
  "is_word s = (\<forall>c\<in>set s. url_char c = [c] \<and> c \<noteq> CHR ''/'')"

lemma term_url_inj:
  assumes "is_word i" "is_word j" "term_url v i = term_url v j"
  shows "i = j"
proof -
  have w: "concat (map url_char s) = s" if "is_word s" for s
    using that by (induction s) (auto simp: is_word_def)
  show ?thesis using assms by (simp add: term_url_def urlencode_def w)
qed

lemma map_of_urls:
  assumes "\<forall>p\<in>set ps. is_word (fst p)" "is_word i"
  shows "map_of (map (\<lambda>p. (term_url v (fst p), f p)) ps) (term_url v i) = map_of (map (\<lambda>p. (fst p, f p)) ps) i"
  using assms
proof (induction ps)
  case (Cons p ps)
  then show ?case using term_url_inj [of "fst p" i v] by auto
qed simp

lemma map_of_rows: "map_of (map (\<lambda>p. (fst p, f (snd p))) rows) i = map_option f (obj_get rows i)"
  by (induction rows) auto

lemma map_of_urls_other:
  "\<forall>p\<in>set ps. term_url v (fst p) \<noteq> u \<Longrightarrow> map_of (map (\<lambda>p. (term_url v (fst p), f p)) ps) u = None"
  by (induction ps) auto

section \<open>What a save requests\<close>

text \<open>The requests by identity, each with the text it leaves on the server.\<close>

definition row_of :: "istore \<Rightarrow> string \<Rightarrow> row" where
  "row_of s i = (case obj_get (is_rows s) i of Some r \<Rightarrow> r | None \<Rightarrow> [])"

definition changed :: "istore \<Rightarrow> string list" where
  "changed s = filter (\<lambda>i. i \<notin> set (is_new s) \<and> \<not> obj_has (is_deleted s) i) (map fst (is_modified s))"

definition effects :: "term_types \<Rightarrow> istore \<Rightarrow> (string \<times> string option) list" where
  "effects tt s = map (\<lambda>i. (i, Some (term_body tt (row_of s i)))) (changed s @ is_new s) @ map (\<lambda>p. (fst p, None)) (is_deleted s)"

definition no_new_deleted :: "istore \<Rightarrow> bool" where
  "no_new_deleted s = (\<forall>i\<in>set (is_new s). \<not> obj_has (is_deleted s) i)"

lemma post_requests_all:
  "\<forall>i\<in>set is. obj_has rows i \<Longrightarrow>
   post_requests tt v rows is =
     (map (\<lambda>i. Post (term_url v i) (term_body tt (case obj_get rows i of Some r \<Rightarrow> r | None \<Rightarrow> []))) is, True)"
  by (induction "is") (auto simp: obj_has_iff split: option.splits prod.splits)

lemma new_rows: "tracks base s \<Longrightarrow> no_new_deleted s \<Longrightarrow> i \<in> set (is_new s) \<Longrightarrow> obj_has (is_rows s) i"
  unfolding tracks_def no_new_deleted_def by blast

lemma saveCustom_ok:
  assumes "tracks base s" "no_new_deleted s"
  shows "\<exists>qs. saveCustom tt v s = (qs, save_complete s) \<and>
     map (\<lambda>q. (req_url q, req_body q)) qs = map (\<lambda>p. (term_url v (fst p), snd p)) (effects tt s)"
  using post_requests_all [of "is_new s" "is_rows s" tt v] new_rows [OF assms]
  by (auto simp: saveCustom_def put_requests_def delete_requests_def effects_def changed_def row_of_def comp_def)

lemma effects_distinct:
  assumes "tracks base s" "no_new_deleted s"
  shows "distinct (map fst (effects tt s))"
proof -
  have "distinct (map fst (is_modified s))" "distinct (is_new s)" "distinct (map fst (is_deleted s))"
    using assms(1) by (simp_all add: tracks_def obj_wf_def)
  then show ?thesis
    using assms(2) by (auto simp: effects_def changed_def no_new_deleted_def obj_has_def comp_def)
qed

lemma map_of_effects:
  "map_of (effects tt s) i =
     (if i \<in> set (changed s) \<or> i \<in> set (is_new s) then Some (Some (term_body tt (row_of s i)))
      else if obj_has (is_deleted s) i then Some None else None)"
proof -
  have 1: "map_of (map (\<lambda>i. (i, f i)) is) i = (if i \<in> set is then Some (f i) else None)" for f :: "string \<Rightarrow> string option" and "is"
    by (induction "is") auto
  have 2: "map_of (map (\<lambda>p. (fst p, None)) ps) i = (if obj_has ps i then Some None else None)" for ps :: "row jsobj"
    by (induction ps) (auto simp: obj_has_def)
  show ?thesis by (simp add: effects_def map_add_def 1 2)
qed

text \<open>At every identity of a word, the requests leave the row of the grid.\<close>

lemma save_at_word:
  assumes t: "tracks base s" and n: "no_new_deleted s"
  shows "(case map_of (effects tt s) i of Some b \<Rightarrow> b | None \<Rightarrow> map_option (term_body tt) (obj_get base i)) =
     map_option (term_body tt) (obj_get (is_rows s) i)"
proof -
  have live: "obj_has (is_rows s) i \<Longrightarrow> obj_has base i \<Longrightarrow>
      obj_get base i = (if obj_has (is_modified s) i then obj_get (is_modified s) i else obj_get (is_rows s) i)"
    and known: "(obj_has (is_rows s) i \<or> obj_has (is_deleted s) i) \<longleftrightarrow> (obj_has base i \<or> i \<in> set (is_new s))"
    and apart: "obj_has (is_rows s) i \<Longrightarrow> \<not> obj_has (is_deleted s) i"
    and newb: "i \<in> set (is_new s) \<Longrightarrow> \<not> obj_has base i"
    and mods: "obj_has (is_modified s) i \<Longrightarrow> obj_has base i \<or> i \<in> set (is_new s)"
    using t unfolding tracks_def by blast+
  have ch: "i \<in> set (changed s) \<longleftrightarrow> obj_has (is_modified s) i \<and> i \<notin> set (is_new s) \<and> \<not> obj_has (is_deleted s) i"
    by (auto simp: changed_def obj_has_def)
  have row: "obj_has (is_rows s) i \<Longrightarrow> Some (row_of s i) = obj_get (is_rows s) i"
    by (auto simp: row_of_def obj_has_iff)
  consider (sent) "i \<in> set (changed s) \<or> i \<in> set (is_new s)"
    | (del) "i \<notin> set (changed s)" "i \<notin> set (is_new s)" "obj_has (is_deleted s) i"
    | (kept) "i \<notin> set (changed s)" "i \<notin> set (is_new s)" "\<not> obj_has (is_deleted s) i" by blast
  then show ?thesis
  proof cases
    case sent
    then have "obj_has (is_rows s) i" using known mods ch n unfolding no_new_deleted_def by blast
    then show ?thesis using sent row by (simp add: map_of_effects row [symmetric])
  next
    case del
    then have "obj_get (is_rows s) i = None" using apart by (cases "obj_get (is_rows s) i") (auto simp: obj_has_iff)
    then show ?thesis using del by (simp add: map_of_effects)
  next
    case kept
    then have "obj_get base i = obj_get (is_rows s) i"
      using live known ch mods by (cases "obj_has base i") (auto simp: obj_has_iff)
    then show ?thesis using kept by (simp add: map_of_effects)
  qed
qed

lemma effects_known:
  assumes "tracks base s" "(i, b) \<in> set (effects tt s)"
  shows "obj_has base i \<or> i \<in> set (is_new s)"
proof -
  have "i \<in> set (changed s) \<or> i \<in> set (is_new s) \<or> obj_has (is_deleted s) i"
    using assms(2) by (auto simp: effects_def obj_has_def image_iff)
  moreover have "i \<in> set (changed s) \<Longrightarrow> obj_has (is_modified s) i" by (auto simp: changed_def obj_has_def)
  ultimately show ?thesis using assms(1) unfolding tracks_def by blast
qed

text \<open>All identities that play a part are words, so they have addresses of their own.\<close>

lemma known_words:
  assumes t: "tracks base s" and words: "\<forall>i\<in>set (map fst base @ is_new s). is_word i"
  shows "\<forall>p\<in>set (effects tt s). is_word (fst p)" "\<forall>p\<in>set base. is_word (fst p)" "\<forall>p\<in>set (is_rows s). is_word (fst p)"
proof -
  have word: "is_word i" if "obj_has base i \<or> i \<in> set (is_new s)" for i
    using words that by (auto simp: obj_has_def)
  have "obj_has (is_rows s) i \<Longrightarrow> obj_has base i \<or> i \<in> set (is_new s)" for i
    using t unfolding tracks_def by blast
  then show "\<forall>p\<in>set (effects tt s). is_word (fst p)" "\<forall>p\<in>set base. is_word (fst p)" "\<forall>p\<in>set (is_rows s). is_word (fst p)"
    using effects_known [OF t] word by (auto simp: obj_has_def)
qed

lemma saved_server:
  assumes t: "tracks base s" "no_new_deleted s" and words: "\<forall>i\<in>set (map fst base @ is_new s). is_word i"
    and qs: "map (\<lambda>q. (req_url q, req_body q)) qs = map (\<lambda>p. (term_url v (fst p), snd p)) (effects tt s)"
  shows "distinct (map req_url qs) \<and> fold apply_request qs (server_of tt v base) = server_of tt v (is_rows s)"
proof -
  note words = known_words(1) [OF t(1) words, of tt] known_words(2,3) [OF t(1) words]
  have eq: "map req_url qs = map (\<lambda>p. term_url v (fst p)) (effects tt s)"
    using arg_cong [OF qs, of "map fst"] by (simp add: comp_def)
  have "inj_on (term_url v) (set (map fst (effects tt s)))"
    using words(1) by (auto intro!: inj_onI dest: term_url_inj)
  then have d: "distinct (map req_url qs)"
    using effects_distinct [OF t, of tt] distinct_map [of "term_url v" "map fst (effects tt s)"]
    by (simp add: eq comp_def)
  have "fold apply_request qs (server_of tt v base) u = server_of tt v (is_rows s) u" for u
  proof (cases "\<exists>i. is_word i \<and> term_url v i = u")
    case True
    then obtain i where i: "is_word i" "u = term_url v i" by blast
    have of: "server_of tt v rows u = map_option (term_body tt) (obj_get rows i)" if "\<forall>p\<in>set rows. is_word (fst p)" for rows
      using map_of_urls [OF that i(1), of v "\<lambda>p. term_body tt (snd p)"] i(2)
      by (simp add: server_of_def map_of_rows)
    have "map_of (map (\<lambda>q. (req_url q, req_body q)) qs) u = map_of (effects tt s) i"
      using map_of_urls [OF words(1) i(1), of v snd] i(2) unfolding qs by simp
    then show ?thesis
      using save_at_word [OF t, of tt i] of [OF words(2)] of [OF words(3)]
      by (cases "map_of (effects tt s) i") (simp_all add: apply_requests [OF d])
  next
    case False
    then have "server_of tt v base u = None" "server_of tt v (is_rows s) u = None"
      "map_of (map (\<lambda>q. (req_url q, req_body q)) qs) u = None"
      using words unfolding qs server_of_def
      by (auto intro!: map_of_urls_other [where f = "\<lambda>p. term_body tt (snd p)"] map_of_urls_other [where f = snd])
    then show ?thesis by (simp add: apply_requests [OF d])
  qed
  then show ?thesis using d by (simp add: fun_eq_iff)
qed

section \<open>Properties\<close>

text \<open>
  C15: saving a vocabulary brings the server in line with the grid. After any edits (terms added,
  changed, deleted), the requests of a save, handled in any order, turn the terms the server had
  when the grid was filled into exactly the terms in the grid; nothing is pending afterwards, and
  the map from terms to categories is rebuilt once, at the last of the answers. The one
  condition is that no term was added and deleted again.
\<close>

theorem saved_terms_are_the_grid:
  assumes base: "obj_wf base" and es: "edits es (loaded_store base) = Some s" and n: "no_new_deleted s"
    and words: "\<forall>i\<in>set (map fst base @ is_new s). is_word i"
  shows "\<exists>qs s'. saveChangedTerms tt v s = Some (qs, s') \<and> \<not> isDirty s' \<and> is_rows s' = is_rows s \<and>
     (\<forall>qs'. mset qs' = mset qs \<longrightarrow>
        fold apply_request qs' (server_of tt v base) = server_of tt v (is_rows s) \<and>
        (qs' \<noteq> [] \<longrightarrow> fired_at_the_end (snd (responses save_response qs' (length qs, 0)))))"
proof -
  have t: "tracks base s" by (rule tracks_edits [OF tracks_loaded [OF base] es])
  define s1 where "s1 = s\<lparr>is_saving := True\<rparr>"
  have t1: "tracks base s1" "no_new_deleted s1" "is_rows s1 = is_rows s" "is_new s1 = is_new s"
    using t n by (simp_all add: s1_def tracks_def no_new_deleted_def)
  obtain qs where qs: "saveCustom tt v s1 = (qs, save_complete s1)"
    "map (\<lambda>q. (req_url q, req_body q)) qs = map (\<lambda>p. (term_url v (fst p), snd p)) (effects tt s1)"
    using saveCustom_ok [OF t1(1,2)] by blast
  have not_saving: "\<not> is_saving s" using edits_saving [OF es] by (simp add: loaded_store_def empty_store_def)
  have result: "distinct (map req_url qs) \<and> fold apply_request qs (server_of tt v base) = server_of tt v (is_rows s)"
    using saved_server [OF t1(1,2) words [folded t1(4)] qs(2)] t1(3) by simp
  have run: "fold apply_request qs' (server_of tt v base) = server_of tt v (is_rows s)" if "mset qs' = mset qs" for qs'
    using fold_requests_perm [OF that] result by simp
  have fire: "fired_at_the_end (snd (responses save_response qs' (length qs, 0)))" if "mset qs' = mset qs" "qs' \<noteq> []" for qs'
    using mset_eq_length [OF that(1)] that(2) by (intro term_saves.fires_at_the_end) auto
  have "saveChangedTerms tt v s = Some (qs, save_complete s1)"
    using qs(1) not_saving by (simp add: saveChangedTerms_def save_begin_def s1_def)
  then show ?thesis using run fire t1(3) by (auto simp: isDirty_def save_complete_def)
qed

theorem saved_terms_are_the_grid_witness:
  "let ty = \<lambda>d. [(''Type'', [Val (JStr d)])];
       s = the (edits [Change ''a'' ''Type'' [Val (JStr ''specific date'')], Delete ''b'', Add ''c'' (ty ''small string'')]
                (loaded_store [(''a'', ty ''small string''), (''b'', ty ''small string'')]))
   in \<exists>qs s'. saveChangedTerms no_types ''urn:vocab:x'' s = Some (qs, s') \<and> map fst (is_rows s') = [''a'', ''c''] \<and>
        fold apply_request (rev qs) (server_of no_types ''urn:vocab:x'' [(''a'', ty ''small string''), (''b'', ty ''small string'')]) =
          server_of no_types ''urn:vocab:x'' (is_rows s)"
proof -
  let ?ty = "\<lambda>d. [(''Type'', [Val (JStr d)])] :: row"
  let ?base = "[(''a'', ?ty ''small string''), (''b'', ?ty ''small string'')]"
  let ?es = "[Change ''a'' ''Type'' [Val (JStr ''specific date'')], Delete ''b'', Add ''c'' (?ty ''small string'')]"
  let ?s = "the (edits ?es (loaded_store ?base))"
  have es: "edits ?es (loaded_store ?base) = Some ?s" and rows: "map fst (is_rows ?s) = [''a'', ''c'']"
    and n: "no_new_deleted ?s" "is_new ?s = [''c'']"
    by (simp_all add: loaded_store_def empty_store_def setValues_def deleteItem_def newItem_def obj_has_def obj_del_def no_new_deleted_def)
  have w: "\<forall>i\<in>set (map fst ?base @ is_new ?s). is_word i" unfolding n(2) by (simp add: is_word_def url_char_def)
  have b: "obj_wf ?base" by (simp add: obj_wf_def)
  obtain qs s' where q: "saveChangedTerms no_types ''urn:vocab:x'' ?s = Some (qs, s')" "is_rows s' = is_rows ?s"
    "\<forall>qs'. mset qs' = mset qs \<longrightarrow> fold apply_request qs' (server_of no_types ''urn:vocab:x'' ?base) = server_of no_types ''urn:vocab:x'' (is_rows ?s)"
    using saved_terms_are_the_grid [OF b es n(1) w] by blast
  then show ?thesis using rows unfolding Let_def by (intro exI [of _ qs] exI [of _ s']) simp
qed

text \<open>
  C16: a term that is added and deleted again before the vocabulary is saved makes the save fail
  half way with an exception: no deletion is requested, the changes stay pending, and the store
  stays locked, so that no later edit, save or cancel of the vocabulary's terms gets through.
\<close>

theorem deleting_a_new_term_locks_the_store:
  assumes "\<not> is_saving s" and "i \<in> set (is_new s)" and "\<not> obj_has (is_rows s) i"
  shows "\<exists>qs s'. saveChangedTerms tt v s = Some (qs, s') \<and> (\<forall>q\<in>set qs. req_body q \<noteq> None) \<and>
     is_new s' = is_new s \<and> is_rows s' = is_rows s \<and>
     (\<forall>e. edit1 e s' = None) \<and> saveChangedTerms tt v s' = None \<and> revert s' = None"
proof -
  let ?s = "s\<lparr>is_saving := True\<rparr>"
  have fails: "\<not> snd (post_requests tt v (is_rows s) (is_new s))"
    using assms(2,3)
  proof (induction "is_new s" arbitrary: s)
    case (Cons j js)
    have "\<not> snd (post_requests tt v rows is)" if "i \<in> set is" "\<not> obj_has rows i" for rows "is"
      using that by (induction "is") (auto simp: obj_has_iff split: option.splits prod.splits)
    then show ?case using Cons.prems by blast
  qed simp
  have posts: "\<forall>q\<in>set (fst (post_requests tt v rows is)). req_body q \<noteq> None" for rows "is"
    by (induction "is") (auto split: option.splits prod.splits)
  obtain ps where ps: "post_requests tt v (is_rows s) (is_new s) = (ps, False)"
    using fails by (cases "post_requests tt v (is_rows s) (is_new s)") auto
  have "saveChangedTerms tt v s = Some (put_requests tt v ?s @ ps, ?s)"
    using assms(1) ps by (simp add: saveChangedTerms_def save_begin_def saveCustom_def)
  moreover have "\<forall>q\<in>set (put_requests tt v ?s @ ps). req_body q \<noteq> None"
    using posts [of "is_rows s" "is_new s"] ps by (auto simp: put_requests_def)
  moreover have "edit1 e ?s = None" for e
    by (cases e) (simp_all add: newItem_def deleteItem_def setValues_def)
  moreover have "saveChangedTerms tt v ?s = None" "revert ?s = None"
    by (simp_all add: saveChangedTerms_def save_begin_def revert_def)
  ultimately show ?thesis by (intro exI [of _ "put_requests tt v ?s @ ps"] exI [of _ ?s]) simp
qed

theorem deleting_a_new_term_locks_the_store_witness:
  "\<exists>s qs s'. edits [Add ''a'' [], Delete ''a''] (loaded_store []) = Some s \<and>
     saveChangedTerms no_types ''urn:vocab:x'' s = Some (qs, s') \<and> revert s' = None"
proof -
  let ?s = "the (edits [Add ''a'' [], Delete ''a''] (loaded_store []))"
  have "edits [Add ''a'' [], Delete ''a''] (loaded_store []) = Some ?s" "\<not> is_saving ?s" "''a'' \<in> set (is_new ?s)"
    "\<not> obj_has (is_rows ?s) ''a''"
    by (simp_all add: loaded_store_def empty_store_def deleteItem_def newItem_def obj_has_def obj_del_def)
  then show ?thesis using deleting_a_new_term_locks_the_store [of ?s "''a''" no_types "''urn:vocab:x''"] by blast
qed

text \<open>What the server makes of a term's body.\<close>

definition dash_nodes :: "string \<Rightarrow> string \<Rightarrow> (string \<times> string) list" where
  "dash_nodes a v = (if v = [] \<or> v = ''-'' then [] else [(a, v)])"

definition comment_nodes :: "string \<Rightarrow> node list" where
  "comment_nodes c = (if c = [] then [] else [leaf (''Comment'', c)])"

definition term_nodes :: "string \<Rightarrow> string \<Rightarrow> string \<Rightarrow> string \<Rightarrow> node list" where
  "term_nodes n f z c =
     Element ''Type'' (dash_nodes ''format'' f @ dash_nodes ''size'' z) (text_nodes n) # comment_nodes c"

lemma dash_attribute_text: "dash_attribute a (JStr v) = attr_text (dash_nodes a v)"
  by (simp add: dash_attribute_def dash_nodes_def escapeXml_string)

lemma attr_text_append: "attr_text (as @ bs) = attr_text as @ attr_text bs"
  by (simp add: attr_text_def)

lemma valid_names_here: "valid_name ''Type''" "valid_name ''format''" "valid_name ''size''" "valid_name ''Term''"
  "valid_name ''Comment''" "valid_name ''PionConfig''"
  by (simp_all add: valid_name_def is_name_char_def)

lemma reads_term_body:
  assumes n: "obj_get (types_by_description tt) d = Some n" "\<forall>c\<in>set n. \<not> special c"
    and r: "cell_of r ''Type'' = JStr d" "cell_of r ''Format'' = JStr f" "cell_of r ''Size'' = JStr z" "cell_of r ''Comment'' = JStr c"
  shows "reads (term_body tt r) [Element ''PionConfig'' [] [Element ''Term'' [] (term_nodes n f z c)]]"
proof -
  let ?as = "dash_nodes ''format'' f @ dash_nodes ''size'' z"
  have "\<forall>p\<in>set ?as. valid_name (fst p)" by (auto simp: dash_nodes_def valid_names_here)
  from reads_leaf_attrs [OF valid_names_here(1) this, of n]
  have t: "reads (''<Type'' @ attr_text ?as @ ''>'' @ n @ ''</Type>'') [Element ''Type'' ?as (text_nodes n)]"
    using escape_chain_plain [OF n(2)] by simp
  have "reads (if truthy (JStr c) then makeXmlLeafElement ''Comment'' (JStr c) else []) (comment_nodes c)"
    using reads_makeXmlLeafElement [OF valid_names_here(5)] by (simp add: comment_nodes_def leaf_def)
  from reads_Cons [OF t this]
  have inner: "reads (''<Type'' @ attr_text ?as @ ''>'' @ n @ ''</Type>'' @
      (if truthy (JStr c) then makeXmlLeafElement ''Comment'' (JStr c) else [])) (term_nodes n f z c)"
    by (simp add: term_nodes_def)
  show ?thesis
    using reads_elem [OF valid_names_here(6) reads_elem [OF valid_names_here(4) inner]] n(1) r
    by (cases "c = []") (simp_all add: term_body_def dash_attribute_text attr_text_append lookup_def)
qed

text \<open>
  A saved term comes back from the server as it was edited: same identity, type, format, size
  and comment, whatever characters they contain; a dash or an empty field comes back as absent.
\<close>

theorem saved_term_reads_back:
  assumes types: "obj_get (types_by_description tt) d = Some n" "obj_get (type_descriptions_by_name tt) n = Some d"
      "\<forall>c\<in>set n. \<not> special c"
    and ids: "CHR ''#'' \<notin> set v" "CHR ''#'' \<notin> set i"
    and r: "cell_of r ''Type'' = JStr d" "cell_of r ''Format'' = JStr f" "cell_of r ''Size'' = JStr z" "cell_of r ''Comment'' = JStr c"
  shows "\<exists>kids row. read_xml (term_body tt r) = Some (Element ''PionConfig'' [] [Element ''Term'' [] kids]) \<and>
     term_row tt (Element ''Term'' [(''id'', v @ ''#'' @ i)] kids) = Some (i, row) \<and>
     cell_of row ''Type'' = JStr d \<and>
     cell_of row ''Format'' = (if f = [] \<or> f = ''-'' then JUndef else JStr f) \<and>
     cell_of row ''Size'' = (if z = [] \<or> z = ''-'' then JUndef else JStr z) \<and>
     cell_of row ''Comment'' = (if c = [] then JUndef else JStr c)"
proof -
  let ?t = "Element ''Type'' (dash_nodes ''format'' f @ dash_nodes ''size'' z) (text_nodes n)"
  define fid where "fid = v @ ''#'' @ i"
  let ?e = "Element ''Term'' [(''id'', fid)] (term_nodes n f z c)"
  let ?f = "if f = [] \<or> f = ''-'' then JUndef else JStr f" and ?z = "if z = [] \<or> z = ''-'' then JUndef else JStr z"
  have split: "split_char (CHR ''#'') fid = [v, i]"
    using ids by (simp add: fid_def split_char_append_sep split_char_plain)
  have names: "getAttributeName term_attributes ''Term'' ''@id'' = ''@id''" "getAttributeName term_attributes ''Term'' ''Type'' = ''Type''"
    "getAttributeName term_attributes ''Term'' ''Comment'' = ''Comment''"
    "getAttributeName term_attributes ''Type'' ''@format'' = ''@format''" "getAttributeName term_attributes ''Type'' ''@size'' = ''@size''"
    by (simp_all add: getAttributeName_def term_attributes_def)
  have fid: "fid \<noteq> []" by (simp add: fid_def)
  have id: "term_get ?e ''@id'' = SText fid" using fid by (simp add: xs_getValue_def getAttribute_def names)
  have ty: "term_get ?e ''Type'' = SItem ?t"
    by (simp add: xs_getValue_def child_elements_def is_element_def term_nodes_def names)
  have fz: "attribute_js (term_get ?t ''@format'') = ?f" "attribute_js (term_get ?t ''@size'') = ?z"
    by (simp_all add: xs_getValue_def getAttribute_def dash_nodes_def attribute_js_def names)
  have co: "term_get ?e ''Comment'' = (if c = [] then SUndef else SItem (leaf (''Comment'', c)))"
    by (simp add: xs_getValue_def child_elements_def is_element_def term_nodes_def comment_nodes_def names leaf_def)
  have coc: "(case term_get ?e ''Comment'' of SItem c \<Rightarrow> [(''Comment'', [Val (JStr (item_string c))])] | _ \<Rightarrow> []) =
      (if c = [] then [] else [(''Comment'', [Val (JStr c)])])"
    by (simp add: co)
  have tn: "item_string ?t = n" by (simp add: item_string_def text_nodes_def is_text_def node_text_def)
  define row where "row = [(''full_id'', [Val (JStr fid)]), (''Type'', [Val (JStr d)]), (''Format'', [Val ?f]), (''Size'', [Val ?z])] @
     (if c = [] then [] else [(''Comment'', [Val (JStr c)])])"
  have "term_row tt ?e = Some (i, row)"
    by (simp only: term_row_def id ty split fz coc tn lookup_def types(2) row_def sval.case list.case prod.case option.case)
  moreover have "cell_of row ''Type'' = JStr d" "cell_of row ''Format'' = ?f" "cell_of row ''Size'' = ?z"
    "cell_of row ''Comment'' = (if c = [] then JUndef else JStr c)"
    by (simp_all add: row_def cell_of_def)
  ultimately show ?thesis
    using reads_read_xml [OF reads_term_body [OF types(1,3) r]] unfolding fid_def by blast
qed

theorem saved_term_reads_back_witness:
  "\<exists>kids row. term_row (initTermTypeLookups [(''char'', ''fixed-length string'', ''string'')] no_types)
      (Element ''Term'' [(''id'', ''urn:vocab:x#a'')] kids) = Some (''a'', row) \<and>
     cell_of row ''Size'' = JStr ''3'' \<and> cell_of row ''Comment'' = JStr ''<b>'' \<and> cell_of row ''Format'' = JUndef"
  using saved_term_reads_back [of "initTermTypeLookups [(''char'', ''fixed-length string'', ''string'')] no_types"
      "''fixed-length string''" "''char''" "''urn:vocab:x''" "''a''"
      "[(''Type'', [Val (JStr ''fixed-length string'')]), (''Comment'', [Val (JStr ''<b>'')]),
        (''Format'', [Val (JStr ''-'')]), (''Size'', [Val (JStr ''3'')])]" "''-''" "''3''" "''<b>''"]
  by (simp add: no_types_def special_def cell_of_def) blast

end
