(* ===== verification/Pion_Grid.thy ===== *)
theory Pion_Grid
  imports Pion_ItemStore
begin

text \<open>
  The editable grids of the reactor dialogs: an item store whose identities come from a counter
  (\<open>store.next_id++\<close>), the buttons that add, delete and insert rows, and the reload from the
  configuration. A grid shows the rows of its store in the store's order. The properties say
  that no operation of a grid ever trips an assertion of the store, and what each leaves.
\<close>

section \<open>Grids\<close>

record grid =
  g_store :: istore
  next_id :: nat

definition empty_grid :: grid where
  "empty_grid = \<lparr>g_store = empty_store, next_id = 0\<rparr>"

definition grid_rows :: "grid \<Rightarrow> row list" where
  "grid_rows g = map snd (is_rows (g_store g))"

definition grid_ids :: "grid \<Rightarrow> string list" where
  "grid_ids g = map fst (is_rows (g_store g))"

definition with_store :: "(istore \<Rightarrow> istore option) \<Rightarrow> grid \<Rightarrow> grid option" where
  "with_store f g = map_option (\<lambda>s. g\<lparr>g_store := s\<rparr>) (f (g_store g))"

definition grid_add :: "row \<Rightarrow> grid \<Rightarrow> grid option" where
  "grid_add r g = map_option (\<lambda>s. g\<lparr>g_store := s, next_id := Suc (next_id g)\<rparr>)
     (newItem (nat_digits (next_id g)) r (g_store g))"

fun grid_adds :: "row list \<Rightarrow> grid \<Rightarrow> grid option" where
  "grid_adds [] g = Some g"
| "grid_adds (r # rs) g = Option.bind (grid_add r g) (grid_adds rs)"

fun grid_deletes :: "string list \<Rightarrow> grid \<Rightarrow> grid option" where
  "grid_deletes [] g = Some g"
| "grid_deletes (i # is) g = Option.bind (with_store (deleteItem i) g) (grid_deletes is)"

text \<open>The Delete cell of row \<open>n\<close>, and a cell edit there.\<close>

definition delete_row :: "nat \<Rightarrow> grid \<Rightarrow> grid option" where
  "delete_row n g = (if n < length (grid_ids g) then with_store (deleteItem (grid_ids g ! n)) g else None)"

definition set_cell :: "nat \<Rightarrow> string \<Rightarrow> cell \<Rightarrow> grid \<Rightarrow> grid option" where
  "set_cell n a v g = (if n < length (grid_ids g) then with_store (setValue (grid_ids g ! n) a v) g else None)"

text \<open>Emptying a store item by item, then filling it from the configuration.\<close>

definition reload_grid :: "row list \<Rightarrow> grid \<Rightarrow> grid option" where
  "reload_grid rs g = Option.bind (grid_deletes (grid_ids g) g) (grid_adds rs)"

text \<open>
  The Insert Above cell: the rows from \<open>n\<close> on are copied, deleted, and added again after a new
  empty row. The copy takes the attributes that the dialog knows.
\<close>

definition insert_above :: "(row \<Rightarrow> row) \<Rightarrow> nat \<Rightarrow> grid \<Rightarrow> grid option" where
  "insert_above copy n g =
     Option.bind (grid_deletes (drop n (grid_ids g)) g)
       (grid_adds ([] # map copy (drop n (grid_rows g))))"

definition copy_rule :: "row \<Rightarrow> row" where
  "copy_rule r = map (\<lambda>a. (a, [row_value r a])) [''Term'', ''Type'', ''SetValue''] @
     (if row_has r ''Value'' then [(''Value'', [row_value r ''Value''])] else [])"

definition copy_regex :: "row \<Rightarrow> row" where
  "copy_regex r = map (\<lambda>a. (a, [row_value r a])) [''Exp'', ''Format'']"

section \<open>Grids never trip the store\<close>

lemma nat_digits_inj: "nat_digits m = nat_digits n \<Longrightarrow> m = n"
  using digits_value_nat_digits by metis

text \<open>Every identity the store has seen was handed out by the counter.\<close>

definition handed_out :: "nat \<Rightarrow> string list \<Rightarrow> bool" where
  "handed_out n is = (\<forall>i\<in>set is. \<exists>k<n. i = nat_digits k)"

definition grid_ok :: "grid \<Rightarrow> bool" where
  "grid_ok g =
     (\<not> is_saving (g_store g) \<and> obj_wf (is_rows (g_store g)) \<and>
      handed_out (next_id g) (map fst (is_rows (g_store g))) \<and>
      handed_out (next_id g) (is_new (g_store g)) \<and>
      handed_out (next_id g) (map fst (is_deleted (g_store g))))"

lemma grid_ok_empty [simp]: "grid_ok empty_grid"
  by (simp add: grid_ok_def empty_grid_def empty_store_def handed_out_def)

lemma fresh_id: "handed_out n is \<Longrightarrow> nat_digits n \<notin> set is"
  using nat_digits_inj by (force simp: handed_out_def)

lemma handed_out_Suc: "handed_out n is \<Longrightarrow> handed_out (Suc n) is"
  unfolding handed_out_def using less_SucI by blast

lemma handed_out_new: "handed_out n is \<Longrightarrow> handed_out (Suc n) (is @ [nat_digits n])"
  using handed_out_Suc by (force simp: handed_out_def)

lemma grid_add_ok:
  assumes "grid_ok g"
  shows "\<exists>g'. grid_add r g = Some g' \<and> grid_ok g' \<and> grid_rows g' = grid_rows g @ [r] \<and> next_id g' = Suc (next_id g)"
proof -
  let ?i = "nat_digits (next_id g)" and ?s = "g_store g"
  have ok: "\<not> is_saving ?s" "obj_wf (is_rows ?s)" "handed_out (next_id g) (map fst (is_rows ?s))"
    "handed_out (next_id g) (is_new ?s)" "handed_out (next_id g) (map fst (is_deleted ?s))"
    using assms by (simp_all add: grid_ok_def)
  have fresh: "\<not> obj_has (is_rows ?s) ?i" "?i \<notin> set (is_new ?s)" "\<not> obj_has (is_deleted ?s) ?i"
    using fresh_id [OF ok(3)] fresh_id [OF ok(4)] fresh_id [OF ok(5)] by (simp_all add: obj_has_def)
  let ?s' = "?s\<lparr>is_rows := is_rows ?s @ [(?i, r)], is_new := is_new ?s @ [?i]\<rparr>"
  have "newItem ?i r ?s = Some ?s'" using ok(1) fresh by (simp add: newItem_def)
  moreover have "obj_wf (is_rows ?s @ [(?i, r)])" using ok(2) fresh(1) by (auto simp: obj_wf_def obj_has_def)
  ultimately show ?thesis
    using ok handed_out_new [OF ok(3)] handed_out_new [OF ok(4)] handed_out_Suc [OF ok(5)]
    by (simp add: grid_add_def grid_ok_def grid_rows_def)
qed

lemma grid_adds_ok:
  "grid_ok g \<Longrightarrow> \<exists>g'. grid_adds rs g = Some g' \<and> grid_ok g' \<and> grid_rows g' = grid_rows g @ rs \<and> next_id g' = next_id g + length rs"
proof (induction rs arbitrary: g)
  case (Cons r rs)
  obtain h where h: "grid_add r g = Some h" "grid_ok h" "grid_rows h = grid_rows g @ [r]" "next_id h = Suc (next_id g)"
    using grid_add_ok [OF Cons.prems] by blast
  then show ?case using Cons.IH [OF h(2)] by auto
qed simp

lemma delete_ok:
  assumes "grid_ok g" "i \<in> set (grid_ids g)"
  shows "\<exists>g'. with_store (deleteItem i) g = Some g' \<and> grid_ok g' \<and> next_id g' = next_id g \<and>
     is_rows (g_store g') = obj_del (is_rows (g_store g)) i"
proof -
  let ?s = "g_store g"
  have has: "obj_has (is_rows ?s) i" using assms(2) by (simp add: obj_has_def grid_ids_def)
  then obtain r where r: "obj_get (is_rows ?s) i = Some r" by (auto simp: obj_has_iff)
  have ok: "\<not> is_saving ?s" "obj_wf (is_rows ?s)" "handed_out (next_id g) (map fst (is_rows ?s))"
    "handed_out (next_id g) (is_new ?s)" "handed_out (next_id g) (map fst (is_deleted ?s))"
    using assms(1) by (simp_all add: grid_ok_def)
  have "\<exists>k<next_id g. i = nat_digits k" using ok(3) has by (auto simp: handed_out_def obj_has_def)
  then have "handed_out (next_id g) (map fst (obj_put (is_deleted ?s) i r))"
    using ok(5) by (auto simp: keys_obj_put handed_out_def)
  moreover have "handed_out (next_id g) (map fst (obj_del (is_rows ?s) i))"
    using ok(3) by (auto simp: handed_out_def obj_del_def)
  ultimately show ?thesis using ok r obj_wf_del [OF ok(2)] by (simp add: with_store_def deleteItem_def grid_ok_def)
qed

text \<open>Deleting the rows with the identities at the end of the grid.\<close>

lemma obj_del_absent: "\<not> obj_has ob i \<Longrightarrow> obj_del ob i = ob"
  by (induction ob) (auto simp: obj_del_def obj_has_def)

lemma obj_del_first: "obj_wf (xs @ (i, r) # ys) \<Longrightarrow> obj_del (xs @ (i, r) # ys) i = xs @ ys"
  using obj_del_absent [of xs i] obj_del_absent [of ys i]
  by (auto simp: obj_wf_def obj_has_def obj_del_def)

lemma grid_deletes_tail:
  "grid_ok g \<Longrightarrow> is_rows (g_store g) = xs @ ys \<Longrightarrow>
   \<exists>g'. grid_deletes (map fst ys) g = Some g' \<and> grid_ok g' \<and> is_rows (g_store g') = xs \<and> next_id g' = next_id g"
proof (induction ys arbitrary: g)
  case (Cons y ys)
  obtain i r where y: "y = (i, r)" by (cases y)
  have "i \<in> set (grid_ids g)" using Cons.prems(2) y by (simp add: grid_ids_def)
  from delete_ok [OF Cons.prems(1) this] obtain h where
    h: "with_store (deleteItem i) g = Some h" "grid_ok h" "next_id h = next_id g" "is_rows (g_store h) = obj_del (is_rows (g_store g)) i"
    by blast
  have "is_rows (g_store h) = xs @ ys"
    using h(4) Cons.prems y obj_del_first [of xs i r ys] by (simp add: grid_ok_def)
  from Cons.IH [OF h(2) this] h(1,3) y show ?case by auto
qed simp

lemma reload_grid_ok:
  assumes "grid_ok g"
  shows "\<exists>g'. reload_grid rs g = Some g' \<and> grid_ok g' \<and> grid_rows g' = rs"
proof -
  obtain h where h: "grid_deletes (grid_ids g) g = Some h" "grid_ok h" "is_rows (g_store h) = []"
    using grid_deletes_tail [OF assms, of "[]"] by (auto simp: grid_ids_def)
  then show ?thesis using grid_adds_ok [OF h(2), of rs] by (auto simp: reload_grid_def grid_rows_def)
qed

lemma insert_above_ok:
  assumes "grid_ok g"
  shows "\<exists>g'. insert_above copy n g = Some g' \<and> grid_ok g' \<and>
     grid_rows g' = take n (grid_rows g) @ [[]] @ map copy (drop n (grid_rows g))"
proof -
  let ?rows = "is_rows (g_store g)"
  obtain h where h: "grid_deletes (drop n (grid_ids g)) g = Some h" "grid_ok h" "is_rows (g_store h) = take n ?rows"
    using grid_deletes_tail [OF assms, of "take n ?rows" "drop n ?rows"] by (auto simp: grid_ids_def drop_map)
  have "grid_rows h = take n (grid_rows g)" using h(3) by (simp add: grid_rows_def take_map)
  then show ?thesis
    using h(1) grid_adds_ok [OF h(2), of "[] # map copy (drop n (grid_rows g))"]
    by (auto simp: insert_above_def)
qed

lemma delete_row_ok:
  assumes "grid_ok g" "n < length (grid_rows g)"
  shows "\<exists>g'. delete_row n g = Some g' \<and> grid_ok g' \<and> grid_rows g' = splice1 n (grid_rows g)"
proof -
  let ?rows = "is_rows (g_store g)"
  have n: "n < length ?rows" using assms(2) by (simp add: grid_rows_def)
  obtain i r where ir: "?rows ! n = (i, r)" by (cases "?rows ! n")
  have split: "?rows = take n ?rows @ (i, r) # drop (Suc n) ?rows" using id_take_nth_drop [OF n] ir by simp
  have "obj_wf ?rows" using assms(1) by (simp add: grid_ok_def)
  then have del: "obj_del ?rows i = take n ?rows @ drop (Suc n) ?rows"
    using obj_del_first [of "take n ?rows" i r "drop (Suc n) ?rows"] split by simp
  have "i \<in> set (grid_ids g)" using n ir by (force simp: grid_ids_def in_set_conv_nth)
  from delete_ok [OF assms(1) this] show ?thesis
    using n ir del by (auto simp: delete_row_def grid_ids_def grid_rows_def splice1_def take_map drop_map)
qed

lemma keys_obj_put_present: "obj_has ob k \<Longrightarrow> map fst (obj_put ob k v) = map fst ob"
  by (simp add: keys_obj_put)

lemma map_snd_put_nth:
  "obj_wf ob \<Longrightarrow> n < length ob \<Longrightarrow> map snd (obj_put ob (fst (ob ! n)) v) = (map snd ob)[n := v]"
proof (induction ob arbitrary: n)
  case (Cons p ob)
  show ?case
  proof (cases n)
    case (Suc m)
    then have "fst (ob ! m) \<in> set (map fst ob)" using Cons.prems(2) by (simp add: Suc)
    moreover have "fst p \<notin> set (map fst ob)" using Cons.prems(1) by (simp add: obj_wf_def)
    ultimately have "fst (ob ! m) \<noteq> fst p" by metis
    then show ?thesis using Suc Cons.prems Cons.IH [of m] by (cases p) (auto simp: obj_wf_def)
  qed (use Cons.prems in \<open>cases p; simp\<close>)
qed simp

lemma set_cell_ok:
  assumes "grid_ok g" "n < length (grid_rows g)" "a \<noteq> ''ID''" "v \<noteq> Val JUndef"
  shows "\<exists>g'. set_cell n a v g = Some g' \<and> grid_ok g' \<and>
     grid_rows g' = (grid_rows g)[n := obj_put (grid_rows g ! n) a [v]]"
proof -
  let ?rows = "is_rows (g_store g)"
  have n: "n < length ?rows" using assms(2) by (simp add: grid_rows_def)
  have wf: "obj_wf ?rows" and ns: "\<not> is_saving (g_store g)" using assms(1) by (simp_all add: grid_ok_def)
  have get: "obj_get ?rows (fst (?rows ! n)) = Some (snd (?rows ! n))"
    using obj_get_mem [OF wf, of "fst (?rows ! n)" "snd (?rows ! n)"] n by simp
  then have has: "obj_has ?rows (fst (?rows ! n))" by (simp add: obj_has_iff)
  show ?thesis
    using assms n ns get keys_obj_put_present [OF has] map_snd_put_nth [OF wf n] obj_wf_put [OF wf]
    by (simp add: set_cell_def with_store_def setValue_def setValues_def grid_ids_def grid_rows_def grid_ok_def)
qed

section \<open>Properties\<close>

text \<open>What the copies keep.\<close>

lemma copy_rule_cells:
  "a \<in> set [''Term'', ''Type'', ''SetValue'', ''Value''] \<Longrightarrow> row_value (copy_rule r) a = row_value r a"
  by (auto simp: copy_rule_def row_has_def row_value_def [of r] row_values_def obj_has_iff)

lemma copy_regex_cells: "a \<in> set [''Exp'', ''Format''] \<Longrightarrow> row_value (copy_regex r) a = row_value r a"
  by (auto simp: copy_regex_def)

text \<open>
  Insert Above in a rules grid puts one empty row at the chosen place: the rows above stay,
  and the rows from there on follow it in their order with their terms, comparisons and values.
  It never fails, although it deletes and adds items of the store: identities are never reused.
\<close>

theorem insert_above_inserts_one_row:
  assumes "grid_ok g" "n < length (grid_rows g)"
  shows "\<exists>g'. insert_above copy_rule n g = Some g' \<and> grid_ok g' \<and>
     length (grid_rows g') = Suc (length (grid_rows g)) \<and>
     take n (grid_rows g') = take n (grid_rows g) \<and>
     (\<forall>a\<in>set [''Term'', ''Type'', ''SetValue'', ''Value''].
        map (\<lambda>r. row_value r a) (drop (Suc n) (grid_rows g')) =
        map (\<lambda>r. row_value r a) (drop n (grid_rows g)))"
proof -
  obtain g' where g': "insert_above copy_rule n g = Some g'" "grid_ok g'"
    "grid_rows g' = take n (grid_rows g) @ [[]] @ map copy_rule (drop n (grid_rows g))"
    using insert_above_ok [OF assms(1)] by blast
  then show ?thesis using copy_rule_cells assms(2) by simp
qed

theorem insert_above_inserts_one_row_witness:
  "\<exists>g g'. grid_adds [[(''Term'', [Val (JStr ''a'')])], [(''Term'', [Val (JStr ''b'')])]] empty_grid = Some g \<and>
     insert_above copy_rule 1 g = Some g' \<and> length (grid_rows g') = 3 \<and> take 1 (grid_rows g') = take 1 (grid_rows g)"
proof -
  let ?rs = "[[(''Term'', [Val (JStr ''a'')])], [(''Term'', [Val (JStr ''b'')])]]"
  obtain g where g: "grid_adds ?rs empty_grid = Some g" "grid_ok g" "grid_rows g = ?rs"
    using grid_adds_ok [OF grid_ok_empty, of ?rs] by (auto simp: empty_grid_def grid_rows_def empty_store_def)
  then show ?thesis using insert_above_inserts_one_row [OF g(2), of 1] by auto
qed

end
