(* ===== verification/Pion_Csv.thy ===== *)
theory Pion_Csv
  imports Pion_Grid Pion_Config
begin

text \<open>
  Key and value pairs of a lookup transformation in and out of the grid: the exports show one
  line per pair, in CSV or as XML elements, and the imports read such lines
  (\<open>LookupConfigurationDialog\<close> in \<open>plugins/reactors/TransformReactor.js\<close>). The regular
  expressions of the CSV import are modelled by the split that their greedy groups find. The
  properties say for which pairs an export can be imported again.
\<close>

section \<open>CSV lines\<close>

abbreviation quot :: char where
  "quot \<equiv> CHR 0x22"

definition double_quotes :: "string \<Rightarrow> string" where
  "double_quotes s = replace_char quot [quot, quot] s"

definition halve_quotes :: "string \<Rightarrow> string" where
  "halve_quotes s = replace_lit [quot, quot] [quot] s"

definition csv_line :: "string \<Rightarrow> string \<Rightarrow> string" where
  "csv_line key v = [quot] @ double_quotes key @ [quot] @ '','' @ [quot] @ double_quotes v @ [quot]"

text \<open>The last place where \<open>p\<close> stands in a text: what a greedy group before \<open>p\<close> finds.\<close>

fun last_split :: "string \<Rightarrow> string \<Rightarrow> (string \<times> string) option" where
  "last_split p [] = None"
| "last_split p (x # xs) =
     (case last_split p xs of
        Some (a, b) \<Rightarrow> Some (x # a, b)
      | None \<Rightarrow> if starts_with p (x # xs) then Some ([], drop (length p) (x # xs)) else None)"

definition dots :: "string \<Rightarrow> bool" where
  "dots s = (CHR 0x0A \<notin> set s \<and> CHR 0x0D \<notin> set s)"

definition plain_cell :: "string \<Rightarrow> bool" where
  "plain_cell s = (CHR '','' \<notin> set s \<and> quot \<notin> set s)"

definition quoted :: "string \<Rightarrow> string option" where
  "quoted s = (if 2 \<le> length s \<and> hd s = quot \<and> last s = quot then Some (butlast (tl s)) else None)"

text \<open>The four patterns of the import, in their order. Only the quoted groups are unescaped.\<close>

definition both_quoted :: "string \<Rightarrow> (string \<times> string) option" where
  "both_quoted line =
     (case quoted line of
        None \<Rightarrow> None
      | Some s \<Rightarrow> (case last_split [quot, CHR '','', quot] s of
          Some (a, b) \<Rightarrow> if dots a \<and> dots b then Some (halve_quotes a, halve_quotes b) else None
        | None \<Rightarrow> None))"

definition value_quoted :: "string \<Rightarrow> (string \<times> string) option" where
  "value_quoted line =
     (let k = takeWhile (\<lambda>c. c \<noteq> CHR '','' \<and> c \<noteq> quot) line; r = drop (length k) line in
      if starts_with '','' r then
        (case quoted (tl r) of Some v \<Rightarrow> if dots v then Some (k, halve_quotes v) else None | None \<Rightarrow> None)
      else None)"

definition key_quoted :: "string \<Rightarrow> (string \<times> string) option" where
  "key_quoted line =
     (if starts_with [quot] line then
        (case last_split [quot, CHR '',''] (tl line) of
           Some (a, v) \<Rightarrow> if dots a \<and> plain_cell v then Some (halve_quotes a, v) else None
         | None \<Rightarrow> None)
      else None)"

definition none_quoted :: "string \<Rightarrow> (string \<times> string) option" where
  "none_quoted line =
     (case split_char (CHR '','') line of
        [k, v] \<Rightarrow> if plain_cell k \<and> plain_cell v then Some (k, v) else None
      | _ \<Rightarrow> None)"

definition csv_pair :: "string \<Rightarrow> (string \<times> string) option" where
  "csv_pair line =
     (case both_quoted line of Some p \<Rightarrow> Some p
      | None \<Rightarrow> (case value_quoted line of Some p \<Rightarrow> Some p
        | None \<Rightarrow> (case key_quoted line of Some p \<Rightarrow> Some p | None \<Rightarrow> none_quoted line)))"

definition lookup_row :: "string \<times> string \<Rightarrow> row" where
  "lookup_row p = [(''Key'', [Val (JStr (fst p))]), (''Value'', [Val (JStr (snd p))])]"

definition csv_pairs :: "string \<Rightarrow> (string \<times> string) list" where
  "csv_pairs content = List.map_filter csv_pair (split_char (CHR 0x0A) content)"

definition importCsv :: "string \<Rightarrow> grid \<Rightarrow> grid option" where
  "importCsv content g = grid_adds (map lookup_row (csv_pairs content)) g"

text \<open>
  The lines of the export, before they are escaped for display and broken with \<open><br />\<close>;
  \<open>None\<close> is the exception for a row without a key or a value.
\<close>

fun export_lines :: "row list \<Rightarrow> string list option" where
  "export_lines [] = Some []"
| "export_lines (r # rs) =
     (case (row_value r ''Key'', row_value r ''Value'') of
        (Val (JStr k), Val (JStr v)) \<Rightarrow> map_option (Cons (csv_line k v)) (export_lines rs)
      | _ \<Rightarrow> None)"

definition export_html :: "string list \<Rightarrow> string" where
  "export_html ls = concat (map (\<lambda>l. escape_chain l @ ''<br />'') ls)"

section \<open>Facts\<close>

lemma double_quotes_Cons: "double_quotes (c # s) = (if c = quot then [quot, quot] else [c]) @ double_quotes s"
  by (simp add: double_quotes_def)

lemma halve_double [simp]: "halve_quotes (double_quotes s) = s"
proof (induction s)
  case (Cons c s)
  show ?case
  proof (cases "c = quot")
    case True
    then show ?thesis
      using Cons replace_lit_hit [of "[quot, quot]" "[quot]" "double_quotes s"]
      by (simp add: double_quotes_def halve_quotes_def)
  next
    case False
    then show ?thesis
      using Cons replace_lit_skip [of quot "[c]" "[quot]" "[quot]" "double_quotes s"]
      by (simp add: double_quotes_def halve_quotes_def)
  qed
qed (simp add: double_quotes_def halve_quotes_def)

lemma set_double_quotes: "set (double_quotes s) = set s"
  by (induction s) (auto simp: double_quotes_def)

lemma dots_double [simp]: "dots (double_quotes s) = dots s"
  by (simp add: dots_def set_double_quotes)

text \<open>A split that nothing later can replace.\<close>

lemma last_split_here:
  assumes "p \<noteq> []" "last_split p (tl (p @ s)) = None"
  shows "last_split p (a @ p @ s) = Some (a, s)"
proof (induction a)
  case Nil
  then show ?case using assms starts_with_append [of p s] by (cases p) auto
qed simp

text \<open>No comma followed by a quotation mark.\<close>

fun no_comma_quote :: "string \<Rightarrow> bool" where
  "no_comma_quote (x # y # s) = (\<not> (x = CHR '','' \<and> y = quot) \<and> no_comma_quote (y # s))"
| "no_comma_quote _ = True"

lemma last_split_no_comma_quote: "no_comma_quote s \<Longrightarrow> last_split [quot, CHR '','', quot] s = None"
proof (induction s rule: no_comma_quote.induct)
  case (1 x y s)
  then have "last_split [quot, CHR '','', quot] (y # s) = None" by simp
  moreover have "\<not> starts_with [quot, CHR '','', quot] (x # y # s)" using 1(2) by (cases s) auto
  ultimately show ?case by (simp del: starts_with.simps)
qed auto

lemma no_comma_quote_double: "no_comma_quote s \<Longrightarrow> no_comma_quote (double_quotes s)"
proof (induction s rule: no_comma_quote.induct)
  case (1 x y s)
  obtain t where "double_quotes (y # s) = y # t" by (cases "y = quot") (auto simp: double_quotes_def)
  with 1 show ?case by (auto simp: double_quotes_Cons [of x])
qed (auto simp: double_quotes_def)

text \<open>The text after the first quoted group: a comma, a quotation mark, and the value.\<close>

lemma value_no_split:
  assumes "no_comma_quote v"
  shows "last_split [quot, CHR '','', quot] ([CHR '','', quot] @ double_quotes v) = None"
proof -
  have v: "last_split [quot, CHR '','', quot] (double_quotes v) = None"
    by (intro last_split_no_comma_quote no_comma_quote_double assms)
  have "\<not> starts_with [quot, CHR '','', quot] (quot # double_quotes v)"
  proof (cases v)
    case (Cons c s)
    show ?thesis
    proof (cases "c = CHR '',''")
      case True
      then show ?thesis using assms(1) Cons by (cases s) (auto simp: double_quotes_def)
    qed (use Cons in \<open>auto simp: double_quotes_def\<close>)
  qed (simp add: double_quotes_def)
  then show ?thesis using v by simp
qed

lemma both_quoted_line:
  assumes "no_comma_quote v" "dots k" "dots v"
  shows "both_quoted (csv_line k v) = Some (k, v)"
proof -
  let ?s = "double_quotes k @ [quot, CHR '','', quot] @ double_quotes v"
  have "quoted (csv_line k v) = Some ?s"
    by (simp add: quoted_def csv_line_def butlast_append)
  moreover have "last_split [quot, CHR '','', quot] ?s = Some (double_quotes k, double_quotes v)"
    using value_no_split [OF assms(1)] by (intro last_split_here) simp_all
  ultimately show ?thesis using assms(2,3) by (simp add: both_quoted_def)
qed

lemma csv_pair_line: "no_comma_quote v \<Longrightarrow> dots k \<Longrightarrow> dots v \<Longrightarrow> csv_pair (csv_line k v) = Some (k, v)"
  by (simp add: csv_pair_def both_quoted_line)

lemma csv_line_one_line: "dots k \<Longrightarrow> dots v \<Longrightarrow> CHR 0x0A \<notin> set (csv_line k v)"
  by (auto simp: csv_line_def dots_def set_double_quotes)

lemma export_lines_pairs: "export_lines (map lookup_row ps) = Some (map (\<lambda>p. csv_line (fst p) (snd p)) ps)"
  by (induction ps) (auto simp: lookup_row_def)

lemma csv_pairs_join:
  assumes "ps \<noteq> []" "\<forall>p\<in>set ps. no_comma_quote (snd p) \<and> dots (fst p) \<and> dots (snd p)"
  shows "csv_pairs (join [CHR 0x0A] (map (\<lambda>p. csv_line (fst p) (snd p)) ps)) = ps"
proof -
  have "split_char (CHR 0x0A) (join [CHR 0x0A] (map (\<lambda>p. csv_line (fst p) (snd p)) ps)) = map (\<lambda>p. csv_line (fst p) (snd p)) ps"
    using assms csv_line_one_line by (intro split_char_join) auto
  moreover have "List.map_filter csv_pair (map (\<lambda>p. csv_line (fst p) (snd p)) ps) = ps"
    using assms(2)
  proof (induction ps)
    case (Cons p ps)
    then show ?case using csv_pair_line [of "snd p" "fst p"] by (simp add: List.map_filter_simps)
  qed (simp add: List.map_filter_simps)
  ultimately show ?thesis by (simp add: csv_pairs_def)
qed

section \<open>Properties\<close>

text \<open>
  The lines that the CSV export shows for the rows of a lookup grid, pasted into the CSV
  import of another grid, append exactly those rows, quotation marks, commas and blanks
  included, for every key and every value without line breaks in which no comma stands directly
  before a quotation mark.
\<close>

theorem csv_export_imports_back:
  assumes "grid_rows g = map lookup_row ps" and "ps \<noteq> []"
    and "\<forall>p\<in>set ps. no_comma_quote (snd p) \<and> dots (fst p) \<and> dots (snd p)"
    and "grid_ok h"
  shows "\<exists>ls h'. export_lines (grid_rows g) = Some ls \<and> importCsv (join [CHR 0x0A] ls) h = Some h' \<and>
     grid_ok h' \<and> grid_rows h' = grid_rows h @ grid_rows g"
  using grid_adds_ok [OF assms(4), of "map lookup_row ps"] csv_pairs_join [OF assms(2,3)]
  by (auto simp: assms(1) export_lines_pairs importCsv_def)

theorem csv_export_imports_back_witness:
  "let ps = [([quot] @ ''x,y'' @ [quot], ''a, '' @ [quot] @ ''b'' @ [quot])] in
   \<exists>ls h'. export_lines (map lookup_row ps) = Some ls \<and> importCsv (join [CHR 0x0A] ls) empty_grid = Some h' \<and>
     grid_rows h' = map lookup_row ps"
proof -
  let ?ps = "[([quot] @ ''x,y'' @ [quot], ''a, '' @ [quot] @ ''b'' @ [quot])]"
  have e: "grid_rows empty_grid = []" by (simp add: empty_grid_def grid_rows_def empty_store_def)
  obtain g where g: "grid_rows g = map lookup_row ?ps"
    using grid_adds_ok [OF grid_ok_empty, of "map lookup_row ?ps"] e by fastforce
  have ok: "?ps \<noteq> []" "\<forall>p\<in>set ?ps. no_comma_quote (snd p) \<and> dots (fst p) \<and> dots (snd p)" by (simp_all add: dots_def)
  show ?thesis using csv_export_imports_back [OF g ok grid_ok_empty] unfolding g e append_Nil Let_def by blast
qed

text \<open>
  A comma directly before a quotation mark in a value breaks the round trip: the exported
  line is read with part of the value moved into the key.
\<close>

theorem csv_comma_quote_moves_into_key:
  assumes "dots k" "dots u" "dots v" "no_comma_quote v" "v = [] \<or> hd v \<noteq> quot"
  shows "csv_pair (csv_line k (u @ [quot, CHR '','', quot] @ v)) =
     Some (halve_quotes (double_quotes k @ [quot, CHR '','', quot] @ double_quotes u @ [quot]), quot # v)"
proof -
  let ?p = "[quot, CHR '','', quot]"
  let ?a = "double_quotes k @ ?p @ double_quotes u @ [quot]"
  have dq: "double_quotes (u @ ?p @ v) = double_quotes u @ [quot] @ ?p @ [quot] @ double_quotes v"
    by (simp add: double_quotes_def)
  have q: "quoted (csv_line k (u @ ?p @ v)) = Some (?a @ ?p @ quot # double_quotes v)"
    by (simp add: quoted_def csv_line_def butlast_append dq [simplified])
  have n: "last_split ?p (double_quotes v) = None"
    by (intro last_split_no_comma_quote no_comma_quote_double assms)
  have "\<not> starts_with ?p (quot # double_quotes v)"
    using assms(4) by (cases v; cases "tl v") (auto simp: double_quotes_def)
  then have "last_split ?p (quot # double_quotes v) = None" using n by simp
  then have "last_split ?p (?a @ ?p @ quot # double_quotes v) = Some (?a, quot # double_quotes v)"
    by (intro last_split_here) simp_all
  moreover have "dots ?a" "dots (quot # double_quotes v)"
    using assms by (auto simp: dots_def set_double_quotes)
  moreover have "halve_quotes (quot # double_quotes v) = quot # v"
  proof (cases v)
    case (Cons c w)
    with assms(5) have c: "c \<noteq> quot" by simp
    have "\<not> starts_with [quot, quot] (quot # double_quotes v)" using Cons c by (auto simp: double_quotes_def)
    then show ?thesis using halve_double [of v] by (simp add: halve_quotes_def)
  qed (simp add: halve_quotes_def double_quotes_def)
  ultimately show ?thesis by (simp add: csv_pair_def both_quoted_def q [simplified])
qed

theorem csv_comma_quote_moves_into_key_witness:
  "csv_pair (csv_line ''a'' (''b'' @ [quot, CHR '','', quot] @ ''c'')) =
     Some (''a'' @ [quot, CHR '','', quot] @ ''b'' @ [quot], quot # ''c'')"
proof -
  have "halve_quotes (double_quotes ''a'' @ [quot, CHR '','', quot] @ double_quotes ''b'' @ [quot]) =
      ''a'' @ [quot, CHR '','', quot] @ ''b'' @ [quot]"
    by (simp add: halve_quotes_def double_quotes_def)
  then show ?thesis using csv_comma_quote_moves_into_key [of "''a''" "''b''" "''c''"] by (simp add: dots_def)
qed

end
