(* ===== verification/Pion_Custom.thy ===== *)
theory Pion_Custom
  imports Pion_Grid Pion_Config
begin

text \<open>
  The parts of a reactor's configuration that a plugin edits in grids: comparisons of a filter
  reactor, copied terms of a fission reactor, comparisons and field mappings of a database
  output reactor (\<open>plugins/reactors/\<close>). Each plugin fills the rows of a grid from the elements
  of the configuration and writes the elements of a request from the rows; the locale
  \<open>element_codec\<close> states that the two fit, and gives the round trip of a whole grid. The last
  section is the text of these elements that a reactor keeps between requests.
\<close>

section \<open>Elements and rows\<close>

text \<open>
  \<open>'a\<close> stands for what one element says, \<open>'r\<close> for how the interface holds it (a row of a grid,
  an object inside a row); \<open>ok\<close> for the contents that the text can carry.
\<close>

locale element_codec =
  fixes render :: "'r \<Rightarrow> string"
    and reader :: "node \<Rightarrow> 'r option"
    and row_of :: "'a \<Rightarrow> 'r"
    and element :: "'a \<Rightarrow> node"
    and ok :: "'a \<Rightarrow> bool"
  assumes render_reads: "ok a \<Longrightarrow> reads (render (row_of a)) [element a]"
    and reader_element: "ok a \<Longrightarrow> reader (element a) = Some (row_of a)"
begin

lemma reads_all: "\<forall>a\<in>set as. ok a \<Longrightarrow> reads (concat (map render (map row_of as))) (map element as)"
  by (induction as) (auto intro: reads_Cons render_reads)

lemma reader_all: "\<forall>a\<in>set as. ok a \<Longrightarrow> those (map reader (map element as)) = Some (map row_of as)"
  by (induction as) (auto simp: reader_element)

lemma round_trip:
  assumes "valid_name t" "\<forall>a\<in>set as. ok a"
  shows "\<exists>kids. read_xml (''<'' @ t @ ''>'' @ concat (map render (map row_of as)) @ ''</'' @ t @ ''>'') = Some (Element t [] kids) \<and>
     those (map reader kids) = Some (map row_of as)"
  using reads_read_xml [OF reads_elem [OF assms(1) reads_all [OF assms(2)]]] reader_all [OF assms(2)] by blast

end

abbreviation get_xml :: "node \<Rightarrow> string \<Rightarrow> jsval" where
  "get_xml e a \<equiv> attribute_js (xs_getValue None e a SUndef)"

definition opt_cell :: "string \<Rightarrow> jsval option \<Rightarrow> row" where
  "opt_cell a v = (case v of None \<Rightarrow> [] | Some x \<Rightarrow> [(a, [Val x])])"

definition plain_text :: "string \<Rightarrow> bool" where
  "plain_text s = (\<forall>c\<in>set s. \<not> special c)"

lemma xs_child:
  assumes "\<not> starts_with ''@'' a" "a \<noteq> ''tagName''" "a \<noteq> ''childNodes''" "a \<noteq> ''text()''"
  shows "xs_getValue None (Element t as ns) a d = first_or (map SItem (filter (\<lambda>n. is_element n \<and> nodeName n = a) ns)) d"
  using assms by (simp add: xs_getValue_def getAttributeName_def child_elements_def)

lemma xs_attr: "xs_getValue None (Element t as ns) (CHR ''@'' # a) d =
    (case map_of as a of Some s \<Rightarrow> if s \<noteq> [] then SText s else d | None \<Rightarrow> d)"
  by (simp add: xs_getValue_def getAttributeName_def getAttribute_def split: option.splits)

lemma xs_text: "s \<noteq> [] \<Longrightarrow> xs_getValue None (Element t as (text_nodes s)) ''text()'' d = SText s"
  by (simp add: xs_getValue_def text_nodes_def is_text_def node_text_def)

lemma xs_no_text: "xs_getValue None (Element t as (text_nodes [])) ''text()'' d = d"
  by (simp add: xs_getValue_def text_nodes_def)

lemmas element_names = valid_name_def is_name_char_def

section \<open>Comparisons\<close>

definition filter_getBool :: "node \<Rightarrow> string \<Rightarrow> bool" where
  "filter_getBool item a =
     (if xs_hasAttribute None item a then sval_toString (xs_getValue None item a SUndef) = Some ''true'' else False)"

definition comparison_row :: "node \<Rightarrow> row option" where
  "comparison_row n =
     Some ([(''Term'', [Val (get_xml n ''Term'')]), (''Type'', [Val (get_xml n ''Type'')]),
            (''MatchAllValues'', [Val (JBool (filter_getBool n ''MatchAllValues''))])] @
           (if xs_hasAttribute None n ''Value'' then [(''Value'', [Val (get_xml n ''Value'')])] else []))"

definition comparison_xml :: "row \<Rightarrow> string" where
  "comparison_xml r =
     ''<Comparison><Term>'' @ js_string (cell_of r ''Term'') @ ''</Term><Type>'' @ js_string (cell_of r ''Type'') @ ''</Type>'' @
     (if row_has r ''Value'' then makeXmlLeafElement ''Value'' (cell_of r ''Value'') else []) @
     ''<MatchAllValues>'' @ js_string (cell_of r ''MatchAllValues'') @ ''</MatchAllValues></Comparison>''"

text \<open>A comparison: term, comparison type, value if it takes one, and whether all values must match.\<close>

datatype comparison = Comparison string string "string option" bool

definition bool_text :: "bool \<Rightarrow> string" where
  "bool_text b = (if b then ''true'' else ''false'')"

fun comparison_cells :: "comparison \<Rightarrow> row" where
  "comparison_cells (Comparison t c v m) =
     [(''Term'', [Val (JStr t)]), (''Type'', [Val (JStr c)]), (''MatchAllValues'', [Val (JBool m)])] @
     opt_cell ''Value'' (map_option JStr v)"

definition opt_leaf :: "string \<Rightarrow> string option \<Rightarrow> node list" where
  "opt_leaf a v = (case v of None \<Rightarrow> [] | Some s \<Rightarrow> [leaf (a, s)])"

fun comparison_element :: "comparison \<Rightarrow> node" where
  "comparison_element (Comparison t c v m) =
     Element ''Comparison'' [] ([leaf (''Term'', t), leaf (''Type'', c)] @ opt_leaf ''Value'' v @ [leaf (''MatchAllValues'', bool_text m)])"

fun comparison_ok :: "comparison \<Rightarrow> bool" where
  "comparison_ok (Comparison t c v m) = (plain_text t \<and> plain_text c)"

lemma reads_plain_leaf: "valid_name t \<Longrightarrow> plain_text s \<Longrightarrow> reads (''<'' @ t @ ''>'' @ s @ ''</'' @ t @ ''>'') [leaf (t, s)]"
  using reads_leaf_plain [of t s] by (simp add: plain_text_def leaf_def)

lemma reads_makeLeaf: "valid_name t \<Longrightarrow> reads (makeXmlLeafElement t (JStr s)) [leaf (t, s)]"
  using reads_makeXmlLeafElement [of t s] by (simp add: leaf_def)

lemma reads_opt_leaf:
  "valid_name t \<Longrightarrow> reads (case v of None \<Rightarrow> [] | Some s \<Rightarrow> makeXmlLeafElement t (JStr s)) (opt_leaf t v)"
  by (cases v) (auto simp: opt_leaf_def reads_makeLeaf)

lemma bool_text_plain [simp]: "plain_text (bool_text b)"
  by (simp add: plain_text_def bool_text_def special_def)

lemma reads_comparison:
  assumes "comparison_ok a"
  shows "reads (comparison_xml (comparison_cells a)) [comparison_element a]"
proof -
  obtain t c v m where a: "a = Comparison t c v m" by (cases a)
  have n: "valid_name ''Comparison''" "valid_name ''Term''" "valid_name ''Type''" "valid_name ''Value''" "valid_name ''MatchAllValues''"
    by (simp_all add: element_names)
  have p: "plain_text t" "plain_text c" using assms a by simp_all
  note reads_elem [OF n(1) reads_Cons [OF reads_plain_leaf [OF n(2) p(1)]
      reads_Cons [OF reads_plain_leaf [OF n(3) p(2)]
      reads_append [OF reads_opt_leaf [OF n(4), of v] reads_plain_leaf [OF n(5) bool_text_plain [of m]]]]]]
  then show ?thesis
    by (cases v) (simp_all add: a comparison_xml_def opt_cell_def cell_of_def bool_text_def opt_leaf_def)
qed

lemma attribute_js_item [simp]: "attribute_js (SItem (leaf f)) = JStr (snd f)"
  by (simp add: attribute_js_def)

lemma comparison_reads_back: "comparison_row (comparison_element a) = Some (comparison_cells a)"
proof -
  obtain t c v m where a: "a = Comparison t c v m" by (cases a)
  show ?thesis
    by (cases v) (simp_all add: a comparison_row_def xs_child opt_leaf_def opt_cell_def filter_getBool_def xs_hasAttribute_def bool_text_def)
qed

interpretation comparisons: element_codec comparison_xml comparison_row comparison_cells comparison_element comparison_ok
  by unfold_locales (simp_all add: reads_comparison comparison_reads_back)

section \<open>Copied terms\<close>

definition copy_term_row :: "node \<Rightarrow> row option" where
  "copy_term_row n = Some [(''Term'', [Val (JStr (item_string n))])]"

definition copy_term_xml :: "row \<Rightarrow> string" where
  "copy_term_xml r = makeXmlLeafElement ''CopyTerm'' (cell_of r ''Term'')"

interpretation copy_terms: element_codec copy_term_xml copy_term_row
  "\<lambda>s. [(''Term'', [Val (JStr s)])]" "\<lambda>s. leaf (''CopyTerm'', s)" "\<lambda>_. True"
  using reads_makeLeaf [of "''CopyTerm''"]
  by unfold_locales (simp_all add: copy_term_xml_def copy_term_row_def cell_of_def element_names)

section \<open>Comparisons and field mappings of the database reactor\<close>

text \<open>
  The database reactor copies every attribute that the store lists for a comparison element;
  \<open>getAttributes\<close> lists only what is there.
\<close>

definition db_comparison_row :: "node \<Rightarrow> row option" where
  "db_comparison_row n =
     those (map (\<lambda>a. if a = ''MatchAllValues'' then Some (a, [Val (getOptionalBool (xs_getValue None) [(''MatchAllValues'', JBool False)] n a)])
                    else map_option (\<lambda>s. (a, [Val (JStr s)])) (sval_toString (xs_getValue None n a SUndef)))
       (getAttributes None n))"

definition field_row :: "node \<Rightarrow> row option" where
  "field_row n =
     (let index = get_xml n ''@index''; sql_type = get_xml n ''@sql'' in
      Some ([(''Field'', [Val (get_xml n ''text()'')]), (''Term'', [Val (get_xml n ''@term'')])] @
        (if index \<noteq> JUndef then
           [(''IndexOption'', [Val (if index \<in> set [JStr ''false'', JStr ''true'', JStr ''unique''] then index else JStr ''custom'')]),
            (''Index'', [Val index])]
         else [(''IndexOption'', [Val (JStr ''false'')])]) @
        (if sql_type \<noteq> JUndef then [(''SqlType'', [Val sql_type])] else [])))"

definition quoted_attr :: "string \<Rightarrow> string \<Rightarrow> string" where
  "quoted_attr a s = '' '' @ a @ ''='' @ [CHR 0x22] @ s @ [CHR 0x22]"

definition field_xml :: "row \<Rightarrow> string" where
  "field_xml r =
     (let index = cell_of r ''Index''; index_option = cell_of r ''IndexOption'' in
      ''<Field'' @ quoted_attr ''term'' (js_string (cell_of r ''Term'')) @
      (if index_option = JStr ''custom'' then quoted_attr ''index'' (js_string index)
       else if index_option = JStr ''false'' then (if index = JStr ''false'' then quoted_attr ''index'' ''false'' else [])
       else quoted_attr ''index'' (js_string index_option)) @
      (if row_has r ''SqlType'' then quoted_attr ''sql'' (js_string (cell_of r ''SqlType'')) else []) @
      ''>'' @ escapeXml (cell_of r ''Field'') @ ''</Field>'')"

text \<open>A field mapping: database column, term, index and SQL type.\<close>

datatype mapping = Mapping string string "string option" "string option"

definition opt_attr :: "string \<Rightarrow> string option \<Rightarrow> (string \<times> string) list" where
  "opt_attr a v = (case v of None \<Rightarrow> [] | Some s \<Rightarrow> [(a, s)])"

fun mapping_element :: "mapping \<Rightarrow> node" where
  "mapping_element (Mapping f t x q) =
     Element ''Field'' ((''term'', t) # opt_attr ''index'' x @ opt_attr ''sql'' q) (text_nodes f)"

fun mapping_cells :: "mapping \<Rightarrow> row" where
  "mapping_cells (Mapping f t x q) =
     [(''Field'', [Val (JStr f)]), (''Term'', [Val (JStr t)])] @
     (case x of
        None \<Rightarrow> [(''IndexOption'', [Val (JStr ''false'')])]
      | Some s \<Rightarrow> [(''IndexOption'', [Val (JStr (if s \<in> set [''false'', ''true'', ''unique''] then s else ''custom''))]),
                    (''Index'', [Val (JStr s)])]) @
     opt_cell ''SqlType'' (map_option JStr q)"

fun mapping_ok :: "mapping \<Rightarrow> bool" where
  "mapping_ok (Mapping f t x q) =
     (f \<noteq> [] \<and> t \<noteq> [] \<and> plain_text t \<and> (\<forall>s\<in>set_option x. s \<noteq> [] \<and> plain_text s) \<and> (\<forall>s\<in>set_option q. s \<noteq> [] \<and> plain_text s))"

lemma quoted_attr_text: "plain_text s \<Longrightarrow> quoted_attr a s @ attr_text as = attr_text ((a, s) # as)"
  using escape_chain_plain [of s] by (simp add: quoted_attr_def plain_text_def)

lemma reads_mapping:
  assumes "mapping_ok a"
  shows "reads (field_xml (mapping_cells a)) [mapping_element a]"
proof -
  obtain f t x q where a: "a = Mapping f t x q" by (cases a)
  let ?as = "(''term'', t) # opt_attr ''index'' x @ opt_attr ''sql'' q"
  have p: "plain_text t" "\<And>s. x = Some s \<Longrightarrow> plain_text s" "\<And>s. q = Some s \<Longrightarrow> plain_text s"
    using assms a by auto
  have q: "(case q of None \<Rightarrow> [] | Some s \<Rightarrow> quoted_attr ''sql'' s) = attr_text (opt_attr ''sql'' q)"
    using quoted_attr_text [OF p(3), where as = "[]" and a = "''sql''"] by (auto simp: opt_attr_def split: option.splits)
  have x: "(case x of None \<Rightarrow> [] | Some s \<Rightarrow> quoted_attr ''index'' s) = attr_text (opt_attr ''index'' x)"
    using quoted_attr_text [OF p(2), where as = "[]" and a = "''index''"] by (auto simp: opt_attr_def split: option.splits)
  have "field_xml (mapping_cells a) = ''<Field'' @ attr_text ?as @ ''>'' @ escape_chain f @ ''</Field>''"
    using quoted_attr_text [OF p(1), of "''term''" "opt_attr ''index'' x @ opt_attr ''sql'' q"]
    unfolding a field_xml_def Let_def
    by (cases x; cases q) (auto simp: cell_of_def opt_cell_def escapeXml_string opt_attr_def attr_text_def quoted_attr_def plain_text_def escape_chain_plain p [unfolded plain_text_def])
  moreover have "\<forall>p\<in>set ?as. valid_name (fst p)" by (auto simp: opt_attr_def element_names split: option.splits)
  moreover have "valid_name ''Field''" by (simp add: element_names)
  ultimately show ?thesis using reads_leaf_attrs [of "''Field''" ?as f] by (simp add: a)
qed

lemma mapping_reads_back: "mapping_ok a \<Longrightarrow> field_row (mapping_element a) = Some (mapping_cells a)"
  by (cases a rule: mapping_ok.cases)
    (auto simp: field_row_def Let_def xs_attr xs_text attribute_js_def opt_attr_def opt_cell_def split: option.splits)

interpretation mappings: element_codec field_xml field_row mapping_cells mapping_element mapping_ok
  by unfold_locales (simp_all add: reads_mapping mapping_reads_back)

section \<open>What a reactor keeps between requests\<close>

text \<open>
  A reactor with grids keeps two texts: the elements of its configuration as last saved
  (\<open>custom_put_data_from_config\<close>), which a move of the reactor sends, and the elements of the
  grid's rows (\<open>custom_put_data_from_comparison_store\<close> and its likes), which Save sends. The
  first is not there until the configuration has arrived; as text it is then \<open>undefined\<close>.
\<close>

record custom =
  from_config :: "string option"
  from_store :: "string option"

definition put_text :: "string option \<Rightarrow> string" where
  "put_text d = (case d of None \<Rightarrow> ''undefined'' | Some s \<Rightarrow> s)"

definition render_rows :: "(row \<Rightarrow> string) \<Rightarrow> row list \<Rightarrow> string" where
  "render_rows f rs = concat (map f rs)"

definition update_from_config :: "(row \<Rightarrow> string) \<Rightarrow> row list \<Rightarrow> custom \<Rightarrow> custom" where
  "update_from_config f rs c = c\<lparr>from_config := Some (render_rows f rs)\<rparr>"

definition update_from_store :: "(row \<Rightarrow> string) \<Rightarrow> row list \<Rightarrow> custom \<Rightarrow> custom" where
  "update_from_store f rs c = c\<lparr>from_store := Some (render_rows f rs)\<rparr>"

definition updateCustomData :: "custom \<Rightarrow> custom" where
  "updateCustomData c = c\<lparr>from_config := from_store c\<rparr>"

definition insert_when_moved :: "custom \<Rightarrow> string" where
  "insert_when_moved c = put_text (from_config c)"

definition insert_when_saved :: "custom \<Rightarrow> string" where
  "insert_when_saved c = put_text (from_store c)"

text \<open>
  What happens to a reactor, with the server's copy of the elements and the requests to save
  that it has accepted but whose answers are under way.
\<close>

record exchange =
  ex_custom :: custom
  ex_server :: string
  ex_answers :: nat

datatype event =
    Opened              \<comment> \<open>the dialog opens: the grid is filled from the configuration\<close>
  | Edited "row list"   \<comment> \<open>a cell was set or a row deleted; the rows now\<close>
  | Saved               \<comment> \<open>Save Reactor, accepted by the server\<close>
  | Answered            \<comment> \<open>the answer to a save arrives\<close>
  | Moved               \<comment> \<open>the reactor is dragged, accepted by the server\<close>

text \<open>\<open>rows_of\<close> reads the rows from the server's elements.\<close>

fun exchange1 :: "(row \<Rightarrow> string) \<Rightarrow> (string \<Rightarrow> row list) \<Rightarrow> event \<Rightarrow> exchange \<Rightarrow> exchange" where
  "exchange1 f rows_of Opened x =
     x\<lparr>ex_custom := update_from_store f (rows_of (ex_server x)) (update_from_config f (rows_of (ex_server x)) (ex_custom x))\<rparr>"
| "exchange1 f rows_of (Edited rs) x = x\<lparr>ex_custom := update_from_store f rs (ex_custom x)\<rparr>"
| "exchange1 f rows_of Saved x = x\<lparr>ex_server := insert_when_saved (ex_custom x), ex_answers := Suc (ex_answers x)\<rparr>"
| "exchange1 f rows_of Answered x =
     (if ex_answers x = 0 then x
      else x\<lparr>ex_custom := updateCustomData (ex_custom x), ex_answers := ex_answers x - 1\<rparr>)"
| "exchange1 f rows_of Moved x = x\<lparr>ex_server := insert_when_moved (ex_custom x)\<rparr>"

fun exchange_run :: "(row \<Rightarrow> string) \<Rightarrow> (string \<Rightarrow> row list) \<Rightarrow> event list \<Rightarrow> exchange \<Rightarrow> exchange" where
  "exchange_run f rows_of [] x = x"
| "exchange_run f rows_of (e # es) x = exchange_run f rows_of es (exchange1 f rows_of e x)"

text \<open>Nothing but the answer happens between a save and its answer.\<close>

fun calm :: "nat \<Rightarrow> event list \<Rightarrow> bool" where
  "calm n [] = True"
| "calm n (Saved # es) = (n = 0 \<and> calm 1 es)"
| "calm n (Answered # es) = calm 0 es"
| "calm n (e # es) = (n = 0 \<and> calm 0 es)"

text \<open>
  The texts that survive reading, in the locale of any plugin with such a grid: what is read
  from such a text is rendered as the same text.
\<close>

locale custom_exchange =
  fixes f :: "row \<Rightarrow> string"
    and rows_of :: "string \<Rightarrow> row list"
    and good :: "string \<Rightarrow> bool"
  assumes survives: "good s \<Longrightarrow> render_rows f (rows_of s) = s"
begin

definition in_step :: "exchange \<Rightarrow> bool" where
  "in_step x =
     (ex_answers x \<le> 1 \<and> good (ex_server x) \<and>
      (\<exists>s. from_store (ex_custom x) = Some s \<and> good s) \<and>
      (if ex_answers x = 0 then from_config (ex_custom x) = Some (ex_server x) else from_store (ex_custom x) = Some (ex_server x)))"

definition good_edits :: "event list \<Rightarrow> bool" where
  "good_edits es = (\<forall>rs. Edited rs \<in> set es \<longrightarrow> good (render_rows f rs))"

lemma in_step1:
  assumes "in_step x" "calm (ex_answers x) (e # es)" "good_edits (e # es)"
  shows "in_step (exchange1 f rows_of e x) \<and> calm (ex_answers (exchange1 f rows_of e x)) es \<and> good_edits es"
  using assms survives
  by (cases e) (auto simp: in_step_def good_edits_def update_from_store_def update_from_config_def updateCustomData_def
      insert_when_saved_def insert_when_moved_def put_text_def split: if_splits)

lemma in_step_run:
  assumes "in_step x" "calm (ex_answers x) (es @ fs)" "good_edits (es @ fs)"
  shows "in_step (exchange_run f rows_of es x) \<and> calm (ex_answers (exchange_run f rows_of es x)) fs"
  using assms
proof (induction es arbitrary: x)
  case (Cons e es)
  have "in_step (exchange1 f rows_of e x) \<and> calm (ex_answers (exchange1 f rows_of e x)) (es @ fs) \<and> good_edits (es @ fs)"
    using in_step1 [OF Cons.prems(1), of e "es @ fs"] Cons.prems(2,3) by simp
  then show ?case using Cons.IH by simp
qed simp

lemma run_append: "exchange_run f rows_of (es @ fs) x = exchange_run f rows_of fs (exchange_run f rows_of es x)"
  by (induction es arbitrary: x) simp_all

lemma moving_keeps:
  assumes "in_step x" "calm (ex_answers x) (es @ [Moved])" "good_edits es"
  shows "ex_server (exchange_run f rows_of (es @ [Moved]) x) = ex_server (exchange_run f rows_of es x)"
proof -
  have "good_edits (es @ [Moved])" using assms(3) by (simp add: good_edits_def)
  from in_step_run [OF assms(1,2) this] show ?thesis
    by (simp add: run_append in_step_def insert_when_moved_def put_text_def)
qed

end

text \<open>The rows that a reader finds in a text of elements.\<close>

definition read_rows :: "(node \<Rightarrow> row option) \<Rightarrow> string \<Rightarrow> row list" where
  "read_rows reader s =
     (case read_xml (''<Reactor>'' @ s @ ''</Reactor>'') of
        Some (Element t as kids) \<Rightarrow> (case those (map reader kids) of Some rs \<Rightarrow> rs | None \<Rightarrow> [])
      | _ \<Rightarrow> [])"

definition comparison_text :: "comparison list \<Rightarrow> string" where
  "comparison_text as = render_rows comparison_xml (map comparison_cells as)"

definition good_comparisons :: "string \<Rightarrow> bool" where
  "good_comparisons s = (\<exists>as. (\<forall>a\<in>set as. comparison_ok a) \<and> s = comparison_text as)"

interpretation filter_exchange: custom_exchange comparison_xml "read_rows comparison_row" good_comparisons
proof
  fix s assume "good_comparisons s"
  then obtain as where as: "\<forall>a\<in>set as. comparison_ok a" "s = comparison_text as"
    unfolding good_comparisons_def by blast
  have "valid_name ''Reactor''" by (simp add: element_names)
  from comparisons.round_trip [OF this as(1)] as(2) show "render_rows comparison_xml (read_rows comparison_row s) = s"
    by (auto simp: read_rows_def comparison_text_def render_rows_def)
qed

definition copy_text :: "string list \<Rightarrow> string" where
  "copy_text ts = render_rows copy_term_xml (map (\<lambda>s. [(''Term'', [Val (JStr s)])]) ts)"

interpretation fission_exchange: custom_exchange copy_term_xml "read_rows copy_term_row" "\<lambda>s. s \<in> range copy_text"
proof
  fix s assume "s \<in> range copy_text"
  then obtain ts where ts: "s = copy_text ts" by blast
  have "valid_name ''Reactor''" "\<forall>t\<in>set ts. True" by (simp_all add: element_names)
  from copy_terms.round_trip [OF this] ts show "render_rows copy_term_xml (read_rows copy_term_row s) = s"
    by (auto simp: read_rows_def copy_text_def render_rows_def)
qed

section \<open>Properties\<close>

text \<open>
  The comparisons of a filter reactor that are written into a request are read back by the
  server, and from there by the interface, as the same rows of the grid, whatever their values
  contain.
\<close>

theorem comparisons_round_trip:
  assumes "\<forall>a\<in>set as. comparison_ok a"
  shows "\<exists>kids. read_xml (''<Reactor>'' @ render_rows comparison_xml (map comparison_cells as) @ ''</Reactor>'') = Some (Element ''Reactor'' [] kids) \<and>
     those (map comparison_row kids) = Some (map comparison_cells as)"
  using comparisons.round_trip [of "''Reactor''" as] assms by (simp add: render_rows_def element_names)

theorem comparisons_round_trip_witness:
  "\<exists>kids. read_xml (''<Reactor>'' @ render_rows comparison_xml
       (map comparison_cells [Comparison ''urn:vocab:x#a'' ''exact-match'' (Some ''<&>'') True, Comparison ''urn:vocab:x#b'' ''is-defined'' None False]) @ ''</Reactor>'')
       = Some (Element ''Reactor'' [] kids) \<and>
     length kids = 2"
proof -
  let ?as = "[Comparison ''urn:vocab:x#a'' ''exact-match'' (Some ''<&>'') True, Comparison ''urn:vocab:x#b'' ''is-defined'' None False]"
  have "\<forall>a\<in>set ?as. comparison_ok a" by (simp add: plain_text_def special_def)
  from comparisons_round_trip [OF this] obtain kids where
    k: "read_xml (''<Reactor>'' @ render_rows comparison_xml (map comparison_cells ?as) @ ''</Reactor>'') = Some (Element ''Reactor'' [] kids)"
      "those (map comparison_row kids) = Some (map comparison_cells ?as)" by blast
  have "those xs = Some ys \<Longrightarrow> length xs = length ys" for xs :: "row option list" and ys
    by (induction xs arbitrary: ys) (auto split: option.splits)
  from this [OF k(2)] k(1) show ?thesis by force
qed

text \<open>
  The field mappings of a database reactor come back as the same rows: a custom index keeps
  its definition, and an index that was given explicitly as false stays explicit.
\<close>

theorem mappings_round_trip:
  assumes "\<forall>a\<in>set as. mapping_ok a"
  shows "\<exists>kids. read_xml (''<Reactor>'' @ render_rows field_xml (map mapping_cells as) @ ''</Reactor>'') = Some (Element ''Reactor'' [] kids) \<and>
     kids = map mapping_element as \<and> those (map field_row kids) = Some (map mapping_cells as)"
proof -
  have "valid_name ''Reactor''" by (simp add: element_names)
  from reads_read_xml [OF reads_elem [OF this mappings.reads_all [OF assms]]] mappings.reader_all [OF assms]
  show ?thesis by (simp add: render_rows_def)
qed

theorem mappings_round_trip_witness:
  "\<exists>kids. read_xml (''<Reactor>'' @ render_rows field_xml
       (map mapping_cells [Mapping ''col'' ''urn:vocab:x#a'' (Some ''false'') None, Mapping ''c2'' ''urn:vocab:x#b'' (Some ''a, b'') (Some ''TEXT'')]) @ ''</Reactor>'')
     = Some (Element ''Reactor'' [] kids) \<and> length kids = 2"
  using mappings_round_trip [of "[Mapping ''col'' ''urn:vocab:x#a'' (Some ''false'') None, Mapping ''c2'' ''urn:vocab:x#b'' (Some ''a, b'') (Some ''TEXT'')]"]
  by (fastforce simp: plain_text_def special_def)

text \<open>
  As long as the answer to each save arrives before anything else happens to the reactor,
  a move of a filter reactor never changes its comparisons: the elements it sends are exactly
  those the server has, whatever was edited in the dialog and not saved.
\<close>

theorem moving_keeps_the_comparisons:
  assumes "\<forall>a\<in>set as. comparison_ok a"
    and "x = \<lparr>ex_custom = \<lparr>from_config = Some (comparison_text as), from_store = Some (comparison_text as)\<rparr>,
              ex_server = comparison_text as, ex_answers = 0\<rparr>"
    and "\<forall>rs. Edited rs \<in> set es \<longrightarrow> (\<exists>bs. (\<forall>b\<in>set bs. comparison_ok b) \<and> rs = map comparison_cells bs)"
    and "calm 0 (es @ [Moved])"
  shows "ex_server (exchange_run comparison_xml (read_rows comparison_row) (es @ [Moved]) x) =
         ex_server (exchange_run comparison_xml (read_rows comparison_row) es x)"
proof (rule filter_exchange.moving_keeps)
  have "good_comparisons (comparison_text as)" using assms(1) unfolding good_comparisons_def by blast
  then show "filter_exchange.in_step x" by (simp add: filter_exchange.in_step_def assms(2))
  show "calm (ex_answers x) (es @ [Moved])" using assms(2,4) by simp
  show "filter_exchange.good_edits es"
    using assms(3) unfolding filter_exchange.good_edits_def good_comparisons_def comparison_text_def by blast
qed

theorem moving_keeps_the_comparisons_witness:
  "let c = Comparison ''urn:vocab:x#a'' ''equals'' (Some ''1'') False;
       x = \<lparr>ex_custom = \<lparr>from_config = Some (comparison_text [c]), from_store = Some (comparison_text [c])\<rparr>,
            ex_server = comparison_text [c], ex_answers = 0\<rparr>;
       es = [Opened, Edited [], Saved, Answered, Opened, Edited (map comparison_cells [c, c])]
   in ex_server (exchange_run comparison_xml (read_rows comparison_row) (es @ [Moved]) x) = ex_server (exchange_run comparison_xml (read_rows comparison_row) es x)"
proof -
  let ?c = "Comparison ''urn:vocab:x#a'' ''equals'' (Some ''1'') False"
  let ?x = "\<lparr>ex_custom = \<lparr>from_config = Some (comparison_text [?c]), from_store = Some (comparison_text [?c])\<rparr>,
            ex_server = comparison_text [?c], ex_answers = 0\<rparr>"
  let ?es = "[Opened, Edited [], Saved, Answered, Opened, Edited (map comparison_cells [?c, ?c])]"
  have ok: "comparison_ok ?c" by (simp add: plain_text_def special_def)
  have 1: "\<forall>a\<in>set [?c]. comparison_ok a" using ok by simp
  have 2: "\<forall>rs. Edited rs \<in> set ?es \<longrightarrow> (\<exists>bs. (\<forall>b\<in>set bs. comparison_ok b) \<and> rs = map comparison_cells bs)"
    using ok by (auto intro: exI [of _ "[]"] exI [of _ "[?c, ?c]"])
  have 3: "calm 0 (?es @ [Moved])" by simp
  show ?thesis unfolding Let_def by (rule moving_keeps_the_comparisons [OF 1 refl 2 3])
qed

text \<open>
  Without that order it does: rows edited after Save was pressed, in a dialog that is then
  cancelled, are taken for the saved ones when the answer arrives, and the next move of the
  reactor sends them to the server.
\<close>

theorem late_answer_saves_cancelled_edits:
  "ex_server (exchange_run f rows_of [Saved, Opened, Edited rs, Answered, Moved] x) = render_rows f rs"
  by (simp add: update_from_store_def updateCustomData_def insert_when_moved_def put_text_def)

text \<open>
  The database reactor fills its grid of comparisons from the attributes that are there, so
  its default for \<open>MatchAllValues\<close> is never used: a comparison configured without that element
  is sent back with \<open>undefined\<close> in its place.
\<close>

theorem db_comparison_without_match_all:
  assumes "plain_text t" "plain_text c" "t \<noteq> []"
  shows "\<exists>r. db_comparison_row (Element ''Comparison'' [] [leaf (''Term'', t), leaf (''Type'', c)]) = Some r \<and>
     comparison_xml r = ''<Comparison><Term>'' @ t @ ''</Term><Type>'' @ c @ ''</Type><MatchAllValues>undefined</MatchAllValues></Comparison>''"
proof -
  let ?e = "Element ''Comparison'' [] [leaf (''Term'', t), leaf (''Type'', c)]"
  have "getAttributes None ?e = [''tagName'', ''Term'', ''Type'', ''childNodes'']"
    by (simp add: getAttributes_def object_prototype_def)
  then have "db_comparison_row ?e = Some [(''tagName'', [Val (JStr ''Comparison'')]), (''Term'', [Val (JStr t)]),
      (''Type'', [Val (JStr c)]), (''childNodes'', [Val (JStr t)])]"
    by (simp add: db_comparison_row_def xs_child xs_getValue_def [of _ _ "''tagName''"] xs_getValue_def [of _ _ "''childNodes''"])
  then show ?thesis by (simp add: comparison_xml_def cell_of_def)
qed

theorem db_comparison_without_match_all_witness:
  "\<exists>r. db_comparison_row (Element ''Comparison'' [] [leaf (''Term'', ''urn:vocab:x#a''), leaf (''Type'', ''is-defined'')]) = Some r \<and>
     drop 61 (comparison_xml r) = ''<MatchAllValues>undefined</MatchAllValues></Comparison>''"
  using db_comparison_without_match_all [of "''urn:vocab:x#a''" "''is-defined''"] by (auto simp: plain_text_def special_def)

end
