(* ===== verification/Pion_Transform.thy ===== *)
theory Pion_Transform
  imports Pion_Custom Pion_Csv
begin

text \<open>
  The transformation reactor (\<open>plugins/reactors/TransformReactor.js\<close>): each row of its grid is a
  transformation, whose lookups, rules and regular expressions are lists of objects edited in
  dialogs of their own. Here: reading the rows from the configuration, writing them into a
  request, the dialogs, and what of a row can be edited.
\<close>

section \<open>Reading\<close>

definition need :: "jsval \<Rightarrow> jsval option" where
  "need v = (if v = JUndef then None else Some v)"

definition edit_button :: "string \<Rightarrow> string" where
  "edit_button ty = ''<button dojoType=dijit.form.Button class='' @ [CHR 0x22] @ ''edit'' @ [CHR 0x22] @ ''>edit '' @ ty @ ''</button>''"

text \<open>The objects inside a row; \<open>None\<close> is the exception for a missing part.\<close>

definition lookup_object :: "node \<Rightarrow> cell option" where
  "lookup_object n =
     (case (need (get_xml n ''@key''), need (get_xml n ''text()'')) of
        (Some k, Some v) \<Rightarrow> Some (Obj [(''Key'', k), (''Value'', v)])
      | _ \<Rightarrow> None)"

definition rule_object :: "node \<Rightarrow> cell option" where
  "rule_object n =
     (case (need (get_xml n ''Term''), need (get_xml n ''Type''), need (get_xml n ''SetValue'')) of
        (Some t, Some c, Some s) \<Rightarrow>
          Some (Obj ([(''Term'', t), (''Type'', c), (''SetValue'', s)] @
            (if xs_hasAttribute None n ''Value'' then [(''Value'', get_xml n ''Value'')] else [])))
      | _ \<Rightarrow> None)"

definition regex_object :: "node \<Rightarrow> cell option" where
  "regex_object n =
     (case (need (get_xml n ''text()''), need (get_xml n ''@exp'')) of
        (Some f, Some e) \<Rightarrow> Some (Obj [(''Format'', f), (''Exp'', e)])
      | _ \<Rightarrow> None)"

definition transform_getBool :: "node \<Rightarrow> string \<Rightarrow> bool" where
  "transform_getBool item a =
     (if xs_hasAttribute None item a then sval_toString (xs_getValue None item a SUndef) = Some ''true'' else True)"

definition optional :: "node \<Rightarrow> string \<Rightarrow> jsval option \<Rightarrow> row" where
  "optional n a d = (if xs_hasAttribute None n a then [(a, [Val (get_xml n a)])] else opt_cell a d)"

definition transformation_row :: "node \<Rightarrow> row option" where
  "transformation_row n =
     (let ty = get_xml n ''Type'';
          common = [(''Term'', [Val (get_xml n ''Term'')]), (''Type'', [Val ty])];
          objects = (\<lambda>f a. those (map f (child_elements n a)));
          button = (\<lambda>k. (''Value'', [Val (JStr (edit_button k))])) in
      if ty = JStr ''Lookup'' then
        map_option (\<lambda>os. common @ [button ''Lookup'', (''LookupTerm'', [Val (get_xml n ''LookupTerm'')])] @
            optional n ''Match'' None @ optional n ''Format'' None @
            optional n ''DefaultAction'' (Some (JStr ''leave-undefined'')) @ optional n ''DefaultValue'' None @ [(''Lookup'', os)])
          (objects lookup_object ''Lookup'')
      else if ty = JStr ''Rules'' then
        map_option (\<lambda>os. common @ [button ''Rules'', (''StopOnFirstMatch'', [Val (JBool (transform_getBool n ''StopOnFirstMatch''))]), (''Rule'', os)])
          (objects rule_object ''Rule'')
      else if ty = JStr ''Regex'' then
        map_option (\<lambda>os. common @ [button ''Regex'', (''SourceTerm'', [Val (get_xml n ''SourceTerm'')]), (''Regex'', os)])
          (objects regex_object ''Regex'')
      else if ty = JStr ''JoinTerm'' \<or> ty = JStr ''SplitTerm'' then
        (case child_elements n ''Value'' of
           [] \<Rightarrow> None
         | v # _ \<Rightarrow>
             Some ([(''Term'', [Val (get_xml n ''Term'')]),
                    (''Type'', [Val (if ty = JStr ''JoinTerm'' \<and> get_xml v ''@uniq'' = JStr ''true'' then JStr ''JoinTerm (unique)'' else ty)]),
                    (''Value'', [Val (JStr (item_string v))]), (''Sep'', [Val (get_xml v ''@sep'')])]))
      else Some (common @ [(''Value'', [Val (get_xml n ''Value'')])]))"

section \<open>Writing\<close>

text \<open>\<open>makeXmlLeafElementFromItem\<close> on a row; \<open>toString\<close> of undefined is an exception.\<close>

definition leaf_from_row :: "row \<Rightarrow> string \<Rightarrow> string option" where
  "leaf_from_row r a =
     (if row_has r a then
        map_option (\<lambda>v. if js_string v = [] then [] else makeXmlLeafElement a (JStr (js_string v))) (need (cell_of r a))
      else Some [])"

definition prop_of :: "cell \<Rightarrow> string \<Rightarrow> jsval" where
  "prop_of c k = (case c of Obj ob \<Rightarrow> (case obj_get ob k of Some v \<Rightarrow> v | None \<Rightarrow> JUndef) | Val _ \<Rightarrow> JUndef)"

definition has_prop :: "cell \<Rightarrow> string \<Rightarrow> bool" where
  "has_prop c k = (case c of Obj ob \<Rightarrow> obj_has ob k | Val _ \<Rightarrow> False)"

definition lookup_xml :: "cell \<Rightarrow> string" where
  "lookup_xml c =
     ''<Lookup key='' @ [CHR 0x22] @ escapeXml (prop_of c ''Key'') @ [CHR 0x22] @ ''>'' @ escapeXml (prop_of c ''Value'') @ ''</Lookup>''"

definition rule_xml :: "cell \<Rightarrow> string" where
  "rule_xml c =
     ''<Rule>'' @ makeXmlLeafElement ''Term'' (prop_of c ''Term'') @ makeXmlLeafElement ''Type'' (prop_of c ''Type'') @
     (if has_prop c ''Value'' then makeXmlLeafElement ''Value'' (prop_of c ''Value'') else []) @
     makeXmlLeafElement ''SetValue'' (prop_of c ''SetValue'') @ ''</Rule>''"

definition regex_xml :: "cell \<Rightarrow> string" where
  "regex_xml c =
     ''<Regex exp='' @ [CHR 0x22] @ escapeXml (prop_of c ''Exp'') @ [CHR 0x22] @ ''>'' @ escapeXml (prop_of c ''Format'') @ ''</Regex>''"

definition sep_xml :: "string \<Rightarrow> row \<Rightarrow> string" where
  "sep_xml uniq r =
     ''<Value sep='' @ [CHR 0x22] @ escapeXml (cell_of r ''Sep'') @ [CHR 0x22] @ uniq @ ''>'' @ escapeXml (cell_of r ''Value'') @ ''</Value>''"

definition stop_on_first :: "row \<Rightarrow> bool" where
  "stop_on_first r = (if row_has r ''StopOnFirstMatch'' then js_string (cell_of r ''StopOnFirstMatch'') = ''true'' else True)"

definition transformation_body :: "row \<Rightarrow> string option" where
  "transformation_body r =
     (let ty = cell_of r ''Type'' in
      if ty = JStr ''Lookup'' then
        map_option (\<lambda>ls. ''<Type>Lookup</Type>'' @ concat ls @ concat (map lookup_xml (row_values r ''Lookup'')))
          (those (map (leaf_from_row r) [''LookupTerm'', ''Match'', ''Format'', ''DefaultAction'', ''DefaultValue'']))
      else if ty = JStr ''Rules'' then
        Some (''<Type>Rules</Type>'' @ makeXmlLeafElement ''StopOnFirstMatch'' (JStr (bool_text (stop_on_first r))) @
          concat (map rule_xml (row_values r ''Rule'')))
      else if ty = JStr ''Regex'' then
        Some (''<Type>Regex</Type>'' @ makeXmlLeafElement ''SourceTerm'' (cell_of r ''SourceTerm'') @
          concat (map regex_xml (row_values r ''Regex'')))
      else if ty = JStr ''JoinTerm'' then Some (''<Type>JoinTerm</Type>'' @ sep_xml [] r)
      else if ty = JStr ''JoinTerm (unique)'' then Some (''<Type>JoinTerm</Type>'' @ sep_xml (quoted_attr ''uniq'' ''true'') r)
      else if ty = JStr ''SplitTerm'' then Some (''<Type>SplitTerm</Type>'' @ sep_xml [] r)
      else Some (''<Type>'' @ js_string ty @ ''</Type>'' @ makeXmlLeafElement ''Value'' (cell_of r ''Value'')))"

definition transformation_xml :: "row \<Rightarrow> string option" where
  "transformation_xml r =
     map_option (\<lambda>b. ''<Transformation><Term>'' @ js_string (cell_of r ''Term'') @ ''</Term>'' @ b @ ''</Transformation>'')
       (transformation_body r)"

section \<open>The dialogs\<close>

text \<open>
  \<open>populate\<close> of the grids of the three dialogs: the objects become rows. \<open>execute\<close>: the rows
  become objects again and go, with the fields of the dialog, into the transformation.
\<close>

definition object_row :: "cell \<Rightarrow> row" where
  "object_row c = (case c of Obj ob \<Rightarrow> map (\<lambda>(k, v). (k, [Val v])) ob | Val _ \<Rightarrow> [])"

definition populate_objects :: "string \<Rightarrow> row \<Rightarrow> grid option" where
  "populate_objects a r = grid_adds (map object_row (row_values r a)) empty_grid"

definition lookup_objects :: "grid \<Rightarrow> cell list" where
  "lookup_objects g = map (\<lambda>r. Obj [(''Key'', cell_of r ''Key''), (''Value'', cell_of r ''Value'')]) (grid_rows g)"

definition rule_objects :: "grid \<Rightarrow> cell list" where
  "rule_objects g =
     map (\<lambda>r. Obj ([(''Term'', cell_of r ''Term''), (''Type'', cell_of r ''Type''), (''SetValue'', cell_of r ''SetValue'')] @
            (if row_has r ''Value'' then [(''Value'', cell_of r ''Value'')] else []))) (grid_rows g)"

definition regex_objects :: "grid \<Rightarrow> cell list" where
  "regex_objects g = map (\<lambda>r. Obj [(''Exp'', cell_of r ''Exp''), (''Format'', cell_of r ''Format'')]) (grid_rows g)"

fun set_fields :: "string \<Rightarrow> (string \<times> jsval) list \<Rightarrow> istore \<Rightarrow> istore option" where
  "set_fields i [] s = Some s"
| "set_fields i ((k, v) # fs) s = Option.bind (setValue i k (Val v) s) (set_fields i fs)"

definition execute_lookup :: "string \<Rightarrow> (string \<times> jsval) list \<Rightarrow> grid \<Rightarrow> istore \<Rightarrow> istore option" where
  "execute_lookup i dialogFields g s =
     Option.bind (setValues i ''Lookup'' (lookup_objects g) s) (set_fields i dialogFields)"

definition execute_rules :: "string \<Rightarrow> string list \<Rightarrow> grid \<Rightarrow> istore \<Rightarrow> istore option" where
  "execute_rules i options g s =
     Option.bind (setValue i ''StopOnFirstMatch'' (Val (JBool (''StopOnFirstMatch'' \<in> set options))) s)
       (setValues i ''Rule'' (rule_objects g))"

definition execute_regex :: "string \<Rightarrow> jsval \<Rightarrow> grid \<Rightarrow> istore \<Rightarrow> istore option" where
  "execute_regex i source_term g s =
     Option.bind (setValue i ''SourceTerm'' (Val source_term) s) (setValues i ''Regex'' (regex_objects g))"

section \<open>Editing a row\<close>

text \<open>After the type of a row has changed: the value is a button or nothing. Also the columns.\<close>

definition onApplyCellEdit :: "string \<Rightarrow> string \<Rightarrow> string \<Rightarrow> istore \<Rightarrow> (istore \<times> (bool \<times> bool) option) option" where
  "onApplyCellEdit i v pre_edit_type s =
     (if v \<noteq> pre_edit_type then
        map_option (\<lambda>t. (t, Some (v \<noteq> ''AssignTerm'', v = ''AssignTerm'')))
          (if v = ''Lookup'' \<or> v = ''Rules'' \<or> v = ''Regex''
           then setValue i ''Value'' (Val (JStr (edit_button v))) s else unsetAttribute i ''Value'' s)
      else Some (s, None))"

text \<open>
  \<open>canEdit\<close>, with the columns that are visible (text column, term column): the answer and the
  columns afterwards.
\<close>

definition canEdit_transformation :: "string \<Rightarrow> string \<Rightarrow> bool \<times> bool \<Rightarrow> bool \<times> (bool \<times> bool)" where
  "canEdit_transformation fld ty cols =
     (if fld = ''Value'' then
        (if ty = ''AssignValue'' then (if fst cols then (True, cols) else (False, (True, False)))
         else if ty \<in> set [''AssignTerm'', ''JoinTerm'', ''JoinTerm (unique)'', ''SplitTerm'', ''URLEncode'', ''URLDecode'']
         then (if snd cols then (True, cols) else (False, (False, True)))
         else (False, cols))
      else if fld = ''Sep'' then (ty \<in> set [''JoinTerm'', ''JoinTerm (unique)'', ''SplitTerm''], cols)
      else (True, cols))"

definition new_transformation :: row where
  "new_transformation =
     [(''MatchAllValues'', [Val (JBool False)]), (''Type'', [Val (JStr ''AssignValue'')]), (''InPlace'', [Val (JBool True)])]"

section \<open>What a transformation says\<close>

text \<open>
  The objects inside a row: the pairs of a lookup, the rules with their optional value, the
  regular expressions with their formats.
\<close>

definition pair_cell :: "string \<times> string \<Rightarrow> cell" where
  "pair_cell p = Obj [(''Key'', JStr (fst p)), (''Value'', JStr (snd p))]"

definition pair_element :: "string \<times> string \<Rightarrow> node" where
  "pair_element p = Element ''Lookup'' [(''key'', fst p)] (text_nodes (snd p))"

datatype rule = Rule string string "string option" string

fun rule_cell :: "rule \<Rightarrow> cell" where
  "rule_cell (Rule t c v s) =
     Obj ([(''Term'', JStr t), (''Type'', JStr c), (''SetValue'', JStr s)] @ (case v of None \<Rightarrow> [] | Some x \<Rightarrow> [(''Value'', JStr x)]))"

fun rule_element :: "rule \<Rightarrow> node" where
  "rule_element (Rule t c v s) =
     Element ''Rule'' [] ([leaf (''Term'', t), leaf (''Type'', c)] @ opt_leaf ''Value'' v @ [leaf (''SetValue'', s)])"

definition regex_cell :: "string \<times> string \<Rightarrow> cell" where
  "regex_cell p = Obj [(''Format'', JStr (snd p)), (''Exp'', JStr (fst p))]"

definition regex_element :: "string \<times> string \<Rightarrow> node" where
  "regex_element p = Element ''Regex'' [(''exp'', fst p)] (text_nodes (snd p))"

definition both_given :: "string \<times> string \<Rightarrow> bool" where
  "both_given p = (fst p \<noteq> [] \<and> snd p \<noteq> [])"

lemma reads_leaf_one_attr:
  assumes "valid_name t" "valid_name a"
  shows "reads (''<'' @ t @ '' '' @ a @ ''='' @ [CHR 0x22] @ escape_chain k @ [CHR 0x22] @ ''>'' @ escape_chain v @ ''</'' @ t @ ''>'')
     [Element t [(a, k)] (text_nodes v)]"
  using reads_leaf_attrs [OF assms(1), of "[(a, k)]" v] assms(2) by simp

lemma reads_pair: "reads (lookup_xml (pair_cell p)) [pair_element p]"
proof -
  have "valid_name ''Lookup''" "valid_name ''key''" by (simp_all add: element_names)
  from reads_leaf_one_attr [OF this, of "fst p" "snd p"] show ?thesis
    by (simp add: lookup_xml_def pair_cell_def pair_element_def prop_of_def escapeXml_string)
qed

interpretation lookups: element_codec lookup_xml lookup_object pair_cell pair_element both_given
proof
  fix p :: "string \<times> string" assume p: "both_given p"
  show "reads (lookup_xml (pair_cell p)) [pair_element p]" by (rule reads_pair)
  show "lookup_object (pair_element p) = Some (pair_cell p)"
    using p by (simp add: lookup_object_def pair_cell_def pair_element_def both_given_def xs_attr xs_text attribute_js_def need_def)
qed

lemma reads_regex: "reads (regex_xml (regex_cell p)) [regex_element p]"
proof -
  have "valid_name ''Regex''" "valid_name ''exp''" by (simp_all add: element_names)
  from reads_leaf_one_attr [OF this, of "fst p" "snd p"] show ?thesis
    by (simp add: regex_xml_def regex_cell_def regex_element_def prop_of_def escapeXml_string)
qed

interpretation regexes: element_codec regex_xml regex_object regex_cell regex_element both_given
proof
  fix p :: "string \<times> string" assume p: "both_given p"
  show "reads (regex_xml (regex_cell p)) [regex_element p]" by (rule reads_regex)
  show "regex_object (regex_element p) = Some (regex_cell p)"
    using p by (simp add: regex_object_def regex_cell_def regex_element_def both_given_def xs_attr xs_text attribute_js_def need_def)
qed

interpretation rules: element_codec rule_xml rule_object rule_cell rule_element "\<lambda>_. True"
proof
  fix a :: rule
  obtain t c v s where a: "a = Rule t c v s" by (cases a)
  have n: "valid_name ''Rule''" "valid_name ''Term''" "valid_name ''Type''" "valid_name ''Value''" "valid_name ''SetValue''"
    by (simp_all add: element_names)
  note reads_elem [OF n(1) reads_Cons [OF reads_makeLeaf [OF n(2), of t] reads_Cons [OF reads_makeLeaf [OF n(3), of c]
      reads_append [OF reads_opt_leaf [OF n(4), of v] reads_makeLeaf [OF n(5), of s]]]]]
  then show "reads (rule_xml (rule_cell a)) [rule_element a]"
    by (cases v) (simp_all add: a rule_xml_def prop_of_def has_prop_def obj_has_def opt_leaf_def)
  show "rule_object (rule_element a) = Some (rule_cell a)"
    by (cases v) (simp_all add: a rule_object_def need_def xs_child opt_leaf_def xs_hasAttribute_def)
qed

text \<open>A row: its term and what is done with it.\<close>

datatype change =
    Lookup string "string option" "string option" string "string option" "(string \<times> string) list"
  | Rules bool "rule list"
  | Regex string "(string \<times> string) list"
  | JoinTerm bool string string
  | SplitTerm string string
  | Other string string

datatype transformation = Transformation string change

definition value_element :: "string \<Rightarrow> (string \<times> string) list \<Rightarrow> string \<Rightarrow> node" where
  "value_element sep as v = Element ''Value'' ((''sep'', sep) # as) (text_nodes v)"

fun change_elements :: "change \<Rightarrow> node list" where
  "change_elements (Lookup lt m f a d ps) =
     [leaf (''Type'', ''Lookup''), leaf (''LookupTerm'', lt)] @ opt_leaf ''Match'' m @ opt_leaf ''Format'' f @
     [leaf (''DefaultAction'', a)] @ opt_leaf ''DefaultValue'' d @ map pair_element ps"
| "change_elements (Rules b rs) = [leaf (''Type'', ''Rules''), leaf (''StopOnFirstMatch'', bool_text b)] @ map rule_element rs"
| "change_elements (Regex st es) = [leaf (''Type'', ''Regex''), leaf (''SourceTerm'', st)] @ map regex_element es"
| "change_elements (JoinTerm u sep v) =
     [leaf (''Type'', ''JoinTerm''), value_element sep (if u then [(''uniq'', ''true'')] else []) v]"
| "change_elements (SplitTerm sep v) = [leaf (''Type'', ''SplitTerm''), value_element sep [] v]"
| "change_elements (Other ty v) = [leaf (''Type'', ty), leaf (''Value'', v)]"

fun transformation_element :: "transformation \<Rightarrow> node" where
  "transformation_element (Transformation t c) = Element ''Transformation'' [] (leaf (''Term'', t) # change_elements c)"

definition text_cell :: "string \<Rightarrow> string \<Rightarrow> row" where
  "text_cell a s = [(a, [Val (JStr s)])]"

fun change_cells :: "change \<Rightarrow> row" where
  "change_cells (Lookup lt m f a d ps) =
     text_cell ''Type'' ''Lookup'' @ text_cell ''Value'' (edit_button ''Lookup'') @ text_cell ''LookupTerm'' lt @
     opt_cell ''Match'' (map_option JStr m) @ opt_cell ''Format'' (map_option JStr f) @ text_cell ''DefaultAction'' a @
     opt_cell ''DefaultValue'' (map_option JStr d) @ [(''Lookup'', map pair_cell ps)]"
| "change_cells (Rules b rs) =
     text_cell ''Type'' ''Rules'' @ text_cell ''Value'' (edit_button ''Rules'') @
     [(''StopOnFirstMatch'', [Val (JBool b)]), (''Rule'', map rule_cell rs)]"
| "change_cells (Regex st es) =
     text_cell ''Type'' ''Regex'' @ text_cell ''Value'' (edit_button ''Regex'') @ text_cell ''SourceTerm'' st @
     [(''Regex'', map regex_cell es)]"
| "change_cells (JoinTerm u sep v) =
     text_cell ''Type'' (if u then ''JoinTerm (unique)'' else ''JoinTerm'') @ text_cell ''Value'' v @ text_cell ''Sep'' sep"
| "change_cells (SplitTerm sep v) = text_cell ''Type'' ''SplitTerm'' @ text_cell ''Value'' v @ text_cell ''Sep'' sep"
| "change_cells (Other ty v) = text_cell ''Type'' ty @ text_cell ''Value'' v"

fun transformation_cells :: "transformation \<Rightarrow> row" where
  "transformation_cells (Transformation t c) = text_cell ''Term'' t @ change_cells c"

text \<open>What the text can carry: parts that may not be empty, and texts written without escaping.\<close>

definition given :: "string option \<Rightarrow> bool" where
  "given v = (v \<noteq> Some [])"

fun change_sendable :: "change \<Rightarrow> bool" where
  "change_sendable (Lookup lt m f a d ps) = (lt \<noteq> [] \<and> given m \<and> given f \<and> a \<noteq> [] \<and> given d)"
| "change_sendable (Other ty v) =
     (plain_text ty \<and> ty \<notin> set [''Lookup'', ''Rules'', ''Regex'', ''JoinTerm'', ''JoinTerm (unique)'', ''SplitTerm''])"
| "change_sendable _ = True"

fun change_readable :: "change \<Rightarrow> bool" where
  "change_readable (Lookup lt m f a d ps) = (\<forall>p\<in>set ps. both_given p)"
| "change_readable (Regex st es) = (\<forall>p\<in>set es. both_given p)"
| "change_readable (JoinTerm u sep v) = (sep \<noteq> [])"
| "change_readable (SplitTerm sep v) = (sep \<noteq> [])"
| "change_readable _ = True"

fun sendable :: "transformation \<Rightarrow> bool" where
  "sendable (Transformation t c) = (plain_text t \<and> change_sendable c)"

fun readable :: "transformation \<Rightarrow> bool" where
  "readable (Transformation t c) = change_readable c"

definition transformation_ok :: "transformation \<Rightarrow> bool" where
  "transformation_ok a = (sendable a \<and> readable a)"

lemma child_elements_cons:
  "child_elements (Element t as (n # ns)) a = (if is_element n \<and> nodeName n = a then [n] else []) @ child_elements (Element t as ns) a"
  by (simp add: child_elements_def)

lemma child_elements_append: "child_elements (Element t as (ms @ ns)) a = child_elements (Element t as ms) a @ child_elements (Element t as ns) a"
  by (simp add: child_elements_def)

lemma child_elements_opt_leaf: "child_elements (Element t as (opt_leaf b v)) a = (if a = b then opt_leaf b v else [])"
  by (auto simp: child_elements_def opt_leaf_def split: option.splits)

lemma child_elements_map:
  "(\<And>x. is_element (f x) \<and> nodeName (f x) = b) \<Longrightarrow>
   child_elements (Element t as (map f xs)) a = (if a = b then map f xs else [])"
  by (induction xs) (auto simp: child_elements_def)

lemma element_shapes [simp]:
  "is_element (pair_element p)" "nodeName (pair_element p) = ''Lookup''"
  "is_element (regex_element p)" "nodeName (regex_element p) = ''Regex''"
  "is_element (rule_element r)" "nodeName (rule_element r) = ''Rule''"
  "is_element (value_element sep as v)" "nodeName (value_element sep as v) = ''Value''"
  by (simp_all add: pair_element_def regex_element_def value_element_def is_element_def) (cases r; simp add: is_element_def)+

lemmas child_simps = child_elements_cons child_elements_append child_elements_opt_leaf
  child_elements_map [of pair_element "''Lookup''", OF conjI, OF element_shapes(1,2)]
  child_elements_map [of regex_element "''Regex''", OF conjI, OF element_shapes(3,4)]
  child_elements_map [of rule_element "''Rule''", OF conjI, OF element_shapes(5,6)]

lemma child_elements_nil [simp]: "child_elements (Element t as []) a = []"
  by (simp add: child_elements_def)

lemma xs_children:
  assumes "\<not> starts_with ''@'' a" "a \<noteq> ''tagName''" "a \<noteq> ''childNodes''" "a \<noteq> ''text()''"
  shows "xs_getValue None n a d = first_or (map SItem (child_elements n a)) d"
  using assms by (simp add: xs_getValue_def getAttributeName_def)

definition element_name :: "string \<Rightarrow> bool" where
  "element_name a = (\<not> starts_with ''@'' a \<and> a \<noteq> ''tagName'' \<and> a \<noteq> ''childNodes'' \<and> a \<noteq> ''text()'')"

lemma get_child:
  "element_name a \<Longrightarrow> get_xml n a = (case child_elements n a of [] \<Rightarrow> JUndef | e # es \<Rightarrow> JStr (item_string e))"
  by (simp add: element_name_def xs_children attribute_js_def first_or_def split: list.splits)

lemma optional_leaf:
  "element_name a \<Longrightarrow> child_elements n a = opt_leaf a v \<Longrightarrow> optional n a None = opt_cell a (map_option JStr v)"
  by (cases v) (simp_all add: element_name_def optional_def xs_hasAttribute_def xs_children opt_leaf_def opt_cell_def)

lemma optional_given:
  "element_name a \<Longrightarrow> child_elements n a = [leaf (a, s)] \<Longrightarrow> optional n a d = [(a, [Val (JStr s)])]"
  by (simp add: element_name_def optional_def xs_hasAttribute_def xs_children)

lemma getBool_leaf:
  "element_name a \<Longrightarrow> child_elements n a = [leaf (a, bool_text b)] \<Longrightarrow> transform_getBool n a = b"
  by (simp add: element_name_def transform_getBool_def xs_hasAttribute_def xs_children bool_text_def)

lemma value_reads_back:
  "get_xml (value_element sep as v) ''@sep'' = (if sep \<noteq> [] then JStr sep else JUndef)"
  "get_xml (value_element sep [(''uniq'', ''true'')] v) ''@uniq'' = JStr ''true''"
  "get_xml (value_element sep [] v) ''@uniq'' = JUndef"
  "item_string (value_element sep as v) = v"
  by (simp_all add: value_element_def xs_attr attribute_js_def item_string_def text_nodes_def node_text_def is_text_def)

definition element_of :: "string \<Rightarrow> node list \<Rightarrow> node" where
  "element_of t ns = Element ''Transformation'' [] (leaf (''Term'', t) # ns)"

lemma lookup_reads_back:
  assumes "\<forall>p\<in>set ps. both_given p"
  shows "transformation_row (element_of t (change_elements (Lookup lt m f a d ps))) =
     Some (text_cell ''Term'' t @ change_cells (Lookup lt m f a d ps))"
proof -
  let ?n = "element_of t (change_elements (Lookup lt m f a d ps))"
  have "optional ?n ''Match'' None = opt_cell ''Match'' (map_option JStr m)"
    "optional ?n ''Format'' None = opt_cell ''Format'' (map_option JStr f)"
    "optional ?n ''DefaultValue'' None = opt_cell ''DefaultValue'' (map_option JStr d)"
    "optional ?n ''DefaultAction'' (Some (JStr ''leave-undefined'')) = [(''DefaultAction'', [Val (JStr a)])]"
    by (auto intro!: optional_leaf optional_given simp: element_name_def element_of_def child_simps)
  moreover have "get_xml ?n ''Term'' = JStr t" "get_xml ?n ''Type'' = JStr ''Lookup''" "get_xml ?n ''LookupTerm'' = JStr lt"
    "child_elements ?n ''Lookup'' = map pair_element ps"
    by (simp_all add: get_child element_name_def element_of_def child_simps)
  ultimately show ?thesis
    using lookups.reader_all [OF assms] by (simp add: transformation_row_def text_cell_def)
qed

lemma rules_reads_back:
  "transformation_row (element_of t (change_elements (Rules b rs))) = Some (text_cell ''Term'' t @ change_cells (Rules b rs))"
proof -
  let ?n = "element_of t (change_elements (Rules b rs))"
  have "transform_getBool ?n ''StopOnFirstMatch'' = b"
    by (intro getBool_leaf) (simp_all add: element_name_def element_of_def child_simps)
  moreover have "get_xml ?n ''Term'' = JStr t" "get_xml ?n ''Type'' = JStr ''Rules''"
    "child_elements ?n ''Rule'' = map rule_element rs"
    by (simp_all add: get_child element_name_def element_of_def child_simps)
  ultimately show ?thesis
    using rules.reader_all [of rs] by (simp add: transformation_row_def text_cell_def)
qed

lemma regex_reads_back:
  assumes "\<forall>p\<in>set es. both_given p"
  shows "transformation_row (element_of t (change_elements (Regex st es))) = Some (text_cell ''Term'' t @ change_cells (Regex st es))"
proof -
  let ?n = "element_of t (change_elements (Regex st es))"
  have "get_xml ?n ''Term'' = JStr t" "get_xml ?n ''Type'' = JStr ''Regex''" "get_xml ?n ''SourceTerm'' = JStr st"
    "child_elements ?n ''Regex'' = map regex_element es"
    by (simp_all add: get_child element_name_def element_of_def child_simps)
  then show ?thesis
    using regexes.reader_all [OF assms] by (simp add: transformation_row_def text_cell_def)
qed

lemma others_read_back:
  "sep \<noteq> [] \<Longrightarrow> transformation_row (element_of t (change_elements (JoinTerm u sep v))) =
     Some (text_cell ''Term'' t @ change_cells (JoinTerm u sep v))"
  "sep \<noteq> [] \<Longrightarrow> transformation_row (element_of t (change_elements (SplitTerm sep v))) =
     Some (text_cell ''Term'' t @ change_cells (SplitTerm sep v))"
  "change_sendable (Other ty v) \<Longrightarrow> transformation_row (element_of t (change_elements (Other ty v))) =
     Some (text_cell ''Term'' t @ change_cells (Other ty v))"
  by (simp_all add: transformation_row_def get_child element_name_def element_of_def child_simps value_reads_back text_cell_def)

lemma transformation_reads_back:
  assumes "transformation_ok a"
  shows "transformation_row (transformation_element a) = Some (transformation_cells a)"
proof -
  obtain t c where a: "a = Transformation t c" by (cases a)
  have ok: "change_sendable c" "change_readable c" using assms by (simp_all add: a transformation_ok_def)
  have "transformation_row (element_of t (change_elements c)) = Some (text_cell ''Term'' t @ change_cells c)"
  proof (cases c)
    case (Lookup lt m f b d ps)
    with ok show ?thesis using lookup_reads_back [of ps] by simp
  next
    case (Rules b rs)
    then show ?thesis by (simp only: rules_reads_back)
  next
    case (Regex st es)
    with ok show ?thesis using regex_reads_back [of es] by simp
  next
    case (JoinTerm u sep v)
    with ok show ?thesis using others_read_back(1) [of sep] by simp
  next
    case (SplitTerm sep v)
    with ok show ?thesis using others_read_back(2) [of sep] by simp
  next
    case (Other ty v)
    with ok show ?thesis using others_read_back(3) [of ty] by simp
  qed
  then show ?thesis by (simp add: a element_of_def)
qed

text \<open>Writing.\<close>

lemma leaf_from_row_text:
  "row_has r a \<Longrightarrow> cell_of r a = JStr s \<Longrightarrow> s \<noteq> [] \<Longrightarrow> leaf_from_row r a = Some (makeXmlLeafElement a (JStr s))"
  by (simp add: leaf_from_row_def need_def)

lemma leaf_from_row_none: "\<not> row_has r a \<Longrightarrow> leaf_from_row r a = Some []"
  by (simp add: leaf_from_row_def)

definition opt_leaf_text :: "string \<Rightarrow> string option \<Rightarrow> string" where
  "opt_leaf_text a v = (case v of None \<Rightarrow> [] | Some s \<Rightarrow> makeXmlLeafElement a (JStr s))"

lemma row_append [simp]:
  "row_has (r @ r') a = (row_has r a \<or> row_has r' a)"
  "cell_of (r @ r') a = (if row_has r a then cell_of r a else cell_of r' a)"
  "row_values (r @ r') a = (if row_has r a then row_values r a else row_values r' a)"
  by (auto simp: cell_of_def row_has_def row_values_def row_value_def obj_has_iff obj_get_append split: option.splits)

lemma cell_of_cons [simp]: "cell_of ((a, v # vs) # r) b = (if b = a then cell_js v else cell_of r b)" "cell_of [] b = JUndef"
  by (simp_all add: cell_of_def)

lemma row_text [simp]:
  "row_has (text_cell b s) a = (a = b)" "cell_of (text_cell b s) b = JStr s"
  "row_has (opt_cell b v) a = (a = b \<and> v \<noteq> None)" "cell_of (opt_cell b (Some x)) b = x"
  by (auto simp: text_cell_def opt_cell_def split: option.splits)

lemma leaf_from_opt:
  "given v \<Longrightarrow> (row_has r a \<longleftrightarrow> v \<noteq> None) \<Longrightarrow> (\<And>s. v = Some s \<Longrightarrow> cell_of r a = JStr s) \<Longrightarrow>
   leaf_from_row r a = Some (opt_leaf_text a v)"
  by (cases v) (simp_all add: given_def opt_leaf_text_def leaf_from_row_text leaf_from_row_none)

lemma reads_opt_text: "valid_name a \<Longrightarrow> reads (opt_leaf_text a v) (opt_leaf a v)"
  using reads_opt_leaf [of a v] by (simp add: opt_leaf_text_def)

definition change_text :: "change \<Rightarrow> string" where
  "change_text c =
     (case c of
        Lookup lt m f a d ps \<Rightarrow>
          ''<Type>Lookup</Type>'' @ makeXmlLeafElement ''LookupTerm'' (JStr lt) @ opt_leaf_text ''Match'' m @ opt_leaf_text ''Format'' f @
          makeXmlLeafElement ''DefaultAction'' (JStr a) @ opt_leaf_text ''DefaultValue'' d @ concat (map lookup_xml (map pair_cell ps))
      | Rules b rs \<Rightarrow>
          ''<Type>Rules</Type>'' @ makeXmlLeafElement ''StopOnFirstMatch'' (JStr (bool_text b)) @ concat (map rule_xml (map rule_cell rs))
      | Regex st es \<Rightarrow>
          ''<Type>Regex</Type>'' @ makeXmlLeafElement ''SourceTerm'' (JStr st) @ concat (map regex_xml (map regex_cell es))
      | JoinTerm u sep v \<Rightarrow> ''<Type>JoinTerm</Type>'' @ sep_xml (if u then quoted_attr ''uniq'' ''true'' else []) (text_cell ''Value'' v @ text_cell ''Sep'' sep)
      | SplitTerm sep v \<Rightarrow> ''<Type>SplitTerm</Type>'' @ sep_xml [] (text_cell ''Value'' v @ text_cell ''Sep'' sep)
      | Other ty v \<Rightarrow> ''<Type>'' @ ty @ ''</Type>'' @ makeXmlLeafElement ''Value'' (JStr v))"

lemma lookup_body:
  assumes "change_sendable (Lookup lt m f a d ps)"
  shows "transformation_body (transformation_cells (Transformation t (Lookup lt m f a d ps))) = Some (change_text (Lookup lt m f a d ps))"
proof -
  let ?r = "transformation_cells (Transformation t (Lookup lt m f a d ps))"
  have "leaf_from_row ?r ''LookupTerm'' = Some (makeXmlLeafElement ''LookupTerm'' (JStr lt))"
    "leaf_from_row ?r ''DefaultAction'' = Some (makeXmlLeafElement ''DefaultAction'' (JStr a))"
    using assms by (auto intro!: leaf_from_row_text)
  moreover have "leaf_from_row ?r ''Match'' = Some (opt_leaf_text ''Match'' m)"
    "leaf_from_row ?r ''Format'' = Some (opt_leaf_text ''Format'' f)"
    "leaf_from_row ?r ''DefaultValue'' = Some (opt_leaf_text ''DefaultValue'' d)"
    using assms by (auto intro!: leaf_from_opt)
  moreover have "cell_of ?r ''Type'' = JStr ''Lookup''" "row_values ?r ''Lookup'' = map pair_cell ps" by simp_all
  ultimately show ?thesis by (simp add: transformation_body_def change_text_def Let_def del: transformation_cells.simps)
qed

lemma change_body:
  assumes "change_sendable c"
  shows "transformation_body (transformation_cells (Transformation t c)) = Some (change_text c)"
proof (cases c)
  case Lookup
  with assms show ?thesis by (simp only: lookup_body)
next
  case (Rules b rs)
  let ?r = "transformation_cells (Transformation t c)"
  have "cell_of ?r ''Type'' = JStr ''Rules''" "stop_on_first ?r = b" "row_values ?r ''Rule'' = map rule_cell rs"
    by (simp_all add: Rules stop_on_first_def bool_text_def)
  then show ?thesis by (simp add: transformation_body_def change_text_def Rules del: transformation_cells.simps)
next
  case (Regex st es)
  let ?r = "transformation_cells (Transformation t c)"
  have "cell_of ?r ''Type'' = JStr ''Regex''" "cell_of ?r ''SourceTerm'' = JStr st" "row_values ?r ''Regex'' = map regex_cell es"
    by (simp_all add: Regex)
  then show ?thesis by (simp add: transformation_body_def change_text_def Regex del: transformation_cells.simps)
qed (use assms in \<open>simp_all add: transformation_body_def change_text_def sep_xml_def\<close>)

lemma reads_type: "plain_text ty \<Longrightarrow> reads (''<Type>'' @ ty @ ''</Type>'') [leaf (''Type'', ty)]"
  using reads_plain_leaf [of "''Type''" ty] by (simp add: element_names)

lemma reads_named_leaf:
  "reads (makeXmlLeafElement ''LookupTerm'' (JStr s)) [leaf (''LookupTerm'', s)]"
  "reads (makeXmlLeafElement ''DefaultAction'' (JStr s)) [leaf (''DefaultAction'', s)]"
  "reads (makeXmlLeafElement ''StopOnFirstMatch'' (JStr s)) [leaf (''StopOnFirstMatch'', s)]"
  "reads (makeXmlLeafElement ''SourceTerm'' (JStr s)) [leaf (''SourceTerm'', s)]"
  "reads (makeXmlLeafElement ''Value'' (JStr s)) [leaf (''Value'', s)]"
  "reads (opt_leaf_text ''Match'' v) (opt_leaf ''Match'' v)"
  "reads (opt_leaf_text ''Format'' v) (opt_leaf ''Format'' v)"
  "reads (opt_leaf_text ''DefaultValue'' v) (opt_leaf ''DefaultValue'' v)"
  by (rule reads_makeLeaf reads_opt_text; simp add: element_names)+

lemma reads_value:
  "reads (sep_xml [] (text_cell ''Value'' v @ text_cell ''Sep'' sep)) [value_element sep [] v]"
  "reads (sep_xml (quoted_attr ''uniq'' ''true'') (text_cell ''Value'' v @ text_cell ''Sep'' sep)) [value_element sep [(''uniq'', ''true'')] v]"
proof -
  have n: "valid_name ''Value''" "\<forall>p\<in>set [(''sep'', sep), (''uniq'', ''true'')]. valid_name (fst p)" "\<forall>p\<in>set [(''sep'', sep)]. valid_name (fst p)"
    by (simp_all add: element_names)
  have u: "esc_char CHR ''t'' = ''t''" "esc_char CHR ''r'' = ''r''" "esc_char CHR ''u'' = ''u''" "esc_char CHR ''e'' = ''e''"
    by (simp_all add: esc_char_def)
  show "reads (sep_xml [] (text_cell ''Value'' v @ text_cell ''Sep'' sep)) [value_element sep [] v]"
    using reads_leaf_attrs [OF n(1,3), of v] by (simp add: sep_xml_def value_element_def escapeXml_string)
  show "reads (sep_xml (quoted_attr ''uniq'' ''true'') (text_cell ''Value'' v @ text_cell ''Sep'' sep)) [value_element sep [(''uniq'', ''true'')] v]"
    using reads_leaf_attrs [OF n(1,2), of v] by (simp add: sep_xml_def value_element_def escapeXml_string quoted_attr_def u)
qed

lemma those_None: "None \<in> set xs \<Longrightarrow> those xs = None"
  by (induction xs) (auto split: option.splits)

lemma reads_pairs: "reads (concat (map lookup_xml (map pair_cell ps))) (map pair_element ps)"
  by (induction ps) (auto intro: reads_Cons reads_pair)

lemma reads_regexes: "reads (concat (map regex_xml (map regex_cell es))) (map regex_element es)"
  by (induction es) (auto intro: reads_Cons reads_regex)

lemma reads_change:
  assumes "change_sendable c"
  shows "reads (change_text c) (change_elements c)"
proof (cases c)
  case (Lookup lt m f a d ps)
  have ty: "plain_text ''Lookup''" by (simp add: plain_text_def special_def)
  note reads_Cons [OF reads_type [OF ty] reads_Cons [OF reads_named_leaf(1) reads_append [OF reads_named_leaf(6) reads_append [OF reads_named_leaf(7)
      reads_Cons [OF reads_named_leaf(2) reads_append [OF reads_named_leaf(8) reads_pairs]]]]], of lt m f a d ps]
  then show ?thesis by (simp add: Lookup change_text_def)
next
  case (Rules b rs)
  have rs: "\<forall>r\<in>set rs. True" and ty: "plain_text ''Rules''" by (simp_all add: plain_text_def special_def)
  note reads_Cons [OF reads_type [OF ty] reads_Cons [OF reads_named_leaf(3) rules.reads_all [OF rs]], of "bool_text b"]
  then show ?thesis by (simp add: Rules change_text_def)
next
  case (Regex st es)
  have ty: "plain_text ''Regex''" by (simp add: plain_text_def special_def)
  note reads_Cons [OF reads_type [OF ty] reads_Cons [OF reads_named_leaf(4) reads_regexes], of st es]
  then show ?thesis by (simp add: Regex change_text_def)
next
  case (JoinTerm u sep v)
  have ty: "plain_text ''JoinTerm''" by (simp add: plain_text_def special_def)
  note reads_Cons [OF reads_type [OF ty] reads_value(1), of v sep] reads_Cons [OF reads_type [OF ty] reads_value(2), of v sep]
  then show ?thesis by (cases u) (simp_all add: JoinTerm change_text_def)
next
  case (SplitTerm sep v)
  have ty: "plain_text ''SplitTerm''" by (simp add: plain_text_def special_def)
  note reads_Cons [OF reads_type [OF ty] reads_value(1), of v sep]
  then show ?thesis by (simp add: SplitTerm change_text_def)
next
  case (Other ty v)
  then have "plain_text ty" using assms by simp
  note reads_Cons [OF reads_type [OF this] reads_named_leaf(5), of v]
  then show ?thesis by (simp add: Other change_text_def)
qed

text \<open>All rows; an exception in one ends the whole (\<open>updateNamedCustomPutData\<close>).\<close>

definition transformations_xml :: "row list \<Rightarrow> string option" where
  "transformations_xml rs = map_option concat (those (map transformation_xml rs))"

definition text_or_empty :: "string option \<Rightarrow> string" where
  "text_or_empty v = (case v of None \<Rightarrow> [] | Some s \<Rightarrow> s)"

lemma transformation_xml_text:
  assumes "sendable (Transformation t c)"
  shows "transformation_xml (transformation_cells (Transformation t c)) =
     Some (''<Transformation><Term>'' @ t @ ''</Term>'' @ change_text c @ ''</Transformation>'')"
  using change_body [of c t] assms by (simp add: transformation_xml_def del: transformation_cells.simps) simp

lemma reads_transformation:
  assumes "sendable a"
  shows "reads (text_or_empty (transformation_xml (transformation_cells a))) [transformation_element a]"
proof -
  obtain t c where a: "a = Transformation t c" by (cases a)
  have n: "valid_name ''Transformation''" "valid_name ''Term''" by (simp_all add: element_names)
  have "plain_text t" "change_sendable c" using assms a by simp_all
  note reads_elem [OF n(1) reads_Cons [OF reads_plain_leaf [OF n(2) this(1)] reads_change [OF this(2)]]]
  then show ?thesis
    using transformation_xml_text assms by (simp add: a text_or_empty_def del: transformation_cells.simps)
qed

interpretation transformations: element_codec "\<lambda>r. text_or_empty (transformation_xml r)" transformation_row
  transformation_cells transformation_element transformation_ok
  by unfold_locales (simp_all add: reads_transformation transformation_reads_back transformation_ok_def)

lemma transformations_xml_text:
  "\<forall>a\<in>set as. sendable a \<Longrightarrow> transformations_xml (map transformation_cells as) =
     Some (concat (map (\<lambda>r. text_or_empty (transformation_xml r)) (map transformation_cells as)))"
proof (induction as)
  case (Cons a as)
  obtain t c where a: "a = Transformation t c" by (cases a)
  have "transformation_xml (transformation_cells a) \<noteq> None"
    using Cons.prems transformation_xml_text [of t c] by (simp add: a del: transformation_cells.simps)
  then show ?case using Cons by (auto simp: transformations_xml_def text_or_empty_def)
qed (simp add: transformations_xml_def)

section \<open>Properties\<close>

text \<open>
  C17: the transformations of a reactor of any type, with their lookups, rules and regular
  expressions, are written into a request without an exception, and the server's elements read
  back as the same rows: the check box of a join, an optional match, format and default, and the
  value of a rule that has none are all kept, and so is every character of the pairs.
\<close>

theorem transformations_round_trip:
  assumes "\<forall>a\<in>set as. transformation_ok a"
  shows "\<exists>s kids. transformations_xml (map transformation_cells as) = Some s \<and>
     read_xml (''<Reactor>'' @ s @ ''</Reactor>'') = Some (Element ''Reactor'' [] kids) \<and>
     those (map transformation_row kids) = Some (map transformation_cells as)"
  using transformations.round_trip [of "''Reactor''" as] transformations_xml_text [of as] assms
  by (simp add: element_names transformation_ok_def)

theorem transformations_round_trip_witness:
  "let as = [Transformation ''urn:vocab:x#a'' (Lookup ''urn:vocab:x#b'' None (Some ''$1'') ''leave-undefined'' None [([quot], ''<'')]),
             Transformation ''urn:vocab:x#c'' (Rules True [Rule ''urn:vocab:x#d'' ''exists'' None ''&'']),
             Transformation ''urn:vocab:x#e'' (JoinTerm True '','' ''urn:vocab:x#f'')] in
   \<exists>s kids. transformations_xml (map transformation_cells as) = Some s \<and>
     read_xml (''<Reactor>'' @ s @ ''</Reactor>'') = Some (Element ''Reactor'' [] kids) \<and>
     those (map transformation_row kids) = Some (map transformation_cells as)"
proof -
  let ?as = "[Transformation ''urn:vocab:x#a'' (Lookup ''urn:vocab:x#b'' None (Some ''$1'') ''leave-undefined'' None [([quot], ''<'')]),
             Transformation ''urn:vocab:x#c'' (Rules True [Rule ''urn:vocab:x#d'' ''exists'' None ''&'']),
             Transformation ''urn:vocab:x#e'' (JoinTerm True '','' ''urn:vocab:x#f'')]"
  have "\<forall>a\<in>set ?as. transformation_ok a" by (simp add: transformation_ok_def plain_text_def special_def given_def both_given_def)
  from transformations_round_trip [OF this] show ?thesis unfolding Let_def by blast
qed

text \<open>
  A pair whose value is left empty in the lookup dialog is sent, and from then on the
  transformation cannot be read any more: the configuration of the reactor ends in an exception
  whatever else it holds.
\<close>

theorem empty_lookup_value_is_unreadable:
  assumes "\<forall>a\<in>set as. sendable a"
    and "Transformation t (Lookup lt m f d v ps) \<in> set as" "(k, []) \<in> set ps"
  shows "\<exists>s kids. transformations_xml (map transformation_cells as) = Some s \<and>
     read_xml (''<Reactor>'' @ s @ ''</Reactor>'') = Some (Element ''Reactor'' [] kids) \<and>
     those (map transformation_row kids) = None"
proof -
  let ?a = "Transformation t (Lookup lt m f d v ps)"
  have n: "valid_name ''Reactor''" by (simp add: element_names)
  have "reads (concat (map (\<lambda>r. text_or_empty (transformation_xml r)) (map transformation_cells as))) (map transformation_element as)"
    using assms(1) by (induction as) (auto intro: reads_Cons reads_transformation)
  from reads_read_xml [OF reads_elem [OF n this]]
  have "read_xml (''<Reactor>'' @ concat (map (\<lambda>r. text_or_empty (transformation_xml r)) (map transformation_cells as)) @ ''</Reactor>'')
      = Some (Element ''Reactor'' [] (map transformation_element as))"
    by simp
  moreover have "lookup_object (pair_element (k, [])) = None"
    by (simp add: lookup_object_def pair_element_def xs_no_text attribute_js_def need_def split: option.splits)
  then have "None \<in> set (map lookup_object (map pair_element ps))" using assms(3) by force
  then have "transformation_row (transformation_element ?a) = None"
    by (simp add: transformation_row_def get_child element_name_def child_simps those_None)
  then have "those (map transformation_row (map transformation_element as)) = None"
    using assms(2) by (intro those_None) force
  ultimately show ?thesis using transformations_xml_text [OF assms(1)] by blast
qed

theorem empty_lookup_value_is_unreadable_witness:
  "let as = [Transformation ''urn:vocab:x#a'' (Other ''AssignValue'' ''1''),
             Transformation ''urn:vocab:x#b'' (Lookup ''urn:vocab:x#c'' None None ''leave-undefined'' None [(''x'', [])])] in
   \<exists>s kids. transformations_xml (map transformation_cells as) = Some s \<and>
     read_xml (''<Reactor>'' @ s @ ''</Reactor>'') = Some (Element ''Reactor'' [] kids) \<and>
     those (map transformation_row kids) = None"
proof -
  let ?as = "[Transformation ''urn:vocab:x#a'' (Other ''AssignValue'' ''1''),
             Transformation ''urn:vocab:x#b'' (Lookup ''urn:vocab:x#c'' None None ''leave-undefined'' None [(''x'', [])])]"
  have 1: "\<forall>a\<in>set ?as. sendable a" by (simp add: plain_text_def special_def given_def)
  have 2: "Transformation ''urn:vocab:x#b'' (Lookup ''urn:vocab:x#c'' None None ''leave-undefined'' None [(''x'', [])]) \<in> set ?as" by simp
  have 3: "(''x'', []) \<in> set [(''x'', [])]" by simp
  show ?thesis unfolding Let_def by (rule empty_lookup_value_is_unreadable [OF 1 2 3])
qed

end
