(* ===== verification/Pion_Order.thy ===== *)
theory Pion_Order
  imports Pion_Grid "HOL-Library.Multiset"
begin

text \<open>
  The order of the fields of a log codec (\<open>plugins/codecs/LogCodec.js\<close>). The grid shows each
  field's place in a column of its own; editing a place moves the fields between the old and the
  new place by one, and saving sends the fields by place. The places are kept in an array next
  to the grid, \<open>order_map\<close>, which adding and deleting rows does not touch. Here: the array, what
  an edit does to it, and when it says how to send the fields.
\<close>

section \<open>The array\<close>

text \<open>Assignment to an index; a hole reads as \<open>undefined\<close>.\<close>

definition set_at :: "nat \<Rightarrow> 'a \<Rightarrow> 'a option list \<Rightarrow> 'a option list" where
  "set_at i v xs = (if i < length xs then xs[i := Some v] else xs @ replicate (i - length xs) None @ [Some v])"

definition shift_others :: "nat \<Rightarrow> (int \<Rightarrow> bool) \<Rightarrow> (int \<Rightarrow> int) \<Rightarrow> int option list \<Rightarrow> int option list" where
  "shift_others i p f om =
     map (\<lambda>j. case om ! j of Some k \<Rightarrow> Some (if p k \<and> j \<noteq> i then f k else k) | None \<Rightarrow> None) [0..<length om]"

text \<open>Every comparison with \<open>undefined\<close> is false, so an edit of a row without a place moves nothing.\<close>

definition order_edit :: "int \<Rightarrow> nat \<Rightarrow> int option list \<Rightarrow> int option list" where
  "order_edit v i om =
     (let om1 = set_at i v om in
      case (if i < length om then om ! i else None) of
        None \<Rightarrow> om1
      | Some old \<Rightarrow>
          if old < v then shift_others i (\<lambda>k. old < k \<and> k \<le> v) (\<lambda>k. k - 1) om1
          else shift_others i (\<lambda>k. v \<le> k \<and> k < old) (\<lambda>k. k + 1) om1)"

text \<open>Showing the places in the grid; \<open>None\<close> is the exception for a place or a row that is not there.\<close>

fun set_orders :: "nat \<Rightarrow> int option list \<Rightarrow> grid \<Rightarrow> grid option" where
  "set_orders i [] g = Some g"
| "set_orders i (None # ks) g = None"
| "set_orders i (Some k # ks) g = Option.bind (set_cell i ''Order'' (Val (JNum k)) g) (set_orders (Suc i) ks)"

definition handleCellEdit :: "int \<Rightarrow> nat \<Rightarrow> string \<Rightarrow> int option list \<times> grid \<Rightarrow> int option list \<times> grid option" where
  "handleCellEdit v i attr_name st =
     (if attr_name = ''Order'' then (let om = order_edit v i (fst st) in (om, set_orders 0 om (snd st)))
      else (fst st, Some (snd st)))"

text \<open>Which row has which place: the last assignment to a place counts.\<close>

fun last_at :: "'a \<Rightarrow> 'a list \<Rightarrow> nat option" where
  "last_at x [] = None"
| "last_at x (y # ys) = (case last_at x ys of Some i \<Rightarrow> Some (Suc i) | None \<Rightarrow> if y = x then Some 0 else None)"

definition inverse_order :: "int option list \<Rightarrow> nat \<Rightarrow> nat option list" where
  "inverse_order om n = map (\<lambda>k. if length om = n then last_at (Some (int k + 1)) om else Some k) [0..<n]"

text \<open>The rows by place; a place that no row has ends in an exception.\<close>

definition in_order :: "int option list \<Rightarrow> 'r list \<Rightarrow> 'r list option" where
  "in_order om rows = those (map (map_option (\<lambda>i. rows ! i)) (inverse_order om (length rows)))"

section \<open>Facts\<close>

definition is_order :: "int option list \<Rightarrow> bool" where
  "is_order om = (distinct om \<and> set om = Some ` {1..int (length om)})"

definition moved :: "int \<Rightarrow> int \<Rightarrow> int \<Rightarrow> int" where
  "moved old v k =
     (if k = old then v
      else if old < v then (if old < k \<and> k \<le> v then k - 1 else k)
      else (if v \<le> k \<and> k < old then k + 1 else k))"

lemma moved_back: "moved v old (moved old v k) = k"
  by (auto simp: moved_def)

lemma moved_range: "old \<in> {1..n} \<Longrightarrow> v \<in> {1..n} \<Longrightarrow> k \<in> {1..n} \<Longrightarrow> moved old v k \<in> {1..n}"
  by (auto simp: moved_def)

lemma moved_less: "k \<noteq> old \<Longrightarrow> l \<noteq> old \<Longrightarrow> moved old v k < moved old v l \<longleftrightarrow> k < l"
  by (auto simp: moved_def)

lemma length_order_edit: "i < length om \<Longrightarrow> length (order_edit v i om) = length om"
  by (simp add: order_edit_def Let_def set_at_def shift_others_def split: option.splits)

lemma order_edit_nth:
  assumes "distinct om" "None \<notin> set om" "i < length om" "om ! i = Some old" "j < length om"
  shows "order_edit v i om ! j = map_option (moved old v) (om ! j)"
proof -
  obtain k where k: "om ! j = Some k" using assms(2,5) by (metis nth_mem not_None_eq)
  have "k = old \<longleftrightarrow> j = i" using assms k nth_eq_iff_index_eq [OF assms(1,5,3)] by auto
  then show ?thesis
    using assms k by (auto simp: order_edit_def Let_def set_at_def shift_others_def moved_def)
qed

lemma order_edit_map:
  assumes "distinct om" "None \<notin> set om" "i < length om" "om ! i = Some old"
  shows "order_edit v i om = map (map_option (moved old v)) om"
  by (rule nth_equalityI) (use length_order_edit order_edit_nth assms in auto)

lemma is_orderD:
  assumes "is_order om"
  shows "distinct om" "None \<notin> set om" "i < length om \<Longrightarrow> \<exists>k. om ! i = Some k \<and> k \<in> {1..int (length om)}"
proof -
  show "distinct om" "None \<notin> set om" using assms by (auto simp: is_order_def)
  show "i < length om \<Longrightarrow> \<exists>k. om ! i = Some k \<and> k \<in> {1..int (length om)}"
    using assms nth_mem [of i om] unfolding is_order_def by blast
qed

lemma is_order_edit:
  assumes om: "is_order om" and i: "i < length om" and v: "v \<in> {1..int (length om)}"
  shows "is_order (order_edit v i om)" "order_edit v i om ! i = Some v"
proof -
  let ?n = "int (length om)"
  obtain old where old: "om ! i = Some old" "old \<in> {1..?n}" using is_orderD(3) [OF om i] by blast
  note map = order_edit_map [OF is_orderD(1) [OF om] is_orderD(2) [OF om] i old(1), of v]
  have inj: "inj (moved old v)" by (rule inj_on_inverseI [of _ "moved v old"]) (simp add: moved_back)
  have "moved old v ` {1..?n} = {1..?n}"
  proof
    show "moved old v ` {1..?n} \<subseteq> {1..?n}" using moved_range [OF old(2) v] by blast
    show "{1..?n} \<subseteq> moved old v ` {1..?n}"
    proof
      fix k assume "k \<in> {1..?n}"
      then show "k \<in> moved old v ` {1..?n}"
        using moved_range [OF v old(2), of k] moved_back [of old v k] by (metis imageI)
    qed
  qed
  moreover have "set (order_edit v i om) = Some ` (moved old v ` {1..?n})"
    using om unfolding map is_order_def by (auto simp: image_image)
  moreover have "distinct (order_edit v i om)"
    using is_orderD(1) [OF om] option.inj_map [OF inj] by (simp add: map distinct_map inj_on_subset [OF _ subset_UNIV])
  ultimately show "is_order (order_edit v i om)" using length_order_edit [OF i] by (simp add: is_order_def)
  show "order_edit v i om ! i = Some v" using i old(1) by (simp add: map moved_def)
qed

text \<open>The last row with a place, when no two rows have the same.\<close>

lemma last_at_None: "last_at x xs = None \<longleftrightarrow> x \<notin> set xs"
  by (induction xs) (auto split: option.splits)

lemma last_at_nth: "last_at x xs = Some i \<Longrightarrow> i < length xs \<and> xs ! i = x"
  by (induction xs arbitrary: i) (auto split: option.splits if_splits)

lemma those_Some: "those xs = Some ys \<longleftrightarrow> xs = map Some ys"
  by (induction xs arbitrary: ys) (auto split: option.splits)

text \<open>The rows can be sent exactly if there is a place for each and a row for each place.\<close>

lemma order_covers: "length om = n \<Longrightarrow> (\<forall>k<n. Some (int k + 1) \<in> set om) \<longleftrightarrow> is_order om"
proof
  assume n: "length om = n" and all: "\<forall>k<n. Some (int k + 1) \<in> set om"
  have "Some ` {1..int n} \<subseteq> set om"
  proof
    fix y assume "y \<in> Some ` {1..int n}"
    then obtain z where z: "y = Some z" "1 \<le> z" "z \<le> int n" by auto
    then have "nat (z - 1) < n" "int (nat (z - 1)) + 1 = z" by auto
    then show "y \<in> set om" using all z(1) by metis
  qed
  moreover have c: "card (Some ` {1..int n}) = n" by (simp add: card_image)
  moreover have "card (set om) \<le> n" using card_length [of om] n by simp
  ultimately have "set om = Some ` {1..int n}" using card_seteq [of "set om" "Some ` {1..int n}"] by simp
  then show "is_order om" using c n card_distinct [of om] by (simp add: is_order_def)
next
  assume "length om = n" "is_order om"
  then show "\<forall>k<n. Some (int k + 1) \<in> set om" by (auto simp: is_order_def)
qed

lemma in_order_iff: "length om = length rows \<Longrightarrow> (\<exists>rs. in_order om rows = Some rs) \<longleftrightarrow> is_order om"
proof -
  assume n: "length om = length rows"
  have "(\<exists>rs. in_order om rows = Some rs) \<longleftrightarrow> (\<forall>k<length rows. last_at (Some (int k + 1)) om \<noteq> None)"
  proof -
    have "(\<exists>ys. map h ks = map Some ys) \<longleftrightarrow> (\<forall>k\<in>set ks. h k \<noteq> None)" for h :: "nat \<Rightarrow> 'a option" and ks
      by (induction ks) (auto simp: Cons_eq_map_conv)
    then show ?thesis by (simp add: in_order_def inverse_order_def those_Some n comp_def Ball_def)
  qed
  then show ?thesis using order_covers [OF n] by (simp add: last_at_None)
qed

text \<open>Then they are sent by place.\<close>

lemma order_key_inj:
  assumes om: "is_order om" and n: "length om = length rows"
  shows "inj_on (\<lambda>p. the (fst p)) (set (zip om rows))"
proof (rule inj_onI)
  fix p q assume p: "p \<in> set (zip om rows)" and q: "q \<in> set (zip om rows)" and eq: "the (fst p) = the (fst q)"
  obtain i where i: "i < length om" "p = (om ! i, rows ! i)" using p n by (auto simp: set_zip)
  obtain j where j: "j < length om" "q = (om ! j, rows ! j)" using q n by (auto simp: set_zip)
  have "om ! i = om ! j" using is_orderD(3) [OF om i(1)] is_orderD(3) [OF om j(1)] eq i(2) j(2) by auto
  then have "i = j" by (rule nth_eq_iff_index_eq [OF is_orderD(1) [OF om] i(1) j(1), THEN iffD1])
  then show "p = q" using i(2) j(2) by simp
qed

lemma in_order_sorted:
  assumes om: "is_order om" and n: "length om = length rows"
  shows "in_order om rows = Some (map snd (sort_key (\<lambda>p. the (fst p)) (zip om rows)))"
proof -
  let ?pos = "\<lambda>k. the (last_at (Some (int k + 1)) om)" and ?zs = "zip om rows"
  have pos: "last_at (Some (int k + 1)) om = Some (?pos k) \<and> ?pos k < length rows \<and> om ! ?pos k = Some (int k + 1)" if "k < length rows" for k
    using order_covers [OF n] om that last_at_nth n by (metis last_at_None option.collapse)
  have "inj_on ?pos (set [0..<length rows])"
  proof (rule inj_onI)
    fix k l assume kl: "k \<in> set [0..<length rows]" "l \<in> set [0..<length rows]" "?pos k = ?pos l"
    have "om ! ?pos k = Some (int k + 1)" "om ! ?pos l = Some (int l + 1)" using pos kl(1,2) by auto
    then show "k = l" unfolding kl(3) by simp
  qed
  then have d: "distinct (map ?pos [0..<length rows])" by (simp add: distinct_map)
  have "?pos ` {0..<length rows} = {0..<length rows}"
    using pos d by (intro card_subset_eq) (auto simp: card_image distinct_map)
  then have "mset (map ?pos [0..<length rows]) = mset [0..<length rows]"
    using d by (intro set_eq_iff_mset_eq_distinct [THEN iffD1]) auto
  then have "mset (map (nth ?zs) (map ?pos [0..<length rows])) = mset (map (nth ?zs) [0..<length rows])"
    unfolding mset_map by (rule arg_cong)
  moreover have "map (nth ?zs) [0..<length rows] = ?zs" using map_nth [of ?zs] n by simp
  ultimately have m: "mset ?zs = mset (map (\<lambda>k. ?zs ! ?pos k) [0..<length rows])"
    by (simp only: map_map comp_def)
  have "inj_on (\<lambda>p. the (fst p)) (set ?zs)" by (rule order_key_inj [OF om n])
  moreover have "sorted (map (\<lambda>p. the (fst p)) (map (\<lambda>k. ?zs ! ?pos k) [0..<length rows]))"
    using pos n by (simp add: sorted_iff_nth_mono)
  ultimately have "sort_key (\<lambda>p. the (fst p)) ?zs = map (\<lambda>k. ?zs ! ?pos k) [0..<length rows]"
    by (intro sort_key_inj_key_eq m)
  moreover have "in_order om rows = Some (map (\<lambda>k. rows ! ?pos k) [0..<length rows])"
    using n by (auto simp: in_order_def inverse_order_def those_Some) (use pos in blast)
  ultimately show ?thesis using pos n by simp
qed

text \<open>What is done to every row can be done before or after.\<close>

lemma those_map: "those (map (map_option g) xs) = map_option (map g) (those xs)"
  by (induction xs) (auto simp: option.map_comp comp_def split: option.splits)

lemma in_order_map:
  assumes "length om = length rows"
  shows "in_order om (map g rows) = map_option (map g) (in_order om rows)"
proof -
  have "map (map_option (\<lambda>i. map g rows ! i)) (inverse_order om (length rows)) =
        map (map_option g) (map (map_option (\<lambda>i. rows ! i)) (inverse_order om (length rows)))"
    using assms last_at_nth by (fastforce simp: inverse_order_def option.map_comp intro: option.map_cong)
  then show ?thesis by (simp only: in_order_def length_map those_map)
qed

text \<open>The places in the grid.\<close>

lemma set_orders_ok:
  "grid_ok g \<Longrightarrow> length (grid_rows g) = i + length ks \<Longrightarrow> None \<notin> set ks \<Longrightarrow>
   \<exists>h. set_orders i ks g = Some h \<and> grid_ok h \<and>
     grid_rows h = take i (grid_rows g) @ map2 (\<lambda>k r. obj_put r ''Order'' [Val (JNum (the k))]) ks (drop i (grid_rows g))"
proof (induction ks arbitrary: i g)
  case (Cons k ks)
  then obtain n where k: "k = Some n" by (cases k) auto
  have i: "i < length (grid_rows g)" using Cons.prems(2) by simp
  obtain h where h: "set_cell i ''Order'' (Val (JNum n)) g = Some h" "grid_ok h"
    "grid_rows h = (grid_rows g)[i := obj_put (grid_rows g ! i) ''Order'' [Val (JNum n)]]"
    using set_cell_ok [OF Cons.prems(1) i, of "''Order''" "Val (JNum n)"] by auto
  have "length (grid_rows h) = Suc i + length ks" using h(3) Cons.prems(2) by simp
  then obtain h' where h': "set_orders (Suc i) ks h = Some h'" "grid_ok h'"
    "grid_rows h' = take (Suc i) (grid_rows h) @ map2 (\<lambda>k r. obj_put r ''Order'' [Val (JNum (the k))]) ks (drop (Suc i) (grid_rows h))"
    using Cons.IH [OF h(2)] Cons.prems(3) by auto
  have "grid_rows h' = take i (grid_rows g) @ map2 (\<lambda>k r. obj_put r ''Order'' [Val (JNum (the k))]) (k # ks) (drop i (grid_rows g))"
    using i by (simp add: h'(3) h(3) k take_Suc_conv_app_nth Cons_nth_drop_Suc [symmetric])
  then show ?case using h(1) h' k by auto
qed simp

section \<open>Properties\<close>

text \<open>
  Editing the place of a field of a log codec to any place there is moves that field there
  and keeps the others in their order: the places stay exactly the numbers from one to the
  number of fields, and the grid shows them.
\<close>

theorem order_edit_is_a_move:
  assumes om: "is_order om" and i: "i < length om" and v: "1 \<le> v" "v \<le> int (length om)"
    and g: "grid_ok g" "length (grid_rows g) = length om"
  shows "\<exists>om' h. handleCellEdit v i ''Order'' (om, g) = (om', Some h) \<and> is_order om' \<and> length om' = length om \<and>
     om' ! i = Some v \<and>
     (\<forall>j<length om. \<forall>k<length om. j \<noteq> i \<and> k \<noteq> i \<longrightarrow>
        (the (om' ! j) < the (om' ! k) \<longleftrightarrow> the (om ! j) < the (om ! k))) \<and>
     grid_ok h \<and> map (\<lambda>r. row_value r ''Order'') (grid_rows h) = map (\<lambda>k. Val (JNum (the k))) om'"
proof -
  let ?om = "order_edit v i om"
  have ok: "is_order ?om" "?om ! i = Some v" "length ?om = length om"
    using is_order_edit [OF om i] length_order_edit [OF i] v by simp_all
  obtain old where old: "om ! i = Some old" using is_orderD(3) [OF om i] by blast
  have nth: "?om ! j = map_option (moved old v) (om ! j)" if "j < length om" for j
    by (rule order_edit_nth [OF is_orderD(1,2) [OF om] i old that])
  have rel: "the (?om ! j) < the (?om ! k) \<longleftrightarrow> the (om ! j) < the (om ! k)"
    if jk: "j < length om" "k < length om" "j \<noteq> i" "k \<noteq> i" for j k
  proof -
    obtain a b where ab: "om ! j = Some a" "om ! k = Some b"
      using is_orderD(3) [OF om jk(1)] is_orderD(3) [OF om jk(2)] by blast
    have "a \<noteq> old" "b \<noteq> old"
      using ab old jk nth_eq_iff_index_eq [OF is_orderD(1) [OF om] jk(1) i] nth_eq_iff_index_eq [OF is_orderD(1) [OF om] jk(2) i] by auto
    then show ?thesis using nth [OF jk(1)] nth [OF jk(2)] ab moved_less by simp
  qed
  obtain h where h: "set_orders 0 ?om g = Some h" "grid_ok h"
    "grid_rows h = map2 (\<lambda>k r. obj_put r ''Order'' [Val (JNum (the k))]) ?om (grid_rows g)"
    using set_orders_ok [OF g(1), of 0 ?om] g(2) ok(3) is_orderD(2) [OF ok(1)] by auto
  have "map (\<lambda>r. row_value r ''Order'') (grid_rows h) = map (\<lambda>k. Val (JNum (the k))) ?om"
    using g(2) ok(3) by (intro nth_equalityI) (simp_all add: h(3) row_value_put)
  then show ?thesis using ok rel h(1,2) by (simp add: handleCellEdit_def Let_def)
qed

theorem order_edit_is_a_move_witness:
  "order_edit 1 2 [Some 1, Some 2, Some 3] = [Some 2, Some 3, Some 1] \<and>
   (\<exists>g om' h. handleCellEdit 1 2 ''Order'' ([Some 1, Some 2, Some 3], g) = (om', Some h) \<and>
      map (\<lambda>r. row_value r ''Order'') (grid_rows h) = map (\<lambda>k. Val (JNum (the k))) om')"
proof -
  obtain g where g: "grid_ok g" "length (grid_rows g) = 3"
    using grid_adds_ok [OF grid_ok_empty, of "[[], [], []]"] by (auto simp: empty_grid_def grid_rows_def empty_store_def)
  have "{1..3::int} = {1, 2, 3}" by auto
  then have "is_order [Some 1, Some 2, Some 3]" by (auto simp: is_order_def)
  from order_edit_is_a_move [OF this, of 2 1 g] g show ?thesis
    by (auto simp: order_edit_def shift_others_def set_at_def)
qed

text \<open>
  Any other edit of a place makes it impossible to save the codec: after a place below one or
  beyond the last is given to a field, or after a field that was just added is given any place but
  the last, some place has no field, and collecting the fields ends in an exception.
\<close>

theorem bad_place_stops_the_save:
  assumes om: "is_order om" and i: "i \<le> length om"
    and v: "if i < length om then v < 1 \<or> int (length om) < v else v \<noteq> int (length om) + 1"
    and rows: "length rows = length (order_edit v i om)"
  shows "in_order (order_edit v i om) rows = None"
proof -
  let ?om = "order_edit v i om" and ?n = "length (order_edit v i om)"
  have "\<not> is_order ?om"
  proof
    assume ok: "is_order ?om"
    show False
    proof (cases "i < length om")
      case True
      then obtain old where old: "om ! i = Some old" using is_orderD(3) [OF om] by blast
      have "?om ! i = Some v"
        using order_edit_nth [OF is_orderD(1,2) [OF om] True old True] old by (simp add: moved_def)
      then show False using is_orderD(3) [OF ok, of i] v True length_order_edit [OF True] by auto
    next
      case False
      then have eq: "?om = om @ [Some v]" using i by (simp add: order_edit_def set_at_def)
      have "Some (int (length om) + 1) \<in> set ?om" using ok by (auto simp: is_order_def eq)
      then show False using om v False by (auto simp: is_order_def eq)
    qed
  qed
  then show ?thesis using in_order_iff [OF rows [symmetric]] by (cases "in_order ?om rows") auto
qed

theorem bad_place_stops_the_save_witness:
  "in_order (order_edit 3 1 [Some 1, Some 2]) [''a'', ''b''] = None \<and>
   in_order (order_edit 1 2 [Some 1, Some 2]) [''a'', ''b'', ''c''] = None"
proof -
  have "{1..2::int} = {1, 2}" by auto
  then have om: "is_order [Some 1, Some 2]" by (auto simp: is_order_def)
  have "length (order_edit 3 1 [Some 1, Some 2]) = 2" "length (order_edit 1 2 [Some 1, Some 2]) = 3"
    by (simp_all add: order_edit_def shift_others_def set_at_def)
  then show ?thesis
    using bad_place_stops_the_save [OF om, of 1 3 "[''a'', ''b'']"] bad_place_stops_the_save [OF om, of 2 1 "[''a'', ''b'', ''c'']"]
    by simp
qed

end
