(* ===== verification/Pion_Codec.thy ===== *)
theory Pion_Codec
  imports Pion_Custom Pion_Order
begin

text \<open>
  The panes of codecs (\<open>plugins/codecs/\<close>): the fields of a codec in a grid, the settings of a log
  codec, and the request that saves them. The properties say that a log codec reads back as it
  was saved, its fields in the order chosen in the grid, and which edits break that.
\<close>

section \<open>Fields\<close>

text \<open>\<open>CodecPane\<close>: a field has a name and a term.\<close>

definition field_mapping_row :: "node \<Rightarrow> row option" where
  "field_mapping_row n =
     Some [(''FieldName'', [Val (get_xml n ''text()'')]), (''Term'', [Val (get_xml n ''@term'')])]"

definition field_mapping_xml :: "row \<Rightarrow> string" where
  "field_mapping_xml r =
     ''<Field'' @ quoted_attr ''term'' (js_string (cell_of r ''Term'')) @ ''>'' @ escapeXml (cell_of r ''FieldName'') @ ''</Field>''"

definition makeFieldElements :: "row list \<Rightarrow> string" where
  "makeFieldElements rs = concat (map field_mapping_xml rs)"

text \<open>\<open>LogCodecPane\<close>: a field also has delimiters, options and a place.\<close>

definition log_field_row :: "int \<Rightarrow> node \<Rightarrow> row" where
  "log_field_row order n =
     [(''FieldName'', [Val (get_xml n ''text()'')]), (''Term'', [Val (get_xml n ''@term'')]),
      (''StartChar'', [Val (get_xml n ''@start'')]), (''EndChar'', [Val (get_xml n ''@end'')]),
      (''StartEndOptional'', [Val (get_xml n ''@optional'')]), (''URLEncode'', [Val (get_xml n ''@urlencode'')]),
      (''EscapeChar'', [Val (get_xml n ''@escape'')]), (''EmptyString'', [Val (get_xml n ''@empty'')]),
      (''Order'', [Val (JNum order)])]"

fun log_rows :: "int \<Rightarrow> node list \<Rightarrow> row list" where
  "log_rows order [] = []"
| "log_rows order (n # ns) = log_field_row order n # log_rows (order + 1) ns"

definition order_map_of :: "node list \<Rightarrow> int option list" where
  "order_map_of ns = map (\<lambda>i. Some (int i)) [1..<Suc (length ns)]"

text \<open>\<open>_repopulateFieldMappingStore\<close> on the emptied grid: the array of places and the rows.\<close>

definition repopulate_log :: "node list \<Rightarrow> grid \<Rightarrow> int option list \<times> grid option" where
  "repopulate_log ns g = (order_map_of ns, grid_adds (log_rows 1 ns) g)"

definition attr_if :: "string \<Rightarrow> jsval \<Rightarrow> string" where
  "attr_if a v = (if truthy v then quoted_attr a (escapeXml v) else [])"

definition flag_if :: "string \<Rightarrow> jsval \<Rightarrow> string" where
  "flag_if a v = (if truthy v then quoted_attr a ''true'' else [])"

definition log_field_xml :: "row \<Rightarrow> string" where
  "log_field_xml r =
     ''<Field'' @ quoted_attr ''term'' (js_string (cell_of r ''Term'')) @
     attr_if ''start'' (cell_of r ''StartChar'') @ attr_if ''end'' (cell_of r ''EndChar'') @
     flag_if ''optional'' (cell_of r ''StartEndOptional'') @ flag_if ''urlencode'' (cell_of r ''URLEncode'') @
     attr_if ''escape'' (cell_of r ''EscapeChar'') @ attr_if ''empty'' (cell_of r ''EmptyString'') @
     ''>'' @ escapeXml (cell_of r ''FieldName'') @ ''</Field>''"

definition make_log_field_elements :: "int option list \<Rightarrow> row list \<Rightarrow> string option" where
  "make_log_field_elements om items = map_option (\<lambda>rs. concat (map log_field_xml rs)) (in_order om items)"

section \<open>Settings of a log codec\<close>

definition is_true_child :: "node \<Rightarrow> string \<Rightarrow> bool" where
  "is_true_child item a =
     (xs_hasAttribute None item a \<and> sval_toString (xs_getValue None item a SUndef) = Some ''true'')"

definition put_attrs :: "sval \<Rightarrow> (string \<times> string) list \<Rightarrow> jsval jsobj \<Rightarrow> jsval jsobj" where
  "put_attrs v ks config =
     (case v of SItem e \<Rightarrow> foldl (\<lambda>c (k, a). obj_put c k (get_xml e a)) config ks | _ \<Rightarrow> config)"

definition event_keys :: "(string \<times> string) list" where
  "event_keys = [(''@event_split_set'', ''@split''), (''@event_join_string'', ''@join''), (''@comment_prefix'', ''@comment'')]"

definition field_keys :: "(string \<times> string) list" where
  "field_keys = [(''@field_split_set'', ''@split''), (''@field_join_string'', ''@join''), (''@consec_field_delims'', ''@consume'')]"

definition addCustomConfigValues :: "node \<Rightarrow> jsval jsobj \<Rightarrow> jsval jsobj" where
  "addCustomConfigValues item config =
     (let headers = is_true_child item ''Headers'';
          options = (if is_true_child item ''Flush'' then [JStr ''Flush''] else []) @ (if headers then [JStr ''Headers''] else []);
          config1 = put_attrs (xs_getValue None item ''Events'' SUndef) event_keys (obj_put config ''options'' (JArr options))
      in if headers then config1 else put_attrs (xs_getValue None item ''Fields'' SUndef) field_keys config1)"

definition config_value :: "jsval jsobj \<Rightarrow> string \<Rightarrow> jsval" where
  "config_value config k = (case obj_get config k of Some v \<Rightarrow> v | None \<Rightarrow> JUndef)"

definition has_option :: "jsval jsobj \<Rightarrow> string \<Rightarrow> bool" where
  "has_option config x = (case config_value config ''options'' of JArr vs \<Rightarrow> JStr x \<in> set vs | _ \<Rightarrow> False)"

definition makeCustomElements :: "jsval jsobj \<Rightarrow> string" where
  "makeCustomElements config =
     ''<Flush>'' @ bool_text (has_option config ''Flush'') @ ''</Flush><Headers>'' @
     bool_text (has_option config ''Headers'') @ ''</Headers><Events'' @
     attr_if ''split'' (config_value config ''@event_split_set'') @
     attr_if ''join'' (config_value config ''@event_join_string'') @
     attr_if ''comment'' (config_value config ''@comment_prefix'') @ ''/><Fields'' @
     attr_if ''split'' (config_value config ''@field_split_set'') @
     attr_if ''join'' (config_value config ''@field_join_string'') @
     attr_if ''consume'' (config_value config ''@consec_field_delims'') @ ''/>''"

text \<open>
  \<open>populateFromConfigItem\<close>: the values for the form; \<open>None\<close> is the exception for an attribute
  without a value. \<open>hidden\<close> lists what the form does not show.
\<close>

definition codec_config :: "string list \<Rightarrow> (node \<Rightarrow> jsval jsobj \<Rightarrow> jsval jsobj) \<Rightarrow> node \<Rightarrow> jsval jsobj option" where
  "codec_config hidden custom item =
     map_option (\<lambda>vs. custom item (mixin [] vs))
       (those (map (\<lambda>a. map_option (\<lambda>s. (a, JStr s)) (sval_toString (xs_getValue None item a SUndef)))
          (filter (\<lambda>a. a \<notin> set hidden) (getAttributes None item))))"

text \<open>\<open>doPutRequest\<close>: the body for the values of the form.\<close>

definition codec_body :: "(jsval jsobj \<Rightarrow> string) \<Rightarrow> string \<Rightarrow> jsval jsobj \<Rightarrow> string" where
  "codec_body custom field_mapping_put_data config =
     ''<PionConfig><Codec>'' @
     concat (map (\<lambda>(k, v). makeXmlLeafElement k v) (filter (\<lambda>(k, v). \<not> starts_with ''@'' k \<and> k \<noteq> ''options'') config)) @
     custom config @ field_mapping_put_data @ ''</Codec></PionConfig>''"

text \<open>\<open>save\<close> of a log codec: nothing is sent when a place is missing.\<close>

definition save_log_codec :: "int option list \<Rightarrow> grid \<Rightarrow> jsval jsobj \<Rightarrow> string option" where
  "save_log_codec om g config =
     map_option (\<lambda>flds. codec_body makeCustomElements flds config) (make_log_field_elements om (grid_rows g))"

definition custom_post_data :: string where
  "custom_post_data =
     ''<Flush>false</Flush><Headers>false</Headers>'' @
     ''<Events'' @ quoted_attr ''split'' [CHR 0x5C, CHR ''r'', CHR 0x5C, CHR ''n''] @ quoted_attr ''join'' [CHR 0x5C, CHR ''n''] @ quoted_attr ''comment'' ''#'' @ ''/>'' @
     ''<Fields'' @ quoted_attr ''split'' [CHR '' '', CHR 0x5C, CHR ''t''] @ quoted_attr ''join'' [CHR 0x5C, CHR ''_''] @ quoted_attr ''consume'' ''true'' @ ''/>''"

section \<open>What a field of a log codec says\<close>

datatype log_field =
  LogField (lf_name: string) (lf_term: string) (lf_start: "string option") (lf_end: "string option")
    (lf_optional: bool) (lf_urlencode: bool) (lf_escape: "string option") (lf_empty: "string option")

definition js_opt :: "string option \<Rightarrow> jsval" where
  "js_opt v = (case v of None \<Rightarrow> JUndef | Some s \<Rightarrow> JStr s)"

definition js_flag :: "bool \<Rightarrow> jsval" where
  "js_flag b = (if b then JStr ''true'' else JUndef)"

definition log_cells :: "int \<Rightarrow> log_field \<Rightarrow> row" where
  "log_cells order f =
     [(''FieldName'', [Val (JStr (lf_name f))]), (''Term'', [Val (JStr (lf_term f))]),
      (''StartChar'', [Val (js_opt (lf_start f))]), (''EndChar'', [Val (js_opt (lf_end f))]),
      (''StartEndOptional'', [Val (js_flag (lf_optional f))]), (''URLEncode'', [Val (js_flag (lf_urlencode f))]),
      (''EscapeChar'', [Val (js_opt (lf_escape f))]), (''EmptyString'', [Val (js_opt (lf_empty f))]),
      (''Order'', [Val (JNum order)])]"

definition flag_attr :: "string \<Rightarrow> bool \<Rightarrow> (string \<times> string) list" where
  "flag_attr a b = (if b then [(a, ''true'')] else [])"

definition log_attrs :: "log_field \<Rightarrow> (string \<times> string) list" where
  "log_attrs f =
     (''term'', lf_term f) # opt_attr ''start'' (lf_start f) @ opt_attr ''end'' (lf_end f) @
     flag_attr ''optional'' (lf_optional f) @ flag_attr ''urlencode'' (lf_urlencode f) @
     opt_attr ''escape'' (lf_escape f) @ opt_attr ''empty'' (lf_empty f)"

definition log_element :: "log_field \<Rightarrow> node" where
  "log_element f = Element ''Field'' (log_attrs f) (text_nodes (lf_name f))"

definition not_empty :: "string option \<Rightarrow> bool" where
  "not_empty v = (v \<noteq> Some [])"

definition log_field_ok :: "log_field \<Rightarrow> bool" where
  "log_field_ok f =
     (lf_name f \<noteq> [] \<and> lf_term f \<noteq> [] \<and> plain_text (lf_term f) \<and>
      not_empty (lf_start f) \<and> not_empty (lf_end f) \<and> not_empty (lf_escape f) \<and> not_empty (lf_empty f))"

lemma attr_if_opt: "not_empty v \<Longrightarrow> attr_if a (js_opt v) @ attr_text as = attr_text (opt_attr a v @ as)"
  by (cases v) (auto simp: attr_if_def js_opt_def opt_attr_def not_empty_def escapeXml_string quoted_attr_def)

lemma true_plain: "escape_chain ''true'' = ''true''"
  by (rule escape_chain_plain) (simp add: special_def)

lemma flag_if_flag: "flag_if a (js_flag b) @ attr_text as = attr_text (flag_attr a b @ as)"
  using true_plain by (simp add: flag_if_def js_flag_def flag_attr_def quoted_attr_def del: escape_chain_simps)

lemma log_field_text:
  assumes "log_field_ok f"
  shows "log_field_xml (log_cells k f) = ''<Field'' @ attr_text (log_attrs f) @ ''>'' @ escape_chain (lf_name f) @ ''</Field>''"
proof -
  have ok: "plain_text (lf_term f)" "not_empty (lf_start f)" "not_empty (lf_end f)" "not_empty (lf_escape f)" "not_empty (lf_empty f)"
    using assms by (simp_all add: log_field_ok_def)
  have last: "attr_if ''empty'' (js_opt (lf_empty f)) = attr_text (opt_attr ''empty'' (lf_empty f))"
    using attr_if_opt [OF ok(5), of _ "[]"] by simp
  have "quoted_attr ''term'' (lf_term f) @ attr_if ''start'' (js_opt (lf_start f)) @ attr_if ''end'' (js_opt (lf_end f)) @
      flag_if ''optional'' (js_flag (lf_optional f)) @ flag_if ''urlencode'' (js_flag (lf_urlencode f)) @
      attr_if ''escape'' (js_opt (lf_escape f)) @ attr_if ''empty'' (js_opt (lf_empty f)) = attr_text (log_attrs f)"
    unfolding last attr_if_opt [OF ok(4)] flag_if_flag attr_if_opt [OF ok(2)] attr_if_opt [OF ok(3)] quoted_attr_text [OF ok(1)] log_attrs_def ..
  then show ?thesis by (simp add: log_field_xml_def log_cells_def cell_of_def escapeXml_string)
qed

lemma log_names:
  "\<forall>p\<in>set (log_attrs f). valid_name (fst p)" "valid_name ''Field''" "valid_name ''Codec''"
  by (auto simp: log_attrs_def opt_attr_def flag_attr_def element_names split: option.splits)

lemma reads_log_field: "log_field_ok f \<Longrightarrow> reads (log_field_xml (log_cells k f)) [log_element f]"
  using reads_leaf_attrs [OF log_names(2,1), of f "lf_name f"] by (simp add: log_field_text log_element_def)

lemma xs_attr_js: "get_xml (Element t as ns) (CHR ''@'' # a) = js_opt (case map_of as a of Some s \<Rightarrow> if s \<noteq> [] then Some s else None | None \<Rightarrow> None)"
  by (simp add: xs_attr attribute_js_def js_opt_def split: option.splits)

lemma xs_text_js: "s \<noteq> [] \<Longrightarrow> get_xml (Element t as (text_nodes s)) ''text()'' = JStr s"
  by (simp add: xs_text attribute_js_def)

lemma map_of_log_attrs:
  "map_of (log_attrs f) a =
     (if a = ''term'' then Some (lf_term f) else if a = ''start'' then lf_start f else if a = ''end'' then lf_end f
      else if a = ''optional'' then (if lf_optional f then Some ''true'' else None)
      else if a = ''urlencode'' then (if lf_urlencode f then Some ''true'' else None)
      else if a = ''escape'' then lf_escape f else if a = ''empty'' then lf_empty f else None)"
  by (simp add: log_attrs_def opt_attr_def flag_attr_def map_add_def split: option.splits)

lemma log_field_reads_back: "log_field_ok f \<Longrightarrow> log_field_row k (log_element f) = log_cells k f"
  unfolding log_field_row_def log_element_def xs_attr_js map_of_log_attrs
  by (auto simp: xs_text_js log_cells_def log_field_ok_def not_empty_def js_opt_def js_flag_def split: option.splits)

lemma log_rows_elements:
  "\<forall>f\<in>set fs. log_field_ok f \<Longrightarrow> log_rows k (map log_element fs) = map2 log_cells [k..k + int (length fs) - 1] fs"
proof (induction fs arbitrary: k)
  case (Cons f fs)
  have "[k..k + int (length (f # fs)) - 1] = k # [k + 1..(k + 1) + int (length fs) - 1]"
    by (simp add: upto.simps [of k])
  then show ?case using Cons by (simp add: log_field_reads_back)
qed simp

lemma reads_log_fields: "\<forall>f\<in>set fs. log_field_ok f \<Longrightarrow> reads (concat (map (\<lambda>f. log_field_xml (log_cells 0 f)) fs)) (map log_element fs)"
  by (induction fs) (auto intro: reads_Cons reads_log_field)

lemma order_irrelevant: "log_field_xml (log_cells k f) = log_field_xml (log_cells 0 f)"
  by (simp add: log_field_xml_def log_cells_def cell_of_def)

text \<open>The fields by place.\<close>

definition by_place :: "int option list \<Rightarrow> log_field list \<Rightarrow> log_field list" where
  "by_place om fs = map snd (sort_key (\<lambda>p. the (fst p)) (zip om fs))"

lemma set_by_place: "length om = length fs \<Longrightarrow> set (by_place om fs) = set fs"
  unfolding by_place_def by (metis map_snd_zip set_map set_sort)

lemma length_by_place: "length om = length fs \<Longrightarrow> length (by_place om fs) = length fs"
  by (simp add: by_place_def)

lemma log_fields_by_place:
  assumes "is_order om" "length om = length fs"
  shows "make_log_field_elements om (map2 log_cells (map the om) fs) = Some (concat (map (\<lambda>f. log_field_xml (log_cells 0 f)) (by_place om fs)))"
proof -
  let ?t = "\<lambda>f. log_field_xml (log_cells 0 f)"
  have "map log_field_xml (map2 log_cells (map the om) fs) = map ?t fs"
  proof (rule nth_equalityI)
    fix i assume "i < length (map log_field_xml (map2 log_cells (map the om) fs))"
    then show "map log_field_xml (map2 log_cells (map the om) fs) ! i = map ?t fs ! i"
      using assms(2) by (simp add: order_irrelevant [of "the (om ! i)"])
  qed (simp add: assms(2))
  then have eq: "map_option (map log_field_xml) (in_order om (map2 log_cells (map the om) fs)) = map_option (map ?t) (in_order om fs)"
    using in_order_map [of om "map2 log_cells (map the om) fs" log_field_xml] in_order_map [of om fs ?t] assms(2) by simp
  have "map_option (map ?t) (in_order om fs) = Some (map ?t (by_place om fs))" using in_order_sorted [OF assms] by (simp add: by_place_def)
  with eq show ?thesis by (auto simp: make_log_field_elements_def)
qed

text \<open>The settings: two elements with options and two with delimiters.\<close>

lemma reads_delimiters:
  assumes "valid_name t" "valid_name a" "valid_name b" "valid_name c" "not_empty x" "not_empty y" "not_empty z"
  shows "reads (''<'' @ t @ attr_if a (js_opt x) @ attr_if b (js_opt y) @ attr_if c (js_opt z) @ ''/>'')
     [Element t (opt_attr a x @ opt_attr b y @ opt_attr c z) []]"
proof -
  have "attr_if c (js_opt z) = attr_text (opt_attr c z)" using attr_if_opt [OF assms(7), of c "[]"] by simp
  then have "attr_if a (js_opt x) @ attr_if b (js_opt y) @ attr_if c (js_opt z) = attr_text (opt_attr a x @ opt_attr b y @ opt_attr c z)"
    using attr_if_opt [OF assms(5)] attr_if_opt [OF assms(6)] by simp
  moreover have "\<forall>p\<in>set (opt_attr a x @ opt_attr b y @ opt_attr c z). valid_name (fst p)"
    using assms(2-4) by (auto simp: opt_attr_def split: option.splits)
  ultimately show ?thesis using reads_empty_attrs [OF assms(1)] by (metis append.assoc)
qed

definition settings :: "jsval jsobj \<Rightarrow> string list \<Rightarrow> string option list \<Rightarrow> bool" where
  "settings config ks vs = (map (config_value config) ks = map js_opt vs \<and> (\<forall>v\<in>set vs. not_empty v))"

definition settings_nodes :: "bool \<Rightarrow> bool \<Rightarrow> string option list \<Rightarrow> string option list \<Rightarrow> node list" where
  "settings_nodes flush headers ev fd =
     [leaf (''Flush'', bool_text flush), leaf (''Headers'', bool_text headers),
      Element ''Events'' (concat (map2 opt_attr [''split'', ''join'', ''comment''] ev)) [],
      Element ''Fields'' (concat (map2 opt_attr [''split'', ''join'', ''consume''] fd)) []]"

lemma reads_settings:
  assumes "settings config (map fst event_keys) [x, y, z]" "settings config (map fst field_keys) [x', y', z']"
  shows "reads (makeCustomElements config) (settings_nodes (has_option config ''Flush'') (has_option config ''Headers'') [x, y, z] [x', y', z'])"
proof -
  have n: "valid_name ''Flush''" "valid_name ''Headers''" "valid_name ''Events''" "valid_name ''Fields''" "valid_name ''split''" "valid_name ''join''"
    "valid_name ''comment''" "valid_name ''consume''"
    by (simp_all add: element_names)
  have ne: "not_empty x" "not_empty y" "not_empty z" "not_empty x'" "not_empty y'" "not_empty z'"
    using assms by (simp_all add: settings_def)
  note reads_Cons [OF reads_plain_leaf [OF n(1) bool_text_plain [of "has_option config ''Flush''"]]
      reads_Cons [OF reads_plain_leaf [OF n(2) bool_text_plain [of "has_option config ''Headers''"]]
      reads_Cons [OF reads_delimiters [OF n(3,5,6,7) ne(1-3)] reads_delimiters [OF n(4,5,6,8) ne(4-6)]]]]
  then show ?thesis
    using assms by (simp add: settings_def event_keys_def field_keys_def makeCustomElements_def settings_nodes_def)
qed

lemma config_value_Cons: "config_value ((k, v) # c) k' = (if k' = k then v else config_value c k')" "config_value [] k = JUndef"
  by (simp_all add: config_value_def obj_get_def)

lemma get_opt_attr: "not_empty v \<Longrightarrow> js_opt (case v of Some s \<Rightarrow> if s \<noteq> [] then Some s else None | None \<Rightarrow> None) = js_opt v"
  by (simp add: not_empty_def js_opt_def split: option.splits)

lemma get_delimiter:
  assumes "a \<noteq> b" "b \<noteq> c" "a \<noteq> c" "not_empty u" "not_empty v" "not_empty w"
  shows "get_xml (Element t (opt_attr a u @ opt_attr b v @ opt_attr c w) ns) (CHR ''@'' # d) =
      (if d = a then js_opt u else if d = b then js_opt v else if d = c then js_opt w else JUndef)"
proof -
  have "map_of (opt_attr a u @ opt_attr b v @ opt_attr c w) d = (if d = a then u else if d = b then v else if d = c then w else None)"
    using assms(1-3) by (cases u; cases v; cases w) (simp_all add: opt_attr_def)
  then show ?thesis using assms(4-6) by (simp add: xs_attr_js get_opt_attr) (simp add: js_opt_def)
qed

section \<open>Properties\<close>

text \<open>
  The fields of a log codec are sent in the order of their places, and when the codec is
  loaded again the grid holds the same fields in that order, numbered from one, each with its
  delimiters, escape character and options.
\<close>

theorem log_fields_come_back_by_place:
  assumes om: "is_order om" "length om = length fs" and ok: "\<forall>f\<in>set fs. log_field_ok f"
  shows "\<exists>s kids g. make_log_field_elements om (map2 log_cells (map the om) fs) = Some s \<and>
     read_xml (''<Codec>'' @ s @ ''</Codec>'') = Some (Element ''Codec'' [] kids) \<and>
     repopulate_log kids empty_grid = (map (\<lambda>k. Some (int k)) [1..<Suc (length fs)], Some g) \<and>
     grid_rows g = map2 log_cells [1..int (length fs)] (by_place om fs)"
proof -
  let ?fs = "by_place om fs"
  let ?s = "concat (map (\<lambda>f. log_field_xml (log_cells 0 f)) ?fs)"
  have ok': "\<forall>f\<in>set ?fs. log_field_ok f" using ok set_by_place [OF om(2)] by simp
  obtain g where g: "grid_adds (log_rows 1 (map log_element ?fs)) empty_grid = Some g" "grid_rows g = log_rows 1 (map log_element ?fs)"
    using grid_adds_ok [OF grid_ok_empty, of "log_rows 1 (map log_element ?fs)"] by (auto simp: empty_grid_def grid_rows_def empty_store_def)
  have "read_xml (''<Codec>'' @ ?s @ ''</Codec>'') = Some (Element ''Codec'' [] (map log_element ?fs))"
    using reads_read_xml [OF reads_elem [OF log_names(3) reads_log_fields [OF ok']]] by simp
  then show ?thesis
    using log_fields_by_place [OF om] g length_by_place [OF om(2)] log_rows_elements [OF ok', of 1]
    by (simp add: repopulate_log_def order_map_of_def)
qed

theorem log_fields_come_back_by_place_witness:
  "let a = LogField ''ip'' ''urn:vocab:x#ip'' None None False False None (Some ''-'');
       b = LogField ''q'' ''urn:vocab:x#q'' (Some [CHR 0x22]) (Some [CHR 0x22]) True True (Some ''&'') None
   in \<exists>s kids g. make_log_field_elements [Some 2, Some 1] (map2 log_cells [2, 1] [a, b]) = Some s \<and>
        read_xml (''<Codec>'' @ s @ ''</Codec>'') = Some (Element ''Codec'' [] kids) \<and>
        snd (repopulate_log kids empty_grid) = Some g \<and> grid_rows g = map2 log_cells [1, 2] [b, a]"
proof -
  let ?a = "LogField ''ip'' ''urn:vocab:x#ip'' None None False False None (Some ''-'')"
  let ?b = "LogField ''q'' ''urn:vocab:x#q'' (Some [CHR 0x22]) (Some [CHR 0x22]) True True (Some ''&'') None"
  have "{1..2::int} = {2, 1}" by auto
  then have 1: "is_order [Some 2, Some 1]" by (auto simp: is_order_def)
  have 2: "length [Some (2::int), Some 1] = length [?a, ?b]" by simp
  have 3: "\<forall>f\<in>set [?a, ?b]. log_field_ok f" by (simp add: log_field_ok_def plain_text_def special_def not_empty_def)
  have 4: "by_place [Some 2, Some 1] [?a, ?b] = [?b, ?a]" by (simp add: by_place_def)
  have 5: "[1..int (length [?a, ?b])] = [1, 2]" by (simp add: upto.simps)
  have 6: "map the [Some (2::int), Some 1] = [2, 1]" by simp
  obtain s kids g where "make_log_field_elements [Some 2, Some 1] (map2 log_cells [2, 1] [?a, ?b]) = Some s"
    "read_xml (''<Codec>'' @ s @ ''</Codec>'') = Some (Element ''Codec'' [] kids)"
    "repopulate_log kids empty_grid = (map (\<lambda>k. Some (int k)) [1..<Suc (length [?a, ?b])], Some g)"
    "grid_rows g = map2 log_cells [1, 2] [?b, ?a]"
    using log_fields_come_back_by_place [OF 1 2 3] unfolding 4 5 6 by blast
  then show ?thesis unfolding Let_def by (intro exI [of _ s] exI [of _ kids] exI [of _ g]) simp
qed

text \<open>
  An option of a field that the configuration spells out as false is true after the next
  save: the grid keeps the text, and every text is true when the request is built.
\<close>

theorem false_option_is_saved_as_true:
  assumes "t \<noteq> []" "plain_text t" "v \<noteq> []"
  shows "\<exists>as. reads (log_field_xml (log_field_row k (Element ''Field'' [(''term'', t), (''optional'', v)] (text_nodes s))))
     [Element ''Field'' as (text_nodes s)] \<and> map_of as ''optional'' = Some ''true''"
proof -
  let ?n = "Element ''Field'' [(''term'', t), (''optional'', v)] (text_nodes s)"
  let ?as = "[(''term'', t), (''optional'', ''true'')]"
  have n: "valid_name ''Field''" "\<forall>p\<in>set ?as. valid_name (fst p)" by (simp_all add: element_names)
  have name: "escapeXml (get_xml ?n ''text()'') = escape_chain s"
    by (cases "s = []") (simp_all add: xs_text xs_no_text attribute_js_def escapeXml_string escapeXml_def)
  have q: "quoted_attr ''term'' t @ quoted_attr ''optional'' ''true'' = attr_text ?as"
    using quoted_attr_text [OF assms(2), of "''term''" "[(''optional'', ''true'')]"]
      quoted_attr_text [OF bool_text_plain [of True], of "''optional''" "[]"] by (simp add: bool_text_def)
  have x: "get_xml ?n ''@term'' = JStr t" "get_xml ?n ''@optional'' = JStr v" "get_xml ?n ''@start'' = JUndef" "get_xml ?n ''@end'' = JUndef"
    "get_xml ?n ''@urlencode'' = JUndef" "get_xml ?n ''@escape'' = JUndef" "get_xml ?n ''@empty'' = JUndef"
    using assms by (simp_all add: xs_attr_js js_opt_def)
  have "log_field_xml (log_field_row k ?n) = ''<Field'' @ attr_text ?as @ ''>'' @ escape_chain s @ ''</Field>''"
    unfolding log_field_row_def x q [symmetric] using assms name
    by (simp add: log_field_xml_def cell_of_def attr_if_def flag_if_def)
  then have "reads (log_field_xml (log_field_row k ?n)) [Element ''Field'' ?as (text_nodes s)]"
    using reads_leaf_attrs [OF n, of s] by simp
  then show ?thesis by (intro exI [of _ ?as]) simp
qed

theorem false_option_is_saved_as_true_witness:
  "\<exists>as. reads (log_field_xml (log_field_row 1 (Element ''Field'' [(''term'', ''urn:vocab:x#a''), (''optional'', ''false'')] (text_nodes ''a''))))
     [Element ''Field'' as (text_nodes ''a'')] \<and> map_of as ''optional'' = Some ''true''"
  using false_option_is_saved_as_true [of "''urn:vocab:x#a''" "''false''" 1 "''a''"] by (simp add: plain_text_def special_def)

text \<open>
  The settings of a log codec come back as they were saved: the two options, the delimiters
  of events, and, unless the codec takes its fields from headers, the delimiters of fields.
\<close>

theorem log_settings_read_back:
  assumes "settings config (map fst event_keys) [x, y, z]" "settings config (map fst field_keys) [x', y', z']"
  shows "\<exists>kids. reads (makeCustomElements config) kids \<and>
     (let c = addCustomConfigValues (Element ''Codec'' as kids) [] in
      (\<forall>a\<in>set [''Flush'', ''Headers'']. has_option c a = has_option config a) \<and>
      (\<forall>k\<in>set (map fst event_keys). config_value c k = config_value config k) \<and>
      (\<forall>k\<in>set (map fst field_keys). config_value c k = (if has_option config ''Headers'' then JUndef else config_value config k)))"
proof -
  let ?kids = "settings_nodes (has_option config ''Flush'') (has_option config ''Headers'') [x, y, z] [x', y', z']"
  let ?n = "Element ''Codec'' as ?kids"
  have opts: "is_true_child ?n ''Flush'' = has_option config ''Flush''" "is_true_child ?n ''Headers'' = has_option config ''Headers''"
    by (simp_all add: is_true_child_def xs_hasAttribute_def xs_child settings_nodes_def bool_text_def)
  have kids: "xs_getValue None ?n ''Events'' SUndef = SItem (Element ''Events'' (opt_attr ''split'' x @ opt_attr ''join'' y @ opt_attr ''comment'' z) [])"
    "xs_getValue None ?n ''Fields'' SUndef = SItem (Element ''Fields'' (opt_attr ''split'' x' @ opt_attr ''join'' y' @ opt_attr ''consume'' z') [])"
    by (simp_all add: xs_child settings_nodes_def is_element_def)
  have ne: "not_empty x" "not_empty y" "not_empty z" "not_empty x'" "not_empty y'" "not_empty z'"
    and cv: "config_value config ''@event_split_set'' = js_opt x" "config_value config ''@event_join_string'' = js_opt y"
      "config_value config ''@comment_prefix'' = js_opt z" "config_value config ''@field_split_set'' = js_opt x'"
      "config_value config ''@field_join_string'' = js_opt y'" "config_value config ''@consec_field_delims'' = js_opt z'"
    using assms by (simp_all add: settings_def event_keys_def field_keys_def)
  have E: "put_attrs (xs_getValue None ?n ''Events'' SUndef) event_keys c =
      obj_put (obj_put (obj_put c ''@event_split_set'' (js_opt x)) ''@event_join_string'' (js_opt y)) ''@comment_prefix'' (js_opt z)" for c
    using ne by (simp add: kids put_attrs_def event_keys_def get_delimiter)
  have F: "put_attrs (xs_getValue None ?n ''Fields'' SUndef) field_keys c =
      obj_put (obj_put (obj_put c ''@field_split_set'' (js_opt x')) ''@field_join_string'' (js_opt y')) ''@consec_field_delims'' (js_opt z')" for c
    using ne by (simp add: kids put_attrs_def field_keys_def get_delimiter)
  let ?c = "addCustomConfigValues ?n []"
  have vals: "config_value ?c ''options'' =
      JArr ((if has_option config ''Flush'' then [JStr ''Flush''] else []) @ (if has_option config ''Headers'' then [JStr ''Headers''] else []))"
    "\<forall>k\<in>set (map fst event_keys). config_value ?c k = config_value config k"
    "\<forall>k\<in>set (map fst field_keys). config_value ?c k = (if has_option config ''Headers'' then JUndef else config_value config k)"
    by (simp_all only: addCustomConfigValues_def Let_def E F opts)
      (simp_all add: config_value_Cons event_keys_def field_keys_def cv)
  have "\<forall>a\<in>set [''Flush'', ''Headers'']. has_option ?c a = has_option config a"
    unfolding has_option_def [of ?c] vals(1) by simp
  then show ?thesis using vals(2,3) reads_settings [OF assms] unfolding Let_def by blast
qed

theorem log_settings_read_back_witness:
  "\<exists>kids c. reads (makeCustomElements [(''options'', JArr [JStr ''Flush'']), (''@comment_prefix'', JStr ''#'')]) kids \<and>
     c = addCustomConfigValues (Element ''Codec'' [] kids) [] \<and> has_option c ''Flush'' \<and> \<not> has_option c ''Headers'' \<and>
     config_value c ''@comment_prefix'' = JStr ''#''"
proof -
  let ?c = "[(''options'', JArr [JStr ''Flush'']), (''@comment_prefix'', JStr ''#'')]"
  have v: "config_value ?c ''@comment_prefix'' = JStr ''#''" "has_option ?c ''Flush''" "\<not> has_option ?c ''Headers''"
    by (simp_all add: config_value_def obj_get_def has_option_def)
  have s: "settings ?c (map fst event_keys) [None, None, Some ''#'']" "settings ?c (map fst field_keys) [None, None, None]"
    by (simp_all add: settings_def event_keys_def field_keys_def config_value_def obj_get_def js_opt_def not_empty_def)
  from log_settings_read_back [OF s, of "[]"] obtain kids where k: "reads (makeCustomElements ?c) kids"
    "\<forall>a\<in>set [''Flush'', ''Headers'']. has_option (addCustomConfigValues (Element ''Codec'' [] kids) []) a = has_option ?c a"
    "\<forall>k\<in>set (map fst event_keys). config_value (addCustomConfigValues (Element ''Codec'' [] kids) []) k = config_value ?c k"
    unfolding Let_def by blast
  have "''@comment_prefix'' \<in> set (map fst event_keys)" by (simp add: event_keys_def)
  then have "config_value (addCustomConfigValues (Element ''Codec'' [] kids) []) ''@comment_prefix'' = JStr ''#''"
    using k(3) v(1) by metis
  then show ?thesis using k(1,2) v(2,3) by auto
qed

end
