(* ===== verification/Pion_Users.thy ===== *)
theory Pion_Users
  imports Pion_Transform
begin

text \<open>
  The permissions of a user (\<open>scripts/widgets/User.js\<close>): check boxes in named groups, filled from
  the permission elements of the user's configuration and written back by the save button. The
  services that can be restricted, with the options each has, come from their own scripts and
  are a parameter. The properties say that a pane that is saved as it was loaded sends what the
  server has, and what an administrator's pane shows.
\<close>

section \<open>Check boxes\<close>

text \<open>
  A service as its permission layout describes it: whether it has a check box of its own,
  whether it can be unrestricted, and its other options with their values.
\<close>

record service =
  plugin :: string
  top_level :: bool
  unrestrictable :: bool
  subtypes :: "(string \<times> string list) list"

text \<open>The check boxes that are checked in each group; \<open>None\<close> is a group that is not there.\<close>

type_synonym groups = "string \<rightharpoonup> string list"

definition checked_in :: "groups \<Rightarrow> string \<Rightarrow> string list" where
  "checked_in g k = (case g k of None \<Rightarrow> [] | Some vs \<Rightarrow> vs)"

definition tab_group :: string where "tab_group = ''tab_check_boxes''"
definition workspace_group :: string where "workspace_group = ''workspace_check_box_group''"
definition main_group :: "service \<Rightarrow> string" where "main_group s = plugin s @ ''_check_boxes''"
definition option_group :: "service \<Rightarrow> string \<Rightarrow> string" where "option_group s key = plugin s @ ''_'' @ key @ ''_check_boxes''"

definition tab_types :: "string list" where
  "tab_types = [''Vocabularies'', ''Codecs'', ''Databases'', ''Protocols'']"

definition setCheckBoxInConfig :: "string \<Rightarrow> string \<Rightarrow> bool \<Rightarrow> groups \<Rightarrow> groups" where
  "setCheckBoxInConfig grp v checked g =
     g(grp \<mapsto> (if checked then checked_in g grp @ [v] else filter (\<lambda>x. x \<noteq> v) (checked_in g grp)))"

definition set_options_of :: "service \<Rightarrow> (string list \<Rightarrow> string list) \<Rightarrow> groups \<Rightarrow> groups" where
  "set_options_of s f g = g ++ map_of (map (\<lambda>(key, vs). (option_group s key, f vs)) (subtypes s))"

definition onServiceUnrestricted :: "bool \<Rightarrow> service \<Rightarrow> groups \<Rightarrow> groups" where
  "onServiceUnrestricted checked s g =
     set_options_of s (\<lambda>_. []) (setCheckBoxInConfig (main_group s) ''Unrestricted'' checked
       (if g (main_group s) = None then g(main_group s \<mapsto> []) else g))"

definition onMainService :: "bool \<Rightarrow> service \<Rightarrow> groups \<Rightarrow> groups" where
  "onMainService checked s g =
     (let g1 = g(main_group s \<mapsto> (if checked then [plugin s] else [])) in
      if unrestrictable s then onServiceUnrestricted checked s g1
      else set_options_of s (\<lambda>vs. if checked then vs else []) g1)"

definition onReactorsUnrestricted :: "bool \<Rightarrow> groups \<Rightarrow> groups" where
  "onReactorsUnrestricted checked g = g(workspace_group \<mapsto> (if checked then [''Unrestricted''] else []))"

definition onAdmin_service :: "bool \<Rightarrow> service \<Rightarrow> groups \<Rightarrow> groups" where
  "onAdmin_service checked s g =
     (if top_level s then onMainService checked s g
      else if unrestrictable s then onServiceUnrestricted checked s g
      else set_options_of s (\<lambda>vs. if checked then vs else []) g)"

definition onAdminCheckBoxChanged :: "service list \<Rightarrow> bool \<Rightarrow> groups \<Rightarrow> groups" where
  "onAdminCheckBoxChanged services checked g =
     fold (onAdmin_service checked) services
       (onReactorsUnrestricted checked (g(tab_group \<mapsto> (if checked then ''Admin'' # tab_types else []))))"

section \<open>Reading\<close>

definition permission_type :: "node \<Rightarrow> string option" where
  "permission_type n = sval_toString (xs_getValue None n ''@type'' SUndef)"

definition is_unrestricted :: "node \<Rightarrow> bool" where
  "is_unrestricted n =
     (xs_hasAttribute None n ''Unrestricted'' \<and> sval_toString (xs_getValue None n ''Unrestricted'' SUndef) = Some ''true'')"

definition service_permission :: "service \<Rightarrow> node \<Rightarrow> groups \<Rightarrow> groups" where
  "service_permission s n g =
     (let g1 = (if top_level s then onMainService True s g else g);
          g2 = (if unrestrictable s then onServiceUnrestricted (is_unrestricted n) s g1 else g1)
      in if is_unrestricted n then g2
         else g2 ++ map_of (map (\<lambda>(key, vs). (option_group s key, map item_string (child_elements n key))) (subtypes s)))"

definition permission_step :: "service list \<Rightarrow> node \<Rightarrow> groups \<Rightarrow> groups" where
  "permission_step services n g =
     (case permission_type n of
        None \<Rightarrow> g
      | Some ty \<Rightarrow>
          if ty = ''Reactors'' then
            (if is_unrestricted n then onReactorsUnrestricted True g
             else (onReactorsUnrestricted False g)(workspace_group \<mapsto> map item_string (child_elements n ''Workspace'')))
          else if ty \<in> set tab_types then g(tab_group \<mapsto> checked_in g tab_group @ [ty])
          else (case find (\<lambda>s. plugin s = ty) services of None \<Rightarrow> g | Some s \<Rightarrow> service_permission s n g))"

definition populate_permissions :: "service list \<Rightarrow> node \<Rightarrow> groups" where
  "populate_permissions services item =
     (let ps = child_elements item ''Permission'' in
      if \<exists>p\<in>set ps. permission_type p = Some ''Admin'' then onAdminCheckBoxChanged services True (Map.empty(tab_group \<mapsto> []))
      else fold (permission_step services) ps (onAdminCheckBoxChanged services False (Map.empty(tab_group \<mapsto> []))))"

section \<open>Writing\<close>

definition service_selected :: "service \<Rightarrow> groups \<Rightarrow> bool" where
  "service_selected s g =
     (checked_in g (main_group s) \<noteq> [] \<or> (\<exists>p\<in>set (subtypes s). checked_in g (option_group s (fst p)) \<noteq> []))"

definition xml_tag :: "string \<Rightarrow> string \<Rightarrow> string" where
  "xml_tag t s = ''<'' @ t @ ''>'' @ s @ ''</'' @ t @ ''>''"

definition permission_xml :: "string \<Rightarrow> string \<Rightarrow> string" where
  "permission_xml ty inner = ''<Permission'' @ quoted_attr ''type'' ty @ ''>'' @ inner @ ''</Permission>''"

definition service_xml :: "service \<Rightarrow> groups \<Rightarrow> string" where
  "service_xml s g =
     (if service_selected s g then
        permission_xml (plugin s)
          (if ''Unrestricted'' \<in> set (checked_in g (main_group s)) then xml_tag ''Unrestricted'' ''true''
           else concat (map (\<lambda>p. concat (map (xml_tag (fst p)) (checked_in g (option_group s (fst p))))) (subtypes s)))
      else [])"

definition reactors_xml :: "groups \<Rightarrow> string" where
  "reactors_xml g =
     (let ws = checked_in g workspace_group in
      if ws = [] then []
      else permission_xml ''Reactors''
        (if ''Unrestricted'' \<in> set ws then xml_tag ''Unrestricted'' ''true'' else concat (map (xml_tag ''Workspace'') ws)))"

definition tab_xml :: "string \<Rightarrow> string" where
  "tab_xml ty = ''<Permission'' @ quoted_attr ''type'' ty @ '' />''"

definition permissions_xml :: "service list \<Rightarrow> groups \<Rightarrow> string" where
  "permissions_xml services g =
     (if ''Admin'' \<in> set (checked_in g tab_group) then tab_xml ''Admin''
      else concat (map tab_xml (checked_in g tab_group)) @ reactors_xml g @ concat (map (\<lambda>s. service_xml s g) services))"

text \<open>
  \<open>save\<close>: what is asked before the request, depending on whether the user edits himself and
  whether any box is checked.
\<close>

datatype save_question = Proceed | OwnPermission | AllPermissions

definition save_question_for :: "string \<Rightarrow> string \<Rightarrow> groups \<Rightarrow> bool \<Rightarrow> save_question" where
  "save_question_for uuid last_logged_in_user g any_checked =
     (if uuid = last_logged_in_user \<and> ''Admin'' \<notin> set (checked_in g tab_group) then OwnPermission
      else if \<not> any_checked then AllPermissions else Proceed)"

text \<open>The body of the request; the fields of the form that are no check boxes come first.\<close>

definition user_body :: "service list \<Rightarrow> (string \<times> jsval) list \<Rightarrow> groups \<Rightarrow> string" where
  "user_body services flds g =
     ''<PionConfig><User>'' @ concat (map (\<lambda>(k, v). makeXmlLeafElement k v) flds) @ permissions_xml services g @ ''</User></PionConfig>''"

text \<open>A new user: permission for every resource that has a tab.\<close>

definition new_user_body :: "string \<Rightarrow> (string \<times> jsval) list \<Rightarrow> string list \<Rightarrow> string" where
  "new_user_body i dialogFields resources =
     ''<PionConfig><User id='' @ [CHR 0x22] @ escapeXml (JStr i) @ [CHR 0x22] @ ''>'' @
     concat (map (\<lambda>(k, v). makeXmlLeafElement k v) dialogFields) @ concat (map (xml_tag ''Permit'') resources) @ ''</User></PionConfig>''"

section \<open>What a pane says\<close>

text \<open>The groups that belong to a service; no group belongs to two.\<close>

definition service_groups :: "service \<Rightarrow> string list" where
  "service_groups s = main_group s # map (option_group s) (map fst (subtypes s))"

definition service_ok :: "service \<Rightarrow> bool" where
  "service_ok s =
     (plain_text (plugin s) \<and> plugin s \<noteq> [] \<and> plugin s \<notin> set ([''Reactors'', ''Admin'', ''Unrestricted''] @ tab_types) \<and>
      (\<forall>p\<in>set (subtypes s). valid_name (fst p) \<and> element_name (fst p) \<and> fst p \<noteq> ''Unrestricted''))"

definition services_ok :: "service list \<Rightarrow> bool" where
  "services_ok services =
     ((\<forall>s\<in>set services. service_ok s) \<and> distinct (map plugin services) \<and>
      distinct (tab_group # workspace_group # concat (map service_groups services)))"

text \<open>What the check boxes of the pane can show.\<close>

definition pane_ok :: "service list \<Rightarrow> groups \<Rightarrow> bool" where
  "pane_ok services g =
     (set (checked_in g tab_group) \<subseteq> insert ''Admin'' (set tab_types) \<and>
      (\<forall>w\<in>set (checked_in g workspace_group). plain_text w) \<and>
      (\<forall>s\<in>set services.
         set (checked_in g (main_group s)) \<subseteq>
           (if top_level s then {plugin s} else {}) \<union> (if unrestrictable s then {''Unrestricted''} else {}) \<and>
         (\<forall>p\<in>set (subtypes s). \<forall>v\<in>set (checked_in g (option_group s (fst p))). plain_text v)))"

lemma checked_in_upd [simp]: "checked_in (g(k \<mapsto> vs)) k' = (if k' = k then vs else checked_in g k')"
  by (simp add: checked_in_def)

lemma set_options_of_other: "k \<notin> set (service_groups s) \<Longrightarrow> set_options_of s f g k = g k"
proof -
  assume k: "k \<notin> set (service_groups s)"
  have "map_of (map (\<lambda>(key, vs). (option_group s key, f vs)) ps) k = None" if "\<forall>p\<in>set ps. option_group s (fst p) \<noteq> k" for ps
    using that by (induction ps) auto
  then show ?thesis using k by (force simp: set_options_of_def service_groups_def map_add_def)
qed

lemma set_options_of_main: "distinct (service_groups s) \<Longrightarrow> set_options_of s f g (main_group s) = g (main_group s)"
proof -
  assume d: "distinct (service_groups s)"
  have "map_of (map (\<lambda>(key, vs). (option_group s key, f vs)) ps) k = None" if "\<forall>p\<in>set ps. option_group s (fst p) \<noteq> k" for ps k
    using that by (induction ps) auto
  moreover have "\<forall>p\<in>set (subtypes s). option_group s (fst p) \<noteq> main_group s"
    using d by (force simp: service_groups_def)
  ultimately have "map_of (map (\<lambda>(key, vs). (option_group s key, f vs)) (subtypes s)) (main_group s) = None" by blast
  then show ?thesis by (simp add: set_options_of_def map_add_def)
qed

lemma options_map_of:
  assumes "distinct (service_groups s)" "p \<in> set (subtypes s)"
  shows "map_of (map (\<lambda>(key, vs). (option_group s key, h key vs)) (subtypes s)) (option_group s (fst p)) = Some (h (fst p) (snd p))"
proof -
  have "distinct (map fst (map (\<lambda>(key, vs). (option_group s key, h key vs)) (subtypes s)))"
    using assms(1) by (simp add: service_groups_def comp_def split_beta)
  then show ?thesis using assms(2) by (intro map_of_is_SomeI) (auto simp: image_iff split_beta intro!: bexI [of _ p])
qed

lemma set_options_of_option:
  "distinct (service_groups s) \<Longrightarrow> p \<in> set (subtypes s) \<Longrightarrow> set_options_of s f g (option_group s (fst p)) = Some (f (snd p))"
  using options_map_of [of s p "\<lambda>_. f"] by (simp add: set_options_of_def map_add_def)

lemma main_in_groups: "main_group s \<in> set (service_groups s)"
  by (simp add: service_groups_def)

lemma option_in_groups: "p \<in> set (subtypes s) \<Longrightarrow> option_group s (fst p) \<in> set (service_groups s)"
  by (simp add: service_groups_def)

text \<open>Nothing that is done for a service touches another group.\<close>

lemma service_frame:
  assumes "k \<notin> set (service_groups s)"
  shows "onServiceUnrestricted c s g k = g k" "onMainService c s g k = g k" "onAdmin_service c s g k = g k" "service_permission s n g k = g k"
proof -
  have m: "k \<noteq> main_group s" using assms main_in_groups by auto
  have u: "onServiceUnrestricted c s g k = g k" for c g
    using m by (simp add: onServiceUnrestricted_def setCheckBoxInConfig_def set_options_of_other [OF assms])
  have o: "onMainService c s g k = g k" for c g
    using m by (simp add: onMainService_def Let_def u set_options_of_other [OF assms])
  have "map_of (map (\<lambda>(key, vs). (option_group s key, map item_string (child_elements n key))) ps) k = None"
    if "\<forall>p\<in>set ps. option_group s (fst p) \<noteq> k" for ps :: "(string \<times> string list) list"
    using that by (induction ps) auto
  then have "map_of (map (\<lambda>(key, vs). (option_group s key, map item_string (child_elements n key))) (subtypes s)) k = None"
    using assms by (force simp: service_groups_def)
  then show "onServiceUnrestricted c s g k = g k" "onMainService c s g k = g k" "onAdmin_service c s g k = g k" "service_permission s n g k = g k"
    by (simp_all add: u o onAdmin_service_def service_permission_def Let_def set_options_of_other [OF assms] map_add_def)
qed

text \<open>
  Something done for each service in turn: a step for one service that leaves the groups of the
  others alone, and needs and gives facts about the groups of its own service.
\<close>

definition same_groups :: "service \<Rightarrow> groups \<Rightarrow> groups \<Rightarrow> bool" where
  "same_groups s g h = (\<forall>k\<in>set (service_groups s). g k = h k)"

locale per_service =
  fixes f :: "service \<Rightarrow> groups \<Rightarrow> groups"
    and pre post :: "service \<Rightarrow> groups \<Rightarrow> bool"
  assumes frame: "k \<notin> set (service_groups s) \<Longrightarrow> f s h k = h k"
    and pre_local: "same_groups s h h' \<Longrightarrow> pre s h \<Longrightarrow> pre s h'"
    and post_local: "same_groups s h h' \<Longrightarrow> post s h \<Longrightarrow> post s h'"
    and step: "pre s h \<Longrightarrow> post s (f s h)"
begin

lemma fold_frame: "k \<notin> set (concat (map service_groups ss)) \<Longrightarrow> fold f ss h k = h k"
  by (induction ss arbitrary: h) (auto simp: frame)

lemma fold_post:
  "distinct (concat (map service_groups ss)) \<Longrightarrow> \<forall>s\<in>set ss. pre s h \<Longrightarrow> \<forall>s\<in>set ss. post s (fold f ss h)"
proof (induction ss arbitrary: h)
  case (Cons s ss)
  have apart: "k \<notin> set (service_groups s)" if "k \<in> set (service_groups s')" "s' \<in> set ss" for k s'
    using Cons.prems(1) that by auto
  have "pre s' (f s h)" if "s' \<in> set ss" for s'
    using that Cons.prems(2) apart by (auto intro!: pre_local [of s' h "f s h"] simp: same_groups_def frame)
  then have "\<forall>s'\<in>set ss. post s' (fold f ss (f s h))" using Cons.IH [of "f s h"] Cons.prems(1) by simp
  moreover have "post s (fold f ss (f s h))"
  proof (rule post_local [of s "f s h"])
    show "same_groups s (f s h) (fold f ss (f s h))"
      using Cons.prems(1) by (auto simp: same_groups_def intro!: fold_frame [symmetric])
  qed (use Cons.prems(2) step in simp)
  ultimately show ?case by simp
qed simp

end

text \<open>Clearing the boxes, before the permissions are read.\<close>

definition service_reset :: "service \<Rightarrow> groups \<Rightarrow> bool" where
  "service_reset s g = (checked_in g (main_group s) = [] \<and> (\<forall>p\<in>set (subtypes s). checked_in g (option_group s (fst p)) = []))"

lemma same_groups_checked: "same_groups s g h \<Longrightarrow> k \<in> set (service_groups s) \<Longrightarrow> checked_in g k = checked_in h k"
  by (simp add: same_groups_def checked_in_def)

lemmas same_checked = same_groups_checked [OF _ main_in_groups] same_groups_checked [OF _ option_in_groups]

lemma checked_options:
  assumes "distinct (service_groups s)"
  shows "checked_in (set_options_of s f g) (main_group s) = checked_in g (main_group s)"
    and "p \<in> set (subtypes s) \<Longrightarrow> checked_in (set_options_of s f g) (option_group s (fst p)) = f (snd p)"
  by (simp_all add: checked_in_def set_options_of_main [OF assms] set_options_of_option [OF assms])

lemma onServiceUnrestricted_main:
  "distinct (service_groups s) \<Longrightarrow> checked_in (onServiceUnrestricted c s g) (main_group s) =
     (if c then checked_in g (main_group s) @ [''Unrestricted''] else filter (\<lambda>x. x \<noteq> ''Unrestricted'') (checked_in g (main_group s)))"
  by (simp add: onServiceUnrestricted_def setCheckBoxInConfig_def checked_options) (simp add: checked_in_def)

lemma onServiceUnrestricted_option:
  "distinct (service_groups s) \<Longrightarrow> p \<in> set (subtypes s) \<Longrightarrow> checked_in (onServiceUnrestricted c s g) (option_group s (fst p)) = []"
  by (simp add: onServiceUnrestricted_def checked_options)

interpretation clearing: per_service "onAdmin_service False"
  "\<lambda>s g. distinct (service_groups s) \<and> checked_in g (main_group s) = []" service_reset
proof
  fix s g assume "distinct (service_groups s) \<and> checked_in g (main_group s) = []"
  then show "service_reset s (onAdmin_service False s g)"
    by (simp add: service_reset_def onAdmin_service_def onMainService_def Let_def onServiceUnrestricted_main
        onServiceUnrestricted_option checked_options)
qed (auto simp: service_frame service_reset_def same_checked)

section \<open>What is sent is what is read\<close>

definition option_leaves :: "service \<Rightarrow> groups \<Rightarrow> node list" where
  "option_leaves s g = concat (map (\<lambda>p. map (\<lambda>v. leaf (fst p, v)) (checked_in g (option_group s (fst p)))) (subtypes s))"

definition service_element :: "service \<Rightarrow> groups \<Rightarrow> node" where
  "service_element s g = Element ''Permission'' [(''type'', plugin s)]
     (if ''Unrestricted'' \<in> set (checked_in g (main_group s)) then [leaf (''Unrestricted'', ''true'')] else option_leaves s g)"

definition service_elements :: "service \<Rightarrow> groups \<Rightarrow> node list" where
  "service_elements s g = (if service_selected s g then [service_element s g] else [])"

definition reactor_elements :: "groups \<Rightarrow> node list" where
  "reactor_elements g =
     (let ws = checked_in g workspace_group in
      if ws = [] then [] else [Element ''Permission'' [(''type'', ''Reactors'')]
        (if ''Unrestricted'' \<in> set ws then [leaf (''Unrestricted'', ''true'')] else map (\<lambda>w. leaf (''Workspace'', w)) ws)])"

definition tab_element :: "string \<Rightarrow> node" where
  "tab_element ty = Element ''Permission'' [(''type'', ty)] []"

definition permission_elements :: "service list \<Rightarrow> groups \<Rightarrow> node list" where
  "permission_elements services g =
     (if ''Admin'' \<in> set (checked_in g tab_group) then [tab_element ''Admin'']
      else map tab_element (checked_in g tab_group) @ reactor_elements g @ concat (map (\<lambda>s. service_elements s g) services))"

lemma permission_names: "valid_name ''Permission''" "valid_name ''type''" "valid_name ''Unrestricted''" "valid_name ''Workspace''"
  by (simp_all add: element_names)

lemma reads_permission:
  assumes "plain_text ty" "reads s ns"
  shows "reads (permission_xml ty s) [Element ''Permission'' [(''type'', ty)] ns]"
  using reads_elem_attr [OF permission_names(1,2) assms(2), of ty] assms(1)
  by (simp add: permission_xml_def quoted_attr_def plain_text_def escape_chain_plain)

lemma reads_xml_tag: "valid_name t \<Longrightarrow> plain_text s \<Longrightarrow> reads (xml_tag t s) [leaf (t, s)]"
  using reads_plain_leaf [of t s] by (simp add: xml_tag_def)

lemma reads_xml_tags:
  "valid_name t \<Longrightarrow> \<forall>v\<in>set vs. plain_text v \<Longrightarrow> reads (concat (map (xml_tag t) vs)) (map (\<lambda>v. leaf (t, v)) vs)"
  by (induction vs) (auto intro: reads_Cons reads_xml_tag)

lemma true_text_plain: "plain_text ''true''"
  by (simp add: plain_text_def special_def)

lemma reads_service_options:
  "\<forall>p\<in>set ps. valid_name (fst p) \<and> (\<forall>v\<in>set (vs p). plain_text v) \<Longrightarrow>
   reads (concat (map (\<lambda>p. concat (map (xml_tag (fst p)) (vs p))) ps)) (concat (map (\<lambda>p. map (\<lambda>v. leaf (fst p, v)) (vs p)) ps))"
  by (rule reads_concat) (auto intro: reads_xml_tags)

lemma reads_service:
  assumes "service_ok s" "\<forall>p\<in>set (subtypes s). \<forall>v\<in>set (checked_in g (option_group s (fst p))). plain_text v"
  shows "reads (service_xml s g) (service_elements s g)"
  using assms reads_permission [of "plugin s"] reads_service_options [of "subtypes s" "\<lambda>p. checked_in g (option_group s (fst p))"]
    reads_xml_tag [OF permission_names(3) true_text_plain]
  by (auto simp: service_xml_def service_elements_def service_element_def option_leaves_def service_ok_def)

lemma reads_reactors:
  "\<forall>w\<in>set (checked_in g workspace_group). plain_text w \<Longrightarrow> reads (reactors_xml g) (reactor_elements g)"
  using reads_permission [of "''Reactors''"] reads_xml_tags [OF permission_names(4), of "checked_in g workspace_group"]
    reads_xml_tag [OF permission_names(3) true_text_plain]
  by (auto simp: reactors_xml_def reactor_elements_def Let_def plain_text_def special_def)

lemma reads_tab: "plain_text ty \<Longrightarrow> reads (tab_xml ty) [tab_element ty]"
  using reads_empty_attr [OF permission_names(1,2), of ty]
  by (simp add: tab_xml_def tab_element_def quoted_attr_def plain_text_def escape_chain_plain)

lemma tab_types_plain: "ty \<in> insert ''Admin'' (set tab_types) \<Longrightarrow> plain_text ty"
  by (auto simp: tab_types_def plain_text_def special_def)

lemma reads_permissions:
  assumes "services_ok services" "pane_ok services g"
  shows "reads (permissions_xml services g) (permission_elements services g)"
proof -
  have tabs: "reads (concat (map tab_xml tys)) (map tab_element tys)" if "set tys \<subseteq> insert ''Admin'' (set tab_types)" for tys
    using that by (induction tys) (auto intro!: reads_Cons reads_tab tab_types_plain)
  have "reads (concat (map (\<lambda>s. service_xml s g) services)) (concat (map (\<lambda>s. service_elements s g) services))"
    using assms by (intro reads_concat reads_service) (auto simp: services_ok_def pane_ok_def)
  with tabs show ?thesis using assms reads_tab [of "''Admin''"] tab_types_plain [of "''Admin''"]
    by (auto simp: permissions_xml_def permission_elements_def pane_ok_def intro!: reads_append reads_reactors)
qed

section \<open>What is read is what was sent\<close>

lemma child_elements_leaves:
  "distinct (map fst ps) \<Longrightarrow> p \<in> set ps \<Longrightarrow>
   child_elements (Element t as (concat (map (\<lambda>p. map (\<lambda>v. leaf (fst p, v)) (vs p)) ps))) (fst p) = map (\<lambda>v. leaf (fst p, v)) (vs p)"
proof (induction ps)
  case (Cons q ps)
  have other: "filter (\<lambda>n. is_element n \<and> nodeName n = k) (concat (map (\<lambda>p. map (\<lambda>v. leaf (fst p, v)) (vs p)) qs)) = []"
    if "k \<notin> fst ` set qs" for k qs
    using that by (induction qs) (auto simp: filter_empty_conv leaf_def)
  show ?case
  proof (cases "p = q")
    case True
    then show ?thesis using Cons.prems other [of "fst q" ps] by (simp add: child_elements_def filter_map comp_def leaf_def is_element_def)
  next
    case False
    then have "p \<in> set ps" "fst q \<noteq> fst p" using Cons.prems by auto
    then show ?thesis using Cons.IH Cons.prems by (simp add: child_elements_def filter_map comp_def leaf_def)
  qed
qed simp

lemma unrestricted_read:
  assumes "service_ok s"
  shows "is_unrestricted (service_element s g) \<longleftrightarrow> ''Unrestricted'' \<in> set (checked_in g (main_group s))"
proof -
  have "filter (\<lambda>n. is_element n \<and> nodeName n = ''Unrestricted'') (option_leaves s g) = []"
    using assms by (auto simp: filter_empty_conv option_leaves_def leaf_def service_ok_def)
  then show ?thesis
    by (simp add: is_unrestricted_def service_element_def xs_hasAttribute_def xs_child)
qed

lemma permission_type_read: "ty \<noteq> [] \<Longrightarrow> permission_type (Element ''Permission'' [(''type'', ty)] ns) = Some ty"
  by (simp add: permission_type_def xs_attr)

definition load_service :: "groups \<Rightarrow> service \<Rightarrow> groups \<Rightarrow> groups" where
  "load_service g s h = (if service_selected s g then service_permission s (service_element s g) h else h)"

definition saved_well :: "groups \<Rightarrow> service \<Rightarrow> groups \<Rightarrow> bool" where
  "saved_well g s h =
     (service_ok s \<and> distinct (service_groups s) \<and> service_reset s h \<and>
      set (checked_in g (main_group s)) \<subseteq>
        (if top_level s then {plugin s} else {}) \<union> (if unrestrictable s then {''Unrestricted''} else {}))"

lemma service_xml_local: "same_groups s g h \<Longrightarrow> service_xml s g = service_xml s h"
proof -
  assume same: "same_groups s g h"
  have "checked_in g (option_group s (fst p)) = checked_in h (option_group s (fst p))" if "p \<in> set (subtypes s)" for p
    using same_checked(2) [OF same that] .
  then show ?thesis
    by (simp add: service_xml_def service_selected_def same_checked(1) [OF same] cong: map_cong)
qed

lemma item_strings: "map item_string (map (\<lambda>v. leaf (k, v)) vs) = vs"
  by (induction vs) simp_all

lemma restricted_read:
  assumes d: "distinct (service_groups s)" and s: "service_ok s"
    and r: "''Unrestricted'' \<notin> set (checked_in g (main_group s))"
  shows "checked_in (service_permission s (service_element s g) h) (main_group s) =
           (if top_level s then [plugin s]
            else if unrestrictable s then filter (\<lambda>x. x \<noteq> ''Unrestricted'') (checked_in h (main_group s)) else checked_in h (main_group s))"
    and "p \<in> set (subtypes s) \<Longrightarrow> checked_in (service_permission s (service_element s g) h) (option_group s (fst p)) =
           checked_in g (option_group s (fst p))"
proof -
  have n: "plugin s \<noteq> ''Unrestricted''" using s by (simp add: service_ok_def)
  have u: "\<not> is_unrestricted (service_element s g)" using unrestricted_read [OF s] r by blast
  have nm: "map_of (map (\<lambda>(key, vs). (option_group s key, e key)) (subtypes s)) (main_group s) = None" for e
  proof -
    have "map_of (map (\<lambda>(key, vs). (option_group s key, e key)) ps) k = None" if "\<forall>p\<in>set ps. option_group s (fst p) \<noteq> k"
      for ps :: "(string \<times> string list) list" and k
      using that by (induction ps) auto
    moreover have "\<forall>p\<in>set (subtypes s). option_group s (fst p) \<noteq> main_group s" using d by (force simp: service_groups_def)
    ultimately show ?thesis by blast
  qed
  show "checked_in (service_permission s (service_element s g) h) (main_group s) =
           (if top_level s then [plugin s]
            else if unrestrictable s then filter (\<lambda>x. x \<noteq> ''Unrestricted'') (checked_in h (main_group s)) else checked_in h (main_group s))"
    using n u nm [of "\<lambda>key. map item_string (child_elements (service_element s g) key)"]
      onServiceUnrestricted_main [OF d] checked_options(1) [OF d]
    by (simp add: service_permission_def Let_def onMainService_def checked_in_def map_add_def)
next
  have u: "\<not> is_unrestricted (service_element s g)" using unrestricted_read [OF s] r by blast
  assume p: "p \<in> set (subtypes s)"
  have dk: "distinct (map fst (subtypes s))" using d by (auto simp: service_groups_def distinct_map intro: inj_on_imageI2)
  have "child_elements (service_element s g) (fst p) = map (\<lambda>v. leaf (fst p, v)) (checked_in g (option_group s (fst p)))"
    using child_elements_leaves [OF dk p] r by (simp add: service_element_def option_leaves_def)
  then show "checked_in (service_permission s (service_element s g) h) (option_group s (fst p)) = checked_in g (option_group s (fst p))"
    using u options_map_of [OF d p, of "\<lambda>key vs. map item_string (child_elements (service_element s g) key)"]
    by (simp add: service_permission_def Let_def checked_in_def map_add_def comp_def)
qed

lemma load_service_saved:
  assumes "saved_well g s h"
  shows "service_xml s (load_service g s h) = service_xml s g"
proof -
  from assms have s: "service_ok s" and d: "distinct (service_groups s)" and r: "service_reset s h"
    and m: "set (checked_in g (main_group s)) \<subseteq> (if top_level s then {plugin s} else {}) \<union> (if unrestrictable s then {''Unrestricted''} else {})"
    by (simp_all add: saved_well_def)
  have n: "plugin s \<noteq> ''Unrestricted''" using s by (simp add: service_ok_def)
  let ?n = "service_element s g" and ?h = "service_permission s (service_element s g) h"
  show ?thesis
  proof (cases "service_selected s g")
    case False
    then show ?thesis using r by (auto simp: load_service_def service_xml_def service_selected_def service_reset_def)
  next
    case sel: True
    show ?thesis
    proof (cases "''Unrestricted'' \<in> set (checked_in g (main_group s))")
      case True
      then have "is_unrestricted ?n" "unrestrictable s"
        using unrestricted_read [OF s] m n by (auto split: if_splits)
      then have "''Unrestricted'' \<in> set (checked_in ?h (main_group s))"
        by (simp add: service_permission_def Let_def onServiceUnrestricted_main [OF d])
      then show ?thesis using sel True by (auto simp: load_service_def service_xml_def service_selected_def)
    next
      case False
      note read = restricted_read [OF d s False]
      have opts: "checked_in ?h (option_group s (fst p)) = checked_in g (option_group s (fst p))" if "p \<in> set (subtypes s)" for p
        using read(2) [OF that] .
      have "''Unrestricted'' \<notin> set (checked_in ?h (main_group s))"
        using read(1) n r by (auto simp: service_reset_def)
      moreover have "\<not> top_level s \<Longrightarrow> checked_in g (main_group s) = []"
        using m False by (cases "checked_in g (main_group s)") (auto split: if_splits)
      then have "service_selected s ?h"
        using sel opts read(1) by (auto simp: service_selected_def split: if_splits)
      ultimately show ?thesis using sel False opts
        by (simp add: load_service_def service_xml_def cong: map_cong)
    qed
  qed
qed

interpretation loading: per_service "load_service g" "saved_well g" "\<lambda>s h. service_xml s h = service_xml s g" for g
proof
  fix k s h assume "k \<notin> set (service_groups s)"
  then show "load_service g s h k = h k" by (simp add: load_service_def service_frame)
next
  fix s h h' assume "same_groups s h h'" "saved_well g s h"
  then show "saved_well g s h'" by (simp add: saved_well_def service_reset_def same_checked)
next
  fix s h h' assume "same_groups s h h'" "service_xml s h = service_xml s g"
  then show "service_xml s h' = service_xml s g" using service_xml_local by metis
next
  fix s h assume "saved_well g s h"
  then show "service_xml s (load_service g s h) = service_xml s g" by (rule load_service_saved)
qed

text \<open>The steps for the elements of the services are the steps for the services.\<close>

lemma service_step:
  assumes "services_ok services" "s \<in> set services"
  shows "permission_step services (service_element s g) h = service_permission s (service_element s g) h"
proof -
  have s: "plugin s \<noteq> []" "plugin s \<noteq> ''Reactors''" "plugin s \<notin> set tab_types"
    using assms by (auto simp: services_ok_def service_ok_def)
  have "find (\<lambda>x. plugin x = plugin s) ss = Some s" if "distinct (map plugin ss)" "s \<in> set ss" for ss
    using that by (induction ss) auto
  then have "find (\<lambda>x. plugin x = plugin s) services = Some s" using assms by (simp add: services_ok_def)
  then show ?thesis using s permission_type_read [OF s(1)] by (simp add: permission_step_def service_element_def)
qed

lemma service_steps:
  assumes ok: "services_ok services"
  shows "set ss \<subseteq> set services \<Longrightarrow>
    fold (permission_step services) (concat (map (\<lambda>s. service_elements s g) ss)) h = fold (load_service g) ss h"
  by (induction ss arbitrary: h) (auto simp: service_elements_def load_service_def service_step [OF ok])

lemma tab_steps:
  "set tys \<subseteq> set tab_types \<Longrightarrow> tab_group \<in> dom h \<Longrightarrow>
   fold (permission_step services) (map tab_element tys) h = h(tab_group \<mapsto> checked_in h tab_group @ tys)"
proof (induction tys arbitrary: h)
  case Nil
  then show ?case by (auto simp: checked_in_def)
next
  case (Cons ty tys)
  have "ty \<noteq> []" "ty \<noteq> ''Reactors''" using Cons.prems(1) by (auto simp: tab_types_def)
  then have "permission_step services (tab_element ty) h = h(tab_group \<mapsto> checked_in h tab_group @ [ty])"
    using Cons.prems(1) by (simp add: permission_step_def tab_element_def permission_type_read)
  moreover have "tab_group \<in> dom (h(tab_group \<mapsto> checked_in h tab_group @ [ty]))" by simp
  note Cons.IH [OF _ this]
  ultimately show ?case using Cons.prems(1) by (simp del: fun_upd_apply)
qed

lemma reactor_step:
  "fold (permission_step services) (reactor_elements g) h = (if checked_in g workspace_group = [] then h
     else h(workspace_group \<mapsto> (if ''Unrestricted'' \<in> set (checked_in g workspace_group) then [''Unrestricted''] else checked_in g workspace_group)))"
  by (simp add: reactor_elements_def Let_def permission_step_def permission_type_read onReactorsUnrestricted_def is_unrestricted_def
      xs_hasAttribute_def xs_child child_elements_def filter_map comp_def filter_empty_conv item_strings)

lemma cleared:
  assumes ok: "services_ok services"
  shows "checked_in (onAdminCheckBoxChanged services False h) tab_group = []"
    and "tab_group \<in> dom (onAdminCheckBoxChanged services False h)"
    and "checked_in (onAdminCheckBoxChanged services False h) workspace_group = []"
    and "h = Map.empty(tab_group \<mapsto> []) \<Longrightarrow> \<forall>s\<in>set services. service_reset s (onAdminCheckBoxChanged services False h)"
proof -
  have d: "distinct (concat (map service_groups services))" "tab_group \<notin> set (concat (map service_groups services))"
    "workspace_group \<notin> set (concat (map service_groups services))" "tab_group \<noteq> workspace_group"
    using ok by (simp_all add: services_ok_def)
  let ?h = "onReactorsUnrestricted False (h(tab_group \<mapsto> []))"
  have "onAdminCheckBoxChanged services False h tab_group = Some []" "onAdminCheckBoxChanged services False h workspace_group = Some []"
    using clearing.fold_frame [OF d(2), of ?h] clearing.fold_frame [OF d(3), of ?h] d(4)
    by (simp_all add: onAdminCheckBoxChanged_def onReactorsUnrestricted_def)
  then show "checked_in (onAdminCheckBoxChanged services False h) tab_group = []"
    "tab_group \<in> dom (onAdminCheckBoxChanged services False h)"
    "checked_in (onAdminCheckBoxChanged services False h) workspace_group = []"
    by (auto simp: checked_in_def)
  assume h: "h = Map.empty(tab_group \<mapsto> [])"
  have dg: "distinct (service_groups s)" if "s \<in> set services" for s
    using d(1) that by (auto simp: distinct_concat_iff)
  have "checked_in ?h (main_group s) = []" if "s \<in> set services" for s
    using that by (simp add: h onReactorsUnrestricted_def) (simp add: checked_in_def)
  then show "\<forall>s\<in>set services. service_reset s (onAdminCheckBoxChanged services False h)"
    using clearing.fold_post [OF d(1), of ?h] dg by (simp add: onAdminCheckBoxChanged_def)
qed

lemma elements_read:
  assumes ok: "services_ok services" and pane: "pane_ok services g" and no: "''Admin'' \<notin> set (checked_in g tab_group)"
    and h0: "h0 = onAdminCheckBoxChanged services False (Map.empty(tab_group \<mapsto> []))"
    and h: "h = fold (permission_step services) (permission_elements services g) h0"
  shows "permissions_xml services h = permissions_xml services g"
proof -
  have d: "distinct (concat (map service_groups services))" "tab_group \<notin> set (concat (map service_groups services))"
    "workspace_group \<notin> set (concat (map service_groups services))" "tab_group \<noteq> workspace_group"
    using ok by (simp_all add: services_ok_def)
  have tabs: "set (checked_in g tab_group) \<subseteq> set tab_types" using pane no by (auto simp: pane_ok_def)
  define h1 where "h1 = h0(tab_group \<mapsto> checked_in g tab_group)"
  define h2 where "h2 = fold (permission_step services) (reactor_elements g) h1"
  have h1: "fold (permission_step services) (map tab_element (checked_in g tab_group)) h0 = h1"
    using tab_steps [OF tabs, of h0 services] cleared(1,2) [OF ok] by (simp add: h0 h1_def del: fun_upd_apply)
  have hf: "h = fold (load_service g) services h2"
    using no service_steps [OF ok subset_refl, of g h2] by (simp add: h permission_elements_def h1 h2_def)
  have frame: "h2 k = h0 k" if "k \<noteq> tab_group" "k \<noteq> workspace_group" for k
    using that by (simp add: h2_def reactor_step h1_def)
  have tab: "checked_in h tab_group = checked_in g tab_group"
    using loading.fold_frame [OF d(2), of g h2] d(4) by (simp add: hf checked_in_def h2_def reactor_step h1_def)
  have ws: "reactors_xml h = reactors_xml g"
    using loading.fold_frame [OF d(3), of g h2] d(4) cleared(3) [OF ok, of "Map.empty(tab_group \<mapsto> [])"]
    by (simp add: hf reactors_xml_def h2_def reactor_step h1_def checked_in_def h0 split: option.splits)
  have "saved_well g s h2" if s: "s \<in> set services" for s
  proof -
    have "k \<noteq> tab_group \<and> k \<noteq> workspace_group" if "k \<in> set (service_groups s)" for k using that s d(2,3) by auto
    then have same: "same_groups s h0 h2" by (simp add: same_groups_def frame)
    have "service_reset s h0" using cleared(4) [OF ok refl] s by (simp add: h0)
    then have "service_reset s h2" by (simp add: service_reset_def same_checked [OF same, symmetric])
    then show ?thesis using ok pane s d(1) by (auto simp: saved_well_def services_ok_def pane_ok_def distinct_concat_iff)
  qed
  then have "\<forall>s\<in>set services. service_xml s h = service_xml s g"
    using loading.fold_post [OF d(1), of g h2] by (simp add: hf)
  then show ?thesis using tab ws by (simp add: permissions_xml_def cong: map_cong)
qed

lemma permission_nodes: "n \<in> set (permission_elements services g) \<Longrightarrow> is_element n \<and> nodeName n = ''Permission''"
  by (auto simp: permission_elements_def tab_element_def reactor_elements_def Let_def service_elements_def service_element_def
      is_element_def split: if_splits)

lemma permission_types:
  assumes "services_ok services" "pane_ok services g" "n \<in> set (permission_elements services g)"
  shows "permission_type n = Some ''Admin'' \<longleftrightarrow> ''Admin'' \<in> set (checked_in g tab_group)"
proof (cases "''Admin'' \<in> set (checked_in g tab_group)")
  case True
  then show ?thesis using assms(3) by (simp add: permission_elements_def tab_element_def permission_type_read)
next
  case False
  have s: "plugin s \<noteq> []" "plugin s \<noteq> ''Admin''" if "s \<in> set services" for s
    using assms(1) that by (auto simp: services_ok_def service_ok_def)
  have t: "ty \<noteq> []" if "ty \<in> set (checked_in g tab_group)" for ty
    using assms(2) that by (auto simp: pane_ok_def tab_types_def)
  show ?thesis using assms(3) False s t
    by (auto simp: permission_elements_def tab_element_def reactor_elements_def Let_def service_elements_def service_element_def
        permission_type_read split: if_splits)
qed

text \<open>
  C18: what a user's pane saves and the pane makes of it: the permission elements sent for a pane
  parse, and the pane that is filled from them (the old boxes cleared first, then every permission
  read) sends the same text again, whatever is checked: administrators, restricted and
  unrestricted reactors and services, services with and without a check box of their own.
\<close>

theorem user_permissions_round_trip:
  assumes ok: "services_ok services" and pane: "pane_ok services g"
  shows "\<exists>kids. read_xml (''<User>'' @ permissions_xml services g @ ''</User>'') = Some (Element ''User'' [] kids) \<and>
     permissions_xml services (populate_permissions services (Element ''User'' [] kids)) = permissions_xml services g"
proof (intro exI conjI)
  let ?kids = "permission_elements services g"
  have "valid_name ''User''" by (simp add: element_names)
  from reads_read_xml [OF reads_elem [OF this reads_permissions [OF ok pane]]]
  show "read_xml (''<User>'' @ permissions_xml services g @ ''</User>'') = Some (Element ''User'' [] ?kids)" by simp
  have kids: "child_elements (Element ''User'' [] ?kids) ''Permission'' = ?kids"
    using permission_nodes by (auto simp: child_elements_def intro!: filter_True)
  note types = permission_types [OF ok pane]
  show "permissions_xml services (populate_permissions services (Element ''User'' [] ?kids)) = permissions_xml services g"
  proof (cases "''Admin'' \<in> set (checked_in g tab_group)")
    case True
    have d: "tab_group \<notin> set (concat (map service_groups services))" "tab_group \<noteq> workspace_group"
      using ok by (simp_all add: services_ok_def)
    have "fold (onAdmin_service True) services h tab_group = h tab_group" for h
      using d(1) by (induction services arbitrary: h) (auto simp: service_frame)
    then have "''Admin'' \<in> set (checked_in (onAdminCheckBoxChanged services True h) tab_group)" for h
      using d(2) by (simp add: onAdminCheckBoxChanged_def onReactorsUnrestricted_def checked_in_def)
    moreover have "\<exists>p\<in>set ?kids. permission_type p = Some ''Admin''"
      using types True by (auto simp: permission_elements_def)
    ultimately show ?thesis using True by (simp add: populate_permissions_def kids permissions_xml_def)
  next
    case False
    then have "\<not> (\<exists>p\<in>set ?kids. permission_type p = Some ''Admin'')" using types by auto
    then show ?thesis using elements_read [OF ok pane False refl refl] by (simp add: populate_permissions_def kids)
  qed
qed

text \<open>An installation with one service that has a check box and can be unrestricted.\<close>

theorem user_permissions_round_trip_witness:
  "\<exists>kids. permissions_xml [\<lparr>plugin = ''Replay'', top_level = True, unrestrictable = True, subtypes = [(''Site'', [''a'', ''b''])]\<rparr>]
     (populate_permissions [\<lparr>plugin = ''Replay'', top_level = True, unrestrictable = True, subtypes = [(''Site'', [''a'', ''b''])]\<rparr>]
       (Element ''User'' [] kids)) =
   ''<Permission type='' @ [CHR 0x22] @ ''Codecs'' @ [CHR 0x22] @ '' /><Permission type='' @ [CHR 0x22] @ ''Replay'' @ [CHR 0x22] @ ''><Site>b</Site></Permission>''"
proof -
  let ?s = "\<lparr>plugin = ''Replay'', top_level = True, unrestrictable = True, subtypes = [(''Site'', [''a'', ''b''])]\<rparr>"
  let ?g = "[tab_group \<mapsto> [''Codecs''], main_group ?s \<mapsto> [''Replay''], option_group ?s ''Site'' \<mapsto> [''b'']]"
  have "services_ok [?s]"
    by (simp add: services_ok_def service_ok_def service_groups_def main_group_def option_group_def tab_group_def workspace_group_def
        plain_text_def special_def tab_types_def element_names element_name_def)
  moreover have "pane_ok [?s] ?g"
    by (simp add: pane_ok_def checked_in_def main_group_def option_group_def tab_group_def workspace_group_def tab_types_def
        plain_text_def special_def)
  moreover have "permissions_xml [?s] ?g = ''<Permission type='' @ [CHR 0x22] @ ''Codecs'' @ [CHR 0x22] @ '' /><Permission type='' @ [CHR 0x22] @ ''Replay'' @ [CHR 0x22] @ ''><Site>b</Site></Permission>''"
    by (simp add: permissions_xml_def checked_in_def main_group_def option_group_def tab_group_def workspace_group_def tab_xml_def
        quoted_attr_def reactors_xml_def service_xml_def service_selected_def permission_xml_def xml_tag_def)
  ultimately show ?thesis using user_permissions_round_trip [of "[?s]" ?g] by auto
qed

end
