(* ===== verification/Pion_Protocol.thy ===== *)
theory Pion_Protocol
  imports Pion_Codec Pion_Transform
begin

text \<open>
  The panes of protocols (\<open>plugins/protocols/\<close>): the extraction rules in a grid, the options of
  the HTTP protocol as check boxes, one of which is disabled by another, and the request that
  saves them. The property says that a saved protocol loads as what was saved.
\<close>

section \<open>Extraction rules\<close>

text \<open>
  A rule read from the configuration: its term, then every attribute that the store lists, known
  to the grid or not; \<open>None\<close> is the exception for an attribute without a value.
\<close>

definition extraction_row :: "node \<Rightarrow> row option" where
  "extraction_row n =
     map_option (\<lambda>vs. mixin [(''Term'', [Val (get_xml n ''@term'')])] vs)
       (those (map (\<lambda>a. map_option (\<lambda>s. (a, [Val (JStr s)])) (sval_toString (xs_getValue None n a SUndef))) (getAttributes None n)))"

definition leaf_if :: "row \<Rightarrow> string \<Rightarrow> string" where
  "leaf_if r a = (if truthy (cell_of r a) then makeXmlLeafElement a (cell_of r a) else [])"

definition extraction_options :: "string list" where
  "extraction_options = [''Name'', ''Match'', ''Format'', ''ContentType'', ''MaxSize'', ''MaxExtracts'']"

definition extraction_xml :: "row \<Rightarrow> string" where
  "extraction_xml r =
     ''<Extract'' @ quoted_attr ''term'' (js_string (cell_of r ''Term'')) @ ''>'' @ makeXmlLeafElement ''Source'' (cell_of r ''Source'') @
     concat (map (leaf_if r) extraction_options) @ ''</Extract>''"

definition extraction_put_data :: "row list \<Rightarrow> string" where
  "extraction_put_data rs = concat (map extraction_xml rs)"

definition extraction_rows :: "node \<Rightarrow> row list option" where
  "extraction_rows item = those (map extraction_row (child_elements item ''Extract''))"

section \<open>The options of the HTTP protocol\<close>

text \<open>The check boxes named \<open>options\<close>, which of them are checked, and whether the last is disabled.\<close>

definition http_boxes :: "string list" where
  "http_boxes = [''RawRequestHeaders'', ''RawResponseHeaders'', ''AllowUtf8Conversion'', ''AllowSearchingContentForCharset'']"

record http_form =
  box_checked :: "string list"
  searching_disabled :: bool

definition true_or :: "bool \<Rightarrow> node \<Rightarrow> string \<Rightarrow> bool" where
  "true_or d item a = (if xs_hasAttribute None item a then sval_toString (xs_getValue None item a SUndef) = Some ''true'' else d)"

definition http_options :: "node \<Rightarrow> string list" where
  "http_options item =
     (let utf8 = true_or True item ''AllowUtf8Conversion'' in
      (if true_or False item ''RawRequestHeaders'' then [''RawRequestHeaders''] else []) @
      (if true_or False item ''RawResponseHeaders'' then [''RawResponseHeaders''] else []) @
      (if utf8 then [''AllowUtf8Conversion''] else []) @
      (if true_or utf8 item ''AllowSearchingContentForCharset'' then [''AllowSearchingContentForCharset''] else []))"

definition updateDisabling :: "bool \<Rightarrow> http_form \<Rightarrow> http_form" where
  "updateDisabling checked f = f\<lparr>searching_disabled := \<not> checked\<rparr>"

text \<open>Loading the form.\<close>

definition load_http :: "node \<Rightarrow> http_form \<Rightarrow> http_form" where
  "load_http item f = (updateDisabling (true_or True item ''AllowUtf8Conversion'') f)\<lparr>box_checked := http_options item\<rparr>"

text \<open>The value of the form leaves out disabled boxes.\<close>

definition form_options :: "http_form \<Rightarrow> string list" where
  "form_options f =
     filter (\<lambda>b. b \<in> set (box_checked f) \<and> \<not> (b = ''AllowSearchingContentForCharset'' \<and> searching_disabled f)) http_boxes"

definition http_elements :: "http_form \<Rightarrow> string" where
  "http_elements f =
     (let options = (if searching_disabled f then form_options (f\<lparr>searching_disabled := False\<rparr>) else form_options f);
          flag = (\<lambda>b. bool_text (b \<in> set options)) in
      ''<RawRequestHeaders>'' @ flag ''RawRequestHeaders'' @ ''</RawRequestHeaders><RawResponseHeaders>'' @
      flag ''RawResponseHeaders'' @ ''</RawResponseHeaders><AllowUtf8Conversion>'' @ flag ''AllowUtf8Conversion'' @
      ''</AllowUtf8Conversion><AllowSearchingContentForCharset>'' @ flag ''AllowSearchingContentForCharset'' @
      ''</AllowSearchingContentForCharset>'')"

section \<open>The request\<close>

text \<open>\<open>doPutRequest\<close> for the values of the form that are no options, and what loading puts there.\<close>

definition protocol_body :: "(string \<times> jsval) list \<Rightarrow> string \<Rightarrow> string \<Rightarrow> string" where
  "protocol_body config custom extraction_rule_put_data =
     ''<PionConfig><Protocol>'' @
     concat (map (\<lambda>(k, v). makeXmlLeafElement k v) (filter (\<lambda>(k, v). \<not> starts_with ''@'' k \<and> k \<noteq> ''options'') config)) @
     custom @ extraction_rule_put_data @ ''</Protocol></PionConfig>''"

definition protocol_config :: "node \<Rightarrow> jsval jsobj option" where
  "protocol_config item =
     map_option (mixin [])
       (those (map (\<lambda>a. map_option (\<lambda>s. (a, JStr s)) (sval_toString (xs_getValue None item a SUndef)))
          (filter (\<lambda>a. a \<notin> set [''Extract'', ''tagName'', ''childNodes'']) (getAttributes None item))))"

section \<open>What an extraction rule says\<close>

datatype extraction =
  Extraction (ex_term: string) (ex_source: string) (ex_name: "string option") (ex_match: "string option")
    (ex_format: "string option") (ex_content_type: "string option") (ex_max_size: "string option") (ex_max_extracts: "string option")

definition ex_options :: "extraction \<Rightarrow> string option list" where
  "ex_options e = [ex_name e, ex_match e, ex_format e, ex_content_type e, ex_max_size e, ex_max_extracts e]"

fun opt_fields :: "string list \<Rightarrow> string option list \<Rightarrow> (string \<times> string) list" where
  "opt_fields (k # ks) (Some s # vs) = (k, s) # opt_fields ks vs"
| "opt_fields (k # ks) (None # vs) = opt_fields ks vs"
| "opt_fields _ _ = []"

definition ex_fields :: "extraction \<Rightarrow> (string \<times> string) list" where
  "ex_fields e = (''Source'', ex_source e) # opt_fields extraction_options (ex_options e)"

definition extraction_element :: "extraction \<Rightarrow> node" where
  "extraction_element e = Element ''Extract'' [(''term'', ex_term e)] (map leaf (ex_fields e))"

definition extraction_ok :: "extraction \<Rightarrow> bool" where
  "extraction_ok e = (ex_term e \<noteq> [] \<and> plain_text (ex_term e) \<and> (\<forall>v\<in>set (ex_options e). not_empty v))"

text \<open>A row says a rule, whatever else it has.\<close>

definition says_rule :: "row \<Rightarrow> extraction \<Rightarrow> bool" where
  "says_rule r e =
     (cell_of r ''Term'' = JStr (ex_term e) \<and> cell_of r ''Source'' = JStr (ex_source e) \<and>
      map (cell_of r) extraction_options = map js_opt (ex_options e))"

lemma extraction_names:
  "valid_name ''Extract''" "valid_name ''term''" "valid_name ''Source''" "\<forall>a\<in>set extraction_options. valid_name a"
  by (simp_all add: element_names extraction_options_def)

lemma reads_extraction_options:
  assumes "length ks = length vs" "\<forall>k\<in>set ks. valid_name k" "\<forall>v\<in>set vs. not_empty v" "map (cell_of r) ks = map js_opt vs"
  shows "reads (concat (map (leaf_if r) ks)) (map leaf (opt_fields ks vs))"
  using assms
proof (induction ks vs rule: list_induct2)
  case (Cons k ks v vs)
  then have rest: "reads (concat (map (leaf_if r) ks)) (map leaf (opt_fields ks vs))" by simp
  have "case v of None \<Rightarrow> leaf_if r k = [] | Some s \<Rightarrow> reads (leaf_if r k) [leaf (k, s)]"
    using Cons.prems by (cases v) (auto simp: leaf_if_def js_opt_def not_empty_def reads_makeLeaf)
  then show ?case using rest by (cases v) (auto intro: reads_Cons)
qed simp

lemma reads_extraction:
  assumes "extraction_ok e" "says_rule r e"
  shows "reads (extraction_xml r) [extraction_element e]"
proof -
  have l: "length extraction_options = length (ex_options e)" by (simp add: extraction_options_def ex_options_def)
  have "reads (makeXmlLeafElement ''Source'' (JStr (ex_source e)) @ concat (map (leaf_if r) extraction_options)) (map leaf (ex_fields e))"
    using reads_Cons [OF reads_makeLeaf [OF extraction_names(3)] reads_extraction_options [OF l extraction_names(4), of r]] assms
    by (simp add: ex_fields_def extraction_ok_def says_rule_def)
  from reads_elem_attr [OF extraction_names(1,2) this, of "ex_term e"] show ?thesis
    using assms by (simp add: extraction_xml_def extraction_element_def quoted_attr_def extraction_ok_def says_rule_def
        plain_text_def escape_chain_plain)
qed

section \<open>Reading a rule\<close>

text \<open>Attributes of an element whose children are text elements with different names, then others of one name.\<close>

lemma scan_same:
  "\<forall>n\<in>set ns. is_element n \<and> nodeName n = k \<Longrightarrow> k \<notin> set object_prototype \<Longrightarrow>
   scan_children ns acc names text = (acc @ (if ns = [] \<or> k \<in> set names then [] else [k]), text)"
  by (induction ns arbitrary: acc names) auto

lemma scan_leaves_then:
  assumes "field_names flds"
  shows "scan_children (map leaf flds @ ns) acc names text =
     (let fresh = filter (\<lambda>k. k \<notin> set names) (map fst flds) in scan_children ns (acc @ fresh) (rev fresh @ names) text)"
  using assms
proof (induction flds arbitrary: acc names)
  case (Cons f fs)
  have ok: "fst f \<notin> set object_prototype" "field_names fs" "fst f \<notin> set (map fst fs)"
    using Cons.prems by (auto simp: field_names_def obj_wf_def list_all_iff)
  have same: "filter (\<lambda>k. k \<noteq> fst f \<and> k \<notin> set names) (map fst fs) = filter (\<lambda>k. k \<notin> set names) (map fst fs)"
    using ok(3) by (auto intro!: filter_cong)
  show ?case using Cons.IH [OF ok(2)] ok(1) same by (simp add: Let_def)
qed (simp add: Let_def)

lemma listed_attributes:
  assumes "field_names flds" "\<forall>n\<in>set ns. is_element n \<and> nodeName n = k" "k \<notin> set object_prototype" "k \<notin> set (map fst flds)"
  shows "getAttributes None (Element t as (map leaf flds @ ns)) =
     ''tagName'' # map fst flds @ (if ns = [] then [] else [k]) @ (if flds = [] \<and> ns = [] then [] else [''childNodes'']) @ map (\<lambda>a. ''@'' @ fst a) as"
  using scan_leaves_then [OF assms(1), of ns "[''tagName'']" "[]" False] scan_same [OF assms(2,3)] assms(4)
  by (auto simp: getAttributes_def Let_def)

lemma obj_get_listed:
  "obj_get (mixin ob (map (\<lambda>a. (a, f a)) as)) k = (if k \<in> set as then Some (f k) else obj_get ob k)"
  by (induction as arbitrary: ob) (auto simp: obj_get_put)

lemma those_all: "(\<forall>x\<in>set xs. f x = Some (g x)) \<Longrightarrow> those (map f xs) = Some (map g xs)"
  by (induction xs) auto

lemma field_value:
  assumes "field_names flds" "obj_get flds k = Some v" "\<forall>n\<in>set ns. is_element n \<and> nodeName n = l" "l \<notin> set (map fst flds)"
  shows "xs_getValue None (Element t as (map leaf flds @ ns)) k d = SItem (leaf (k, v))"
proof -
  have wf: "obj_wf flds" using assms(1) by (simp add: field_names_def)
  have m: "(k, v) \<in> set flds" using obj_get_in_set assms(2) by force
  then have "k \<noteq> l" using assms(4) by force
  then have "child_elements (Element t as (map leaf flds @ ns)) k = [leaf (k, v)]"
    using child_elements_leaf [OF assms(2) wf, of t as] assms(3) by (auto simp: child_elements_def filter_empty_conv)
  then show ?thesis using field_namesD [OF assms(1) m] by (simp add: xs_children)
qed

lemma listed_string:
  assumes f: "field_names flds" "\<forall>n\<in>set ns. is_element n \<and> nodeName n = l" "l \<notin> set object_prototype" "l \<notin> set (map fst flds)" "element_name l"
    and as: "\<forall>p\<in>set as. snd p \<noteq> []"
    and a: "a \<in> set (getAttributes None (Element t as (map leaf flds @ ns)))"
  shows "sval_toString (xs_getValue None (Element t as (map leaf flds @ ns)) a SUndef) \<noteq> None"
proof -
  let ?e = "Element t as (map leaf flds @ ns)"
  have wf: "obj_wf flds" using f(1) by (simp add: field_names_def)
  consider "a = ''tagName''" | v where "(a, v) \<in> set flds" | "a = l" "ns \<noteq> []" | "a = ''childNodes''" "flds \<noteq> [] \<or> ns \<noteq> []"
    | x v where "a = ''@'' @ x" "(x, v) \<in> set as"
    using a unfolding listed_attributes [OF f(1-4)] by (auto split: if_splits)
  then show ?thesis
  proof cases
    case 1
    then show ?thesis by (simp add: xs_getValue_def)
  next
    case 2
    then have "obj_get flds a = Some v" using obj_get_mem [OF wf] by simp
    from field_value [OF f(1) this f(2,4)] show ?thesis by simp
  next
    case 3
    have "filter (\<lambda>n. is_element n \<and> nodeName n = l) ns = ns" using f(2) by auto
    then have "child_elements ?e l \<noteq> []" using 3 by (simp add: child_elements_def)
    then show ?thesis using 3 f(5) by (cases "child_elements ?e l") (auto simp: element_name_def xs_children first_or_def)
  next
    case 4
    have "filter is_element (map leaf flds @ ns) = map leaf flds @ ns" using f(2) by (auto intro!: filter_True)
    then show ?thesis using 4 by (cases "map leaf flds @ ns") (auto simp: xs_getValue_def first_or_def)
  next
    case 5
    then obtain v' where "map_of as x = Some v'" "v' \<noteq> []" using as by (metis map_of_SomeD not_None_eq snd_conv weak_map_of_SomeI)
    then show ?thesis using 5 by (simp add: xs_attr)
  qed
qed

lemma opt_fields_keys: "set (map fst (opt_fields ks vs)) \<subseteq> set ks"
  by (induction ks vs rule: opt_fields.induct) auto

lemma opt_fields_distinct: "distinct ks \<Longrightarrow> distinct (map fst (opt_fields ks vs))"
proof (induction ks vs rule: opt_fields.induct)
  case (1 k ks s vs)
  then show ?case using opt_fields_keys [of ks vs] by auto
qed simp_all

lemma opt_fields_get: "length ks = length vs \<Longrightarrow> distinct ks \<Longrightarrow> map (obj_get (opt_fields ks vs)) ks = vs"
proof (induction ks vs rule: opt_fields.induct)
  case (1 k ks s vs)
  have eq: "map (obj_get (opt_fields (k # ks) (Some s # vs))) ks = map (obj_get (opt_fields ks vs)) ks"
    by (rule map_cong) (use 1 in auto)
  have head: "obj_get (opt_fields (k # ks) (Some s # vs)) k = Some s" by simp
  have "map (obj_get (opt_fields ks vs)) ks = vs" using 1 by simp
  then show ?case unfolding list.map(2) eq head by simp
next
  case (2 k ks vs)
  then have "obj_get (opt_fields ks vs) k = None" using opt_fields_keys [of ks vs] by (auto simp: obj_get_def map_of_eq_None_iff)
  then show ?case using 2 by simp
qed auto

lemmas ex_fields_opt = ex_fields_def

lemma ex_fields_names: "field_names (ex_fields e)" "set (map fst (ex_fields e)) \<subseteq> set (''Source'' # extraction_options)"
proof -
  have l: "length extraction_options = length (ex_options e)" "distinct extraction_options"
    by (simp_all add: extraction_options_def ex_options_def)
  show k: "set (map fst (ex_fields e)) \<subseteq> set (''Source'' # extraction_options)"
    using opt_fields_keys by (fastforce simp: ex_fields_opt)
  have "''Source'' \<notin> set extraction_options" by (simp add: extraction_options_def)
  then have "distinct (map fst (ex_fields e))"
    using opt_fields_keys [of extraction_options "ex_options e"] opt_fields_distinct [OF l(2)] by (auto simp: ex_fields_opt)
  moreover have "\<forall>x\<in>set (''Source'' # extraction_options). valid_name x \<and> \<not> starts_with ''@'' x \<and> x \<notin> set ([''tagName'', ''childNodes'', ''text()''] @ object_prototype)"
    by (simp add: element_names extraction_options_def object_prototype_def)
  then have "\<forall>x\<in>set (map fst (ex_fields e)). valid_name x \<and> \<not> starts_with ''@'' x \<and> x \<notin> set ([''tagName'', ''childNodes'', ''text()''] @ object_prototype)"
    using k by blast
  ultimately show "field_names (ex_fields e)" by (simp add: field_names_def obj_wf_def list_all_iff)
qed

lemma extraction_reads_back:
  assumes "extraction_ok e"
  shows "\<exists>r. extraction_row (extraction_element e) = Some r \<and> says_rule r e"
proof -
  let ?n = "Element ''Extract'' [(''term'', ex_term e)] (map leaf (ex_fields e))"
  let ?as = "getAttributes None ?n"
  define g where "g a = [Val (JStr (the (sval_toString (xs_getValue None ?n a SUndef))))]" for a
  have ne: "''Extract'' \<notin> set (map fst (ex_fields e))" "''Extract'' \<notin> set object_prototype" "element_name ''Extract''"
    using ex_fields_names(2) [of e] by (auto simp: extraction_options_def object_prototype_def element_name_def)
  have as: "\<forall>p\<in>set [(''term'', ex_term e)]. snd p \<noteq> []" using assms by (simp add: extraction_ok_def)
  note listed = listed_attributes [OF ex_fields_names(1), of "[]" "''Extract''" e "''Extract''" "[(''term'', ex_term e)]", simplified, OF ne(2)]
  have "sval_toString (xs_getValue None ?n a SUndef) \<noteq> None" if "a \<in> set ?as" for a
    using listed_string [OF ex_fields_names(1) _ ne(2,1,3) as, of "[]" a "''Extract''"] that by simp
  then have "those (map (\<lambda>a. map_option (\<lambda>s. (a, [Val (JStr s)])) (sval_toString (xs_getValue None ?n a SUndef))) ?as) = Some (map (\<lambda>a. (a, g a)) ?as)"
    by (intro those_all) (auto simp: g_def)
  then have row: "extraction_row ?n = Some (mixin [(''Term'', [Val (get_xml ?n ''@term'')])] (map (\<lambda>a. (a, g a)) ?as))"
    by (simp add: extraction_row_def)
  let ?r = "mixin [(''Term'', [Val (get_xml ?n ''@term'')])] (map (\<lambda>a. (a, g a)) ?as)"
  have keys: "a \<in> set ?as \<longleftrightarrow> a \<in> set (map fst (ex_fields e))" if "a \<notin> set [''tagName'', ''childNodes'', ''@term'']" for a
    using listed ne(1) that by (auto simp: ex_fields_opt)
  have cell: "cell_of ?r a = js_opt (obj_get (ex_fields e) a)" if a: "a \<in> set (''Source'' # extraction_options)" for a
  proof (cases "obj_get (ex_fields e) a")
    case None
    then have "a \<notin> set ?as" "a \<noteq> ''Term''"
      using a keys [of a] by (auto simp: obj_get_def map_of_eq_None_iff extraction_options_def)
    then show ?thesis using None by (simp add: cell_of_def row_value_def row_values_def obj_get_listed js_opt_def obj_get_Cons)
  next
    case (Some v)
    then have "(a, v) \<in> set (ex_fields e)" using obj_get_in_set by force
    then have "a \<in> set (map fst (ex_fields e))" by force
    then have "a \<in> set ?as" using a keys [of a] by (auto simp: extraction_options_def)
    moreover have "g a = [Val (JStr v)]"
      using field_value [OF ex_fields_names(1) Some, of "[]" "''Extract''" "''Extract''" "[(''term'', ex_term e)]" SUndef] ne(1) by (simp add: g_def)
    ultimately show ?thesis using Some by (simp add: cell_of_def row_value_def row_values_def obj_get_listed js_opt_def)
  qed
  have "''Term'' \<notin> set ?as" using keys [of "''Term''"] ex_fields_names(2) [of e] by (auto simp: extraction_options_def)
  then have "cell_of ?r ''Term'' = JStr (ex_term e)"
    using assms by (simp add: cell_of_def row_value_def row_values_def obj_get_listed obj_get_Cons xs_attr_js extraction_ok_def js_opt_def)
  moreover have "map (cell_of ?r) extraction_options = map js_opt (ex_options e)"
  proof -
    have l: "length extraction_options = length (ex_options e)" "distinct extraction_options" "''Source'' \<notin> set extraction_options"
      by (simp_all add: extraction_options_def ex_options_def)
    have "map (cell_of ?r) extraction_options = map (\<lambda>a. js_opt (obj_get (opt_fields extraction_options (ex_options e)) a)) extraction_options"
      using cell l(3) by (auto simp: ex_fields_opt obj_get_Cons)
    also have "\<dots> = map js_opt (map (obj_get (opt_fields extraction_options (ex_options e))) extraction_options)" by simp
    finally show ?thesis by (simp add: opt_fields_get [OF l(1,2)])
  qed
  moreover have "cell_of ?r ''Source'' = JStr (ex_source e)" using cell [of "''Source''"] by (simp add: ex_fields_opt obj_get_Cons js_opt_def)
  ultimately show ?thesis using row by (simp add: says_rule_def extraction_element_def)
qed

section \<open>A whole protocol\<close>

definition http_fields :: "http_form \<Rightarrow> (string \<times> string) list" where
  "http_fields f = map (\<lambda>b. (b, bool_text (b \<in> set (box_checked f)))) http_boxes"

lemma http_sent:
  "set (if searching_disabled f then form_options (f\<lparr>searching_disabled := False\<rparr>) else form_options f) = set (box_checked f) \<inter> set http_boxes"
  by (auto simp: form_options_def)

lemma reads_http: "reads (http_elements f) (map leaf (http_fields f))"
proof -
  have n: "valid_name ''RawRequestHeaders''" "valid_name ''RawResponseHeaders''" "valid_name ''AllowUtf8Conversion''" "valid_name ''AllowSearchingContentForCharset''"
    by (simp_all add: element_names)
  let ?b = "\<lambda>b. bool_text (b \<in> set (box_checked f))"
  note reads_Cons [OF reads_plain_leaf [OF n(1) bool_text_plain [of "''RawRequestHeaders'' \<in> set (box_checked f)"]]
      reads_Cons [OF reads_plain_leaf [OF n(2) bool_text_plain [of "''RawResponseHeaders'' \<in> set (box_checked f)"]]
      reads_Cons [OF reads_plain_leaf [OF n(3) bool_text_plain [of "''AllowUtf8Conversion'' \<in> set (box_checked f)"]]
      reads_plain_leaf [OF n(4) bool_text_plain [of "''AllowSearchingContentForCharset'' \<in> set (box_checked f)"]]]]]
  then show ?thesis
    unfolding http_elements_def Let_def http_sent by (simp add: http_boxes_def http_fields_def)
qed

lemma http_option_read:
  assumes "field_names (flds @ http_fields f)" "b \<in> set http_boxes" "\<forall>n\<in>set ns. is_element n \<and> nodeName n = l" "l \<notin> set (map fst (flds @ http_fields f))"
  shows "true_or d (Element t as (map leaf (flds @ http_fields f) @ ns)) b = (b \<in> set (box_checked f))"
proof -
  have wf: "obj_wf (flds @ http_fields f)" using assms(1) by (simp add: field_names_def)
  have "(b, bool_text (b \<in> set (box_checked f))) \<in> set (flds @ http_fields f)" using assms(2) by (auto simp: http_fields_def)
  then have "obj_get (flds @ http_fields f) b = Some (bool_text (b \<in> set (box_checked f)))" using obj_get_mem [OF wf] by simp
  from field_value [OF assms(1) this assms(3,4)] show ?thesis
    by (simp add: true_or_def xs_hasAttribute_def bool_text_def)
qed

lemma http_form_read:
  fixes t :: string and as :: "(string \<times> string) list" and g :: http_form
  assumes "field_names (flds @ http_fields f)" "\<forall>n\<in>set ns. is_element n \<and> nodeName n = l" "l \<notin> set (map fst (flds @ http_fields f))"
  defines "f' \<equiv> load_http (Element t as (map leaf (flds @ http_fields f) @ ns)) g"
  shows "set (box_checked f') = set (box_checked f) \<inter> set http_boxes" "searching_disabled f' = (''AllowUtf8Conversion'' \<notin> set (box_checked f))"
proof -
  note read = http_option_read [OF assms(1) _ assms(2,3), where t = t and as = as]
  have o: "true_or d (Element t as (map leaf (flds @ http_fields f) @ ns)) ''RawRequestHeaders'' = (''RawRequestHeaders'' \<in> set (box_checked f))"
    "true_or d (Element t as (map leaf (flds @ http_fields f) @ ns)) ''RawResponseHeaders'' = (''RawResponseHeaders'' \<in> set (box_checked f))"
    "true_or d (Element t as (map leaf (flds @ http_fields f) @ ns)) ''AllowUtf8Conversion'' = (''AllowUtf8Conversion'' \<in> set (box_checked f))"
    "true_or d (Element t as (map leaf (flds @ http_fields f) @ ns)) ''AllowSearchingContentForCharset'' = (''AllowSearchingContentForCharset'' \<in> set (box_checked f))" for d
    by (rule read; simp add: http_boxes_def)+
  show "searching_disabled f' = (''AllowUtf8Conversion'' \<notin> set (box_checked f))"
    unfolding f'_def load_http_def updateDisabling_def o by simp
  show "set (box_checked f') = set (box_checked f) \<inter> set http_boxes"
    unfolding f'_def load_http_def http_options_def Let_def o by (auto simp: http_boxes_def)
qed

definition protocol_fields :: "(string \<times> string) list \<Rightarrow> bool" where
  "protocol_fields flds =
     (field_names (flds @ map (\<lambda>b. (b, [])) http_boxes) \<and> set (map fst flds) \<inter> {''options'', ''Extract''} = {})"

lemma protocol_fieldsD:
  assumes "protocol_fields flds"
  shows "field_names (flds @ http_fields f)" "''Extract'' \<notin> set (map fst (flds @ http_fields f))"
    "\<forall>(k, v)\<in>set flds. valid_name k \<and> \<not> starts_with ''@'' k \<and> k \<noteq> ''options''"
proof -
  have k: "map fst (flds @ http_fields f) = map fst (flds @ map (\<lambda>b. (b, [])) http_boxes)" by (simp add: http_fields_def comp_def)
  then show "field_names (flds @ http_fields f)" using assms unfolding protocol_fields_def field_names_def obj_wf_def k by simp
  show "''Extract'' \<notin> set (map fst (flds @ http_fields f))" unfolding k using assms by (auto simp: protocol_fields_def http_boxes_def)
  show "\<forall>(k, v)\<in>set flds. valid_name k \<and> \<not> starts_with ''@'' k \<and> k \<noteq> ''options''"
    using assms by (force simp: protocol_fields_def field_names_def list_all_iff)
qed

lemma protocol_config_read:
  assumes "protocol_fields flds" "\<forall>n\<in>set ns. is_element n \<and> nodeName n = ''Extract''"
  shows "\<exists>c. protocol_config (Element t [] (map leaf (flds @ http_fields f) @ ns)) = Some c \<and>
     (\<forall>(k, v)\<in>set flds. obj_get c k = Some (JStr v))"
proof -
  let ?n = "Element t [] (map leaf (flds @ http_fields f) @ ns)"
  note ok = protocol_fieldsD(1,2) [OF assms(1), of f]
  have e: "''Extract'' \<notin> set object_prototype" "element_name ''Extract''" by (simp_all add: object_prototype_def element_name_def)
  let ?as = "filter (\<lambda>a. a \<notin> set [''Extract'', ''tagName'', ''childNodes'']) (getAttributes None ?n)"
  define g where "g a = JStr (the (sval_toString (xs_getValue None ?n a SUndef)))" for a
  have some: "sval_toString (xs_getValue None ?n a SUndef) \<noteq> None" if "a \<in> set (getAttributes None ?n)" for a
    using listed_string [OF ok(1) assms(2) e(1) ok(2) e(2), of "[]" a t] that by simp
  have "those (map (\<lambda>a. map_option (\<lambda>s. (a, JStr s)) (sval_toString (xs_getValue None ?n a SUndef))) ?as) = Some (map (\<lambda>a. (a, g a)) ?as)"
    using some by (intro those_all) (auto simp: g_def)
  then have "protocol_config ?n = Some (mixin [] (map (\<lambda>a. (a, g a)) ?as))" by (simp add: protocol_config_def)
  moreover have "obj_get (mixin [] (map (\<lambda>a. (a, g a)) ?as)) k = Some (JStr v)" if kv: "(k, v) \<in> set flds" for k v
  proof -
    have wf: "obj_wf (flds @ http_fields f)" using ok(1) by (simp add: field_names_def)
    have get: "obj_get (flds @ http_fields f) k = Some v" using obj_get_mem [OF wf] kv by simp
    have "k \<in> set (map fst (flds @ http_fields f))" using kv by force
    moreover have "k \<noteq> ''Extract''" "k \<noteq> ''tagName''" "k \<noteq> ''childNodes''"
      using ok(2) kv field_namesD(2,3) [OF ok(1), of k v] by force+
    ultimately have "k \<in> set ?as" unfolding listed_attributes [OF ok(1) assms(2) e(1) ok(2)] by auto
    moreover have "g k = JStr v" using field_value [OF ok(1) get assms(2) ok(2), of t "[]" SUndef] by (simp add: g_def)
    ultimately show ?thesis by (simp add: obj_get_listed del: set_filter)
  qed
  ultimately show ?thesis by blast
qed

text \<open>
  A saved protocol loads as what was saved: the request parses, the fields of the form come
  back with the same texts, every option box is checked as before (a disabled box too) with the
  dependent box disabled exactly when the conversion is off, and the grid holds the same rules
  in the same order, each with the options that were given.
\<close>

theorem protocol_round_trip:
  assumes flds: "protocol_fields flds" and rules: "list_all2 says_rule rs es" and ok: "\<forall>e\<in>set es. extraction_ok e"
  shows "\<exists>item. read_xml (protocol_body (map (\<lambda>(k, v). (k, JStr v)) flds) (http_elements f) (extraction_put_data rs)) =
       Some (Element ''PionConfig'' [] [item]) \<and>
     (\<exists>c. protocol_config item = Some c \<and> (\<forall>(k, v)\<in>set flds. obj_get c k = Some (JStr v))) \<and>
     set (box_checked (load_http item g)) = set (box_checked f) \<inter> set http_boxes \<and>
     searching_disabled (load_http item g) = (''AllowUtf8Conversion'' \<notin> set (box_checked f)) \<and>
     (\<exists>rs'. extraction_rows item = Some rs' \<and> list_all2 says_rule rs' es)"
proof -
  let ?kids = "map leaf (flds @ http_fields f) @ map extraction_element es"
  note names = protocol_fieldsD(1,2) [OF flds, of f] protocol_fieldsD(3) [OF flds]
  have shape: "\<forall>n\<in>set (map extraction_element es). is_element n \<and> nodeName n = ''Extract''"
    by (simp add: extraction_element_def is_element_def)
  have n: "valid_name ''PionConfig''" "valid_name ''Protocol''" by (simp_all add: element_names)
  have "reads (concat (map (\<lambda>(k, v). makeXmlLeafElement k v) (filter (\<lambda>(k, v). \<not> starts_with ''@'' k \<and> k \<noteq> ''options'') (map (\<lambda>(k, v). (k, JStr v)) fs)))) (map leaf fs)"
    if "\<forall>(k, v)\<in>set fs. valid_name k \<and> \<not> starts_with ''@'' k \<and> k \<noteq> ''options''" for fs
    using that by (induction fs) (auto intro!: reads_Cons reads_makeLeaf)
  moreover have "reads (extraction_put_data rs) (map extraction_element es)"
    using rules ok by (induction rule: list_all2_induct) (auto simp: extraction_put_data_def intro!: reads_Cons reads_extraction)
  ultimately have "reads (concat (map (\<lambda>(k, v). makeXmlLeafElement k v) (filter (\<lambda>(k, v). \<not> starts_with ''@'' k \<and> k \<noteq> ''options'') (map (\<lambda>(k, v). (k, JStr v)) flds))) @
      http_elements f @ extraction_put_data rs) ?kids"
    using reads_append [OF _ reads_append [OF reads_http]] names(3) by simp
  note request = reads_read_xml [OF reads_elem [OF n(1) reads_elem [OF n(2) this]]]
  obtain c where c: "protocol_config (Element ''Protocol'' [] ?kids) = Some c" "\<forall>(k, v)\<in>set flds. obj_get c k = Some (JStr v)"
    using protocol_config_read [OF flds shape, of "''Protocol''" f] by blast
  show ?thesis
  proof (intro exI conjI)
    show "read_xml (protocol_body (map (\<lambda>(k, v). (k, JStr v)) flds) (http_elements f) (extraction_put_data rs)) =
        Some (Element ''PionConfig'' [] [Element ''Protocol'' [] ?kids])" using request by (simp add: protocol_body_def)
    show "protocol_config (Element ''Protocol'' [] ?kids) = Some c" "\<forall>(k, v)\<in>set flds. obj_get c k = Some (JStr v)" by (rule c)+
    show "set (box_checked (load_http (Element ''Protocol'' [] ?kids) g)) = set (box_checked f) \<inter> set http_boxes"
      "searching_disabled (load_http (Element ''Protocol'' [] ?kids) g) = (''AllowUtf8Conversion'' \<notin> set (box_checked f))"
      by (rule http_form_read [OF names(1) shape names(2)])+
    show "extraction_rows (Element ''Protocol'' [] ?kids) = Some (map (\<lambda>e. the (extraction_row (extraction_element e))) es)"
    proof -
      have "filter (\<lambda>x. is_element x \<and> nodeName x = ''Extract'') (map leaf (flds @ http_fields f)) = []"
        using names(2) by (force simp: filter_empty_conv simp del: map_append)
      then have "child_elements (Element ''Protocol'' [] ?kids) ''Extract'' = map extraction_element es"
        using shape by (simp add: child_elements_def)
      moreover have "those (map extraction_row (map extraction_element es)) = Some (map (\<lambda>e. the (extraction_row (extraction_element e))) es)"
        using ok extraction_reads_back by (induction es) force+
      ultimately show ?thesis by (simp add: extraction_rows_def)
    qed
    show "list_all2 says_rule (map (\<lambda>e. the (extraction_row (extraction_element e))) es) es"
      using ok extraction_reads_back by (induction es) force+
  qed
qed

text \<open>One field, the conversion off with the dependent box still checked, one rule.\<close>

theorem protocol_round_trip_witness:
  "\<exists>item. (\<exists>c. protocol_config item = Some c \<and> obj_get c ''Name'' = Some (JStr ''a<b'')) \<and>
     set (box_checked (load_http item \<lparr>box_checked = [], searching_disabled = False\<rparr>)) = {''AllowSearchingContentForCharset''} \<and>
     searching_disabled (load_http item \<lparr>box_checked = [], searching_disabled = False\<rparr>) \<and>
     (\<exists>r. extraction_rows item = Some [r] \<and> cell_of r ''Name'' = JStr ''q'' \<and> cell_of r ''Match'' = JUndef)"
proof -
  let ?f = "\<lparr>box_checked = [''AllowSearchingContentForCharset''], searching_disabled = True\<rparr>"
  let ?g = "\<lparr>box_checked = [], searching_disabled = False\<rparr>"
  let ?e = "Extraction ''urn:vocab:x#a'' ''query'' (Some ''q'') None None None None None"
  let ?r = "[(''Term'', [Val (JStr ''urn:vocab:x#a'')]), (''Source'', [Val (JStr ''query'')]), (''Name'', [Val (JStr ''q'')])]"
  have f: "protocol_fields [(''Name'', ''a<b'')]"
    by (simp add: protocol_fields_def field_names_def obj_wf_def http_boxes_def element_names object_prototype_def)
  have says: "says_rule r ?e \<Longrightarrow> cell_of r ''Name'' = JStr ''q'' \<and> cell_of r ''Match'' = JUndef" for r
    by (simp add: says_rule_def extraction_options_def ex_options_def js_opt_def)
  have "list_all2 says_rule [?r] [?e]" "\<forall>e\<in>set [?e]. extraction_ok e"
    by (simp_all add: says_rule_def extraction_options_def ex_options_def js_opt_def extraction_ok_def not_empty_def plain_text_def
        special_def cell_of_def row_value_def row_values_def)
  from protocol_round_trip [OF f this, of ?f ?g] says show ?thesis
    by (fastforce simp: http_boxes_def list_all2_Cons2)
qed

end
