(* ===== verification/Pion_Dates.thy ===== *)
theory Pion_Dates
  imports Pion_Prelude
begin

text \<open>
  The date and time formatters of the grids (\<open>scripts/_base/format.js\<close>), over the calendar that
  the language's \<open>Date\<close> defines: days since 1970, years of 365 or 366 days, and the fields of a
  moment. The properties say that the text shows the moment and that its fields are in range.
\<close>

section \<open>The calendar of \<open>Date\<close>\<close>

text \<open>A moment is a number of seconds since the start of 1970, as the formatters get it.\<close>

definition leap_year :: "int \<Rightarrow> bool" where
  "leap_year y = (4 dvd y \<and> (\<not> 100 dvd y \<or> 400 dvd y))"

definition day_from_year :: "int \<Rightarrow> int" where
  "day_from_year y = 365 * (y - 1970) + (y - 1969) div 4 - (y - 1901) div 100 + (y - 1601) div 400"

lemma dvd_shift: "n dvd c \<Longrightarrow> n dvd y - c \<longleftrightarrow> n dvd y" for n c y :: int
  using dvd_add_left_iff [of n "- c" y] by simp

lemma div_succ: "0 < n \<Longrightarrow> (a + 1) div n = a div n + (if n dvd a + 1 then 1 else 0)" for a n :: int
proof -
  assume n: "0 < n"
  have a: "a = n * (a div n) + a mod n" by simp
  have r: "0 \<le> a mod n" "a mod n < n" using n by simp_all
  show ?thesis
  proof (cases "a mod n + 1 = n")
    case True
    then have "a + 1 = n * (a div n) + n" using a by linarith
    then have "a + 1 = n * (a div n + 1)" by (simp add: distrib_left)
    then show ?thesis using n by (metis dvd_triv_left nonzero_mult_div_cancel_left order_less_irrefl)
  next
    case False
    then have "(a + 1) mod n = a mod n + 1" "(a + 1) div n = a div n"
      using r a by (intro int_mod_pos_eq [of _ _ "a div n"] int_div_pos_eq [of _ _ _ "a mod n + 1"]; simp)+
    then show ?thesis using r(1) by (simp add: dvd_eq_mod_eq_0)
  qed
qed

lemma div_at: "0 < n \<Longrightarrow> n dvd c \<Longrightarrow> c + 1 = c' \<Longrightarrow> (y - c) div n = (y - c') div n + (if n dvd y then 1 else 0)" for n c c' y :: int
proof -
  assume n: "0 < n" "n dvd c" "c + 1 = c'"
  have "y - c = y - c' + 1" using n(3) by simp
  then show ?thesis using div_succ [OF n(1), of "y - c'"] dvd_shift [OF n(2), of y] by (simp only:)
qed

lemma leap_sum:
  "a' = a + p \<Longrightarrow> b' = b + q \<Longrightarrow> c' = c + r \<Longrightarrow> e + 365 + a' - b' + c' = e + a - b + c + (365 + p - q + r)"
  for a a' b b' c c' e p q r :: int
  by simp

lemma leap_bools:
  "b \<longrightarrow> a \<Longrightarrow> c \<longrightarrow> b \<Longrightarrow>
   365 + (if a then 1 else 0) - (if b then 1 else 0) + (if c then 1 else 0) = (if a \<and> (\<not> b \<or> c) then 366 else 365 :: int)"
  by (cases a; cases b; cases c) simp_all

lemma day_from_year_Suc: "day_from_year (y + 1) = day_from_year y + (if leap_year y then 366 else 365)"
proof -
  have "(y - 1968) div 4 = (y - 1969) div 4 + (if 4 dvd y then 1 else 0)"
    by (rule div_at) simp_all
  moreover have "(y - 1900) div 100 = (y - 1901) div 100 + (if 100 dvd y then 1 else 0)"
    by (rule div_at) simp_all
  moreover have "(y - 1600) div 400 = (y - 1601) div 400 + (if 400 dvd y then 1 else 0)"
    by (rule div_at) simp_all
  ultimately have "365 * (y - 1970) + 365 + (y - 1968) div 4 - (y - 1900) div 100 + (y - 1600) div 400 =
      365 * (y - 1970) + (y - 1969) div 4 - (y - 1901) div 100 + (y - 1601) div 400 +
      (365 + (if 4 dvd y then 1 else 0) - (if 100 dvd y then 1 else 0) + (if 400 dvd y then 1 else 0))" by (rule leap_sum)
  moreover have "365 * (y + 1 - 1970) = 365 * (y - 1970) + 365" "y + 1 - 1969 = y - 1968" "y + 1 - 1901 = y - 1900" "y + 1 - 1601 = y - 1600"
    by simp_all
  moreover have "365 + (if 4 dvd y then 1 else 0) - (if 100 dvd y then 1 else 0) + (if 400 dvd y then 1 else 0) = (if leap_year y then 366 else 365 :: int)"
    unfolding leap_year_def using dvd_trans [of 4 100 y] dvd_trans [of 100 400 y] by (intro leap_bools) simp_all
  ultimately show ?thesis by (simp only: day_from_year_def)
qed

text \<open>The year of a day: the last year that does not start after it, sought from a year that does not.\<close>

function year_from :: "int \<Rightarrow> int \<Rightarrow> int" where
  "year_from d y = (if day_from_year (y + 1) \<le> d then year_from d (y + 1) else y)"
  by pat_completeness auto
termination
  by (relation "measure (\<lambda>(d, y). nat (d - day_from_year y))") (auto simp: day_from_year_Suc split: if_splits)

declare year_from.simps [simp del]

definition year_of_day :: "int \<Rightarrow> int" where
  "year_of_day d = year_from d (1970 + (if 0 \<le> d then d div 366 else d div 365))"

definition month_lengths :: "int \<Rightarrow> int list" where
  "month_lengths y = [31, if leap_year y then 29 else 28, 31, 30, 31, 30, 31, 31, 30, 31, 30, 31]"

text \<open>The month and the day in it, counted from the day of the year.\<close>

fun in_month :: "int list \<Rightarrow> int \<Rightarrow> int \<Rightarrow> int \<times> int" where
  "in_month [] d k = (k, d)"
| "in_month (m # ms) d k = (if d < m then (k, d) else in_month ms (d - m) (k + 1))"

record date_fields =
  df_year :: int
  df_month :: int
  df_date :: int
  df_hour :: int
  df_min :: int
  df_sec :: int

definition date_of :: "int \<Rightarrow> date_fields" where
  "date_of t =
     (let d = t div 86400; s = t mod 86400; y = year_of_day d; (k, r) = in_month (month_lengths y) (d - day_from_year y) 0
      in \<lparr>df_year = y, df_month = k, df_date = r + 1, df_hour = s div 3600, df_min = s mod 3600 div 60, df_sec = s mod 60\<rparr>)"

section \<open>The formatters\<close>

definition two_digits :: "int \<Rightarrow> string" where
  "two_digits n = (if n < 10 then CHR ''0'' # int_string n else int_string n)"

definition datetime_text :: "date_fields \<Rightarrow> string" where
  "datetime_text d =
     int_string (df_year d) @ ''-'' @ two_digits (df_month d + 1) @ ''-'' @ two_digits (df_date d) @ '' '' @
     two_digits (df_hour d) @ '':'' @ two_digits (df_min d) @ '':'' @ two_digits (df_sec d)"

definition time_text :: "date_fields \<Rightarrow> string" where
  "time_text d = two_digits (df_hour d) @ '':'' @ two_digits (df_min d) @ '':'' @ two_digits (df_sec d)"

definition utcDatetimeCellFormatter :: "int \<Rightarrow> string" where
  "utcDatetimeCellFormatter t = datetime_text (date_of t)"

definition utcTimeCellFormatter :: "int \<Rightarrow> string" where
  "utcTimeCellFormatter t = time_text (date_of t)"

text \<open>The browser's time zone is the seconds it adds at a moment.\<close>

definition localDatetimeCellFormatter :: "(int \<Rightarrow> int) \<Rightarrow> int \<Rightarrow> string" where
  "localDatetimeCellFormatter zone t = datetime_text (date_of (t + zone t))"

definition localTimeCellFormatter :: "(int \<Rightarrow> int) \<Rightarrow> int \<Rightarrow> string" where
  "localTimeCellFormatter zone t = time_text (date_of (t + zone t))"

text \<open>\<open>Date\<close> without \<open>new\<close> ignores its argument and gives the text of the current moment.\<close>

definition datetimeCellFormatter :: "string \<Rightarrow> int \<Rightarrow> string" where
  "datetimeCellFormatter now t = now"

section \<open>Facts about the calendar\<close>

lemma day_from_year_add: "365 * int n \<le> day_from_year (y + int n) - day_from_year y \<and> day_from_year (y + int n) - day_from_year y \<le> 366 * int n"
proof (induction n)
  case (Suc n)
  have "day_from_year (y + int (Suc n)) = day_from_year (y + int n) + (if leap_year (y + int n) then 366 else 365)"
    using day_from_year_Suc [of "y + int n"] by (simp add: ac_simps)
  then show ?case using Suc by (simp split: if_splits)
qed simp

lemma year_from_bounds: "day_from_year y \<le> d \<Longrightarrow> day_from_year (year_from d y) \<le> d \<and> d < day_from_year (year_from d y + 1)"
proof (induction d y rule: year_from.induct)
  case (1 d y)
  then show ?case by (subst (1 2) year_from.simps) auto
qed

lemma year_of_day_bounds: "day_from_year (year_of_day d) \<le> d" "d < day_from_year (year_of_day d + 1)"
proof -
  have z: "day_from_year 1970 = 0" by (simp add: day_from_year_def)
  have "day_from_year (1970 + (if 0 \<le> d then d div 366 else d div 365)) \<le> d"
  proof (cases "0 \<le> d")
    case True
    then have "0 \<le> d div 366" "366 * (d div 366) \<le> d" by (simp_all add: pos_imp_zdiv_nonneg_iff)
    then show ?thesis using True day_from_year_add [of "nat (d div 366)" 1970] z by simp
  next
    case False
    let ?k = "d div 365"
    have k0: "?k \<le> 0" using False by linarith
    have "365 * - ?k \<le> day_from_year 1970 - day_from_year (1970 + ?k)"
      using False day_from_year_add [of "nat (- ?k)" "1970 + ?k"] k0 by simp
    then show ?thesis using False z by simp
  qed
  then show "day_from_year (year_of_day d) \<le> d" "d < day_from_year (year_of_day d + 1)"
    using year_from_bounds unfolding year_of_day_def by blast+
qed

lemma in_month_bounds:
  "0 \<le> d \<Longrightarrow> d < sum_list ms \<Longrightarrow> in_month ms d k = (k', r) \<Longrightarrow>
   k \<le> k' \<and> k' < k + int (length ms) \<and> 0 \<le> r \<and> r < ms ! nat (k' - k) \<and> d = sum_list (take (nat (k' - k)) ms) + r"
proof (induction ms d k rule: in_month.induct)
  case (2 m ms d k)
  show ?case
  proof (cases "d < m")
    case True
    then show ?thesis using 2 by auto
  next
    case False
    then have "k + 1 \<le> k' \<and> k' < k + 1 + int (length ms) \<and> 0 \<le> r \<and> r < ms ! nat (k' - (k + 1)) \<and> d - m = sum_list (take (nat (k' - (k + 1))) ms) + r"
      using 2 by simp
    moreover from this have "nat (k' - k) = Suc (nat (k' - (k + 1)))" by linarith
    ultimately show ?thesis by simp
  qed
qed simp

lemma month_lengths_sum: "sum_list (month_lengths y) = (if leap_year y then 366 else 365)" "length (month_lengths y) = 12"
  by (simp_all add: month_lengths_def)

lemma time_of_day:
  fixes s :: int
  assumes "0 \<le> s" "s < 86400"
  shows "0 \<le> s div 3600" "s div 3600 < 24" "0 \<le> s mod 3600 div 60" "s mod 3600 div 60 < 60" "0 \<le> s mod 60" "s mod 60 < 60"
    "s = 3600 * (s div 3600) + 60 * (s mod 3600 div 60) + s mod 60"
proof -
  show "0 \<le> s div 3600" "s div 3600 < 24" using assms by (simp_all add: pos_imp_zdiv_nonneg_iff)
  have m: "0 \<le> s mod 3600" "s mod 3600 < 3600" by simp_all
  then show "0 \<le> s mod 3600 div 60" "s mod 3600 div 60 < 60" by (simp_all add: pos_imp_zdiv_nonneg_iff)
  show "0 \<le> s mod 60" "s mod 60 < 60" by simp_all
  have "s mod 3600 mod 60 = s mod 60" by (simp add: mod_mod_cancel)
  moreover have "s = 3600 * (s div 3600) + s mod 3600" "s mod 3600 = 60 * (s mod 3600 div 60) + s mod 3600 mod 60" by simp_all
  ultimately show "s = 3600 * (s div 3600) + 60 * (s mod 3600 div 60) + s mod 60" by linarith
qed

lemma moment_sum:
  "t = 86400 * d + s \<Longrightarrow> d = a + b + r \<Longrightarrow> s = 3600 * h + 60 * m + c \<Longrightarrow>
   t = 86400 * (a + b + (r + 1) - 1) + 3600 * h + 60 * m + c" for t d s a b r h m c :: int
  by simp

lemma date_of_fields:
  fixes t :: int
  defines "f \<equiv> date_of t"
  shows "0 \<le> df_month f \<and> df_month f < 12" "1 \<le> df_date f \<and> df_date f \<le> month_lengths (df_year f) ! nat (df_month f)"
    "0 \<le> df_hour f \<and> df_hour f < 24" "0 \<le> df_min f \<and> df_min f < 60" "0 \<le> df_sec f \<and> df_sec f < 60"
    "t = 86400 * (day_from_year (df_year f) + sum_list (take (nat (df_month f)) (month_lengths (df_year f))) + df_date f - 1) +
       3600 * df_hour f + 60 * df_min f + df_sec f"
proof -
  define d y where "d = t div 86400" and "y = year_of_day d"
  obtain k r where kr: "in_month (month_lengths y) (d - day_from_year y) 0 = (k, r)" by fastforce
  have "0 \<le> d - day_from_year y" "d - day_from_year y < sum_list (month_lengths y)"
    using year_of_day_bounds [of d] by (auto simp: y_def month_lengths_sum day_from_year_Suc)
  note b = in_month_bounds [OF this kr]
  have f: "f = \<lparr>df_year = y, df_month = k, df_date = r + 1, df_hour = t mod 86400 div 3600, df_min = t mod 86400 mod 3600 div 60, df_sec = t mod 86400 mod 60\<rparr>"
    by (simp add: f_def date_of_def Let_def d_def [symmetric] y_def [symmetric] kr)
  show "0 \<le> df_month f \<and> df_month f < 12" "1 \<le> df_date f \<and> df_date f \<le> month_lengths (df_year f) ! nat (df_month f)"
    using b by (auto simp: f month_lengths_sum)
  have s: "0 \<le> t mod 86400" "t mod 86400 < 86400" by simp_all
  show "0 \<le> df_hour f \<and> df_hour f < 24" "0 \<le> df_min f \<and> df_min f < 60" "0 \<le> df_sec f \<and> df_sec f < 60"
    unfolding f date_fields.simps using time_of_day(1-6) [OF s] by blast+
  have "t = 86400 * d + t mod 86400" by (simp add: d_def)
  moreover have "d = day_from_year y + sum_list (take (nat k) (month_lengths y)) + r" using b by simp
  moreover have "t mod 86400 = 3600 * (t mod 86400 div 3600) + 60 * (t mod 86400 mod 3600 div 60) + t mod 86400 mod 60" by (rule time_of_day(7) [OF s])
  ultimately have "t = 86400 * (day_from_year y + sum_list (take (nat k) (month_lengths y)) + (r + 1) - 1) +
       3600 * (t mod 86400 div 3600) + 60 * (t mod 86400 mod 3600 div 60) + t mod 86400 mod 60" by (rule moment_sum)
  then show "t = 86400 * (day_from_year (df_year f) + sum_list (take (nat (df_month f)) (month_lengths (df_year f))) + df_date f - 1) +
       3600 * df_hour f + 60 * df_min f + df_sec f" by (simp only: f date_fields.simps)
qed

section \<open>What the text shows\<close>

text \<open>Reading the text again: the parts are numbers, and the calendar gives their moment.\<close>

definition number :: "string \<Rightarrow> int" where
  "number s = int (digits_value 10 s)"

definition read_moment :: "string \<Rightarrow> int option" where
  "read_moment s =
     (case map (\<lambda>p. map number (split_char (if CHR '':'' \<in> set p then CHR '':'' else CHR ''-'') p)) (split_char CHR '' '' s) of
        [[y, m, d], [h, mi, se]] \<Rightarrow>
          Some (86400 * (day_from_year y + sum_list (take (nat (m - 1)) (month_lengths y)) + d - 1) + 3600 * h + 60 * mi + se)
      | _ \<Rightarrow> None)"

lemma number_int_string: "0 \<le> n \<Longrightarrow> number (int_string n) = n"
  by (simp add: number_def int_string_def digits_value_nat_digits)

lemma number_two_digits: "0 \<le> n \<Longrightarrow> number (two_digits n) = n"
proof -
  have "digit_val (CHR ''0'') = 0" by (simp add: digit_val_def hex_chars_def)
  then have "number (CHR ''0'' # s) = number s" for s by (simp add: number_def digits_value_def)
  then show "0 \<le> n \<Longrightarrow> number (two_digits n) = n" by (simp add: two_digits_def number_int_string)
qed

lemma digit_text: "0 \<le> n \<Longrightarrow> set (int_string n) \<subseteq> set ''0123456789''" "0 \<le> n \<Longrightarrow> set (two_digits n) \<subseteq> set ''0123456789''"
  using set_nat_digits [of "nat n"] by (auto simp: two_digits_def int_string_def)

lemma digit_text_apart:
  "0 \<le> n \<Longrightarrow> c \<in> {CHR '' '', CHR ''-'', CHR '':''} \<Longrightarrow> c \<notin> set (int_string n) \<and> c \<notin> set (two_digits n)"
  using digit_text [of n] by auto

lemma read_datetime_text:
  assumes "0 \<le> df_year f" "0 \<le> df_month f" "0 \<le> df_date f" "0 \<le> df_hour f" "0 \<le> df_min f" "0 \<le> df_sec f"
  shows "read_moment (datetime_text f) =
     Some (86400 * (day_from_year (df_year f) + sum_list (take (nat (df_month f)) (month_lengths (df_year f))) + df_date f - 1) +
       3600 * df_hour f + 60 * df_min f + df_sec f)"
proof -
  note apart = digit_text_apart [OF assms(1)] digit_text_apart [OF assms(3)] digit_text_apart [OF assms(4)]
    digit_text_apart [OF assms(5)] digit_text_apart [OF assms(6)] digit_text_apart [of "df_month f + 1"]
  let ?d = "int_string (df_year f) @ CHR ''-'' # two_digits (df_month f + 1) @ CHR ''-'' # two_digits (df_date f)"
  let ?c = "two_digits (df_hour f) @ CHR '':'' # two_digits (df_min f) @ CHR '':'' # two_digits (df_sec f)"
  have "datetime_text f = ?d @ CHR '' '' # ?c" by (simp add: datetime_text_def)
  moreover have s: "CHR '' '' \<notin> set ?d" "CHR '' '' \<notin> set ?c" "CHR '':'' \<notin> set ?d" "CHR '':'' \<in> set ?c"
    using apart assms(2) by auto
  moreover have "split_char CHR '' '' (?d @ CHR '' '' # ?c) = [?d, ?c]"
    unfolding split_char_append_sep [OF s(1)] split_char_plain [OF s(2)] ..
  moreover have "split_char CHR ''-'' ?d = [int_string (df_year f), two_digits (df_month f + 1), two_digits (df_date f)]"
    "split_char CHR '':'' ?c = [two_digits (df_hour f), two_digits (df_min f), two_digits (df_sec f)]"
    using apart assms(2) by (simp_all add: split_char_append_sep split_char_plain)
  ultimately show ?thesis using assms
    by (simp add: read_moment_def number_int_string number_two_digits del: set_append split_char.simps)
qed



end
