(* ===== verification/Pion_Launch.thy ===== *)
theory Pion_Launch
  imports Pion_Countdown "HOL-Library.Multiset"
begin

text \<open>
  Starting the interface (\<open>scripts/pion.js\<close>, \<open>about.js\<close>, \<open>services.js\<close>): the license decides
  between the page, the choice of an edition and the set-up wizard; the services that may run are
  created, some only after they have answered; then the tabs the user may see are added and one
  is selected. The properties say when the tabs come, which one is selected, and who gets none.
\<close>

section \<open>License and edition\<close>

datatype key_reply = KeyStatus string "string list" | KeyError nat

text \<open>Whether the key service runs, the license state, and the key type for the callback.\<close>

definition checkKeyStatusDfd :: "key_reply \<Rightarrow> (bool \<times> string \<times> string) option" where
  "checkKeyStatusDfd reply =
     (case reply of
        KeyStatus key_status products \<Rightarrow>
          if key_status = ''invalid'' then Some (True, ''lite'', ''invalid'')
          else if ''Pion Replay'' \<in> set products then Some (True, ''replay'', ''replay'')
          else if ''Pion Enterprise'' \<in> set products then Some (True, ''enterprise'', ''enterprise'')
          else Some (True, ''lite'', ''none'')
      | KeyError status \<Rightarrow> if status = 404 then Some (False, ''core'', ''none'') else None)"

datatype launch = StartPage | SelectEdition | StartWizard string

definition editionSetup :: "bool \<Rightarrow> nat \<Rightarrow> string option \<Rightarrow> string \<Rightarrow> launch" where
  "editionSetup key_service_running num_reactors pion_edition license_key_type =
     (if \<not> key_service_running then StartPage
      else if num_reactors > 0 \<or> (pion_edition \<noteq> None \<and> pion_edition \<noteq> Some []) then
        (if license_key_type = ''invalid'' \<and> pion_edition \<noteq> Some ''Core'' \<and> pion_edition \<noteq> Some ''Lite''
         then SelectEdition else StartPage)
      else StartWizard license_key_type)"

definition checkKeyService :: "key_reply \<Rightarrow> nat \<Rightarrow> string option \<Rightarrow> launch option" where
  "checkKeyService reply num_reactors pion_edition =
     map_option (\<lambda>(running, state, key_type). editionSetup running num_reactors pion_edition key_type) (checkKeyStatusDfd reply)"

section \<open>Services\<close>

text \<open>
  A configured service, and what its script says of it: whether it requires a permission, and
  whether it has to be asked first.
\<close>

record service_plugin =
  sp_plugin :: string
  sp_resource :: string
  sp_restricted :: bool
  sp_asks :: bool

record services_state =
  created :: "service_plugin list"
  restrictable :: "service_plugin list"
  conditional :: "service_plugin list"
  num_pending :: int

definition permitted :: "string list \<Rightarrow> string \<Rightarrow> bool" where
  "permitted permissions p = (''Admin'' \<in> set permissions \<or> p \<in> set permissions)"

definition createService :: "service_plugin \<Rightarrow> services_state \<Rightarrow> services_state" where
  "createService s st = st\<lparr>created := created st @ [s]\<rparr>"

definition load_service_plugin :: "string list \<Rightarrow> service_plugin \<Rightarrow> services_state \<Rightarrow> services_state" where
  "load_service_plugin permissions s st =
     (if sp_restricted s \<and> \<not> permitted permissions (sp_plugin s) then st
      else let st1 = (if sp_restricted s then st\<lparr>restrictable := restrictable st @ [s]\<rparr> else st)
           in if sp_asks s then st1\<lparr>conditional := conditional st1 @ [s]\<rparr> else createService s st1)"

definition loadable :: "string list \<Rightarrow> string list \<Rightarrow> service_plugin list \<Rightarrow> service_plugin list" where
  "loadable services_in_ui_dir available_plugins configured_services =
     filter (\<lambda>s. sp_plugin s \<in> set services_in_ui_dir \<and> sp_plugin s \<in> set available_plugins) configured_services"

definition initUsableServicePlugins :: "string list \<Rightarrow> service_plugin list \<Rightarrow> services_state" where
  "initUsableServicePlugins permissions services =
     (let st = fold (load_service_plugin permissions) services \<lparr>created = [], restrictable = [], conditional = [], num_pending = 0\<rparr>
      in st\<lparr>num_pending := int (length (conditional st))\<rparr>)"

text \<open>The answer of a service that was asked: usable, not usable, or an error. True: go on to the tabs.\<close>

definition usable_answer :: "service_plugin \<times> bool option \<Rightarrow> services_state \<Rightarrow> services_state \<times> bool" where
  "usable_answer a st =
     (let st1 = (if snd a = Some True then createService (fst a) st else st);
          st2 = st1\<lparr>num_pending := num_pending st1 - 1\<rparr>
      in (st2, num_pending st2 = 0))"

text \<open>How often the tabs are started: at once when nobody is asked, else by the answers.\<close>

definition services_run :: "(service_plugin \<times> bool option) list \<Rightarrow> services_state \<Rightarrow> services_state \<times> bool list" where
  "services_run as st =
     (let (st', fired) = responses usable_answer as st in (st', if num_pending st = 0 then True # fired else fired))"

section \<open>Tabs\<close>

text \<open>A tab, and what \<open>isEmpty\<close> answers if it has that method.\<close>

type_synonym tab = "string \<times> bool option"

definition config_tab_table :: "(string \<times> string) list" where
  "config_tab_table =
     [(''Reactors'', ''reactor_config''), (''Vocabularies'', ''vocab_config''), (''Codecs'', ''codec_config''),
      (''Databases'', ''database_config''), (''Protocols'', ''protocol_config''), (''Admin'', ''user_config''), (''Admin'', ''system_config'')]"

definition add_tab :: "string list \<Rightarrow> nat \<Rightarrow> string \<times> string \<Rightarrow> tab list \<Rightarrow> tab list" where
  "add_tab permissions rtl_index entry tabs =
     (if permitted permissions (fst entry) then take rtl_index tabs @ (snd entry, None) # drop rtl_index tabs else tabs)"

definition add_config_tabs :: "string list \<Rightarrow> nat \<Rightarrow> tab list \<Rightarrow> tab list" where
  "add_config_tabs permissions rtl_index tabs = fold (add_tab permissions rtl_index) config_tab_table tabs"

text \<open>
  \<open>chooseBestTab\<close> from tab \<open>i\<close> on. Its result comes through a \<open>Deferred\<close>, which throws when it
  is given a second one. \<open>Raises\<close>: the call itself throws. An exception inside a callback of
  another \<open>Deferred\<close> is caught there, so the outer result never comes. At \<open>i = 0\<close> the result
  is given first and the rest of the function runs all the same.
\<close>

datatype choice = Chosen nat | Raises | Never

fun chooseBestTab :: "tab list \<Rightarrow> nat \<Rightarrow> choice" where
  "chooseBestTab tabs 0 =
     (if snd (tabs ! 0) = None then Raises else Chosen (length tabs - 1))"
| "chooseBestTab tabs (Suc i) =
     (case snd (tabs ! Suc i) of
        None \<Rightarrow> Chosen (Suc i)
      | Some False \<Rightarrow> Chosen (Suc i)
      | Some True \<Rightarrow> (case chooseBestTab tabs i of Chosen j \<Rightarrow> Chosen j | _ \<Rightarrow> Never))"

record main_page =
  mp_tabs :: "tab list"
  mp_selected :: "string option"
  mp_alerted :: bool
  mp_standby :: bool              \<comment> \<open>the page is covered\<close>
  mp_listening :: bool            \<comment> \<open>selecting another tab has an effect\<close>
  mp_wizard_link :: bool

definition initTabs :: "string list \<Rightarrow> bool \<Rightarrow> nat \<Rightarrow> tab list \<Rightarrow> main_page" where
  "initTabs permissions key_service_running rtl_index service_tabs =
     (let tabs = add_config_tabs permissions rtl_index service_tabs;
          covered = \<lparr>mp_tabs = tabs, mp_selected = None, mp_alerted = tabs = [], mp_standby = True, mp_listening = False, mp_wizard_link = False\<rparr>;
          shown = covered\<lparr>mp_standby := False, mp_listening := True, mp_wizard_link := ''Admin'' \<in> set permissions \<and> key_service_running\<rparr>
      in if tabs = [] then shown
         else (case chooseBestTab tabs (length tabs - 1) of
                 Raises \<Rightarrow> covered
               | Never \<Rightarrow> shown
               | Chosen i \<Rightarrow> shown\<lparr>mp_selected := Some (fst (tabs ! i))\<rparr>))"

text \<open>
  \<open>configPageSelected\<close>: a page is initialised when it is first selected and only laid out again
  after that; the tab of a service decides for itself.
\<close>

datatype page_action = InitPage string | Refresh string | OnSelect string

definition config_pages :: "string list" where
  "config_pages = map snd config_tab_table"

definition configPageSelected :: "string \<Rightarrow> string list \<Rightarrow> string list \<times> page_action" where
  "configPageSelected page initialized =
     (if page \<in> set config_pages then
        (if page \<in> set initialized then (initialized, Refresh page) else (page # initialized, InitPage page))
      else (initialized, OnSelect page))"

fun select_pages :: "string list \<Rightarrow> string list \<Rightarrow> page_action list" where
  "select_pages [] initialized = []"
| "select_pages (p # ps) initialized =
     (let (initialized', a) = configPageSelected p initialized in a # select_pages ps initialized')"

text \<open>
  \<open>Service.onSelect\<close>: the first time, the service is initialised, and given the query of the
  page's address if that names it. The value after \<open>id\<close> may be missing.
\<close>

datatype select_action = Nothing | InitService | InitWithQuery "string list" "string list list"

definition service_onSelect :: "string \<Rightarrow> string \<Rightarrow> bool \<Rightarrow> select_action" where
  "service_onSelect service_id search initialized =
     (if initialized then Nothing
      else let pairs = map (split_char (CHR ''='')) (split_char (CHR ''&'') (drop 1 search));
               names = map hd pairs
           in if ''id'' \<notin> set names then InitService
              else let p = pairs ! length (takeWhile (\<lambda>n. n \<noteq> ''id'') names)
                   in if 1 < length p \<and> p ! 1 = service_id then InitWithQuery names pairs else InitService)"

section \<open>Properties\<close>

definition allowed :: "string list \<Rightarrow> service_plugin \<Rightarrow> bool" where
  "allowed permissions s = (sp_restricted s \<longrightarrow> permitted permissions (sp_plugin s))"

lemma fold_load_service_plugin:
  "fold (load_service_plugin permissions) services st = st\<lparr>
     created := created st @ filter (\<lambda>s. allowed permissions s \<and> \<not> sp_asks s) services,
     restrictable := restrictable st @ filter (\<lambda>s. allowed permissions s \<and> sp_restricted s) services,
     conditional := conditional st @ filter (\<lambda>s. allowed permissions s \<and> sp_asks s) services\<rparr>"
  by (induction services arbitrary: st) (auto simp: load_service_plugin_def allowed_def Let_def createService_def)

interpretation asked: countdown usable_answer "\<lambda>st. nat (int n - num_pending st)" "\<lambda>_. n" "\<lambda>_ st. num_pending st \<le> int n" for n
  by unfold_locales (auto simp: usable_answer_def Let_def createService_def)

lemma answers_created:
  "created (fst (responses usable_answer as st)) = created st @ map fst (filter (\<lambda>a. snd a = Some True) as)"
  by (induction as arbitrary: st) (auto simp: responses_Cons usable_answer_def Let_def createService_def)



lemma chooseBestTab_found:
  "k \<le> i \<Longrightarrow> 0 < k \<Longrightarrow> snd (tabs ! k) \<noteq> Some True \<Longrightarrow> \<forall>j. k < j \<and> j \<le> i \<longrightarrow> snd (tabs ! j) = Some True \<Longrightarrow> chooseBestTab tabs i = Chosen k"
proof (induction tabs i rule: chooseBestTab.induct)
  case (2 tabs i)
  show ?case
  proof (cases "k = Suc i")
    case True
    then show ?thesis using "2.prems" by (cases "snd (tabs ! Suc i)") (auto split: bool.splits)
  next
    case False
    then show ?thesis using 2 by simp
  qed
qed simp



text \<open>
  A user who may see a single tab never sees it: choosing it gives the result twice, the
  exception ends the start of the page, no tab is selected, the page stays covered, and
  selecting the tab by hand has no effect.
\<close>

theorem only_tab_is_never_shown:
  assumes "add_config_tabs permissions rtl_index service_tabs = [(x, None)]"
  shows "let page = initTabs permissions key_service_running rtl_index service_tabs in
     mp_tabs page = [(x, None)] \<and> mp_selected page = None \<and> mp_standby page \<and> \<not> mp_listening page \<and> \<not> mp_alerted page"
  using assms by (simp add: initTabs_def Let_def)

theorem only_tab_is_never_shown_witness:
  "mp_selected (initTabs [''Codecs''] False 0 []) = None \<and> mp_standby (initTabs [''Codecs''] False 0 [])"
  using only_tab_is_never_shown [of "[''Codecs'']" 0 "[]" "''codec_config''" False]
  by (simp add: Let_def add_config_tabs_def config_tab_table_def add_tab_def permitted_def)

lemma select_pages_init:
  "k < length ps \<Longrightarrow> select_pages ps initialized ! k = InitPage p \<longleftrightarrow>
     ps ! k = p \<and> p \<in> set config_pages \<and> p \<notin> set (take k ps) \<and> p \<notin> set initialized"
proof (induction ps arbitrary: k initialized)
  case (Cons q ps)
  show ?case
  proof (cases k)
    case 0
    then show ?thesis by (auto simp: configPageSelected_def)
  next
    case (Suc j)
    then show ?thesis using Cons.IH [of j initialized] Cons.IH [of j "q # initialized"] Cons.prems
      by (auto simp: configPageSelected_def)
  qed
qed simp

text \<open>
  A configuration page is initialised when it is selected for the first time, and never
  again, whatever is selected in between.
\<close>

theorem pages_are_initialised_once:
  assumes "k < length ps"
  shows "select_pages ps [] ! k = InitPage p \<longleftrightarrow> ps ! k = p \<and> p \<in> set config_pages \<and> p \<notin> set (take k ps)"
  using select_pages_init [OF assms] by simp

theorem pages_are_initialised_once_witness:
  "select_pages [''codec_config'', ''log'', ''codec_config''] [] ! 0 = InitPage ''codec_config'' \<and>
   select_pages [''codec_config'', ''log'', ''codec_config''] [] ! 2 \<noteq> InitPage ''codec_config''"
  using pages_are_initialised_once [of 0 "[''codec_config'', ''log'', ''codec_config'']" "''codec_config''"]
    pages_are_initialised_once [of 2 "[''codec_config'', ''log'', ''codec_config'']" "''codec_config''"]
  by (simp add: config_pages_def config_tab_table_def numeral_2_eq_2)

end
