(* ===== verification/Pion_Accordion.thy ===== *)
theory Pion_Accordion
  imports Pion_Prelude
begin

text \<open>
  The lists of configuration panes (\<open>scripts/widgets/ConfigAccordion.js\<close> and the functions around
  it in \<open>scripts/codecs.js\<close>, which the pages of databases, protocols, users and vocabularies
  repeat): an item gets a placeholder, and the first time that is selected it is replaced by a
  real pane, in steps that timers separate. The container is the bundled
  \<open>dijit.layout.AccordionContainer\<close>. The properties relate the steps to an abstract list of items
  with a current one, and say what a quick click in between breaks.
\<close>

section \<open>State\<close>

text \<open>A pane is known by its number, its place in the list of all panes made so far.\<close>

record pane =
  uuid :: string
  initialized :: bool

datatype timer = Added | Selected nat | GoBack nat

record accordion =
  all_panes :: "pane list"
  kids :: "nat list"                        \<comment> \<open>the children of the container, in order\<close>
  shown :: "nat option"                     \<comment> \<open>the container's selected child\<close>
  selected_pane :: "nat option"
  unsaved :: "nat list"                     \<comment> \<open>the panes marked as having unsaved changes\<close>
  pendingSelection :: "nat option"
  pendingRemoval :: "nat option"
  timers :: "(nat \<times> timer) list"           \<comment> \<open>when they are due, the next one first\<close>
  clock :: nat

definition duration :: nat where "duration = 200"

definition set_timer :: "nat \<Rightarrow> timer \<Rightarrow> accordion \<Rightarrow> accordion" where
  "set_timer d e s =
     (let due = clock s + d in
      s\<lparr>timers := takeWhile (\<lambda>t. fst t \<le> due) (timers s) @ (due, e) # dropWhile (\<lambda>t. fst t \<le> due) (timers s)\<rparr>)"

section \<open>Selecting, adding and removing\<close>

definition codecPaneSelected :: "nat \<Rightarrow> accordion \<Rightarrow> accordion" where
  "codecPaneSelected p s =
     (if selected_pane s = Some p then s
      else (case selected_pane s of
              Some q \<Rightarrow> if q \<in> set (unsaved s) then set_timer 500 (GoBack q) s else set_timer (duration + 100) (Selected p) s
            | None \<Rightarrow> set_timer (duration + 100) (Selected p) s))"

definition select_child :: "nat \<Rightarrow> accordion \<Rightarrow> accordion" where
  "select_child p s = (if shown s = Some p then s else codecPaneSelected p (s\<lparr>shown := Some p\<rparr>))"

definition remove_child :: "nat \<Rightarrow> accordion \<Rightarrow> accordion" where
  "remove_child p s =
     (let s1 = s\<lparr>kids := remove1 p (kids s)\<rparr> in
      if shown s = Some p then
        (let s2 = s1\<lparr>shown := None\<rparr> in case kids s2 of [] \<Rightarrow> s2 | k # _ \<Rightarrow> select_child k s2)
      else s1)"

definition codecPaneAdded :: "accordion \<Rightarrow> accordion" where
  "codecPaneAdded s = set_timer duration Added s"

text \<open>Adding at an index; an index before the first is the first.\<close>

definition add_child :: "nat \<Rightarrow> int \<Rightarrow> accordion \<Rightarrow> accordion" where
  "add_child p idx s =
     (let s1 = codecPaneAdded (s\<lparr>kids := take (nat idx) (kids s) @ p # drop (nat idx) (kids s)\<rparr>)
      in if shown s1 = None then select_child p s1 else s1)"

definition replaceCodecAccordionPane :: "nat \<Rightarrow> accordion \<Rightarrow> accordion" where
  "replaceCodecAccordionPane p s =
     (let n = length (all_panes s) in
      add_child n (index_of (kids s) p)
        (s\<lparr>all_panes := all_panes s @ [\<lparr>uuid = uuid (all_panes s ! p), initialized = True\<rparr>],
           pendingSelection := Some n, pendingRemoval := Some p\<rparr>))"

fun fire :: "timer \<Rightarrow> accordion \<Rightarrow> accordion" where
  "fire Added s =
     (case pendingSelection s of None \<Rightarrow> s | Some n \<Rightarrow> (select_child n s)\<lparr>pendingSelection := None\<rparr>)"
| "fire (Selected p) s =
     (let s1 = (case pendingRemoval s of None \<Rightarrow> s | Some r \<Rightarrow> (remove_child r s)\<lparr>pendingRemoval := None\<rparr>)
      in if initialized (all_panes s1 ! p) then s1\<lparr>selected_pane := Some p\<rparr> else replaceCodecAccordionPane p s1)"
| "fire (GoBack q) s = select_child q s"

text \<open>The next timer, and several in turn; without timers nothing happens.\<close>

definition tick :: "accordion \<Rightarrow> accordion" where
  "tick s = (case timers s of [] \<Rightarrow> s | (t, e) # ts \<Rightarrow> fire e (s\<lparr>timers := ts, clock := t\<rparr>))"

fun ticks :: "nat \<Rightarrow> accordion \<Rightarrow> accordion" where
  "ticks 0 s = s"
| "ticks (Suc n) s = ticks n (tick s)"

section \<open>What the user does\<close>

text \<open>A placeholder for an item at the end of the list.\<close>

definition createNewPaneFromItem :: "string \<Rightarrow> accordion \<Rightarrow> accordion" where
  "createNewPaneFromItem i s =
     add_child (length (all_panes s)) (int (length (kids s)))
       (s\<lparr>all_panes := all_panes s @ [\<lparr>uuid = i, initialized = False\<rparr>]\<rparr>)"

definition createPanesFromAllItems :: "string list \<Rightarrow> accordion \<Rightarrow> accordion" where
  "createPanesFromAllItems items s =
     (let s1 = fold createNewPaneFromItem items s in case kids s1 of [] \<Rightarrow> s1 | first_pane # _ \<Rightarrow> remove_child first_pane s1)"

text \<open>Before the new pane is selected the height is read from the selected pane, which throws if there is none.\<close>

definition createNewPaneFromStore :: "string \<Rightarrow> accordion \<Rightarrow> accordion" where
  "createNewPaneFromStore i s =
     (let s1 = createNewPaneFromItem i s
      in if selected_pane s1 = None then s1 else select_child (length (all_panes s)) s1)"

definition next_child :: "accordion \<Rightarrow> nat" where
  "next_child s = (case shown s of None \<Rightarrow> hd (kids s) | Some p \<Rightarrow> kids s ! (nat (index_of (kids s) p + 1) mod length (kids s)))"

text \<open>The user deletes the item of the selected pane; then the answer comes.\<close>

definition delete2 :: "nat \<Rightarrow> accordion \<Rightarrow> accordion" where
  "delete2 p s = s\<lparr>unsaved := removeAll p (unsaved s)\<rparr>"

definition delete2_load :: "nat \<Rightarrow> accordion \<Rightarrow> accordion" where
  "delete2_load p s = remove_child p (select_child (next_child s) s)"

section \<open>Settling\<close>

text \<open>Nothing is pending, and the child that is shown is the selected, real pane.\<close>

definition well_placed :: "accordion \<Rightarrow> bool" where
  "well_placed s =
     (distinct (kids s) \<and> (\<forall>p\<in>set (kids s). p < length (all_panes s)) \<and> (\<forall>q. selected_pane s = Some q \<longrightarrow> q < length (all_panes s)) \<and>
      pendingSelection s = None \<and> pendingRemoval s = None)"

definition idle :: "accordion \<Rightarrow> bool" where
  "idle s =
     (well_placed s \<and> timers s = [] \<and> (\<exists>p. shown s = Some p \<and> selected_pane s = Some p \<and> p \<in> set (kids s) \<and> initialized (all_panes s ! p)))"

definition unsaved_pane :: "accordion \<Rightarrow> bool" where
  "unsaved_pane s = (\<exists>q. selected_pane s = Some q \<and> q \<in> set (unsaved s))"

definition uuids :: "accordion \<Rightarrow> string list" where
  "uuids s = map (\<lambda>p. uuid (all_panes s ! p)) (kids s)"

text \<open>What the user sees: the items and the place of the current one.\<close>

definition place :: "accordion \<Rightarrow> nat" where
  "place s = (case shown s of None \<Rightarrow> 0 | Some p \<Rightarrow> nat (index_of (kids s) p))"

definition seen :: "accordion \<Rightarrow> string list \<times> nat" where
  "seen s = (uuids s, place s)"

text \<open>
  The abstract list: what one does to it, and what that should mean. Deleting shows the item after
  the deleted one, and the first one after the last.
\<close>

datatype action = Click nat | Delete | Add string

fun possible :: "action \<Rightarrow> string list \<times> nat \<Rightarrow> bool" where
  "possible (Click i) (us, c) = (i < length us)"
| "possible Delete (us, c) = (2 \<le> length us)"
| "possible (Add i) (us, c) = True"

fun meaning :: "action \<Rightarrow> string list \<times> nat \<Rightarrow> string list \<times> nat" where
  "meaning (Click i) (us, c) = (us, i)"
| "meaning Delete (us, c) = (take c us @ drop (Suc c) us, if Suc c < length us then c else 0)"
| "meaning (Add i) (us, c) = (us @ [i], length us)"

fun perform :: "action \<Rightarrow> accordion \<Rightarrow> accordion" where
  "perform (Click i) s = select_child (kids s ! i) s"
| "perform Delete s = (case shown s of None \<Rightarrow> s | Some p \<Rightarrow> delete2_load p (delete2 p s))"
| "perform (Add i) s = createNewPaneFromStore i s"

text \<open>Each action, and then the timers run down before the next one.\<close>

definition patiently :: "action list \<Rightarrow> accordion \<Rightarrow> accordion" where
  "patiently as s = fold (\<lambda>a s. ticks 5 (perform a s)) as s"

fun all_possible :: "action list \<Rightarrow> string list \<times> nat \<Rightarrow> bool" where
  "all_possible [] v = True"
| "all_possible (a # as) v = (possible a v \<and> all_possible as (meaning a v))"

lemma index_of_middle: "p \<notin> set xs \<Longrightarrow> index_of (xs @ p # ys) p = int (length xs)"
  by (induction xs) (auto simp: Let_def)

lemma ticks_add: "ticks (a + b) s = ticks b (ticks a s)"
  by (induction a arbitrary: s) simp_all

lemma ticks_idle: "timers s = [] \<Longrightarrow> ticks n s = s"
  by (induction n) (simp_all add: tick_def)

lemma ticks_done: "ticks k s = s' \<Longrightarrow> timers s' = [] \<Longrightarrow> k \<le> n \<Longrightarrow> ticks n s = s'"
  by (metis le_add_diff_inverse ticks_add ticks_idle)

lemmas step_defs = tick_def set_timer_def codecPaneSelected_def select_child_def remove_child_def add_child_def codecPaneAdded_def Let_def

lemma uuids_replaced:
  assumes "\<forall>q\<in>set (xs @ p # ys). q < length (all_panes s)"
    "kids s = xs @ p # ys" "kids s' = xs @ length (all_panes s) # ys"
    "all_panes s' = all_panes s @ [\<lparr>uuid = uuid (all_panes s ! p), initialized = True\<rparr>]"
  shows "uuids s' = uuids s"
  using assms by (auto simp: uuids_def nth_append)

text \<open>The child that is shown becomes the selected one, replaced first if it is a placeholder.\<close>

definition settled :: "accordion \<Rightarrow> bool" where
  "settled s = (idle s \<and> unsaved s = [])"

lemma settles_real:
  assumes "well_placed s" "shown s = Some p" "kids s = xs @ p # ys" "timers s = [(t, Selected p)]" "initialized (all_panes s ! p)" "unsaved s = []"
  shows "settled (ticks 1 s)" "seen (ticks 1 s) = (uuids s, length xs)"
proof -
  have e: "ticks 1 s = s\<lparr>timers := [], clock := t, selected_pane := Some p\<rparr>" using assms by (simp add: step_defs well_placed_def)
  have i: "index_of (kids s) p = int (length xs)" using assms by (auto simp: well_placed_def intro: index_of_middle)
  show "settled (ticks 1 s)" using assms unfolding e by (simp add: settled_def idle_def well_placed_def)
  show "seen (ticks 1 s) = (uuids s, length xs)" using assms(2) i unfolding e by (simp add: seen_def place_def uuids_def)
qed

lemma settles_placeholder:
  assumes w: "well_placed s" and s: "shown s = Some p" "kids s = xs @ p # ys" "timers s = [(t, Selected p)]" "\<not> initialized (all_panes s ! p)"
    and clean: "unsaved s = []"
  shows "settled (ticks 3 s)" "seen (ticks 3 s) = (uuids s, length xs)"
proof -
  let ?n = "length (all_panes s)"
  have b: "\<forall>q\<in>set (xs @ p # ys). q < ?n" "distinct (xs @ p # ys)" "selected_pane s \<noteq> Some ?n"
    "\<forall>q. selected_pane s = Some q \<longrightarrow> q < ?n" "pendingRemoval s = None"
    using w s(2) by (auto simp: well_placed_def)
  have p: "p \<notin> set xs" "p \<notin> set ys" "p < ?n" "?n \<notin> set xs" "?n \<notin> set ys" "distinct (xs @ ys)" "\<forall>q\<in>set (xs @ ys). q < Suc ?n"
    using b(1, 2) by (auto intro: less_SucI)
  have i: "index_of (xs @ p # ys) p = int (length xs)" "index_of (xs @ ?n # ys) ?n = int (length xs)"
    by (rule index_of_middle, rule p)+
  let ?s3 = "s\<lparr>all_panes := all_panes s @ [\<lparr>uuid = uuid (all_panes s ! p), initialized = True\<rparr>], kids := xs @ ?n # ys, shown := Some ?n,
      selected_pane := Some ?n, pendingSelection := None, pendingRemoval := None, timers := [], clock := t + 500\<rparr>"
  have e: "ticks 3 s = ?s3"
    using p b s clean by (cases "selected_pane s") (simp_all add: numeral_3_eq_3 step_defs replaceCodecAccordionPane_def i duration_def remove1_append nth_append)
  show "settled (ticks 3 s)" unfolding e using p b clean by (auto simp: settled_def idle_def well_placed_def nth_append less_Suc_eq)
  have "uuids ?s3 = uuids s" by (rule uuids_replaced [OF b(1) s(2)]) simp_all
  then show "seen (ticks 3 s) = (uuids s, length xs)" unfolding e by (simp add: seen_def place_def i)
qed

lemma settles:
  assumes w: "well_placed s" and s: "shown s = Some p" "kids s = xs @ p # ys" "timers s = [(t, Selected p)]" "unsaved s = []" and n: "3 \<le> n"
  shows "settled (ticks n s) \<and> seen (ticks n s) = (uuids s, length xs)"
proof (cases "initialized (all_panes s ! p)")
  case True
  note r = settles_real [OF w s(1-3) True s(4)]
  have "timers (ticks 1 s) = []" using r(1) by (simp add: settled_def idle_def)
  then have "ticks n s = ticks 1 s" using ticks_done [OF refl, of 1 s n] n by simp
  then show ?thesis using r by simp
next
  case False
  note r = settles_placeholder [OF w s(1-3) False s(4)]
  have "timers (ticks 3 s) = []" using r(1) by (simp add: settled_def idle_def)
  then have "ticks n s = ticks 3 s" using ticks_done [OF refl, of 3 s n] n by simp
  then show ?thesis using r by simp
qed

section \<open>Each action means what it should\<close>

text \<open>A settled list, with the shown pane in its place.\<close>

lemma settledE:
  assumes "settled s"
  obtains p xs ys where "shown s = Some p" "selected_pane s = Some p" "kids s = xs @ p # ys" "initialized (all_panes s ! p)"
    "well_placed s" "timers s = []" "unsaved s = []" "seen s = (uuids s, length xs)" "p \<notin> set xs" "p \<notin> set ys"
proof -
  from assms obtain p where p: "shown s = Some p" "selected_pane s = Some p" "p \<in> set (kids s)" "initialized (all_panes s ! p)"
    "well_placed s" "timers s = []" "unsaved s = []" by (auto simp: settled_def idle_def)
  from p(3) obtain xs ys where k: "kids s = xs @ p # ys" by (meson split_list)
  have d: "p \<notin> set xs" "p \<notin> set ys" using p(5) k by (auto simp: well_placed_def)
  show thesis using p k d index_of_middle [OF d(1), of ys] by (intro that [of p xs ys]) (simp_all add: seen_def place_def)
qed

lemma click_meaning:
  assumes s: "settled s" and i: "i < length (kids s)"
  shows "settled (ticks 5 (perform (Click i) s)) \<and> seen (ticks 5 (perform (Click i) s)) = (uuids s, i)"
proof -
  obtain p xs ys where p: "shown s = Some p" "selected_pane s = Some p" "kids s = xs @ p # ys" "well_placed s" "timers s = []" "unsaved s = []"
    "seen s = (uuids s, length xs)" using s by (rule settledE)
  let ?q = "kids s ! i" and ?s' = "perform (Click i) s"
  show ?thesis
  proof (cases "?q = p")
    case True
    have "i = length xs" using nth_eq_iff_index_eq [of "kids s" i "length xs"] True i p(3, 4) by (simp add: well_placed_def)
    moreover have "?s' = s" using True p(1) by (simp add: select_child_def)
    ultimately show ?thesis using s p(5, 7) by (simp add: ticks_idle)
  next
    case False
    have e: "kids ?s' = kids s" "uuids ?s' = uuids s" "unsaved ?s' = []" "shown ?s' = Some ?q"
      using False p by (simp_all add: step_defs uuids_def)
    have k: "kids ?s' = take i (kids s) @ ?q # drop (Suc i) (kids s)" unfolding e(1) by (rule id_take_nth_drop [OF i])
    have "well_placed ?s'" "timers ?s' = [(clock s + 300, Selected ?q)]" using False p by (simp_all add: step_defs well_placed_def duration_def)
    from settles [OF this(1) e(4) k this(2) e(3), of 5] show ?thesis using e(2) i by simp
  qed
qed

lemma next_child_nth:
  assumes "shown s = Some p" "kids s = xs @ p # ys" "p \<notin> set xs"
  shows "next_child s = (xs @ p # ys) ! (Suc (length xs) mod length (xs @ p # ys))"
  using assms index_of_middle [OF assms(3), of ys] by (simp add: next_child_def nat_add_distrib)

lemma delete_meaning:
  assumes s: "settled s" and n: "2 \<le> length (kids s)"
  shows "settled (ticks 5 (perform Delete s)) \<and> seen (ticks 5 (perform Delete s)) = meaning Delete (seen s)"
proof -
  obtain p xs ys where p: "shown s = Some p" "selected_pane s = Some p" "kids s = xs @ p # ys" "well_placed s" "timers s = []" "unsaved s = []"
    "seen s = (uuids s, length xs)" "p \<notin> set xs" "p \<notin> set ys" using s by (rule settledE)
  let ?s' = "perform Delete s" and ?k = "next_child s"
  note c = next_child_nth [OF p(1, 3, 8)]
  obtain as bs where k: "xs @ ys = as @ ?k # bs" "length as = (if ys = [] then 0 else length xs)" "?k \<noteq> p"
  proof (cases ys)
    case Nil
    then obtain x xs' where "xs = x # xs'" using n p(3) by (cases xs) auto
    then have "?k = x" using c Nil by simp
    then show ?thesis using that [of "[]" xs'] Nil p(8) \<open>xs = x # xs'\<close> by simp
  next
    case (Cons y ys')
    then have "?k = y" using c by (simp add: nth_append)
    then show ?thesis using that [of xs ys'] Cons p(9) by simp
  qed
  have e: "kids ?s' = as @ ?k # bs" "shown ?s' = Some ?k" "unsaved ?s' = []" "timers ?s' = [(clock s + 300, Selected ?k)]"
    using p k(1, 3) by (simp_all add: step_defs delete2_def delete2_load_def next_child_def remove1_append duration_def k(1))
  have u: "all_panes ?s' = all_panes s" "kids ?s' = xs @ ys"
    using p k(3) by (simp_all add: step_defs delete2_def delete2_load_def next_child_def remove1_append)
  have w: "well_placed ?s'" using p(3, 4) u p k(3) by (auto simp: step_defs delete2_def delete2_load_def next_child_def well_placed_def remove1_append)
  have "uuids ?s' = take (length xs) (uuids s) @ drop (Suc (length xs)) (uuids s)" using u p(3) by (simp add: uuids_def)
  moreover have "Suc (length xs) < length (uuids s) \<longleftrightarrow> ys \<noteq> []" using p(3) by (cases ys) (simp_all add: uuids_def)
  ultimately show ?thesis using settles [OF w e(2, 1, 4, 3), of 5] p(7) k(2) by simp
qed

lemma add_meaning:
  assumes s: "settled s"
  shows "settled (ticks 5 (perform (Add i) s)) \<and> seen (ticks 5 (perform (Add i) s)) = meaning (Add i) (seen s)"
proof -
  obtain p xs ys where p: "shown s = Some p" "selected_pane s = Some p" "kids s = xs @ p # ys" "well_placed s" "timers s = []" "unsaved s = []"
    "seen s = (uuids s, length xs)" using s by (rule settledE)
  let ?n = "length (all_panes s)" and ?s' = "ticks 1 (perform (Add i) s)"
  have b: "p < ?n" "p \<noteq> ?n" "?n \<notin> set (kids s)" "pendingSelection s = None" using p(3, 4) by (auto simp: well_placed_def)
  have e: "kids ?s' = kids s @ ?n # []" "shown ?s' = Some ?n" "unsaved ?s' = []" "timers ?s' = [(clock s + 300, Selected ?n)]"
    "all_panes ?s' = all_panes s @ [\<lparr>uuid = i, initialized = False\<rparr>]"
    using p b by (simp_all add: step_defs createNewPaneFromStore_def createNewPaneFromItem_def duration_def)
  have w: "well_placed ?s'" using p b by (auto simp: step_defs createNewPaneFromStore_def createNewPaneFromItem_def duration_def well_placed_def less_Suc_eq)
  have "\<forall>q\<in>set (kids s). q < ?n" using p(4) by (simp add: well_placed_def)
  then have "uuids ?s' = uuids s @ [i]" unfolding uuids_def e by (simp add: nth_append)
  moreover have "ticks 5 (perform (Add i) s) = ticks 4 ?s'" using ticks_add [of 1 4 "perform (Add i) s"] by simp
  ultimately show ?thesis using settles [OF w e(2, 1, 4, 3), of 4] p(7) by (simp add: uuids_def)
qed

lemma perform_meaning:
  assumes "settled s" "possible a (seen s)"
  shows "settled (ticks 5 (perform a s))" "seen (ticks 5 (perform a s)) = meaning a (seen s)"
proof -
  have l: "length (uuids s) = length (kids s)" by (simp add: uuids_def)
  have "settled (ticks 5 (perform a s)) \<and> seen (ticks 5 (perform a s)) = meaning a (seen s)"
  proof (cases a)
    case (Click i) then show ?thesis using click_meaning [OF assms(1), of i] assms(2) l by (simp add: seen_def)
  next
    case Delete then show ?thesis using delete_meaning [OF assms(1)] assms(2) l by (simp add: seen_def)
  next
    case (Add i) then show ?thesis using add_meaning [OF assms(1)] by simp
  qed
  then show "settled (ticks 5 (perform a s))" "seen (ticks 5 (perform a s)) = meaning a (seen s)" by simp_all
qed

lemma patiently_meaning:
  "settled s \<Longrightarrow> all_possible as (seen s) \<Longrightarrow> settled (patiently as s) \<and> seen (patiently as s) = fold meaning as (seen s)"
proof (induction as arbitrary: s)
  case Nil then show ?case by (simp add: patiently_def)
next
  case (Cons a as)
  have p: "possible a (seen s)" "all_possible as (meaning a (seen s))" using Cons.prems(2) by simp_all
  note m = perform_meaning [OF Cons.prems(1) p(1)]
  show ?case using Cons.IH [OF m(1)] m(2) p(2) by (simp add: patiently_def)
qed

section \<open>The page\<close>

text \<open>The page comes with one pane without an item, which is shown; the items are added when they arrive.\<close>

definition page_start :: "nat \<Rightarrow> accordion" where
  "page_start c = \<lparr>all_panes = [\<lparr>uuid = [], initialized = False\<rparr>], kids = [0], shown = Some 0, selected_pane = None, unsaved = [],
     pendingSelection = None, pendingRemoval = None, timers = [], clock = c\<rparr>"

definition load_panes :: "nat \<Rightarrow> string list \<Rightarrow> accordion" where
  "load_panes c items = ticks (length items + 3) (createPanesFromAllItems items (page_start c))"

lemma items_added:
  assumes "timers s = replicate m (clock s + 200, Added)" "shown s = Some q"
  shows "fold createNewPaneFromItem items s =
     s\<lparr>all_panes := all_panes s @ map (\<lambda>i. \<lparr>uuid = i, initialized = False\<rparr>) items,
       kids := kids s @ [length (all_panes s)..<length (all_panes s) + length items],
       timers := replicate (m + length items) (clock s + 200, Added)\<rparr>"
  using assms
proof (induction items arbitrary: s m)
  case Nil then show ?case by simp
next
  case (Cons i items)
  let ?s = "createNewPaneFromItem i s"
  have t: "takeWhile (\<lambda>t. fst t \<le> clock s + 200) (replicate m (clock s + 200, Added)) = replicate m (clock s + 200, Added)"
    "dropWhile (\<lambda>t. fst t \<le> clock s + 200) (replicate m (clock s + 200, Added)) = []"
    by (simp_all add: takeWhile_eq_all_conv dropWhile_eq_Nil_conv)
  have e: "?s = s\<lparr>all_panes := all_panes s @ [\<lparr>uuid = i, initialized = False\<rparr>], kids := kids s @ [length (all_panes s)],
      timers := replicate (Suc m) (clock s + 200, Added)\<rparr>"
    using Cons.prems t by (simp add: createNewPaneFromItem_def add_child_def codecPaneAdded_def set_timer_def Let_def duration_def replicate_append_same)
  have "timers ?s = replicate (Suc m) (clock ?s + 200, Added)" "shown ?s = Some q" using Cons.prems unfolding e by simp_all
  from Cons.IH [OF this] have f: "fold createNewPaneFromItem items ?s = ?s\<lparr>all_panes := all_panes ?s @ map (\<lambda>i. \<lparr>uuid = i, initialized = False\<rparr>) items,
       kids := kids ?s @ [length (all_panes ?s)..<length (all_panes ?s) + length items],
       timers := replicate (Suc m + length items) (clock ?s + 200, Added)\<rparr>" .
  have u: "[length (all_panes s)..<length (all_panes s) + Suc (length items)] =
      length (all_panes s) # [Suc (length (all_panes s))..<Suc (length (all_panes s)) + length items]"
    by (simp add: upt_conv_Cons del: upt_Suc)
  show ?case unfolding fold.simps o_apply f length_Cons u by (simp add: e del: upt_Suc)
qed

lemma ticks_added:
  "pendingSelection s = None \<Longrightarrow> timers s = replicate n (t, Added) @ ts \<Longrightarrow> 0 < n \<Longrightarrow> ticks n s = s\<lparr>timers := ts, clock := t\<rparr>"
proof (induction n arbitrary: s)
  case 0 then show ?case by simp
next
  case (Suc n)
  have e: "tick s = s\<lparr>timers := replicate n (t, Added) @ ts, clock := t\<rparr>" using Suc.prems by (simp add: tick_def)
  show ?case
  proof (cases n)
    case 0 then show ?thesis using e by simp
  next
    case (Suc k) then show ?thesis using Suc.IH [of "tick s"] Suc.prems e by simp
  qed
qed

lemma load_meaning:
  assumes "items \<noteq> []"
  shows "settled (load_panes c items) \<and> seen (load_panes c items) = (items, 0)"
proof -
  obtain i rest where l: "items = i # rest" using assms by (cases items) auto
  let ?s = "createPanesFromAllItems items (page_start c)" and ?n = "length items"
  let ?t = "?s\<lparr>timers := [(c + 300, Selected 1)], clock := c + 200\<rparr>"
  have a: "fold createNewPaneFromItem items (page_start c) = (page_start c)\<lparr>
       all_panes := \<lparr>uuid = [], initialized = False\<rparr> # map (\<lambda>i. \<lparr>uuid = i, initialized = False\<rparr>) items,
       kids := 0 # [1..<1 + ?n], timers := replicate ?n (c + 200, Added)\<rparr>"
    using items_added [of "page_start c" 0 0 items] by (simp add: page_start_def)
  have t: "takeWhile (\<lambda>t. fst t \<le> c + 300) (replicate n (c + 200, Added)) = replicate n (c + 200, Added)"
    "dropWhile (\<lambda>t. fst t \<le> c + 300) (replicate n (c + 200, Added)) = []" for n
    by (simp_all add: takeWhile_eq_all_conv dropWhile_eq_Nil_conv)
  have k: "[1..<1 + ?n] = 1 # [2..<1 + ?n]" using l by (simp add: upt_conv_Cons numeral_2_eq_2 del: upt_Suc)
  have s: "?s = (page_start c)\<lparr>all_panes := \<lparr>uuid = [], initialized = False\<rparr> # map (\<lambda>i. \<lparr>uuid = i, initialized = False\<rparr>) items,
      kids := 1 # [2..<1 + ?n], shown := Some 1, timers := replicate ?n (c + 200, Added) @ [(c + 300, Selected 1)]\<rparr>"
    unfolding createPanesFromAllItems_def a k using t [of ?n] by (simp del: upt_Suc add: remove_child_def select_child_def codecPaneSelected_def set_timer_def Let_def page_start_def duration_def)
  have "ticks ?n ?s = ?t"
  proof (rule ticks_added)
    show "pendingSelection ?s = None" "timers ?s = replicate ?n (c + 200, Added) @ [(c + 300, Selected 1)]" unfolding s by (simp_all add: page_start_def)
  qed (use assms in simp)
  then have e: "load_panes c items = ticks 3 ?t" by (simp only: load_panes_def ticks_add)
  have u: "uuids ?t = items"
  proof -
    have "map (\<lambda>p. uuid ((x # map (\<lambda>i. \<lparr>uuid = i, initialized = False\<rparr>) items) ! p)) [1..<1 + ?n] = items" for x
      by (rule nth_equalityI) (auto simp del: upt_Suc)
    then show ?thesis unfolding k by (simp add: uuids_def s)
  qed
  have w: "well_placed ?t" "shown ?t = Some 1" "kids ?t = [] @ 1 # [2..<1 + ?n]" "timers ?t = [(c + 300, Selected 1)]" "unsaved ?t = []"
    unfolding s using assms by (auto simp: page_start_def well_placed_def simp del: upt_Suc)
  show ?thesis using settles [OF w, of 3] u unfolding e by simp
qed

section \<open>Properties\<close>

text \<open>
  C23: Whatever the items of the page and whatever one then clicks on, deletes and adds, one action
  after another when the timers of the previous one have run: the user sees what the abstract list
  of items with a current one says, and the pane that is shown is a real pane and is the selected
  one. The placeholders, the replacing panes and the two pending fields are gone from view.
\<close>

theorem panes_follow_the_list:
  assumes "items \<noteq> []" "all_possible as (items, 0)"
  shows "seen (patiently as (load_panes c items)) = fold meaning as (items, 0) \<and> idle (patiently as (load_panes c items))"
  using patiently_meaning [of "load_panes c items" as] load_meaning [OF assms(1), of c] assms(2) by (simp add: settled_def)

lemma panes_follow_the_list_witness:
  "seen (patiently [Click 1, Delete, Add ''d''] (load_panes 0 [''a'', ''b'', ''c''])) = ([''a'', ''c'', ''d''], 2)"
  using panes_follow_the_list [of "[''a'', ''b'', ''c'']" "[Click 1, Delete, Add ''d'']" 0] by simp

text \<open>
  While the selected pane has unsaved changes, a click on another pane ends, once the timer has
  run, in the state before it: the same pane shown and selected, the same children, the changes
  still marked, nothing pending.
\<close>

theorem unsaved_changes_hold_the_pane:
  assumes "idle s" "unsaved_pane s" "i < length (kids s)"
  shows "ticks 5 (perform (Click i) s) = s\<lparr>clock := clock (ticks 5 (perform (Click i) s))\<rparr>"
proof (cases "shown s = Some (kids s ! i)")
  case True
  then show ?thesis using assms(1) ticks_idle [of s 5] by (simp add: select_child_def idle_def)
next
  case False
  from assms obtain p where p: "shown s = Some p" "selected_pane s = Some p" "p \<in> set (unsaved s)" "timers s = []"
    by (auto simp: idle_def unsaved_pane_def)
  have "ticks 1 (perform (Click i) s) = s\<lparr>clock := clock s + 500\<rparr>" using False p by (simp add: step_defs)
  then have "ticks 5 (perform (Click i) s) = s\<lparr>clock := clock s + 500\<rparr>" by (rule ticks_done) (simp_all add: p(4))
  then show ?thesis by simp
qed

lemma unsaved_changes_hold_the_pane_witness:
  "shown (ticks 5 (perform (Click 1) ((load_panes 0 [''a'', ''b''])\<lparr>unsaved := [3]\<rparr>))) = Some 3"
proof -
  let ?s = "(load_panes 0 [''a'', ''b''])\<lparr>unsaved := [3]\<rparr>"
  have s: "?s = \<lparr>all_panes = [\<lparr>uuid = [], initialized = False\<rparr>, \<lparr>uuid = ''a'', initialized = False\<rparr>, \<lparr>uuid = ''b'', initialized = False\<rparr>,
      \<lparr>uuid = ''a'', initialized = True\<rparr>], kids = [3, 2], shown = Some 3, selected_pane = Some 3, unsaved = [3],
      pendingSelection = None, pendingRemoval = None, timers = [], clock = 800\<rparr>"
    by code_simp
  have "idle ?s" "unsaved_pane ?s" "1 < length (kids ?s)" unfolding s by (simp_all add: idle_def well_placed_def unsaved_pane_def)
  from unsaved_changes_hold_the_pane [OF this] show ?thesis unfolding s by (metis accordion.select_convs(3) accordion.simps(19))
qed

text \<open>
  C24: A click on another real pane and back within 300 ms: the first click's timer marks the other
  pane as the selected one although the pane that was clicked last is shown. Changes that the user
  then makes in the shown pane do not hold it: the next click leaves it without the warning.
\<close>

theorem quick_clicks_leave_the_wrong_pane_selected:
  assumes "idle s" "unsaved s = []" "shown s = Some a" "b \<in> set (kids s)" "b \<noteq> a" "initialized (all_panes s ! b)"
  shows "let s1 = ticks 5 (select_child a (select_child b s)); s2 = ticks 5 (select_child b (s1\<lparr>unsaved := [a]\<rparr>))
     in shown s1 = Some a \<and> selected_pane s1 = Some b \<and> shown s2 = Some b \<and> selected_pane s2 = Some b \<and> a \<in> set (unsaved s2)"
proof -
  have p: "selected_pane s = Some a" "timers s = []" "pendingRemoval s = None" "pendingSelection s = None"
    using assms by (auto simp: idle_def well_placed_def)
  have "ticks 1 (select_child a (select_child b s)) = s\<lparr>selected_pane := Some b, timers := [], clock := clock s + 300\<rparr>"
    using p assms by (simp add: step_defs duration_def)
  then have e: "ticks 5 (select_child a (select_child b s)) = s\<lparr>selected_pane := Some b, timers := [], clock := clock s + 300\<rparr>"
    by (rule ticks_done) simp_all
  show ?thesis unfolding e using p assms by (simp add: select_child_def codecPaneSelected_def Let_def ticks_idle)
qed

lemma quick_clicks_leave_the_wrong_pane_selected_witness:
  "\<exists>s::accordion. \<exists>a b. idle s \<and> a \<noteq> b \<and>
     selected_pane (ticks 5 (select_child a (select_child b s))) = Some b \<and> shown (ticks 5 (select_child a (select_child b s))) = Some a"
proof -
  let ?s = "\<lparr>all_panes = [\<lparr>uuid = ''a'', initialized = True\<rparr>, \<lparr>uuid = ''b'', initialized = True\<rparr>], kids = [0, 1], shown = Some 0,
      selected_pane = Some 0, unsaved = [], pendingSelection = None, pendingRemoval = None, timers = [], clock = 0\<rparr>"
  have i: "idle ?s" by (simp add: idle_def well_placed_def)
  from quick_clicks_leave_the_wrong_pane_selected [OF i, of 0 1] have
    "selected_pane (ticks 5 (select_child 0 (select_child 1 ?s))) = Some 1 \<and> shown (ticks 5 (select_child 0 (select_child 1 ?s))) = Some 0"
    by (simp add: Let_def)
  with i show ?thesis by (metis zero_neq_one)
qed

end
