(* ===== verification/Pion_Import.thy ===== *)
theory Pion_Import
  imports Pion_Xml Pion_Countdown "HOL-Library.Multiset"
begin

text \<open>
  Importing an exported configuration (\<open>scripts/widgets/XMLImport.js\<close>): the codecs are posted
  first, then the databases, the reactors and the connections, each stage when all answers of the
  one before have come. The server gives new identifiers, and in every request the old identifiers
  known by then are replaced. The first section is about replacing identifiers in text, the
  second the stages; the properties say what is posted, whatever the order of the answers, and
  that a missing answer stops the import.
\<close>

section \<open>Replacing identifiers in text\<close>

text \<open>\<open>for (old in r) s = s.replace(RegExp(old, "g"), r[old])\<close>; an identifier has no special characters.\<close>

definition replace_ids :: "string jsobj \<Rightarrow> string \<Rightarrow> string" where
  "replace_ids r s = fold (\<lambda>p s. replace_lit (fst p) (snd p) s) r s"

text \<open>What it should mean: the words of a text that are identifiers are renamed all at once.\<close>

definition is_id_char :: "char \<Rightarrow> bool" where
  "is_id_char c = (c \<in> set ''0123456789abcdefABCDEF-'')"

definition uuid_like :: "string \<Rightarrow> bool" where
  "uuid_like w = (length w = 36 \<and> (\<forall>c\<in>set w. is_id_char c))"

function rename_words :: "(string \<Rightarrow> string) \<Rightarrow> string \<Rightarrow> string" where
  "rename_words g s =
     (case dropWhile is_id_char s of
        [] \<Rightarrow> g s
      | c # s' \<Rightarrow> g (takeWhile is_id_char s) @ c # rename_words g s')"
  by pat_completeness auto
termination
proof (relation "measure (\<lambda>(g, s). length s)")
  fix s c and s' :: string assume "dropWhile is_id_char s = c # s'"
  then have "length (c # s') \<le> length s" by (metis length_dropWhile_le)
  then show "((g, s'), (g, s)) \<in> measure (\<lambda>(g, s). length s)" for g by simp
qed simp

text \<open>No word is longer than an identifier.\<close>

function short_words :: "string \<Rightarrow> bool" where
  "short_words s =
     (length (takeWhile is_id_char s) \<le> 36 \<and> (case dropWhile is_id_char s of [] \<Rightarrow> True | c # s' \<Rightarrow> short_words s'))"
  by pat_completeness auto
termination
proof (relation "measure length")
  fix s c and s' :: string assume "dropWhile is_id_char s = c # s'"
  then have "length (c # s') \<le> length s" by (metis length_dropWhile_le)
  then show "(s', s) \<in> measure length" by simp
qed simp

declare rename_words.simps [simp del] short_words.simps [simp del]

definition renaming :: "string jsobj \<Rightarrow> string \<Rightarrow> string" where
  "renaming r w = (case obj_get r w of Some n \<Rightarrow> n | None \<Rightarrow> w)"

lemma rename_words_last: "\<forall>c\<in>set w. is_id_char c \<Longrightarrow> rename_words g w = g w"
  by (subst rename_words.simps) (simp add: dropWhile_eq_Nil_conv [THEN iffD2])

lemma rename_words_step:
  "\<forall>c\<in>set w. is_id_char c \<Longrightarrow> \<not> is_id_char c \<Longrightarrow> rename_words g (w @ c # s) = g w @ c # rename_words g s"
  by (subst rename_words.simps) (simp add: takeWhile_append2 dropWhile_append2)

lemma short_words_last: "\<forall>c\<in>set w. is_id_char c \<Longrightarrow> short_words w \<longleftrightarrow> length w \<le> 36"
  by (subst short_words.simps) (simp add: dropWhile_eq_Nil_conv [THEN iffD2] takeWhile_eq_all_conv [THEN iffD2])

lemma short_words_step:
  "\<forall>c\<in>set w. is_id_char c \<Longrightarrow> \<not> is_id_char c \<Longrightarrow> short_words (w @ c # s) \<longleftrightarrow> length w \<le> 36 \<and> short_words s"
  by (subst short_words.simps) (simp add: takeWhile_append2 dropWhile_append2)

text \<open>Induction over the words of a text.\<close>

lemma words_induct [case_names last step]:
  assumes last: "\<And>w. \<forall>c\<in>set w. is_id_char c \<Longrightarrow> P w"
    and step: "\<And>w c s. \<forall>c\<in>set w. is_id_char c \<Longrightarrow> \<not> is_id_char c \<Longrightarrow> P s \<Longrightarrow> P (w @ c # s)"
  shows "P s"
proof (induction s rule: length_induct)
  case (1 s)
  show ?case
  proof (cases "dropWhile is_id_char s")
    case Nil
    then show ?thesis by (intro last) (simp add: dropWhile_eq_Nil_conv)
  next
    case (Cons c s')
    have e: "s = takeWhile is_id_char s @ c # s'" using Cons by (metis takeWhile_dropWhile_id)
    have "length s' < length s" using e by (metis length_append length_Cons le_add2 less_Suc_eq_le add_Suc_right)
    then have "P s'" using 1 by blast
    moreover have "\<not> is_id_char c" using Cons by (metis dropWhile_eq_Cons_conv)
    moreover have "\<forall>c\<in>set (takeWhile is_id_char s). is_id_char c" by (auto dest: set_takeWhileD)
    ultimately have "P (takeWhile is_id_char s @ c # s')" by (intro step)
    then show ?thesis by (simp only: e [symmetric])
  qed
qed

lemma no_match_before_sep:
  "length w < length p \<Longrightarrow> \<forall>c\<in>set p. is_id_char c \<Longrightarrow> \<not> is_id_char c \<Longrightarrow> \<not> starts_with p (w @ c # s)"
proof
  assume a: "length w < length p" "\<forall>c\<in>set p. is_id_char c" "\<not> is_id_char c" "starts_with p (w @ c # s)"
  then have "p ! length w = c" by (metis starts_with_iff nth_take nth_append_length)
  then show False using a(1-3) nth_mem [OF a(1)] by simp
qed

lemma no_match_short: "length w < length p \<Longrightarrow> \<not> starts_with p w"
  by (auto simp: starts_with_iff)

lemma replace_lit_tail:
  "length w < length p \<Longrightarrow> \<forall>c\<in>set p. is_id_char c \<Longrightarrow> \<not> is_id_char c \<Longrightarrow> replace_lit p r (w @ c # s) = w @ c # replace_lit p r s"
proof (induction w)
  case Nil
  then show ?case using no_match_before_sep [of "[]" p c s] by simp
next
  case (Cons x w)
  then show ?case using no_match_before_sep [of "x # w" p c s] by simp
qed

lemma replace_lit_short: "length w < length p \<Longrightarrow> replace_lit p r w = w"
proof (induction w)
  case (Cons x w)
  then show ?case using no_match_short [of "x # w" p] by simp
qed simp

lemma replace_lit_word:
  assumes "length w \<le> length p" "\<forall>c\<in>set p. is_id_char c" "\<not> is_id_char c" "p \<noteq> []"
  shows "replace_lit p r (w @ c # s) = (if w = p then r else w) @ c # replace_lit p r s"
proof (cases "w = p")
  case True
  then show ?thesis using assms replace_lit_hit [of p r "c # s"] replace_lit_tail [of "[]" p c r s] by simp
next
  case False
  show ?thesis
  proof (cases "length w < length p")
    case True
    then show ?thesis using replace_lit_tail [OF True assms(2, 3)] False by simp
  next
    case eq: False
    then obtain x w' where w: "w = x # w'" "length w' < length p" using assms(1, 4) by (cases w) auto
    have "\<not> starts_with p (w @ c # s)" using eq False assms(1) by (simp add: starts_with_iff)
    then show ?thesis using w replace_lit_tail [OF w(2) assms(2, 3)] False by simp
  qed
qed

lemma replace_lit_last:
  assumes "length w \<le> length p" "p \<noteq> []"
  shows "replace_lit p r w = (if w = p then r else w)"
proof (cases "w = p")
  case True
  then show ?thesis using replace_lit_hit [OF assms(2), of r "[]"] by simp
next
  case False
  show ?thesis
  proof (cases w)
    case (Cons x w')
    then have "\<not> starts_with p w" using assms(1) False by (cases "length w = length p") (auto simp: starts_with_iff)
    then show ?thesis using Cons assms(1) False replace_lit_short [of w' p r] by simp
  qed (use assms(2) in auto)
qed

lemma replace_lit_words:
  assumes p: "uuid_like p"
  shows "short_words s \<Longrightarrow> replace_lit p r s = rename_words (\<lambda>w. if w = p then r else w) s"
proof (induction s rule: words_induct)
  have p: "length p = 36" "\<forall>c\<in>set p. is_id_char c" "p \<noteq> []" using assms by (auto simp: uuid_like_def)
  {
    case (last w)
    then show ?case using p(1) replace_lit_last [OF _ p(3), of w r] by (simp add: rename_words_last short_words_last)
  next
    case (step w c s)
    then show ?case using p(1) replace_lit_word [OF _ p(2) step(2) p(3), of w r s] by (simp add: rename_words_step short_words_step)
  }
qed

lemma rename_words_id: "rename_words (\<lambda>w. w) s = s"
  by (induction s rule: words_induct) (simp_all add: rename_words_last rename_words_step)

lemma rename_words_comp:
  assumes g: "\<And>w. \<forall>c\<in>set w. is_id_char c \<Longrightarrow> (\<forall>c\<in>set (g w). is_id_char c) \<and> length (g w) = length w"
  shows "rename_words h (rename_words g s) = rename_words (h \<circ> g) s" "short_words (rename_words g s) = short_words s"
  by (induction s rule: words_induct) (simp_all add: rename_words_last rename_words_step short_words_last short_words_step g)

definition id_map :: "string jsobj \<Rightarrow> bool" where
  "id_map r = (obj_wf r \<and> (\<forall>(k, v)\<in>set r. uuid_like k \<and> uuid_like v \<and> \<not> obj_has r v))"

lemma id_map_Cons:
  assumes "id_map ((k, v) # r)"
  shows "uuid_like k \<and> uuid_like v \<and> id_map r \<and> \<not> obj_has r v \<and> \<not> obj_has r k"
proof -
  have a: "uuid_like k" "uuid_like v" "\<not> obj_has ((k, v) # r) v" "obj_wf r" "k \<notin> fst ` set r"
    "\<forall>q\<in>set r. uuid_like (fst q) \<and> uuid_like (snd q) \<and> \<not> obj_has ((k, v) # r) (snd q)"
    using assms by (auto simp: id_map_def obj_wf_def)
  have h: "\<not> obj_has r x" if "\<not> obj_has ((k, v) # r) x" for x
    using that by (simp add: obj_has_iff split: if_splits)
  have "\<not> obj_has r k" using a(5) by (simp add: obj_has_iff obj_get_def map_of_eq_None_iff)
  moreover have "id_map r" using a(4, 6) h by (auto simp: id_map_def)
  ultimately show ?thesis using a h by blast
qed

lemma replace_ids_renames:
  "id_map r \<Longrightarrow> short_words s \<Longrightarrow> replace_ids r s = rename_words (renaming r) s"
proof (induction r arbitrary: s)
  case Nil
  then show ?case by (simp add: replace_ids_def renaming_def rename_words_id)
next
  case (Cons p r)
  obtain k v where p: "p = (k, v)" by (cases p)
  let ?g = "\<lambda>w. if w = k then v else w"
  have kv: "uuid_like k" "uuid_like v" "id_map r" "\<not> obj_has r v" "\<not> obj_has r k"
    using id_map_Cons [of k v r] Cons.prems(1) p by simp_all
  have g: "\<forall>c\<in>set w. is_id_char c \<Longrightarrow> (\<forall>c\<in>set (?g w). is_id_char c) \<and> length (?g w) = length w" for w
    using kv(1, 2) by (auto simp: uuid_like_def)
  have s: "short_words (rename_words ?g s)" using rename_words_comp(2) [of ?g s, OF g] Cons.prems(2) by simp
  have "replace_ids (p # r) s = replace_ids r (rename_words ?g s)"
    by (simp add: replace_ids_def p replace_lit_words [OF kv(1) Cons.prems(2)])
  also have "\<dots> = rename_words (renaming r \<circ> ?g) s"
    using Cons.IH [OF kv(3) s] rename_words_comp(1) [of ?g "renaming r" s, OF g] by simp
  also have "renaming r \<circ> ?g = renaming (p # r)"
    using kv(4, 5) by (auto simp: renaming_def p obj_has_iff)
  finally show ?case .
qed

section \<open>The stages\<close>

text \<open>
  A configuration in the text as the browser gives it: the node name, the attribute \<open>id\<close>, and what
  \<open>innerXML\<close> makes of the node. What the import does to the page is a list of effects.
\<close>

record config_node =
  nodeName_of :: string
  id_of :: "string option"
  innerXML :: string

datatype effect =
    Codec_pane string | Database_pane string | Reactor_made "string option jsobj" | Connection_made string string string
  | Tab string | Run_buttons

record import_dialog =
  codec_config_page_initialized :: bool
  database_config_page_initialized :: bool
  save_disabled :: bool
  uuid_replacements :: "string jsobj"
  c_codecs :: "config_node list"            \<comment> \<open>\<open>configs_by_type\<close>\<close>
  c_databases :: "config_node list"
  c_reactors :: "config_node list"
  c_connections :: "config_node list"
  num_codecs_added :: nat
  num_databases_added :: nat
  num_reactors_added :: nat
  num_connections_added :: nat
  posts :: "(string \<times> string) list"         \<comment> \<open>the addresses and the bodies\<close>
  effects :: "effect list"
  result_text :: string

definition say :: "string \<Rightarrow> import_dialog \<Rightarrow> import_dialog" where
  "say t d = d\<lparr>result_text := result_text d @ t @ [CHR 0x0A]\<rparr>"

definition do_effect :: "effect \<Rightarrow> import_dialog \<Rightarrow> import_dialog" where
  "do_effect e d = d\<lparr>effects := effects d @ [e]\<rparr>"

definition post_all :: "string \<Rightarrow> (config_node \<Rightarrow> string) \<Rightarrow> config_node list \<Rightarrow> import_dialog \<Rightarrow> import_dialog" where
  "post_all url body ns d = d\<lparr>posts := posts d @ map (\<lambda>n. (url, body n)) ns\<rparr>"

definition wrapped :: "string \<Rightarrow> string" where
  "wrapped x = ''<PionConfig>'' @ x @ ''</PionConfig>''"

definition found :: "config_node list \<Rightarrow> string \<Rightarrow> string" where
  "found ns what = nat_digits (length ns) @ what"

definition processConnections :: "import_dialog \<Rightarrow> import_dialog" where
  "processConnections d =
     (if c_connections d = [] then say ''No Connection configurations found.'' d
      else
        (let d1 = say (found (c_connections d) '' Connections found.'') (do_effect (Tab ''reactor_config'') d)
         in post_all ''/config/connections'' (\<lambda>n. replace_ids (uuid_replacements d) (wrapped (innerXML n))) (c_connections d)
              (d1\<lparr>num_connections_added := 0\<rparr>)))"

definition processReactors :: "import_dialog \<Rightarrow> import_dialog" where
  "processReactors d =
     (if c_reactors d = [] then processConnections (say ''No Reactor configurations found.'' d)
      else
        (let d1 = say (found (c_reactors d) '' Reactor configurations found.'') (do_effect (Tab ''reactor_config'') d)
         in post_all ''/config/reactors'' (\<lambda>n. replace_ids (uuid_replacements d) (wrapped (innerXML n))) (c_reactors d)
              (d1\<lparr>num_reactors_added := 0\<rparr>)))"

definition processDatabases :: "import_dialog \<Rightarrow> import_dialog" where
  "processDatabases d =
     (if c_databases d = [] then processReactors (say ''No Database configurations found.'' d)
      else post_all ''/config/databases'' (\<lambda>n. wrapped (innerXML n)) (c_databases d)
             ((say (found (c_databases d) '' Database configurations found.'') d)\<lparr>num_databases_added := 0\<rparr>))"

definition processCodecs :: "import_dialog \<Rightarrow> import_dialog" where
  "processCodecs d =
     (if c_codecs d = [] then processDatabases (say ''No Codec configurations found.'' d)
      else post_all ''/config/codecs'' (\<lambda>n. wrapped (innerXML n)) (c_codecs d)
             ((say (found (c_codecs d) '' Codec configurations found.'') d)\<lparr>num_codecs_added := 0\<rparr>))"

text \<open>\<open>replace(/>\s*/g, '>')\<close>.\<close>

function trim_after_gt :: "string \<Rightarrow> string" where
  "trim_after_gt [] = []"
| "trim_after_gt (c # s) = c # trim_after_gt (if c = CHR ''>'' then dropWhile is_space s else s)"
  by pat_completeness auto
termination by (relation "measure length") (auto simp: le_imp_less_Suc length_dropWhile_le)

text \<open>White space at the beginning of a text goes as well, not only between elements.\<close>

lemma leading_space_is_lost:
  "CHR ''>'' \<notin> set w \<Longrightarrow> \<forall>c\<in>set b. is_space c \<Longrightarrow> trim_after_gt (w @ CHR ''>'' # b @ v) = trim_after_gt (w @ CHR ''>'' # v)"
  by (induction w) (auto simp: dropWhile_append2)

text \<open>Sorting the configurations into the four lists; an unknown one stops the import.\<close>

fun sort_configs :: "config_node list \<Rightarrow> import_dialog \<Rightarrow> import_dialog" where
  "sort_configs [] d = processCodecs d"
| "sort_configs (n # ns) d =
     (if nodeName_of n = ''Codec'' then sort_configs ns (d\<lparr>c_codecs := c_codecs d @ [n]\<rparr>)
      else if nodeName_of n = ''Database'' then sort_configs ns (d\<lparr>c_databases := c_databases d @ [n]\<rparr>)
      else if nodeName_of n = ''Reactor'' then sort_configs ns (d\<lparr>c_reactors := c_reactors d @ [n]\<rparr>)
      else if nodeName_of n = ''Connection'' then sort_configs ns (d\<lparr>c_connections := c_connections d @ [n]\<rparr>)
      else say (''Error: unknown configuration type '' @ [CHR 0x22] @ nodeName_of n @ [CHR 0x22] @ ''.'') d)"

text \<open>\<open>parse\<close> is the browser's parser: the children of the root element.\<close>

definition applyXML :: "(string \<Rightarrow> config_node list) \<Rightarrow> string \<Rightarrow> import_dialog \<Rightarrow> import_dialog" where
  "applyXML parse text_area d =
     (let configs = parse (trim_after_gt (wrapped text_area))
      in sort_configs configs
           (say (found configs '' configurations found.'')
              (d\<lparr>save_disabled := True, c_codecs := [], c_databases := [], c_reactors := [], c_connections := []\<rparr>)))"

section \<open>The answers\<close>

definition null_text :: "string option \<Rightarrow> string" where
  "null_text v = (case v of None \<Rightarrow> ''null'' | Some t \<Rightarrow> t)"

definition note_id :: "string option \<Rightarrow> string \<Rightarrow> import_dialog \<Rightarrow> import_dialog" where
  "note_id old_id new_id d =
     (case old_id of
        Some (c # cs) \<Rightarrow> d\<lparr>uuid_replacements := obj_put (uuid_replacements d) (c # cs) new_id\<rparr>
      | _ \<Rightarrow> d)"

definition first_named :: "node \<Rightarrow> string \<Rightarrow> node option" where
  "first_named n t = (case getElementsByTagName n t of [] \<Rightarrow> None | m # _ \<Rightarrow> Some m)"

text \<open>\<open>getElementsByTagName(t)[0].firstChild.nodeValue\<close>; \<open>None\<close> when it throws.\<close>

definition first_text :: "node \<Rightarrow> string \<Rightarrow> string option" where
  "first_text n t =
     (case first_named n t of
        None \<Rightarrow> None
      | Some m \<Rightarrow> (case childNodes m of [] \<Rightarrow> None | c # _ \<Rightarrow> Some (null_text (nodeValue c))))"

definition added_line :: "string \<Rightarrow> string \<Rightarrow> string \<Rightarrow> string" where
  "added_line what name new_id = what @ '' named '' @ [CHR 0x22] @ name @ [CHR 0x22] @ '' added with new UUID '' @ new_id"

text \<open>
  The answer to a request, given with the configuration that it was sent for. The result says
  whether it was the last one, after which the next stage has begun.
\<close>

definition codec_added :: "config_node \<times> node \<Rightarrow> import_dialog \<Rightarrow> import_dialog \<times> bool" where
  "codec_added a d =
     (case first_named (snd a) ''Codec'' of
        None \<Rightarrow> (d, False)
      | Some n \<Rightarrow>
          (let new_id = null_text (getAttribute n ''id'');
               d1 = note_id (id_of (fst a)) new_id d;
               d2 = (if codec_config_page_initialized d1 then do_effect (Codec_pane new_id) d1 else d1)
           in case first_text n ''Name'' of
                None \<Rightarrow> (d2, False)
              | Some name \<Rightarrow>
                  (let d3 = (say (added_line ''Codec'' name new_id) d2)\<lparr>num_codecs_added := Suc (num_codecs_added d2)\<rparr>
                   in if num_codecs_added d3 = length (c_codecs d3) then (processDatabases d3, True) else (d3, False))))"

definition database_added :: "config_node \<times> node \<Rightarrow> import_dialog \<Rightarrow> import_dialog \<times> bool" where
  "database_added a d =
     (case first_named (snd a) ''Database'' of
        None \<Rightarrow> (d, False)
      | Some n \<Rightarrow>
          (let new_id = null_text (getAttribute n ''id'');
               d1 = note_id (id_of (fst a)) new_id d;
               d2 = (if database_config_page_initialized d1 then do_effect (Database_pane new_id) d1 else d1)
           in case first_text n ''Name'' of
                None \<Rightarrow> (d2, False)
              | Some name \<Rightarrow>
                  (let d3 = (say (added_line ''Database'' name new_id) d2)\<lparr>num_databases_added := Suc (num_databases_added d2)\<rparr>
                   in if num_databases_added d3 = length (c_databases d3) then (processReactors d3, True) else (d3, False))))"

text \<open>The configuration object of a new reactor: the children that have a first child.\<close>

definition reactor_object :: "node \<Rightarrow> string \<Rightarrow> string option jsobj" where
  "reactor_object n new_id =
     fold (\<lambda>c ob. case childNodes c of [] \<Rightarrow> ob | t # _ \<Rightarrow> obj_put ob (nodeName c) (nodeValue t)) (childNodes n) [(''@id'', Some new_id)]"

definition object_text :: "string option jsobj \<Rightarrow> string \<Rightarrow> string" where
  "object_text ob k = (case obj_get ob k of None \<Rightarrow> ''undefined'' | Some v \<Rightarrow> null_text v)"

definition reactor_added :: "config_node \<times> node \<Rightarrow> import_dialog \<Rightarrow> import_dialog \<times> bool" where
  "reactor_added a d =
     (case first_named (snd a) ''Reactor'' of
        None \<Rightarrow> (d, False)
      | Some n \<Rightarrow>
          (let new_id = null_text (getAttribute n ''id'');
               d1 = note_id (id_of (fst a)) new_id d;
               config = reactor_object n new_id;
               d2 = say (added_line ''Reactor'' (object_text config ''Name'') new_id) (do_effect (Reactor_made config) d1);
               d3 = d2\<lparr>num_reactors_added := Suc (num_reactors_added d2)\<rparr>
           in if num_reactors_added d3 = length (c_reactors d3)
              then (processConnections (do_effect Run_buttons (do_effect (Tab ''system_config'') d3)), True)
              else (d3, False)))"

definition connection_added :: "config_node \<times> node \<Rightarrow> import_dialog \<Rightarrow> import_dialog \<times> bool" where
  "connection_added a d =
     (case first_named (snd a) ''Connection'' of
        None \<Rightarrow> (d, False)
      | Some n \<Rightarrow>
          (let new_id = null_text (getAttribute n ''id'')
           in case (first_text (snd a) ''From'', first_text (snd a) ''To'') of
                (Some from_id, Some to_id) \<Rightarrow>
                  (let d1 = say (''Connection from '' @ from_id @ '' to '' @ to_id @ '' added with new UUID '' @ new_id)
                              (do_effect (Connection_made from_id to_id new_id) d);
                       d2 = d1\<lparr>num_connections_added := Suc (num_connections_added d1)\<rparr>
                   in if num_connections_added d2 = length (c_connections d2)
                      then (do_effect (Tab ''system_config'') d2, True) else (d2, False))
              | _ \<Rightarrow> (d, False)))"

lemmas process_defs = processCodecs_def processDatabases_def processReactors_def processConnections_def post_all_def say_def do_effect_def Let_def

text \<open>The next stage leaves the counters and lists of the earlier ones and the identifiers alone.\<close>

lemma process_frame:
  "num_reactors_added (processConnections d) = num_reactors_added d \<and> c_reactors (processConnections d) = c_reactors d"
  "num_databases_added (processReactors d) = num_databases_added d \<and> c_databases (processReactors d) = c_databases d"
  "num_codecs_added (processDatabases d) = num_codecs_added d \<and> c_codecs (processDatabases d) = c_codecs d"
  by (simp_all add: process_defs)

lemma note_id_frame [simp]:
  "num_codecs_added (note_id i n d) = num_codecs_added d" "num_databases_added (note_id i n d) = num_databases_added d"
  "num_reactors_added (note_id i n d) = num_reactors_added d" "c_codecs (note_id i n d) = c_codecs d" "c_databases (note_id i n d) = c_databases d"
  "c_reactors (note_id i n d) = c_reactors d" "c_connections (note_id i n d) = c_connections d" "posts (note_id i n d) = posts d"
  by (simp_all add: note_id_def split: option.split list.split)

abbreviation named :: "string \<Rightarrow> config_node \<times> node \<Rightarrow> import_dialog \<Rightarrow> bool" where
  "named t a d \<equiv> (case first_named (snd a) t of None \<Rightarrow> False | Some n \<Rightarrow> first_text n ''Name'' \<noteq> None)"

interpretation codecs: countdown codec_added num_codecs_added "\<lambda>d. length (c_codecs d)" "named ''Codec''"
  by unfold_locales
    (auto simp: codec_added_def Let_def process_frame say_def do_effect_def split: option.splits)

interpretation databases: countdown database_added num_databases_added "\<lambda>d. length (c_databases d)" "named ''Database''"
  by unfold_locales
    (auto simp: database_added_def Let_def process_frame say_def do_effect_def split: option.splits)

interpretation imported_reactors: countdown reactor_added num_reactors_added "\<lambda>d. length (c_reactors d)" "\<lambda>a d. first_named (snd a) ''Reactor'' \<noteq> None"
  by unfold_locales
    (auto simp: reactor_added_def Let_def process_frame say_def do_effect_def split: option.splits)

section \<open>A stage with all its answers\<close>

text \<open>Between two stages only the identifiers grow; counters, effects and the text are not looked at.\<close>

definition advanced :: "(string \<times> string) list \<Rightarrow> import_dialog \<Rightarrow> import_dialog \<Rightarrow> bool" where
  "advanced ps d d' =
     (uuid_replacements d' = uuid_replacements d @ ps \<and> posts d' = posts d \<and> c_codecs d' = c_codecs d \<and> c_databases d' = c_databases d \<and>
      c_reactors d' = c_reactors d \<and> c_connections d' = c_connections d)"

lemma advanced_trans: "advanced ps d d' \<Longrightarrow> advanced qs d' d'' \<Longrightarrow> advanced (ps @ qs) d d''"
  by (simp add: advanced_def)

definition new_id :: "string \<Rightarrow> node \<Rightarrow> string" where
  "new_id t r = null_text (getAttribute (the (first_named r t)) ''id'')"

definition id_pair :: "string \<Rightarrow> config_node \<times> node \<Rightarrow> string \<times> string" where
  "id_pair t a = (the (id_of (fst a)), new_id t (snd a))"

text \<open>An answer with an identifier and a name, to a configuration with an identifier.\<close>

definition answered :: "string \<Rightarrow> config_node \<times> node \<Rightarrow> bool" where
  "answered t a =
     ((case first_named (snd a) t of None \<Rightarrow> False | Some n \<Rightarrow> first_text n ''Name'' \<noteq> None) \<and>
      id_of (fst a) \<noteq> None \<and> the (id_of (fst a)) \<noteq> [])"

lemma note_id_new:
  "id_of n = Some old \<Longrightarrow> old \<noteq> [] \<Longrightarrow> \<not> obj_has (uuid_replacements d) old \<Longrightarrow>
   note_id (id_of n) i d = d\<lparr>uuid_replacements := uuid_replacements d @ [(old, i)]\<rparr>"
  by (cases old) (simp_all add: note_id_def obj_put_new)

lemma step_witness:
  "P d' \<and> n d' = Suc m \<and> i d' = its \<Longrightarrow> f = (if n d' = length (i d') then g d' else d') \<Longrightarrow>
   \<exists>d'. P d' \<and> n d' = Suc m \<and> f = (if Suc m = length its then g d' else d')"
  by auto

locale import_stage =
  fixes added :: "config_node \<times> node \<Rightarrow> import_dialog \<Rightarrow> import_dialog \<times> bool"
    and next_stage :: "import_dialog \<Rightarrow> import_dialog"
    and num :: "import_dialog \<Rightarrow> nat"
    and items :: "import_dialog \<Rightarrow> config_node list"
    and tag :: string
  assumes step: "answered tag a \<Longrightarrow> \<not> obj_has (uuid_replacements d) (the (id_of (fst a))) \<Longrightarrow>
      \<exists>d'. advanced [id_pair tag a] d d' \<and> num d' = Suc (num d) \<and>
        fst (added a d) = (if Suc (num d) = length (items d) then next_stage d' else d')"
    and items_kept: "advanced ps d d' \<Longrightarrow> items d' = items d"
begin

lemma all_answered:
  "as \<noteq> [] \<Longrightarrow> \<forall>a\<in>set as. answered tag a \<Longrightarrow> num d + length as = length (items d) \<Longrightarrow>
   distinct (map fst (uuid_replacements d @ map (id_pair tag) as)) \<Longrightarrow>
   \<exists>d'. fst (responses added as d) = next_stage d' \<and> advanced (map (id_pair tag) as) d d'"
proof (induction as arbitrary: d)
  case (Cons a as)
  have new: "\<not> obj_has (uuid_replacements d) (the (id_of (fst a)))"
    using Cons.prems(4) by (auto simp: id_pair_def obj_has_iff obj_get_def map_of_eq_None_iff)
  obtain d1 where d1: "advanced [id_pair tag a] d d1" "num d1 = Suc (num d)"
    "fst (added a d) = (if Suc (num d) = length (items d) then next_stage d1 else d1)"
    using step [OF _ new] Cons.prems(2) by auto
  show ?case
  proof (cases "as = []")
    case True
    then show ?thesis using d1 Cons.prems(3) by (auto simp: responses_Cons)
  next
    case False
    then have e: "fst (added a d) = d1" using d1(3) Cons.prems(3) by (cases as) auto
    have "num d1 + length as = length (items d1)" using d1(2) Cons.prems(3) items_kept [OF d1(1)] by simp
    moreover have "distinct (map fst (uuid_replacements d1 @ map (id_pair tag) as))" using d1(1) Cons.prems(4) by (simp add: advanced_def)
    ultimately obtain d2 where d2: "fst (responses added as d1) = next_stage d2" "advanced (map (id_pair tag) as) d1 d2"
      using Cons.IH [OF False, of d1] Cons.prems(2) by auto
    then show ?thesis using e advanced_trans [OF d1(1) d2(2)] by (auto simp: responses_Cons)
  qed
qed simp

end

interpretation codec_stage: import_stage codec_added processDatabases num_codecs_added c_codecs "''Codec''"
proof
  fix a and d :: import_dialog assume a: "answered ''Codec'' a" "\<not> obj_has (uuid_replacements d) (the (id_of (fst a)))"
  then obtain n name old where n: "first_named (snd a) ''Codec'' = Some n" "first_text n ''Name'' = Some name" "id_of (fst a) = Some old" "old \<noteq> []"
    by (auto simp: answered_def split: option.splits)
  define d2 where "d2 = (let d1 = note_id (id_of (fst a)) (new_id ''Codec'' (snd a)) d
      in if codec_config_page_initialized d1 then do_effect (Codec_pane (new_id ''Codec'' (snd a))) d1 else d1)"
  let ?d' = "(say (added_line ''Codec'' name (new_id ''Codec'' (snd a))) d2)\<lparr>num_codecs_added := Suc (num_codecs_added d2)\<rparr>"
  have k: "note_id (id_of (fst a)) (new_id ''Codec'' (snd a)) d = d\<lparr>uuid_replacements := uuid_replacements d @ [(old, new_id ''Codec'' (snd a))]\<rparr>"
    using n a(2) by (intro note_id_new) simp_all
  have c: "fst (codec_added a d) = (if num_codecs_added ?d' = length (c_codecs ?d') then processDatabases ?d' else ?d')"
    unfolding codec_added_def d2_def using n(1, 2) by (simp add: Let_def new_id_def)
  have "advanced [id_pair ''Codec'' a] d ?d' \<and> num_codecs_added ?d' = Suc (num_codecs_added d) \<and> c_codecs ?d' = c_codecs d"
    by (simp add: d2_def k [unfolded n(3)] Let_def advanced_def id_pair_def n(3) say_def do_effect_def)
  then show "\<exists>d'. advanced [id_pair ''Codec'' a] d d' \<and> num_codecs_added d' = Suc (num_codecs_added d) \<and>
      fst (codec_added a d) = (if Suc (num_codecs_added d) = length (c_codecs d) then processDatabases d' else d')"
    using c by (rule step_witness)
qed (simp add: advanced_def)

interpretation database_stage: import_stage database_added processReactors num_databases_added c_databases "''Database''"
proof
  fix a and d :: import_dialog assume a: "answered ''Database'' a" "\<not> obj_has (uuid_replacements d) (the (id_of (fst a)))"
  then obtain n name old where n: "first_named (snd a) ''Database'' = Some n" "first_text n ''Name'' = Some name" "id_of (fst a) = Some old" "old \<noteq> []"
    by (auto simp: answered_def split: option.splits)
  define d2 where "d2 = (let d1 = note_id (id_of (fst a)) (new_id ''Database'' (snd a)) d
      in if database_config_page_initialized d1 then do_effect (Database_pane (new_id ''Database'' (snd a))) d1 else d1)"
  let ?d' = "(say (added_line ''Database'' name (new_id ''Database'' (snd a))) d2)\<lparr>num_databases_added := Suc (num_databases_added d2)\<rparr>"
  have k: "note_id (id_of (fst a)) (new_id ''Database'' (snd a)) d = d\<lparr>uuid_replacements := uuid_replacements d @ [(old, new_id ''Database'' (snd a))]\<rparr>"
    using n a(2) by (intro note_id_new) simp_all
  have c: "fst (database_added a d) = (if num_databases_added ?d' = length (c_databases ?d') then processReactors ?d' else ?d')"
    unfolding database_added_def d2_def using n(1, 2) by (simp add: Let_def new_id_def)
  have "advanced [id_pair ''Database'' a] d ?d' \<and> num_databases_added ?d' = Suc (num_databases_added d) \<and> c_databases ?d' = c_databases d"
    by (simp add: d2_def k [unfolded n(3)] Let_def advanced_def id_pair_def n(3) say_def do_effect_def)
  then show "\<exists>d'. advanced [id_pair ''Database'' a] d d' \<and> num_databases_added d' = Suc (num_databases_added d) \<and>
      fst (database_added a d) = (if Suc (num_databases_added d) = length (c_databases d) then processReactors d' else d')"
    using c by (rule step_witness)
qed (simp add: advanced_def)

text \<open>After the last reactor the tab changes and the run buttons are updated.\<close>

definition after_reactors :: "import_dialog \<Rightarrow> import_dialog" where
  "after_reactors d = processConnections (do_effect Run_buttons (do_effect (Tab ''system_config'') d))"

interpretation reactor_stage: import_stage reactor_added after_reactors num_reactors_added c_reactors "''Reactor''"
proof
  fix a and d :: import_dialog assume a: "answered ''Reactor'' a" "\<not> obj_has (uuid_replacements d) (the (id_of (fst a)))"
  then obtain n old where n: "first_named (snd a) ''Reactor'' = Some n" "id_of (fst a) = Some old" "old \<noteq> []"
    by (auto simp: answered_def split: option.splits)
  define d2 where "d2 = (let d1 = note_id (id_of (fst a)) (new_id ''Reactor'' (snd a)) d; config = reactor_object n (new_id ''Reactor'' (snd a))
      in say (added_line ''Reactor'' (object_text config ''Name'') (new_id ''Reactor'' (snd a))) (do_effect (Reactor_made config) d1))"
  let ?d' = "d2\<lparr>num_reactors_added := Suc (num_reactors_added d2)\<rparr>"
  have k: "note_id (id_of (fst a)) (new_id ''Reactor'' (snd a)) d = d\<lparr>uuid_replacements := uuid_replacements d @ [(old, new_id ''Reactor'' (snd a))]\<rparr>"
    using n a(2) by (intro note_id_new) simp_all
  have c: "fst (reactor_added a d) = (if num_reactors_added ?d' = length (c_reactors ?d') then after_reactors ?d' else ?d')"
    unfolding reactor_added_def d2_def after_reactors_def using n(1) by (simp add: Let_def new_id_def)
  have "advanced [id_pair ''Reactor'' a] d ?d' \<and> num_reactors_added ?d' = Suc (num_reactors_added d) \<and> c_reactors ?d' = c_reactors d"
    by (simp add: d2_def k [unfolded n(2)] Let_def advanced_def id_pair_def n(2) say_def do_effect_def)
  then show "\<exists>d'. advanced [id_pair ''Reactor'' a] d d' \<and> num_reactors_added d' = Suc (num_reactors_added d) \<and>
      fst (reactor_added a d) = (if Suc (num_reactors_added d) = length (c_reactors d) then after_reactors d' else d')"
    using c by (rule step_witness)
qed (simp add: advanced_def)

section \<open>The whole import\<close>

definition of_type :: "string \<Rightarrow> config_node list \<Rightarrow> config_node list" where
  "of_type t ns = filter (\<lambda>n. nodeName_of n = t) ns"

text \<open>The answers of each stage in the order in which they come.\<close>

definition import_run :: "(string \<Rightarrow> config_node list) \<Rightarrow> string \<Rightarrow> (config_node \<times> node) list \<Rightarrow> (config_node \<times> node) list \<Rightarrow>
    (config_node \<times> node) list \<Rightarrow> (config_node \<times> node) list \<Rightarrow> import_dialog \<Rightarrow> import_dialog" where
  "import_run parse text_area ca da ra ka d =
     fst (responses connection_added ka (fst (responses reactor_added ra
       (fst (responses database_added da (fst (responses codec_added ca (applyXML parse text_area d))))))))"

definition known_type :: "string \<Rightarrow> bool" where
  "known_type t = (t \<in> set [''Codec'', ''Database'', ''Reactor'', ''Connection''])"

lemma sort_configs_sorts:
  "\<forall>n\<in>set ns. known_type (nodeName_of n) \<Longrightarrow>
   sort_configs ns d = processCodecs (d\<lparr>c_codecs := c_codecs d @ of_type ''Codec'' ns, c_databases := c_databases d @ of_type ''Database'' ns,
      c_reactors := c_reactors d @ of_type ''Reactor'' ns, c_connections := c_connections d @ of_type ''Connection'' ns\<rparr>)"
proof (induction ns arbitrary: d)
  case Nil then show ?case by (simp add: of_type_def)
next
  case (Cons n ns)
  from Cons.prems have "nodeName_of n = ''Codec'' \<or> nodeName_of n = ''Database'' \<or> nodeName_of n = ''Reactor'' \<or> nodeName_of n = ''Connection''"
    and rest: "\<forall>n\<in>set ns. known_type (nodeName_of n)" by (auto simp: known_type_def)
  then show ?case by (elim disjE) (simp_all add: Cons.IH [OF rest] of_type_def)
qed

lemma codecs_done:
  assumes "length as = length (c_codecs d)" "\<forall>a\<in>set as. answered ''Codec'' a" "distinct (map fst (uuid_replacements d @ map (id_pair ''Codec'') as))"
  shows "\<exists>d'. fst (responses codec_added as (processCodecs d)) = processDatabases d' \<and>
     advanced (map (id_pair ''Codec'') as) (d\<lparr>posts := posts d @ map (\<lambda>n. (''/config/codecs'', wrapped (innerXML n))) (c_codecs d)\<rparr>) d'"
proof (cases "as = []")
  case True
  then show ?thesis using assms(1) by (auto simp: process_defs(1) say_def advanced_def)
next
  case False
  have "num_codecs_added (processCodecs d) + length as = length (c_codecs (processCodecs d))" "uuid_replacements (processCodecs d) = uuid_replacements d"
    using assms(1) False by (auto simp: processCodecs_def post_all_def say_def)
  then obtain d' where "fst (responses codec_added as (processCodecs d)) = processDatabases d'" "advanced (map (id_pair ''Codec'') as) (processCodecs d) d'"
    using codec_stage.all_answered [OF False assms(2), of "processCodecs d"] assms(3) by auto
  moreover have "c_codecs d \<noteq> []" using assms(1) False by auto
  ultimately show ?thesis by (intro exI [of _ d']) (simp add: processCodecs_def post_all_def say_def advanced_def)
qed

lemma databases_done:
  assumes "length as = length (c_databases d)" "\<forall>a\<in>set as. answered ''Database'' a" "distinct (map fst (uuid_replacements d @ map (id_pair ''Database'') as))"
  shows "\<exists>d'. fst (responses database_added as (processDatabases d)) = processReactors d' \<and>
     advanced (map (id_pair ''Database'') as) (d\<lparr>posts := posts d @ map (\<lambda>n. (''/config/databases'', wrapped (innerXML n))) (c_databases d)\<rparr>) d'"
proof (cases "as = []")
  case True
  then show ?thesis using assms(1) by (auto simp: processDatabases_def say_def advanced_def)
next
  case False
  have "num_databases_added (processDatabases d) + length as = length (c_databases (processDatabases d))"
    "uuid_replacements (processDatabases d) = uuid_replacements d"
    using assms(1) False by (auto simp: processDatabases_def post_all_def say_def)
  then obtain d' where "fst (responses database_added as (processDatabases d)) = processReactors d'"
    "advanced (map (id_pair ''Database'') as) (processDatabases d) d'"
    using database_stage.all_answered [OF False assms(2), of "processDatabases d"] assms(3) by auto
  moreover have "c_databases d \<noteq> []" using assms(1) False by auto
  ultimately show ?thesis by (intro exI [of _ d']) (simp add: processDatabases_def post_all_def say_def advanced_def)
qed

text \<open>After the reactors the connections are posted, with or without the change of the tab.\<close>

lemma reactors_done:
  assumes "length as = length (c_reactors d)" "\<forall>a\<in>set as. answered ''Reactor'' a" "distinct (map fst (uuid_replacements d @ map (id_pair ''Reactor'') as))"
  shows "\<exists>d'. fst (responses reactor_added as (processReactors d)) = processConnections d' \<and>
     advanced (map (id_pair ''Reactor'') as)
       (d\<lparr>posts := posts d @ map (\<lambda>n. (''/config/reactors'', replace_ids (uuid_replacements d) (wrapped (innerXML n)))) (c_reactors d)\<rparr>) d'"
proof (cases "as = []")
  case True
  then show ?thesis using assms(1) by (auto simp: processReactors_def say_def advanced_def)
next
  case False
  have "num_reactors_added (processReactors d) + length as = length (c_reactors (processReactors d))"
    "uuid_replacements (processReactors d) = uuid_replacements d"
    using assms(1) False by (auto simp: processReactors_def post_all_def say_def do_effect_def Let_def)
  then obtain d' where d': "fst (responses reactor_added as (processReactors d)) = after_reactors d'"
    "advanced (map (id_pair ''Reactor'') as) (processReactors d) d'"
    using reactor_stage.all_answered [OF False assms(2), of "processReactors d"] assms(3) by auto
  let ?d' = "do_effect Run_buttons (do_effect (Tab ''system_config'') d')"
  have "advanced (map (id_pair ''Reactor'') as) (processReactors d) ?d'" using d'(2) by (simp add: advanced_def do_effect_def)
  moreover have "c_reactors d \<noteq> []" using assms(1) False by auto
  ultimately show ?thesis using d'(1)
    by (intro exI [of _ ?d']) (simp add: processReactors_def post_all_def say_def advanced_def after_reactors_def do_effect_def Let_def)
qed

lemma posts_connection_added: "posts (fst (responses connection_added as d)) = posts d"
  by (rule responses_induct) (simp_all add: connection_added_def say_def do_effect_def Let_def split: option.split)

lemma posts_processConnections:
  "posts (processConnections d) = posts d @ map (\<lambda>n. (''/config/connections'', replace_ids (uuid_replacements d) (wrapped (innerXML n)))) (c_connections d)"
  by (simp add: processConnections_def post_all_def say_def do_effect_def Let_def)

lemma id_map_prefix:
  assumes "id_map (r @ r')"
  shows "id_map r"
proof -
  have h: "\<not> obj_has r v" if "\<not> obj_has (r @ r') v" for v
    using that by (simp add: obj_has_iff obj_get_def map_add_def split: option.splits)
  have "\<forall>p\<in>set r. uuid_like (fst p) \<and> uuid_like (snd p) \<and> \<not> obj_has (r @ r') (snd p)" "obj_wf r"
    using assms by (auto simp: id_map_def obj_wf_def)
  then show ?thesis using h by (auto simp: id_map_def)
qed

section \<open>Properties\<close>

text \<open>
  C25: Whatever the order of the answers in each stage, the import posts every codec, every
  database, then every reactor with the identifiers of the codecs and databases renamed to the
  ones the server gave, then every connection with those of the reactors renamed as well. A word
  is renamed as a whole and once; all other text is as it was exported. The server's identifiers
  are fresh, identifiers look like UUIDs, and no longer word of their characters occurs.
\<close>

theorem import_renames_what_it_moves:
  assumes configs: "parse (trim_after_gt (wrapped text_area)) = configs" "\<forall>n\<in>set configs. known_type (nodeName_of n)"
    and fresh: "uuid_replacements d = []" "posts d = []"
    and all: "mset (map fst ca) = mset (of_type ''Codec'' configs)" "mset (map fst da) = mset (of_type ''Database'' configs)"
      "mset (map fst ra) = mset (of_type ''Reactor'' configs)"
    and ok: "\<forall>a\<in>set ca. answered ''Codec'' a" "\<forall>a\<in>set da. answered ''Database'' a" "\<forall>a\<in>set ra. answered ''Reactor'' a"
    and ids: "id_map (map (id_pair ''Codec'') ca @ map (id_pair ''Database'') da @ map (id_pair ''Reactor'') ra)"
    and short: "\<forall>n\<in>set configs. short_words (wrapped (innerXML n))"
  shows "posts (import_run parse text_area ca da ra ka d) =
     map (\<lambda>n. (''/config/codecs'', wrapped (innerXML n))) (of_type ''Codec'' configs) @
     map (\<lambda>n. (''/config/databases'', wrapped (innerXML n))) (of_type ''Database'' configs) @
     map (\<lambda>n. (''/config/reactors'', rename_words (renaming (map (id_pair ''Codec'') ca @ map (id_pair ''Database'') da)) (wrapped (innerXML n))))
       (of_type ''Reactor'' configs) @
     map (\<lambda>n. (''/config/connections'', rename_words (renaming (map (id_pair ''Codec'') ca @ map (id_pair ''Database'') da @
          map (id_pair ''Reactor'') ra)) (wrapped (innerXML n)))) (of_type ''Connection'' configs)"
proof -
  let ?p1 = "map (id_pair ''Codec'') ca" and ?p2 = "map (id_pair ''Database'') da" and ?p3 = "map (id_pair ''Reactor'') ra"
  obtain d0 where d0: "applyXML parse text_area d = processCodecs d0" "uuid_replacements d0 = []" "posts d0 = []"
    "c_codecs d0 = of_type ''Codec'' configs" "c_databases d0 = of_type ''Database'' configs" "c_reactors d0 = of_type ''Reactor'' configs"
    "c_connections d0 = of_type ''Connection'' configs"
    using fresh sort_configs_sorts [OF configs(2)] by (fastforce simp: applyXML_def configs(1) say_def)
  have len: "length ca = length (of_type ''Codec'' configs)" "length da = length (of_type ''Database'' configs)" "length ra = length (of_type ''Reactor'' configs)"
    using all by (metis length_map size_mset)+
  have dist: "distinct (map fst (?p1 @ ?p2 @ ?p3))" using ids by (simp only: id_map_def obj_wf_def)
  have pre: "distinct (map fst xs)" if "distinct (map fst (xs @ ys))" for xs ys :: "(string \<times> string) list" using that by simp
  have dist1: "distinct (map fst (uuid_replacements d0 @ ?p1))" using pre [OF dist] d0(2) by simp
  obtain d1 where d1: "fst (responses codec_added ca (processCodecs d0)) = processDatabases d1"
    "advanced ?p1 (d0\<lparr>posts := posts d0 @ map (\<lambda>n. (''/config/codecs'', wrapped (innerXML n))) (c_codecs d0)\<rparr>) d1"
    using codecs_done [OF _ ok(1) dist1] len(1) d0(4) by auto
  have r1: "uuid_replacements d1 = ?p1" "c_databases d1 = of_type ''Database'' configs" using d0 d1(2) by (simp_all add: advanced_def)
  have dist2: "distinct (map fst (uuid_replacements d1 @ ?p2))" using pre [of "?p1 @ ?p2" ?p3] dist unfolding r1(1) by simp
  obtain d2 where d2: "fst (responses database_added da (processDatabases d1)) = processReactors d2"
    "advanced ?p2 (d1\<lparr>posts := posts d1 @ map (\<lambda>n. (''/config/databases'', wrapped (innerXML n))) (c_databases d1)\<rparr>) d2"
    using databases_done [OF _ ok(2) dist2] len(2) r1(2) by auto
  have r2: "uuid_replacements d2 = ?p1 @ ?p2" "c_reactors d2 = of_type ''Reactor'' configs" using d0 d1(2) d2(2) by (simp_all add: advanced_def)
  have dist3: "distinct (map fst (uuid_replacements d2 @ ?p3))" using dist unfolding r2(1) append_assoc .
  obtain d3 where d3: "fst (responses reactor_added ra (processReactors d2)) = processConnections d3"
    "advanced ?p3 (d2\<lparr>posts := posts d2 @ map (\<lambda>n. (''/config/reactors'', replace_ids (uuid_replacements d2) (wrapped (innerXML n)))) (c_reactors d2)\<rparr>) d3"
    using reactors_done [OF _ ok(3) dist3] len(3) r2(2) by auto
  have r: "uuid_replacements d2 = ?p1 @ ?p2" "uuid_replacements d3 = ?p1 @ ?p2 @ ?p3" using d0 d1(2) d2(2) d3(2) by (simp_all add: advanced_def)
  have "id_map ((?p1 @ ?p2) @ ?p3)" using ids unfolding append_assoc .
  from id_map_prefix [OF this] have e: "replace_ids (uuid_replacements d2) (wrapped (innerXML n)) = rename_words (renaming (?p1 @ ?p2)) (wrapped (innerXML n))"
    "replace_ids (uuid_replacements d3) (wrapped (innerXML n)) = rename_words (renaming (?p1 @ ?p2 @ ?p3)) (wrapped (innerXML n))"
    if "n \<in> set configs" for n
    using that ids short by (auto simp: r intro: replace_ids_renames)
  have m: "n \<in> set configs" if "n \<in> set (of_type t configs)" for n t using that by (simp add: of_type_def)
  have "posts (import_run parse text_area ca da ra ka d) = posts (processConnections d3)"
    by (simp add: import_run_def d0(1) d1(1) d2(1) d3(1) posts_connection_added)
  then show ?thesis using d0 d1(2) d2(2) d3(2) e m
    by (auto simp: posts_processConnections advanced_def intro!: map_cong)
qed

definition demo_id :: "char \<Rightarrow> string" where
  "demo_id c = replicate 36 c"

definition demo_configs :: "config_node list" where
  "demo_configs =
     [\<lparr>nodeName_of = ''Reactor'', id_of = Some (demo_id (CHR ''b'')), innerXML = ''<Codec>'' @ demo_id (CHR ''a'') @ ''</Codec>''\<rparr>,
      \<lparr>nodeName_of = ''Connection'', id_of = None, innerXML = ''<From>'' @ demo_id (CHR ''b'') @ ''</From>''\<rparr>,
      \<lparr>nodeName_of = ''Codec'', id_of = Some (demo_id (CHR ''a'')), innerXML = ''<Name>x</Name>''\<rparr>]"

definition demo_answer :: "string \<Rightarrow> char \<Rightarrow> node" where
  "demo_answer t c = Element ''PionConfig'' [] [Element t [(''id'', demo_id c)] [Element ''Name'' [] [TextNode ''x'']]]"

definition demo_dialog :: import_dialog where
  "demo_dialog = \<lparr>codec_config_page_initialized = False, database_config_page_initialized = False, save_disabled = False, uuid_replacements = [],
     c_codecs = [], c_databases = [], c_reactors = [], c_connections = [], num_codecs_added = 0, num_databases_added = 0,
     num_reactors_added = 0, num_connections_added = 0, posts = [], effects = [], result_text = []\<rparr>"

lemma import_renames_what_it_moves_witness:
  "posts (import_run (\<lambda>_. demo_configs) ''x'' [(demo_configs ! 2, demo_answer ''Codec'' (CHR ''c''))] []
      [(demo_configs ! 0, demo_answer ''Reactor'' (CHR ''d''))] [] demo_dialog) =
   [(''/config/codecs'', wrapped ''<Name>x</Name>''),
    (''/config/reactors'', wrapped (''<Codec>'' @ demo_id (CHR ''c'') @ ''</Codec>'')),
    (''/config/connections'', wrapped (''<From>'' @ demo_id (CHR ''d'') @ ''</From>''))]"
proof -
  let ?ca = "[(demo_configs ! 2, demo_answer ''Codec'' (CHR ''c''))]" and ?ra = "[(demo_configs ! 0, demo_answer ''Reactor'' (CHR ''d''))]"
  have h: "\<forall>n\<in>set demo_configs. known_type (nodeName_of n)" "uuid_replacements demo_dialog = []" "posts demo_dialog = []"
    "\<forall>a\<in>set ?ca. answered ''Codec'' a" "\<forall>a\<in>set []. answered ''Database'' a" "\<forall>a\<in>set ?ra. answered ''Reactor'' a"
    "id_map (map (id_pair ''Codec'') ?ca @ map (id_pair ''Database'') [] @ map (id_pair ''Reactor'') ?ra)"
    "\<forall>n\<in>set demo_configs. short_words (wrapped (innerXML n))"
    by code_simp+
  have m: "mset (map fst ?ca) = mset (of_type ''Codec'' demo_configs)" "mset (map fst ([] :: (config_node \<times> node) list)) = mset (of_type ''Database'' demo_configs)"
    "mset (map fst ?ra) = mset (of_type ''Reactor'' demo_configs)"
    by (simp_all add: demo_configs_def of_type_def)
  show ?thesis
    unfolding import_renames_what_it_moves [where ka = "[]", OF refl h(1-3) m h(4-8)] by code_simp
qed

text \<open>A stage that is not complete: nothing of the next one is posted.\<close>

lemma codec_added_incomplete:
  "Suc (num_codecs_added d) < length (c_codecs d) \<or> \<not> named ''Codec'' a d \<Longrightarrow> num_codecs_added d < length (c_codecs d) \<Longrightarrow>
   posts (fst (codec_added a d)) = posts d \<and> c_codecs (fst (codec_added a d)) = c_codecs d \<and>
   num_codecs_added (fst (codec_added a d)) = num_codecs_added d + (if named ''Codec'' a d then 1 else 0)"
  by (auto simp: codec_added_def Let_def say_def do_effect_def split: option.splits)

lemma codecs_incomplete:
  "num_codecs_added d + length (filter (\<lambda>a. named ''Codec'' a d) as) < length (c_codecs d) \<Longrightarrow> posts (fst (responses codec_added as d)) = posts d"
proof (induction as arbitrary: d)
  case (Cons a as)
  have c: "posts (fst (codec_added a d)) = posts d \<and> c_codecs (fst (codec_added a d)) = c_codecs d \<and>
     num_codecs_added (fst (codec_added a d)) = num_codecs_added d + (if named ''Codec'' a d then 1 else 0)"
    by (rule codec_added_incomplete) (use Cons.prems in \<open>auto split: if_splits\<close>)
  then show ?case using Cons.IH [of "fst (codec_added a d)"] Cons.prems by (auto simp: responses_Cons split: if_splits)
qed simp

text \<open>
  While the good answers to the codecs are fewer than the codecs - one is missing, failed, or
  came without a codec or its name - nothing but the codecs has been posted: no reactor is made
  with the identifier of a codec that the server does not have.
\<close>

theorem missing_answer_stops_the_import:
  assumes "parse (trim_after_gt (wrapped text_area)) = configs" "\<forall>n\<in>set configs. known_type (nodeName_of n)" "posts d = []"
    and "length (filter (\<lambda>a. case first_named (snd a) ''Codec'' of None \<Rightarrow> False | Some n \<Rightarrow> first_text n ''Name'' \<noteq> None) ca) <
      length (of_type ''Codec'' configs)"
  shows "posts (fst (responses codec_added ca (applyXML parse text_area d))) =
     map (\<lambda>n. (''/config/codecs'', wrapped (innerXML n))) (of_type ''Codec'' configs)"
proof -
  let ?d = "applyXML parse text_area d"
  have ne: "of_type ''Codec'' configs \<noteq> []" using assms(4) by auto
  have d: "c_codecs ?d = of_type ''Codec'' configs" "num_codecs_added ?d = 0"
    "posts ?d = map (\<lambda>n. (''/config/codecs'', wrapped (innerXML n))) (of_type ''Codec'' configs)"
    using ne assms(3) by (simp_all add: applyXML_def assms(1) sort_configs_sorts [OF assms(2)] processCodecs_def post_all_def say_def Let_def)
  show ?thesis using codecs_incomplete [of ?d ca] assms(4) d by simp
qed

lemma missing_answer_stops_the_import_witness:
  "posts (fst (responses codec_added [(demo_configs ! 2, Element ''html'' [] [])] (applyXML (\<lambda>_. demo_configs) ''x'' demo_dialog))) =
   [(''/config/codecs'', wrapped ''<Name>x</Name>'')]"
proof -
  have h: "\<forall>n\<in>set demo_configs. known_type (nodeName_of n)" "posts demo_dialog = []"
    "length (filter (\<lambda>a. case first_named (snd a) ''Codec'' of None \<Rightarrow> False | Some n \<Rightarrow> first_text n ''Name'' \<noteq> None)
       [(demo_configs ! 2, Element ''html'' [] [])]) < length (of_type ''Codec'' demo_configs)"
    by code_simp+
  show ?thesis unfolding missing_answer_stops_the_import [OF refl h] by code_simp
qed

end
