(* ===== verification/Pion_Query.thy ===== *)
theory Pion_Query
  imports Pion_Prelude
begin

text \<open>
  The query of a request, from the dictionary that the interface builds to the one that the server
  reads: \<open>dojo.objectToQuery\<close> with the browser's \<open>encodeURIComponent\<close>, the server's
  \<open>HTTPParser::parseURLEncoded\<close> and \<open>algo::url_decode\<close>. The property is that the server reads what
  the interface put in.
\<close>

section \<open>The interface\<close>

definition unreserved :: "char \<Rightarrow> bool" where
  "unreserved c = (c \<in> set ''ABCDEFGHIJKLMNOPQRSTUVWXYZabcdefghijklmnopqrstuvwxyz0123456789-_.!~*()'' \<or> c = CHR 0x27)"

definition hex_upper :: "nat \<Rightarrow> char" where
  "hex_upper d = ''0123456789ABCDEF'' ! d"

definition percent :: "nat \<Rightarrow> string" where
  "percent n = [CHR ''%'', hex_upper (n div 16), hex_upper (n mod 16)]"

text \<open>Code units below 256: one byte of UTF-8, or two.\<close>

definition encode_char :: "char \<Rightarrow> string" where
  "encode_char c =
     (let n = of_char c :: nat in
      if unreserved c then [c]
      else if n < 128 then percent n
      else percent (192 + n div 64) @ percent (128 + n mod 64))"

definition encodeURIComponent :: "string \<Rightarrow> string" where
  "encodeURIComponent s = concat (map encode_char s)"

text \<open>A property that is undefined is left out; null is as well (\<open>!=\<close>), and the dictionary has neither arrays nor null.\<close>

definition objectToQuery :: "jsval jsobj \<Rightarrow> string" where
  "objectToQuery q =
     join ''&'' (map (\<lambda>(k, v). encodeURIComponent k @ ''='' @ encodeURIComponent (js_string v)) (filter (\<lambda>p. snd p \<noteq> JUndef \<and> snd p \<noteq> JNull) q))"

section \<open>The server\<close>

definition is_control :: "char \<Rightarrow> bool" where
  "is_control c = ((of_char c :: nat) \<le> 31 \<or> (of_char c :: nat) = 127)"

definition QUERY_NAME_MAX :: nat where "QUERY_NAME_MAX = 1024"
definition QUERY_VALUE_MAX :: nat where "QUERY_VALUE_MAX = 1024 * 1024"

definition add_param :: "string \<Rightarrow> string \<Rightarrow> string jsobj \<Rightarrow> string jsobj" where
  "add_param name v dict = (if name \<noteq> [] then dict @ [(name, v)] else dict)"

text \<open>The state of the loop: reading a name or a value, and what has been read.\<close>

fun parse_query :: "bool \<Rightarrow> string \<Rightarrow> string \<Rightarrow> string jsobj \<Rightarrow> string \<Rightarrow> string jsobj option" where
  "parse_query in_value name v dict [] = Some (add_param name v dict)"
| "parse_query False name v dict (c # s) =
     (if c = CHR ''='' then parse_query True name v dict s
      else if c = CHR ''&'' then parse_query False [] v (add_param name v dict) s
      else if c = CHR 0x0D \<or> c = CHR 0x0A \<or> c = CHR 0x09 then parse_query False name v dict s
      else if is_control c \<or> QUERY_NAME_MAX \<le> length name then None
      else parse_query False (name @ [c]) v dict s)"
| "parse_query True name v dict (c # s) =
     (if c = CHR ''&'' then parse_query False [] [] (add_param name v dict) s
      else if c = CHR 0x0D \<or> c = CHR 0x0A \<or> c = CHR 0x09 then parse_query True name v dict s
      else if is_control c \<or> QUERY_VALUE_MAX \<le> length v then None
      else parse_query True name (v @ [c]) dict s)"

definition parseURLEncoded :: "string \<Rightarrow> string jsobj option" where
  "parseURLEncoded s = parse_query False [] [] [] s"

text \<open>\<open>strtol\<close> of two characters in base 16, cast to a byte.\<close>

definition hex_val :: "char \<Rightarrow> nat option" where
  "hex_val c =
     (let n = of_char c :: nat in
      if 48 \<le> n \<and> n \<le> 57 then Some (n - 48) else if 65 \<le> n \<and> n \<le> 70 then Some (n - 55)
      else if 97 \<le> n \<and> n \<le> 102 then Some (n - 87) else None)"

definition strtol2 :: "char \<Rightarrow> char \<Rightarrow> nat" where
  "strtol2 a b =
     (case (hex_val a, hex_val b) of
        (Some x, Some y) \<Rightarrow> 16 * x + y
      | (Some x, None) \<Rightarrow> x
      | (None, Some y) \<Rightarrow> if a = CHR ''-'' then (256 - y) mod 256 else if a = CHR ''+'' \<or> is_space a \<and> of_char a < (128::nat) then y else 0
      | (None, None) \<Rightarrow> 0)"

fun url_decode :: "string \<Rightarrow> string" where
  "url_decode [] = []"
| "url_decode (c # s) =
     (if c = CHR ''+'' then CHR '' '' # url_decode s
      else if c = CHR ''%'' then
        (case s of
           a # b # s' \<Rightarrow> char_of (strtol2 a b) # url_decode s'
         | _ \<Rightarrow> CHR ''%'' # url_decode s)
      else c # url_decode s)"

section \<open>What is read back\<close>

definition ascii :: "string \<Rightarrow> bool" where
  "ascii s = (\<forall>c\<in>set s. of_char c < (128::nat))"

lemma hex_upper_val: "d < 16 \<Longrightarrow> hex_val (hex_upper d) = Some d"
proof -
  have "\<forall>d\<in>set [0..<16]. hex_val (hex_upper d) = Some d" by code_simp
  then show "d < 16 \<Longrightarrow> hex_val (hex_upper d) = Some d" by simp
qed

lemma url_decode_percent: "n < 256 \<Longrightarrow> url_decode (percent n @ s) = char_of n # url_decode s"
  by (simp add: percent_def strtol2_def hex_upper_val less_mult_imp_div_less)

lemma unreserved_plain: "unreserved c \<Longrightarrow> c \<noteq> CHR ''%'' \<and> c \<noteq> CHR ''+'' \<and> c \<noteq> CHR ''&'' \<and> c \<noteq> CHR ''='' \<and> \<not> is_control c \<and> c \<noteq> CHR 0x0D \<and> c \<noteq> CHR 0x0A \<and> c \<noteq> CHR 0x09"
proof -
  have "\<forall>c\<in>set (CHR 0x27 # ''ABCDEFGHIJKLMNOPQRSTUVWXYZabcdefghijklmnopqrstuvwxyz0123456789-_.!~*()''). c \<noteq> CHR ''%'' \<and> c \<noteq> CHR ''+'' \<and> c \<noteq> CHR ''&'' \<and> c \<noteq> CHR ''='' \<and>
    \<not> is_control c \<and> c \<noteq> CHR 0x0D \<and> c \<noteq> CHR 0x0A \<and> c \<noteq> CHR 0x09" by code_simp
  then show "unreserved c \<Longrightarrow> c \<noteq> CHR ''%'' \<and> c \<noteq> CHR ''+'' \<and> c \<noteq> CHR ''&'' \<and> c \<noteq> CHR ''='' \<and> \<not> is_control c \<and> c \<noteq> CHR 0x0D \<and> c \<noteq> CHR 0x0A \<and> c \<noteq> CHR 0x09"
    unfolding unreserved_def by (metis list.set_intros(1) list.set_intros(2))
qed

lemma decode_encode_char: "of_char c < (128::nat) \<Longrightarrow> url_decode (encode_char c @ s) = c # url_decode s"
proof (cases "unreserved c")
  case True
  then show ?thesis using unreserved_plain [OF True] by (simp add: encode_char_def Let_def)
next
  case False
  assume "of_char c < (128::nat)"
  then show ?thesis using False url_decode_percent [of "of_char c" s] by (simp add: encode_char_def Let_def)
qed

lemma decode_encode: "ascii s \<Longrightarrow> url_decode (encodeURIComponent s) = s"
  by (induction s) (simp_all add: encodeURIComponent_def ascii_def decode_encode_char)

definition clean :: "char \<Rightarrow> bool" where
  "clean c = (c \<noteq> CHR ''&'' \<and> c \<noteq> CHR ''='' \<and> \<not> is_control c \<and> c \<noteq> CHR 0x0D \<and> c \<noteq> CHR 0x0A \<and> c \<noteq> CHR 0x09)"

lemma hex_upper_clean: "d < 16 \<Longrightarrow> clean (hex_upper d)"
proof -
  have "\<forall>d\<in>set [0..<16]. clean (hex_upper d)" by code_simp
  then show "d < 16 \<Longrightarrow> clean (hex_upper d)" by simp
qed

lemma percent_clean: "n < 256 \<Longrightarrow> \<forall>c\<in>set (percent n). clean c"
proof -
  assume n: "n < 256"
  have "clean (CHR ''%'')" by code_simp
  then show ?thesis using n hex_upper_clean [of "n div 16"] hex_upper_clean [of "n mod 16"]
    by (simp add: percent_def less_mult_imp_div_less)
qed

lemma encode_clean: "\<forall>c\<in>set (encodeURIComponent s). clean c"
proof -
  have "\<forall>c\<in>set (encode_char x). clean c" for x
  proof (cases "unreserved x")
    case True
    then show ?thesis using unreserved_plain [OF True] by (simp add: encode_char_def Let_def clean_def)
  next
    case False
    have n: "m < 256 \<Longrightarrow> 192 + m div 64 < 256 \<and> 128 + m mod 64 < 256" for m :: nat by linarith
    note p = percent_clean [OF nat_of_char_less_256 [of x]] percent_clean [OF conjunct1 [OF n [OF nat_of_char_less_256 [of x]]]]
      percent_clean [OF conjunct2 [OF n [OF nat_of_char_less_256 [of x]]]]
    show ?thesis using p False by (simp add: encode_char_def Let_def ball_Un del: of_char_mod_256)
  qed
  then show ?thesis by (auto simp: encodeURIComponent_def)
qed

lemma parse_name:
  "\<forall>c\<in>set w. clean c \<Longrightarrow> length (n @ w) \<le> QUERY_NAME_MAX \<Longrightarrow> parse_query False n v d (w @ s) = parse_query False (n @ w) v d s"
  by (induction w arbitrary: n) (auto simp: clean_def)

lemma parse_value:
  "\<forall>c\<in>set w. clean c \<Longrightarrow> length (v @ w) \<le> QUERY_VALUE_MAX \<Longrightarrow> parse_query True n v d (w @ s) = parse_query True n (v @ w) d s"
  by (induction w arbitrary: v) (auto simp: clean_def)

lemma parse_pair:
  assumes "name \<noteq> []" "\<forall>c\<in>set name. clean c" "\<forall>c\<in>set val. clean c" "length name \<le> QUERY_NAME_MAX" "length val \<le> QUERY_VALUE_MAX"
  shows "parse_query False [] [] d (name @ ''='' @ val) = Some (d @ [(name, val)])"
    "parse_query False [] [] d (name @ ''='' @ val @ ''&'' @ s) = parse_query False [] [] (d @ [(name, val)]) s"
  using assms parse_name [of name "[]" "[]" d "''='' @ val"] parse_name [of name "[]" "[]" d "''='' @ val @ ''&'' @ s"]
    parse_value [of val "[]" name d "[]"] parse_value [of val "[]" name d "''&'' @ s"]
  by (simp_all add: add_param_def)

definition fits :: "string \<times> string \<Rightarrow> bool" where
  "fits p = (fst p \<noteq> [] \<and> (\<forall>c\<in>set (fst p). clean c) \<and> (\<forall>c\<in>set (snd p). clean c) \<and>
     length (fst p) \<le> QUERY_NAME_MAX \<and> length (snd p) \<le> QUERY_VALUE_MAX)"

lemma parse_pairs:
  "\<forall>p\<in>set ps. fits p \<Longrightarrow> parse_query False [] [] d (join ''&'' (map (\<lambda>p. fst p @ ''='' @ snd p) ps)) = Some (d @ ps)"
proof (induction ps arbitrary: d)
  case Nil then show ?case by (simp add: add_param_def)
next
  case (Cons p ps)
  have p: "fst p \<noteq> []" "\<forall>c\<in>set (fst p). clean c" "\<forall>c\<in>set (snd p). clean c" "length (fst p) \<le> QUERY_NAME_MAX" "length (snd p) \<le> QUERY_VALUE_MAX"
    using Cons.prems by (simp_all add: fits_def)
  show ?case
  proof (cases ps)
    case Nil then show ?thesis using parse_pair(1) [OF p, of d] by simp
  next
    case (Cons q qs)
    then show ?thesis using parse_pair(2) [OF p, of d "join ''&'' (map (\<lambda>p. fst p @ ''='' @ snd p) ps)"] Cons.IH [of "d @ [p]"] Cons.prems by simp
  qed
qed

text \<open>What is sent: the properties that are neither undefined nor null, as texts.\<close>

definition sent_texts :: "jsval jsobj \<Rightarrow> string jsobj" where
  "sent_texts q = map (\<lambda>p. (fst p, js_string (snd p))) (filter (\<lambda>p. snd p \<noteq> JUndef \<and> snd p \<noteq> JNull) q)"

definition sendable :: "jsval jsobj \<Rightarrow> bool" where
  "sendable q =
     (\<forall>(k, v)\<in>set (sent_texts q). k \<noteq> [] \<and> ascii k \<and> ascii v \<and> length (encodeURIComponent k) \<le> QUERY_NAME_MAX \<and>
        length (encodeURIComponent v) \<le> QUERY_VALUE_MAX)"

definition decoded :: "string jsobj \<Rightarrow> string jsobj" where
  "decoded d = map (\<lambda>p. (url_decode (fst p), url_decode (snd p))) d"

lemma encode_nonempty: "s \<noteq> [] \<Longrightarrow> encodeURIComponent s \<noteq> []"
  by (cases s) (auto simp: encodeURIComponent_def encode_char_def percent_def Let_def)

lemma query_parses:
  assumes "sendable q"
  shows "parseURLEncoded (objectToQuery q) = Some (map (\<lambda>p. (encodeURIComponent (fst p), encodeURIComponent (snd p))) (sent_texts q))"
proof -
  let ?ps = "map (\<lambda>p. (encodeURIComponent (fst p), encodeURIComponent (snd p))) (sent_texts q)"
  have "objectToQuery q = join ''&'' (map (\<lambda>p. fst p @ ''='' @ snd p) ?ps)"
    by (simp add: objectToQuery_def sent_texts_def case_prod_unfold comp_def)
  moreover have "\<forall>p\<in>set ?ps. fits p" using assms encode_clean encode_nonempty by (fastforce simp: fits_def sendable_def)
  ultimately show ?thesis using parse_pairs [of ?ps "[]"] by (simp add: parseURLEncoded_def)
qed

text \<open>
  Whatever dictionary of ASCII texts the interface sends as a query, within the server's
  limits, the server parses and decodes to the same dictionary, in the same order, without the
  properties that are undefined or null.
\<close>

theorem query_round_trip:
  assumes "sendable q"
  shows "map_option decoded (parseURLEncoded (objectToQuery q)) = Some (sent_texts q)"
proof -
  have "url_decode (encodeURIComponent (fst p)) = fst p \<and> url_decode (encodeURIComponent (snd p)) = snd p" if "p \<in> set (sent_texts q)" for p
    using that assms by (cases p) (auto simp: sendable_def decode_encode)
  then have "decoded (map (\<lambda>p. (encodeURIComponent (fst p), encodeURIComponent (snd p))) (sent_texts q)) = sent_texts q"
    by (simp add: decoded_def map_idI)
  then show ?thesis using query_parses [OF assms] by simp
qed

lemma query_round_trip_witness:
  "map_option decoded (parseURLEncoded (objectToQuery [(''show'', JStr ''a#b,c&d=+%''), (''events'', JUndef), (''truncate'', JNum 20)])) =
     Some [(''show'', ''a#b,c&d=+%''), (''truncate'', ''20'')]"
proof -
  have l: "length (encodeURIComponent ''show'') = 4" "length (encodeURIComponent ''a#b,c&d=+%'') = 22" "length (encodeURIComponent ''truncate'') = 8"
    "length (encodeURIComponent ''20'') = 2" "js_string (JNum 20) = ''20''" "ascii ''show''" "ascii ''a#b,c&d=+%''" "ascii ''truncate''" "ascii ''20''"
    by code_simp+
  have s: "sendable [(''show'', JStr ''a#b,c&d=+%''), (''events'', JUndef), (''truncate'', JNum 20)]"
    using l by (simp add: sendable_def sent_texts_def QUERY_NAME_MAX_def QUERY_VALUE_MAX_def)
  show ?thesis unfolding query_round_trip [OF s] by code_simp
qed

end
