(* ===== verification/Pion_Monitor.thy ===== *)
theory Pion_Monitor
  imports Pion_Query "HOL-Library.List_Lexorder" "HOL-Library.Char_ord"
begin

text \<open>
  Watching the events of a reactor (\<open>plugins/services/MonitorService/MonitorService.js\<close>) together
  with the server's side of it (\<open>platform/services/MonitorService.cpp\<close>, \<open>MonitorWriter::setQP\<close>).
  The window sends with each poll only what has changed in its check boxes and settings; the
  server keeps sets. The properties say that the two agree as long as every poll is accepted, what
  a rejected one breaks, which check marks an answer undoes, and when polling stops.
\<close>

section \<open>The server\<close>

text \<open>
  A term is its name here: the vocabulary finds the terms that the server has named. An event is
  its type. \<open>lexical_cast\<close> to an unsigned number is boost's, the argument \<open>cast\<close>.
\<close>

record writer =
  m_size :: nat
  m_truncate :: nat
  m_scroll :: bool
  m_hide_all :: bool
  m_show_terms :: "string set"
  m_suppressed_terms :: "string set"
  m_filtered_events :: "string set"
  m_event_buffer :: "string list"
  m_change_counter :: nat

definition tokens :: "string \<Rightarrow> string list" where
  "tokens s = filter (\<lambda>t. t \<noteq> []) (split_char (CHR '','') (url_decode s))"

definition set_events :: "nat \<Rightarrow> writer \<Rightarrow> writer" where
  "set_events n w = (if n \<noteq> m_size w then w\<lparr>m_size := n, m_event_buffer := drop (length (m_event_buffer w) - n) (m_event_buffer w)\<rparr> else w)"

text \<open>The parameters after the numbers: none of them can throw.\<close>

definition set_terms :: "string jsobj \<Rightarrow> writer \<Rightarrow> writer" where
  "set_terms qp w =
     (let names = (\<lambda>k. case obj_get qp k of None \<Rightarrow> [] | Some v \<Rightarrow> tokens v);
          w1 = (case obj_get qp ''scroll'' of None \<Rightarrow> w | Some v \<Rightarrow> w\<lparr>m_scroll := (v = ''true'')\<rparr>);
          w2 = (case obj_get qp ''opt'' of None \<Rightarrow> w1 | Some v \<Rightarrow> w1\<lparr>m_hide_all := (v = ''in'')\<rparr>);
          w3 = w2\<lparr>m_show_terms := m_show_terms w2 \<union> set (names ''show'') - set (names ''unshow'')\<rparr>;
          w4 = w3\<lparr>m_suppressed_terms := m_suppressed_terms w3 \<union> set (names ''hide'') - set (names ''unhide'')\<rparr>
      in w4\<lparr>m_filtered_events := m_filtered_events w4 \<union> set (names ''filter'') - set (names ''unfilter''),
            m_event_buffer := filter (\<lambda>e. e \<notin> set (names ''filter'')) (m_event_buffer w4)\<rparr>)"

text \<open>\<open>False\<close> when a cast throws; what was set before it stays set.\<close>

definition setQP :: "(string \<Rightarrow> nat option) \<Rightarrow> string jsobj \<Rightarrow> writer \<Rightarrow> writer \<times> bool" where
  "setQP cast qp w =
     (if qp = [] then (w, True)
      else
        (let w1 = w\<lparr>m_change_counter := Suc (m_change_counter w)\<rparr>
         in case map_option cast (obj_get qp ''events'') of
              Some None \<Rightarrow> (w1, False)
            | ev \<Rightarrow>
                (let w2 = (case ev of Some (Some n) \<Rightarrow> set_events n w1 | _ \<Rightarrow> w1)
                 in case map_option cast (obj_get qp ''truncate'') of
                      Some None \<Rightarrow> (w2, False)
                    | Some (Some n) \<Rightarrow> (set_terms qp (w2\<lparr>m_truncate := n\<rparr>), True)
                    | None \<Rightarrow> (set_terms qp w2, True))))"

section \<open>The window\<close>

text \<open>The check boxes of a group in the order of the form; the settings and what was last sent of them.\<close>

record monitor =
  no_status_response_seen :: bool
  no_events_seen :: bool
  event_boxes :: "(string \<times> bool) list"
  column_boxes :: "(string \<times> bool) list"
  prev_event_types :: "string list"
  prev_columns :: "string list"
  prev_terms_seen_string :: "string option"
  truncation_length :: jsval
  event_buffer_size :: jsval
  form_truncation_length :: jsval
  form_event_buffer_size :: jsval

definition checked_values :: "(string \<times> bool) list \<Rightarrow> string list" where
  "checked_values bs = map fst (filter snd bs)"

text \<open>\<open>get('value')\<close> of a form: a group without a box has no value.\<close>

definition group_value :: "(string \<times> bool) list \<Rightarrow> string list option" where
  "group_value bs = (if bs = [] then None else Some (checked_values bs))"

text \<open>ToNumber of a text: integers; the texts of fractions, which no setting has, count as no number.\<close>

definition to_number :: "string \<Rightarrow> jsval" where
  "to_number t =
     (let u = trim t; ds = (if starts_with ''-'' u \<or> starts_with ''+'' u then tl u else u) in
      if u = [] then JNum 0 else if ds \<noteq> [] \<and> (\<forall>c\<in>set ds. is_digit 10 c) then parseInt u else JNaN)"

text \<open>\<open>!=\<close>: a number and a text are compared as numbers; \<open>NaN\<close> differs from itself.\<close>

definition loose_ne :: "jsval \<Rightarrow> jsval \<Rightarrow> bool" where
  "loose_ne a b =
     (case (a, b) of
        (JNum n, JStr t) \<Rightarrow> to_number t \<noteq> JNum n
      | (JStr t, JNum n) \<Rightarrow> to_number t \<noteq> JNum n
      | _ \<Rightarrow> a = JNaN \<or> b = JNaN \<or> (a \<noteq> b \<and> \<not> (a \<in> {JUndef, JNull} \<and> b \<in> {JUndef, JNull})))"

lemma loose_ne_same: "loose_ne a a \<longleftrightarrow> a = JNaN"
  by (cases a) (simp_all add: loose_ne_def)

definition put_names :: "string \<Rightarrow> string list \<Rightarrow> jsval jsobj \<Rightarrow> jsval jsobj" where
  "put_names k ns q = (let q' = obj_del q k in if ns \<noteq> [] then obj_put q' k (JStr (join '','' ns)) else q')"

definition without :: "string list \<Rightarrow> string list \<Rightarrow> string list" where
  "without xs ys = filter (\<lambda>x. x \<notin> set ys) xs"

definition poll :: "jsval jsobj \<Rightarrow> monitor \<Rightarrow> monitor \<times> jsval jsobj" where
  "poll initial_query_params c =
     (if no_events_seen c then (c, initial_query_params)
      else case group_value (event_boxes c) of
        None \<Rightarrow> (c, initial_query_params)
      | Some types \<Rightarrow>
          (let columns = checked_values (column_boxes c);
               q1 = put_names ''filter'' (without (prev_event_types c) types) initial_query_params;
               q2 = put_names ''unfilter'' (without types (prev_event_types c)) q1;
               q3 = put_names ''show'' (without columns (prev_columns c)) q2;
               q4 = put_names ''unshow'' (without (prev_columns c) columns) q3;
               tr = loose_ne (form_truncation_length c) (truncation_length c);
               ev = loose_ne (form_event_buffer_size c) (event_buffer_size c);
               q5 = (if tr then obj_put q4 ''truncate'' (form_truncation_length c) else q4);
               q6 = (if ev then obj_put q5 ''events'' (form_event_buffer_size c) else q5)
           in (c\<lparr>prev_event_types := types, prev_columns := columns,
                 truncation_length := (if tr then form_truncation_length c else truncation_length c),
                 event_buffer_size := (if ev then form_event_buffer_size c else event_buffer_size c)\<rparr>, q6)))"

text \<open>The part of an answer that concerns the check boxes.\<close>

definition add_event_type :: "string \<Rightarrow> monitor \<Rightarrow> monitor" where
  "add_event_type t c =
     (if t \<in> set (map fst (event_boxes c)) then c
      else c\<lparr>event_boxes := event_boxes c @ [(t, True)], prev_event_types := prev_event_types c @ [t]\<rparr>)"

definition rebuild_columns :: "string \<Rightarrow> monitor \<Rightarrow> monitor" where
  "rebuild_columns terms_seen_string c =
     (if prev_terms_seen_string c = Some terms_seen_string then c
      else c\<lparr>prev_terms_seen_string := Some terms_seen_string,
             column_boxes := map (\<lambda>t. (t, t \<in> set (prev_columns c))) (sort (split_char (CHR '','') terms_seen_string))\<rparr>)"

definition updateLayout :: "nat \<Rightarrow> string \<Rightarrow> string \<Rightarrow> string \<Rightarrow> monitor \<Rightarrow> monitor" where
  "updateLayout num_events truncating events_seen terms_seen c =
     (let c1 = (if no_status_response_seen c
                then c\<lparr>no_status_response_seen := False, truncation_length := JStr truncating, form_truncation_length := JStr truncating\<rparr>
                else c)
      in if num_events = 0 then c1
         else
           (let c2 = (if no_events_seen c1 then c1\<lparr>no_events_seen := False, prev_event_types := [], prev_columns := []\<rparr> else c1)
            in rebuild_columns terms_seen (fold add_event_type (split_char (CHR '','') events_seen) c2)))"

definition toggle :: "string \<Rightarrow> (string \<times> bool) list \<Rightarrow> (string \<times> bool) list" where
  "toggle t bs = map (\<lambda>(x, b). (x, if x = t then \<not> b else b)) bs"

section \<open>The two together\<close>

definition opened :: monitor where
  "opened = \<lparr>no_status_response_seen = True, no_events_seen = True, event_boxes = [], column_boxes = [], prev_event_types = [],
     prev_columns = [], prev_terms_seen_string = None, truncation_length = JUndef, event_buffer_size = JNum 15,
     form_truncation_length = JStr [], form_event_buffer_size = JNum 15\<rparr>"

definition new_writer :: writer where
  "new_writer = \<lparr>m_size = 1000, m_truncate = 100, m_scroll = True, m_hide_all = True, m_show_terms = {}, m_suppressed_terms = {},
     m_filtered_events = {}, m_event_buffer = [], m_change_counter = 0\<rparr>"

text \<open>A poll that reaches the server: the new window, the new server, and whether it was accepted.\<close>

definition send_poll :: "(string \<Rightarrow> nat option) \<Rightarrow> jsval jsobj \<Rightarrow> monitor \<times> writer \<Rightarrow> (monitor \<times> writer) \<times> bool" where
  "send_poll cast ini s =
     (let (c, q) = poll ini (fst s)
      in case parseURLEncoded (objectToQuery q) of
           None \<Rightarrow> ((c, snd s), False)
         | Some qp \<Rightarrow> (let (w, ok) = setQP cast qp (snd s) in ((c, w), ok)))"

inductive watched :: "(string \<Rightarrow> nat option) \<Rightarrow> monitor \<times> writer \<Rightarrow> bool" for cast where
  start: "watched cast (opened, new_writer)"
| type_click: "watched cast (c, w) \<Longrightarrow> watched cast (c\<lparr>event_boxes := toggle t (event_boxes c)\<rparr>, w)"
| column_click: "watched cast (c, w) \<Longrightarrow> watched cast (c\<lparr>column_boxes := toggle t (column_boxes c)\<rparr>, w)"
| settings: "watched cast (c, w) \<Longrightarrow> watched cast (c\<lparr>form_truncation_length := l, form_event_buffer_size := n\<rparr>, w)"
| event: "watched cast (c, w) \<Longrightarrow> watched cast (c, w\<lparr>m_event_buffer := b\<rparr>)"
| answer: "watched cast (c, w) \<Longrightarrow> watched cast (updateLayout n tr ev te c, w)"
| poll: "watched cast (c, w) \<Longrightarrow> sendable (snd (poll ini c)) \<Longrightarrow> set (map fst ini) \<subseteq> {''events''} \<Longrightarrow> obj_wf ini \<Longrightarrow>
    send_poll cast ini (c, w) = (s', True) \<Longrightarrow> watched cast s'"

section \<open>What the server reads of a poll\<close>

definition param_names :: "string list" where
  "param_names = [''filter'', ''unfilter'', ''show'', ''unshow'', ''truncate'', ''events'']"

lemma param_names_plain: "k \<in> set param_names \<Longrightarrow> encodeURIComponent k = k"
proof -
  have "\<forall>k\<in>set param_names. encodeURIComponent k = k" by code_simp
  then show "k \<in> set param_names \<Longrightarrow> encodeURIComponent k = k" by blast
qed

lemma get_encoded:
  "\<forall>p\<in>set d. encodeURIComponent (fst p) = fst p \<Longrightarrow>
   obj_get (map (\<lambda>p. (encodeURIComponent (fst p), encodeURIComponent (snd p))) d) k = map_option encodeURIComponent (obj_get d k)"
proof (induction d)
  case (Cons p d) then show ?case by (cases p) simp
qed simp

lemma get_sent:
  "obj_wf q \<Longrightarrow> obj_get (sent_texts q) k =
     (case obj_get q k of None \<Rightarrow> None | Some v \<Rightarrow> if v = JUndef \<or> v = JNull then None else Some (js_string v))"
proof (induction q)
  case Nil then show ?case by (simp add: sent_texts_def)
next
  case (Cons p q)
  obtain k' v where p: "p = (k', v)" by (cases p)
  have q: "obj_wf q" "obj_get q k' = None" using Cons.prems p by (auto simp: obj_wf_def obj_get_def map_of_eq_None_iff)
  have e: "sent_texts (p # q) = (if v = JUndef \<or> v = JNull then [] else [(k', js_string v)]) @ sent_texts q" by (simp add: sent_texts_def p)
  show ?case unfolding e using Cons.IH [OF q(1)] q(2) by (auto simp: p)
qed

definition server_view :: "jsval jsobj \<Rightarrow> string jsobj" where
  "server_view q = map (\<lambda>p. (encodeURIComponent (fst p), encodeURIComponent (snd p))) (sent_texts q)"

lemma get_server_view:
  assumes "obj_wf q" "set (map fst q) \<subseteq> set param_names"
  shows "obj_get (server_view q) k = (case obj_get q k of None \<Rightarrow> None | Some v \<Rightarrow> if v = JUndef \<or> v = JNull then None else Some (encodeURIComponent (js_string v)))"
proof -
  have "\<forall>p\<in>set (sent_texts q). encodeURIComponent (fst p) = fst p" using assms(2) param_names_plain by (auto simp: sent_texts_def)
  from get_encoded [OF this] show ?thesis unfolding server_view_def using get_sent [OF assms(1)] by (auto split: option.split)
qed

definition comma_free :: "string \<Rightarrow> bool" where
  "comma_free t = (CHR '','' \<notin> set t)"

lemma tokens_join: "ns \<noteq> [] \<Longrightarrow> \<forall>t\<in>set ns. comma_free t \<Longrightarrow> ascii (join '','' ns) \<Longrightarrow> tokens (encodeURIComponent (join '','' ns)) = filter (\<lambda>t. t \<noteq> []) ns"
  by (simp add: tokens_def decode_encode split_char_join comma_free_def)

section \<open>A poll without its settings\<close>

text \<open>The value of a parameter with names; the server's reading of it.\<close>

definition names_value :: "string list \<Rightarrow> jsval option" where
  "names_value ns = (if ns = [] then None else Some (JStr (join '','' ns)))"

definition diffs :: "monitor \<Rightarrow> string \<Rightarrow> string list" where
  "diffs c k =
     (let types = checked_values (event_boxes c); columns = checked_values (column_boxes c) in
      if k = ''filter'' then without (prev_event_types c) types else if k = ''unfilter'' then without types (prev_event_types c)
      else if k = ''show'' then without columns (prev_columns c) else if k = ''unshow'' then without (prev_columns c) columns else [])"

definition list_params :: "string list" where
  "list_params = [''filter'', ''unfilter'', ''show'', ''unshow'']"

definition polling :: "monitor \<Rightarrow> bool" where
  "polling c = (\<not> no_events_seen c \<and> event_boxes c \<noteq> [])"

lemma poll_get_names:
  assumes "polling c" "set (map fst ini) \<subseteq> {''events''}" "k \<in> set list_params"
  shows "obj_get (snd (poll ini c)) k = names_value (diffs c k)"
proof -
  have "obj_get ini k = None" using assms(2, 3) by (auto simp: obj_get_def map_of_eq_None_iff list_params_def)
  then show ?thesis using assms(1, 3) unfolding list_params_def
    by (auto simp: poll_def polling_def group_value_def Let_def put_names_def obj_get_put obj_get_del names_value_def diffs_def)
qed

lemma obj_wf_put_names: "obj_wf q \<Longrightarrow> obj_wf (put_names k ns q)"
  by (simp add: put_names_def Let_def obj_wf_put obj_wf_del)

definition keys_in :: "string set \<Rightarrow> jsval jsobj \<Rightarrow> bool" where
  "keys_in K q = (\<forall>p\<in>set q. fst p \<in> K)"

lemma keys_in_put: "keys_in K q \<Longrightarrow> k \<in> K \<Longrightarrow> keys_in K (obj_put q k v)"
  unfolding keys_in_def using in_set_obj_put by fastforce

lemma keys_in_put_names: "keys_in K q \<Longrightarrow> k \<in> K \<Longrightarrow> keys_in K (put_names k ns q)"
proof -
  assume a: "keys_in K q" "k \<in> K"
  have d: "keys_in K (obj_del q k)" using a(1) by (simp add: keys_in_def obj_del_def)
  show ?thesis using d keys_in_put [OF d a(2)] by (simp add: put_names_def Let_def)
qed

lemma poll_wf:
  assumes "set (map fst ini) \<subseteq> {''events''}" "obj_wf ini"
  shows "obj_wf (snd (poll ini c))" "set (map fst (snd (poll ini c))) \<subseteq> set param_names"
proof -
  show "obj_wf (snd (poll ini c))"
    using assms(2) by (auto simp: poll_def Let_def intro!: obj_wf_put obj_wf_put_names split: option.split)
  have i: "keys_in (set param_names) ini" using assms(1) by (auto simp: keys_in_def param_names_def)
  have "\<forall>k\<in>set [''filter'', ''unfilter'', ''show'', ''unshow'', ''truncate'', ''events'']. k \<in> set param_names" by (simp add: param_names_def)
  then have "keys_in (set param_names) (snd (poll ini c))"
    using i by (auto simp: poll_def Let_def intro!: keys_in_put keys_in_put_names split: option.split)
  then show "set (map fst (snd (poll ini c))) \<subseteq> set param_names" by (auto simp: keys_in_def)
qed

section \<open>Agreement\<close>

definition in_sync :: "monitor \<times> writer \<Rightarrow> bool" where
  "in_sync s =
     (let c = fst s; w = snd s; types = set (map fst (event_boxes c)) in
      m_show_terms w = set (prev_columns c) - {[]} \<and> m_filtered_events w = types - set (prev_event_types c) - {[]} \<and>
      set (prev_event_types c) \<subseteq> types \<and> distinct (map fst (event_boxes c)) \<and>
      (\<forall>t\<in>types \<union> set (map fst (column_boxes c)) \<union> set (prev_columns c). comma_free t) \<and>
      (no_events_seen c \<longrightarrow> event_boxes c = [] \<and> prev_event_types c = [] \<and> prev_columns c = []))"

lemma checked_subset: "set (checked_values bs) \<subseteq> set (map fst bs)"
  by (auto simp: checked_values_def)

lemma map_fst_toggle [simp]: "map fst (toggle t bs) = map fst bs"
  by (simp add: toggle_def case_prod_unfold comp_def)

lemma toggle_names [simp]: "fst ` set (toggle t bs) = fst ` set bs" "toggle t [] = []"
  using map_fst_toggle [of t bs] by (metis set_map) (simp add: toggle_def)

lemma in_sync_add_event_type:
  "in_sync (c, w) \<Longrightarrow> \<not> no_events_seen c \<Longrightarrow> comma_free t \<Longrightarrow> in_sync (add_event_type t c, w)"
  by (auto simp: add_event_type_def in_sync_def Let_def)

lemma add_event_type_seen [simp]: "no_events_seen (add_event_type t c) = no_events_seen c"
  by (simp add: add_event_type_def)

lemma in_sync_add_event_types:
  "in_sync (c, w) \<Longrightarrow> \<not> no_events_seen c \<Longrightarrow> \<forall>t\<in>set ts. comma_free t \<Longrightarrow> in_sync (fold add_event_type ts c, w)"
  by (induction ts arbitrary: c) (simp_all add: in_sync_add_event_type)

lemma split_comma_free: "\<forall>t\<in>set (split_char (CHR '','') s). comma_free t"
  using split_char_no_sep by (auto simp: comma_free_def)

lemma in_sync_rebuild: "in_sync (c, w) \<Longrightarrow> in_sync (rebuild_columns s c, w)"
  using split_comma_free [of s] by (auto simp: rebuild_columns_def in_sync_def Let_def)

lemma in_sync_answer:
  assumes "in_sync (c, w)"
  shows "in_sync (updateLayout n tr ev te c, w)"
proof -
  define c1 where "c1 = (if no_status_response_seen c
      then c\<lparr>no_status_response_seen := False, truncation_length := JStr tr, form_truncation_length := JStr tr\<rparr> else c)"
  define c2 where "c2 = (if no_events_seen c1 then c1\<lparr>no_events_seen := False, prev_event_types := [], prev_columns := []\<rparr> else c1)"
  have s1: "in_sync (c1, w)" using assms by (simp add: c1_def in_sync_def Let_def)
  then have s2: "in_sync (c2, w)" "\<not> no_events_seen c2" by (auto simp: c2_def in_sync_def Let_def)
  have "updateLayout n tr ev te c = (if n = 0 then c1 else rebuild_columns te (fold add_event_type (split_char (CHR '','') ev) c2))"
    by (simp add: updateLayout_def c1_def c2_def Let_def)
  then show ?thesis using s1 in_sync_rebuild [OF in_sync_add_event_types [OF s2 split_comma_free]] by simp
qed

text \<open>What an accepted query does to the sets.\<close>

lemma setQP_sets:
  assumes "setQP cast qp w = (w', True)"
  defines "names \<equiv> \<lambda>k. case obj_get qp k of None \<Rightarrow> [] | Some v \<Rightarrow> tokens v"
  shows "m_show_terms w' = m_show_terms w \<union> set (names ''show'') - set (names ''unshow'')"
    "m_filtered_events w' = m_filtered_events w \<union> set (names ''filter'') - set (names ''unfilter'')"
proof -
  have t: "m_show_terms (set_terms qp v) = m_show_terms v \<union> set (names ''show'') - set (names ''unshow'') \<and>
      m_filtered_events (set_terms qp v) = m_filtered_events v \<union> set (names ''filter'') - set (names ''unfilter'')" for v
    by (simp add: set_terms_def names_def Let_def split: option.split)
  have e: "m_show_terms (set_events n v) = m_show_terms v \<and> m_filtered_events (set_events n v) = m_filtered_events v" for n v
    by (simp add: set_events_def)
  have "m_show_terms w' = m_show_terms w \<union> set (names ''show'') - set (names ''unshow'') \<and>
      m_filtered_events w' = m_filtered_events w \<union> set (names ''filter'') - set (names ''unfilter'')"
  proof (cases "qp = []")
    case True
    then show ?thesis using assms(1) by (simp add: setQP_def names_def)
  next
    case False
    then show ?thesis using assms(1) t e by (auto simp: setQP_def Let_def split: option.splits)
  qed
  then show "m_show_terms w' = m_show_terms w \<union> set (names ''show'') - set (names ''unshow'')"
    "m_filtered_events w' = m_filtered_events w \<union> set (names ''filter'') - set (names ''unfilter'')" by simp_all
qed

lemma send_poll_view:
  assumes "sendable (snd (poll ini c))"
  shows "send_poll cast ini (c, w) =
     ((fst (poll ini c), fst (setQP cast (server_view (snd (poll ini c))) w)), snd (setQP cast (server_view (snd (poll ini c))) w))"
proof -
  have "parseURLEncoded (objectToQuery (snd (poll ini c))) = Some (server_view (snd (poll ini c)))"
    using query_parses [OF assms] by (simp add: server_view_def)
  then show ?thesis by (simp add: send_poll_def case_prod_unfold Let_def)
qed

lemma poll_names:
  assumes "polling c" "set (map fst ini) \<subseteq> {''events''}" "obj_wf ini" "sendable (snd (poll ini c))" "k \<in> set list_params"
    "\<forall>t\<in>set (diffs c k). comma_free t"
  shows "(case obj_get (server_view (snd (poll ini c))) k of None \<Rightarrow> [] | Some v \<Rightarrow> tokens v) = filter (\<lambda>t. t \<noteq> []) (diffs c k)"
proof -
  let ?q = "snd (poll ini c)"
  note g = get_server_view [OF poll_wf(1) [OF assms(2, 3)] poll_wf(2) [OF assms(2, 3)], where k = k and c1 = c] poll_get_names [OF assms(1, 2, 5)]
  show ?thesis
  proof (cases "diffs c k = []")
    case True
    then show ?thesis using g by (simp add: names_value_def)
  next
    case False
    then have v: "obj_get ?q k = Some (JStr (join '','' (diffs c k)))" using g(2) by (simp add: names_value_def)
    then have "(k, join '','' (diffs c k)) \<in> set (sent_texts ?q)"
      using obj_get_in_set [OF v] by (force simp: sent_texts_def)
    then have "ascii (join '','' (diffs c k))" using assms(4) by (auto simp: sendable_def)
    then show ?thesis using g(1) v False assms(6) by (simp add: tokens_join)
  qed
qed

lemma prev_after_poll:
  "fst (poll ini c) = (if polling c then c\<lparr>prev_event_types := checked_values (event_boxes c), prev_columns := checked_values (column_boxes c),
      truncation_length := truncation_length (fst (poll ini c)), event_buffer_size := event_buffer_size (fst (poll ini c))\<rparr> else c)"
  by (simp add: poll_def polling_def group_value_def Let_def)

lemma show_algebra:
  "(set P - {[]}) \<union> set (filter (\<lambda>t. t \<noteq> []) (without C P)) - set (filter (\<lambda>t. t \<noteq> []) (without P C)) = set C - {[]}"
  by (auto simp: without_def)

lemma filter_algebra:
  "set C \<subseteq> B \<Longrightarrow> set P \<subseteq> B \<Longrightarrow>
   (B - set P - {[]}) \<union> set (filter (\<lambda>t. t \<noteq> []) (without P C)) - set (filter (\<lambda>t. t \<noteq> []) (without C P)) = B - set C - {[]}"
  by (auto simp: without_def)

lemma diffs_simps:
  "diffs c ''filter'' = without (prev_event_types c) (checked_values (event_boxes c))" "diffs c ''unfilter'' = without (checked_values (event_boxes c)) (prev_event_types c)"
  "diffs c ''show'' = without (checked_values (column_boxes c)) (prev_columns c)" "diffs c ''unshow'' = without (prev_columns c) (checked_values (column_boxes c))"
  by (simp_all add: diffs_def Let_def)

lemma in_sync_comma_free:
  assumes "in_sync (c, w)"
  shows "\<forall>t\<in>set (checked_values (event_boxes c)). comma_free t" "\<forall>t\<in>set (checked_values (column_boxes c)). comma_free t"
    "\<forall>t\<in>set (prev_event_types c). comma_free t" "\<forall>t\<in>set (prev_columns c). comma_free t"
proof -
  have "\<forall>t\<in>set (map fst (event_boxes c)). comma_free t" "\<forall>t\<in>set (map fst (column_boxes c)). comma_free t"
    "set (prev_event_types c) \<subseteq> set (map fst (event_boxes c))" and p: "\<forall>t\<in>set (prev_columns c). comma_free t"
    using assms by (simp_all add: in_sync_def Let_def)
  then show "\<forall>t\<in>set (checked_values (event_boxes c)). comma_free t" "\<forall>t\<in>set (checked_values (column_boxes c)). comma_free t"
    "\<forall>t\<in>set (prev_event_types c). comma_free t" using checked_subset by blast+
  show "\<forall>t\<in>set (prev_columns c). comma_free t" by (rule p)
qed

lemma diffs_comma_free: "in_sync (c, w) \<Longrightarrow> \<forall>t\<in>set (diffs c k). comma_free t"
  using in_sync_comma_free [of c w] by (simp add: diffs_def Let_def without_def)

text \<open>An accepted poll makes the server's sets those of the boxes.\<close>

lemma poll_sets:
  assumes sync: "in_sync (c, w)" and pol: "polling c" and ini: "set (map fst ini) \<subseteq> {''events''}" "obj_wf ini" and snd: "sendable (snd (poll ini c))"
    and ok: "send_poll cast ini (c, w) = ((c', w'), True)"
  shows "m_show_terms w' = set (checked_values (column_boxes c)) - {[]}"
    "m_filtered_events w' = set (map fst (event_boxes c)) - set (checked_values (event_boxes c)) - {[]}"
    "c' = fst (poll ini c)"
proof -
  let ?q = "snd (poll ini c)"
  have s: "setQP cast (server_view ?q) w = (w', True)" and c': "c' = fst (poll ini c)"
    using ok unfolding send_poll_view [OF snd] by (simp_all add: prod_eq_iff)
  let ?N = "\<lambda>k. filter (\<lambda>t. t \<noteq> []) (diffs c k)"
  have cf: "\<forall>t\<in>set (diffs c k). comma_free t" for k
    by (rule diffs_comma_free [OF sync])
  have n: "(case obj_get (server_view ?q) k of None \<Rightarrow> [] | Some v \<Rightarrow> tokens v) = ?N k" if "k \<in> set list_params" for k
    by (rule poll_names [OF pol ini snd that cf])
  have l: "''show'' \<in> set list_params" "''unshow'' \<in> set list_params" "''filter'' \<in> set list_params" "''unfilter'' \<in> set list_params"
    by (simp_all add: list_params_def)
  note r = setQP_sets [OF s, unfolded n [OF l(1)] n [OF l(2)] n [OF l(3)] n [OF l(4)]]
  have i: "m_show_terms w = set (prev_columns c) - {[]}" "m_filtered_events w = set (map fst (event_boxes c)) - set (prev_event_types c) - {[]}"
    "set (prev_event_types c) \<subseteq> set (map fst (event_boxes c))"
    using sync by (simp_all add: in_sync_def Let_def)
  show "m_show_terms w' = set (checked_values (column_boxes c)) - {[]}"
    using r(1) i(1) unfolding diffs_simps by (simp only: show_algebra)
  show "m_filtered_events w' = set (map fst (event_boxes c)) - set (checked_values (event_boxes c)) - {[]}"
    using r(2) i(2) unfolding diffs_simps by (simp only: filter_algebra [OF checked_subset i(3)])
  show "c' = fst (poll ini c)" by (rule c')
qed

lemma quiet_poll_sets:
  assumes "\<not> polling c" "set (map fst ini) \<subseteq> {''events''}" "obj_wf ini" "sendable ini" "send_poll cast ini (c, w) = ((c', w'), True)"
  shows "c' = c" "m_show_terms w' = m_show_terms w" "m_filtered_events w' = m_filtered_events w"
proof -
  have q: "poll ini c = (c, ini)" using assms(1) by (auto simp: poll_def polling_def group_value_def)
  have p: "parseURLEncoded (objectToQuery ini) = Some (server_view ini)" using query_parses [OF assms(4)] by (simp add: server_view_def)
  have s: "setQP cast (server_view ini) w = (w', True)" and c': "c' = c" using assms(5) by (auto simp: send_poll_def p q Let_def split: prod.splits)
  have "set (map fst ini) \<subseteq> set param_names" using assms(2) by (auto simp: param_names_def)
  then have "obj_get (server_view ini) k = None" if "k \<in> set list_params" for k
  proof -
    have "obj_get ini k = None" using that assms(2) by (auto simp: obj_get_def map_of_eq_None_iff list_params_def)
    then show ?thesis using get_server_view [OF assms(3) \<open>set (map fst ini) \<subseteq> set param_names\<close>, of k] by simp
  qed
  then have "obj_get (server_view ini) ''show'' = None" "obj_get (server_view ini) ''unshow'' = None"
    "obj_get (server_view ini) ''filter'' = None" "obj_get (server_view ini) ''unfilter'' = None"
    by (simp_all add: list_params_def)
  then show "c' = c" "m_show_terms w' = m_show_terms w" "m_filtered_events w' = m_filtered_events w"
    using setQP_sets [OF s] c' by simp_all
qed

lemma in_sync_polled:
  assumes "in_sync (c, w)" "polling c" "m_show_terms w' = set (checked_values (column_boxes c)) - {[]}"
    "m_filtered_events w' = set (map fst (event_boxes c)) - set (checked_values (event_boxes c)) - {[]}"
  shows "in_sync (c\<lparr>prev_event_types := checked_values (event_boxes c), prev_columns := checked_values (column_boxes c),
      truncation_length := x, event_buffer_size := y\<rparr>, w')"
proof -
  have "\<forall>t\<in>set (checked_values (column_boxes c)). comma_free t" "set (checked_values (event_boxes c)) \<subseteq> set (map fst (event_boxes c))"
    using assms(1) checked_subset [of "column_boxes c"] checked_subset [of "event_boxes c"] by (auto simp: in_sync_def Let_def)
  then show ?thesis using assms by (auto simp: in_sync_def Let_def polling_def)
qed

lemma watched_in_sync: "watched cast s \<Longrightarrow> in_sync s"
proof (induction rule: watched.induct)
  case start then show ?case by (simp add: in_sync_def opened_def new_writer_def Let_def)
next
  case (answer c w n tr ev te) then show ?case by (intro in_sync_answer)
next
  case (poll c w ini s')
  obtain c' w' where s': "s' = (c', w')" by (cases s')
  show ?case
  proof (cases "polling c")
    case True
    note r = poll_sets [OF poll.IH True poll.hyps(3, 4, 2) poll.hyps(5) [unfolded s']]
    show ?thesis unfolding s' r(3) using in_sync_polled [OF poll.IH True r(1, 2)] prev_after_poll [of ini c] True by metis
  next
    case False
    have "sendable ini" using poll.hyps(2) False by (auto simp: poll_def polling_def group_value_def split: if_splits)
    from quiet_poll_sets [OF False poll.hyps(3, 4) this poll.hyps(5) [unfolded s']] show ?thesis using poll.IH by (simp add: s' in_sync_def Let_def)
  qed
qed (simp_all add: in_sync_def Let_def)

text \<open>
  C26: In every window, however its boxes were clicked and whatever the server answered, if all
  polls so far were accepted then after the next one the server shows exactly the checked columns
  and filters out exactly the event types that are not checked.
\<close>

theorem what_is_checked_is_shown:
  assumes "watched cast (c, w)" "polling c" "sendable (snd (poll [] c))" "send_poll cast [] (c, w) = ((c', w'), True)"
  shows "m_show_terms w' = set (checked_values (column_boxes c)) - {[]} \<and> m_filtered_events w' = {t. (t, False) \<in> set (event_boxes c)} - {[]}"
proof -
  note s = watched_in_sync [OF assms(1)]
  have d: "distinct (map fst (event_boxes c))" using s by (simp add: in_sync_def Let_def)
  have "set (map fst bs) - set (checked_values bs) = {t. (t, False) \<in> set bs}" if "distinct (map fst bs)" for bs :: "(string \<times> bool) list"
    using that by (induction bs) (auto simp: checked_values_def image_iff)
  then show ?thesis using poll_sets(1, 2) [OF s assms(2) _ _ assms(3, 4)] d by (simp add: obj_wf_def)
qed

text \<open>Small numbers, as the server's cast reads them.\<close>

definition demo_cast :: "string \<Rightarrow> nat option" where
  "demo_cast t = (if t = ''20'' then Some 20 else None)"

definition demo_window :: monitor where
  "demo_window = (updateLayout 1 ''100'' ''clickstream#http'' ''a#x,a#y'' opened)\<lparr>column_boxes := [(''a#x'', False), (''a#y'', True)],
     event_boxes := [(''clickstream#http'', False)]\<rparr>"

lemma demo_watched: "watched demo_cast (demo_window, new_writer)"
proof -
  have e: "demo_window = (let c = updateLayout 1 ''100'' ''clickstream#http'' ''a#x,a#y'' opened;
        c' = c\<lparr>column_boxes := toggle ''a#y'' (column_boxes c)\<rparr> in c'\<lparr>event_boxes := toggle ''clickstream#http'' (event_boxes c')\<rparr>)"
    by code_simp
  show ?thesis unfolding e Let_def by (intro watched.type_click watched.column_click watched.answer watched.start)
qed

lemma what_is_checked_is_shown_witness:
  "m_show_terms (snd (fst (send_poll demo_cast [] (demo_window, new_writer)))) = {''a#y''} \<and>
   m_filtered_events (snd (fst (send_poll demo_cast [] (demo_window, new_writer)))) = {''clickstream#http''}"
proof -
  let ?r = "send_poll demo_cast [] (demo_window, new_writer)"
  have q: "snd (poll [] demo_window) = [(''filter'', JStr ''clickstream#http''), (''show'', JStr ''a#y'')]" "polling demo_window" by code_simp+
  have l: "length (encodeURIComponent ''filter'') = 6" "length (encodeURIComponent ''clickstream#http'') = 18" "length (encodeURIComponent ''show'') = 4"
    "length (encodeURIComponent ''a#y'') = 5" "ascii ''filter''" "ascii ''clickstream#http''" "ascii ''show''" "ascii ''a#y''"
    "snd (setQP demo_cast (server_view (snd (poll [] demo_window))) new_writer)" "set (checked_values (column_boxes demo_window)) = {''a#y''}" "event_boxes demo_window = [(''clickstream#http'', False)]"
    by code_simp+
  have s: "sendable (snd (poll [] demo_window))" unfolding q using l by (simp add: sendable_def sent_texts_def QUERY_NAME_MAX_def QUERY_VALUE_MAX_def)
  have r: "?r = ((fst (fst ?r), snd (fst ?r)), True)" using l(9) unfolding send_poll_view [OF s] by simp
  have f: "{t. (t, False) \<in> set (event_boxes demo_window)} = {''clickstream#http''}" unfolding l(11) by auto
  show ?thesis using what_is_checked_is_shown [OF demo_watched q(2) s r] unfolding l(10) f by auto
qed

section \<open>What is lost\<close>

text \<open>
  A poll that the server rejects, because a setting that was sent with it is not a number or
  for any other reason, leaves the server's columns and filters as they were; and the window has
  noted the boxes as sent, so the next poll, and each later one until something else is clicked,
  sends nothing.
\<close>

theorem rejected_poll_is_never_repeated:
  assumes "polling c" "send_poll cast [] (c, w) = ((c', w'), False)" "form_truncation_length c \<noteq> JNaN" "form_event_buffer_size c \<noteq> JNaN"
  shows "m_show_terms w' = m_show_terms w \<and> m_filtered_events w' = m_filtered_events w \<and> poll [] c' = (c', [])"
proof -
  have c': "c' = fst (poll [] c)" using assms(2) by (auto simp: send_poll_def Let_def split: prod.splits option.splits)
  have w: "w' = w \<or> (\<exists>qp. setQP cast qp w = (w', False))" using assms(2) by (auto simp: send_poll_def Let_def split: prod.splits option.splits)
  have "m_show_terms v' = m_show_terms v \<and> m_filtered_events v' = m_filtered_events v" if "setQP cast qp v = (v', False)" for qp v v'
    using that by (auto simp: setQP_def set_events_def Let_def split: if_splits option.splits)
  then have "m_show_terms w' = m_show_terms w \<and> m_filtered_events w' = m_filtered_events w" using w by blast
  moreover have "poll [] c' = (c', [])"
    using assms(1, 3, 4) by (auto simp: c' poll_def polling_def group_value_def Let_def put_names_def without_def loose_ne_same obj_del_def)
  ultimately show ?thesis by simp
qed

lemma rejected_poll_is_never_repeated_witness:
  "m_show_terms (snd (fst (send_poll demo_cast [] (demo_window\<lparr>form_truncation_length := JStr ''x''\<rparr>, new_writer)))) = {}"
proof -
  let ?c = "demo_window\<lparr>form_truncation_length := JStr ''x''\<rparr>" let ?r = "send_poll demo_cast [] (?c, new_writer)"
  have q: "snd (poll [] ?c) = [(''filter'', JStr ''clickstream#http''), (''show'', JStr ''a#y''), (''truncate'', JStr ''x'')]" by code_simp
  have l: "polling ?c" "form_truncation_length ?c \<noteq> JNaN" "form_event_buffer_size ?c \<noteq> JNaN"
    "\<not> snd (setQP demo_cast (server_view (snd (poll [] ?c))) new_writer)" by code_simp+
  have e: "length (encodeURIComponent ''filter'') = 6" "length (encodeURIComponent ''clickstream#http'') = 18" "length (encodeURIComponent ''show'') = 4"
    "length (encodeURIComponent ''a#y'') = 5" "length (encodeURIComponent ''truncate'') = 8" "length (encodeURIComponent ''x'') = 1"
    "ascii ''filter''" "ascii ''clickstream#http''" "ascii ''show''" "ascii ''a#y''" "ascii ''truncate''" "ascii ''x''"
    by code_simp+
  have s: "sendable (snd (poll [] ?c))" unfolding q using e by (simp add: sendable_def sent_texts_def QUERY_NAME_MAX_def QUERY_VALUE_MAX_def)
  have r: "?r = ((fst (fst ?r), snd (fst ?r)), False)" using l(4) unfolding send_poll_view [OF s] by simp
  show ?thesis using rejected_poll_is_never_repeated [OF l(1) r l(2, 3)] by (simp add: new_writer_def)
qed

lemma add_event_types_frame [simp]:
  "prev_columns (fold add_event_type ts c) = prev_columns c" "prev_terms_seen_string (fold add_event_type ts c) = prev_terms_seen_string c"
  by (induction ts arbitrary: c) (simp_all add: add_event_type_def)

text \<open>
  An answer that names the terms in another text than the one before rebuilds the column boxes
  from what was last sent: a column that the user checked since the last poll is unchecked again.
\<close>

theorem answer_unchecks_new_columns:
  assumes "0 < n" "\<not> no_events_seen c" "prev_terms_seen_string c \<noteq> Some te" "(t, True) \<in> set (column_boxes c)" "t \<notin> set (prev_columns c)"
  shows "(t, True) \<notin> set (column_boxes (updateLayout n tr ev te c))"
  using assms by (auto simp: updateLayout_def rebuild_columns_def Let_def)

lemma answer_unchecks_new_columns_witness:
  "(''a#y'', True) \<in> set (column_boxes demo_window) \<and> (''a#y'', True) \<notin> set (column_boxes (updateLayout 1 ''100'' ''clickstream#http'' ''a#x,a#y,a#z'' demo_window))"
proof -
  have "\<not> no_events_seen demo_window" "prev_terms_seen_string demo_window \<noteq> Some ''a#x,a#y,a#z''" "(''a#y'', True) \<in> set (column_boxes demo_window)"
    "''a#y'' \<notin> set (prev_columns demo_window)" by code_simp+
  from answer_unchecks_new_columns [OF _ this, of 1] this(3) show ?thesis by simp
qed

section \<open>When polling stops\<close>

text \<open>The running intervals of a window, and the handle it keeps of one.\<close>

record intervals =
  running :: "nat list"
  next_handle :: nat
  interval_handle :: nat
  update_interval :: jsval

definition clearInterval :: "nat \<Rightarrow> intervals \<Rightarrow> intervals" where
  "clearInterval h s = s\<lparr>running := removeAll h (running s)\<rparr>"

definition startPolling :: "intervals \<Rightarrow> intervals" where
  "startPolling s = s\<lparr>running := running s @ [next_handle s], interval_handle := next_handle s, next_handle := Suc (next_handle s)\<rparr>"

definition changeUpdateInterval :: "jsval \<Rightarrow> intervals \<Rightarrow> intervals" where
  "changeUpdateInterval v s =
     (if \<not> loose_ne (update_interval s) v then s
      else startPolling (clearInterval (interval_handle s) (s\<lparr>update_interval := v\<rparr>)))"

definition togglePolling :: "bool \<Rightarrow> intervals \<Rightarrow> intervals" where
  "togglePolling is_checked s = (if is_checked then startPolling s else clearInterval (interval_handle s) s)"

definition my_hide :: "intervals \<Rightarrow> intervals" where
  "my_hide s = clearInterval (interval_handle s) s"

datatype window_event = Pause | Resume | Change jsval

fun on_event :: "window_event \<Rightarrow> intervals \<Rightarrow> intervals" where
  "on_event Pause s = togglePolling False s"
| "on_event Resume s = togglePolling True s"
| "on_event (Change v) s = changeUpdateInterval v s"

text \<open>The button alternates; \<open>paused\<close> is its state.\<close>

fun possible_events :: "bool \<Rightarrow> window_event list \<Rightarrow> bool" where
  "possible_events paused [] = True"
| "possible_events paused (Pause # es) = (\<not> paused \<and> possible_events True es)"
| "possible_events paused (Resume # es) = (paused \<and> possible_events False es)"
| "possible_events paused (Change v # es) = possible_events paused es"

fun changed_while_paused :: "bool \<Rightarrow> window_event list \<Rightarrow> bool" where
  "changed_while_paused paused [] = False"
| "changed_while_paused paused (Pause # es) = changed_while_paused True es"
| "changed_while_paused paused (Resume # es) = changed_while_paused False es"
| "changed_while_paused paused (Change v # es) = (paused \<or> changed_while_paused paused es)"

definition one_interval :: "bool \<Rightarrow> intervals \<Rightarrow> bool" where
  "one_interval paused s = (running s = (if paused then [] else [interval_handle s]) \<and> interval_handle s < next_handle s)"

lemma one_interval_events:
  "one_interval paused s \<Longrightarrow> possible_events paused es \<Longrightarrow> \<not> changed_while_paused paused es \<Longrightarrow> \<exists>p. one_interval p (fold on_event es s)"
proof (induction es arbitrary: paused s)
  case Nil then show ?case by auto
next
  case (Cons e es)
  show ?case
  proof (cases e)
    case Pause
    then have "one_interval True (on_event e s)" using Cons.prems by (simp add: one_interval_def togglePolling_def clearInterval_def)
    then show ?thesis using Cons.IH Cons.prems Pause by simp
  next
    case Resume
    then have "one_interval False (on_event e s)" using Cons.prems by (simp add: one_interval_def togglePolling_def startPolling_def)
    then show ?thesis using Cons.IH Cons.prems Resume by simp
  next
    case (Change v)
    then have np: "paused = False" using Cons.prems(3) by simp
    have "one_interval False (on_event e s)"
      using Change Cons.prems by (simp add: one_interval_def changeUpdateInterval_def startPolling_def clearInterval_def)
    then show ?thesis using Cons.IH [of False "on_event e s"] Cons.prems(2, 3) Change unfolding np by simp
  qed
qed

text \<open>
  Closing a window stops its polling, however often it was paused, resumed and set to other
  intervals, if the interval was never changed while it was paused; if it was changed once then,
  after resuming two intervals run, and closing the window leaves one of them running for good.
\<close>

theorem closing_stops_polling:
  assumes "one_interval False s" "possible_events False es"
  shows "(\<not> changed_while_paused False es \<longrightarrow> running (my_hide (fold on_event es s)) = []) \<and>
     (loose_ne (update_interval s) v \<longrightarrow> length (running (my_hide (fold on_event [Pause, Change v, Resume] s))) = 1)"
proof (intro conjI impI)
  assume "\<not> changed_while_paused False es"
  then obtain p where "one_interval p (fold on_event es s)" using one_interval_events [OF assms] by blast
  then show "running (my_hide (fold on_event es s)) = []" by (cases p) (simp_all add: one_interval_def my_hide_def clearInterval_def)
next
  assume "loose_ne (update_interval s) v"
  then show "length (running (my_hide (fold on_event [Pause, Change v, Resume] s))) = 1"
    using assms(1) by (simp add: one_interval_def my_hide_def clearInterval_def togglePolling_def changeUpdateInterval_def startPolling_def)
qed

lemma closing_stops_polling_witness:
  "running (my_hide (fold on_event [Pause, Resume, Change (JStr ''9''), Pause]
      \<lparr>running = [0], next_handle = 1, interval_handle = 0, update_interval = JStr ''5''\<rparr>)) = []"
  using closing_stops_polling [of "\<lparr>running = [0], next_handle = 1, interval_handle = 0, update_interval = JStr ''5''\<rparr>"
      "[Pause, Resume, Change (JStr ''9''), Pause]"]
  by (simp add: one_interval_def)

end
