(* ===== verification/Pion_Panes.thy ===== *)
theory Pion_Panes
  imports Pion_Accordion Pion_Protocol
begin

text \<open>
  What the panes of a configuration page do with the server (\<open>plugins/databases/Database.js\<close>, whose
  \<open>save\<close>, \<open>cancel\<close> and \<open>delete2\<close> the panes of codecs, protocols and users repeat), together with the
  server's part: the list of configuration elements that \<open>ConfigManager\<close> keeps
  (\<open>platform/src/ConfigManager.cpp\<close>). The panes share one global variable, \<open>_this\<close>. The properties say
  that all is well as long as one request is answered before the next is made, and what becomes of
  two that overlap.
\<close>

section \<open>The form of a pane\<close>

text \<open>The widgets with a name, in the order of the template, with their texts.\<close>

type_synonym form_values = "string jsobj"

definition database_form :: form_values where
  "database_form = [(''Name'', []), (''Comment'', []), (''@id'', []), (''Plugin'', []), (''Filename'', [])]"

definition disabled_widgets :: "string list" where
  "disabled_widgets = [''@id'', ''Plugin'']"

definition set_form :: "string jsobj \<Rightarrow> form_values \<Rightarrow> form_values" where
  "set_form config f = map (\<lambda>(k, v). (k, case obj_get config k of Some s \<Rightarrow> s | None \<Rightarrow> v)) f"

definition get_form :: "form_values \<Rightarrow> string jsobj" where
  "get_form f = filter (\<lambda>(k, v). k \<notin> set disabled_widgets) f"

text \<open>\<open>populateFromConfigItem\<close>; \<open>None\<close> is the exception for an attribute without a value.\<close>

definition database_config :: "node \<Rightarrow> string jsobj option" where
  "database_config item =
     map_option (mixin [])
       (those (map (\<lambda>a. map_option (Pair a) (sval_toString (xs_getValue None item a SUndef)))
          (filter (\<lambda>a. a \<noteq> ''tagName'' \<and> a \<noteq> ''childNodes'') (getAttributes None item))))"

definition populateFromConfigItem :: "node \<Rightarrow> form_values \<Rightarrow> form_values" where
  "populateFromConfigItem item f = (case database_config item of None \<Rightarrow> f | Some config \<Rightarrow> set_form config f)"

definition database_body :: "string jsobj \<Rightarrow> string" where
  "database_body config =
     ''<PionConfig><Database>'' @ concat (map (\<lambda>(k, v). makeXmlLeafElement k (JStr v)) config) @ ''</Database></PionConfig>''"

definition put_data :: "form_values \<Rightarrow> string" where
  "put_data f = database_body (filter (\<lambda>(k, v). k \<noteq> ''@id'') (get_form f))"

section \<open>The server\<close>

text \<open>
  The children of the root of the configuration file. A node list of libxml is a list; \<open>None\<close> is an
  exception of the server. A request's body is read into the children of the element wanted.
\<close>

definition named :: "string \<Rightarrow> node \<Rightarrow> bool" where
  "named t n = (is_element n \<and> nodeName n = t)"

definition has_id :: "string \<Rightarrow> node \<Rightarrow> bool" where
  "has_id i n = (named ''Database'' n \<and> getAttribute n ''id'' = Some i)"

definition createResourceConfig :: "string \<Rightarrow> string \<Rightarrow> node list option" where
  "createResourceConfig t s =
     Option.bind (read_xml s) (\<lambda>root.
       map_option childNodes (find (named t) (if nodeName root = ''PionConfig'' then childNodes root else [root])))"

fun without_first :: "('a \<Rightarrow> bool) \<Rightarrow> 'a list \<Rightarrow> 'a list" where
  "without_first P [] = []"
| "without_first P (x # xs) = (if P x then xs else x # without_first P xs)"

fun with_children :: "node list \<Rightarrow> node \<Rightarrow> node" where
  "with_children ns (Element t as _) = Element t as ns"
| "with_children ns n = n"

text \<open>The type of a plugin cannot be changed: its element is kept, one in the request is dropped.\<close>

definition set_config :: "node list \<Rightarrow> node \<Rightarrow> node" where
  "set_config config n =
     with_children (filter (named ''Plugin'') (childNodes n) @ without_first (named ''Plugin'') config) n"

fun update_first :: "('a \<Rightarrow> bool) \<Rightarrow> ('a \<Rightarrow> 'a) \<Rightarrow> 'a list \<Rightarrow> 'a list option" where
  "update_first P f [] = None"
| "update_first P f (x # xs) = (if P x then Some (f x # xs) else map_option ((#) x) (update_first P f xs))"

definition setPluginConfig :: "string \<Rightarrow> node list \<Rightarrow> node list \<Rightarrow> node list option" where
  "setPluginConfig i config root = update_first (has_id i) (set_config config) root"

definition addPluginConfig :: "string \<Rightarrow> string \<Rightarrow> node list \<Rightarrow> node list \<Rightarrow> node list" where
  "addPluginConfig i plugin config root =
     root @ [Element ''Database'' [(''id'', i)] (leaf (''Plugin'', plugin) # without_first (named ''Plugin'') config)]"

definition removePluginConfig :: "string \<Rightarrow> node list \<Rightarrow> node list option" where
  "removePluginConfig i root =
     (if find (has_id i) root = None then None else Some (without_first (has_id i) root))"

section \<open>A page\<close>

datatype pane_request = PaneSave string string | PaneFetch string | PaneDelete string

text \<open>A fetch is answered with all elements; the store keeps those with the identifier that was asked for.\<close>

datatype pane_reply = PutDone | Fetched string "node list" | DeleteDone | Failed

record page =
  acc :: accordion
  config_item :: "nat \<Rightarrow> node"
  form :: "nat \<Rightarrow> form_values"
  this_pane :: "nat option"                 \<comment> \<open>the global variable \<open>_this\<close>\<close>
  quieting :: "nat list"                    \<comment> \<open>panes whose mark a timer will take away\<close>
  configs :: "node list"                    \<comment> \<open>the server's\<close>
  waiting :: "pane_request list"
  replies :: "pane_reply list"

definition ident :: "page \<Rightarrow> nat \<Rightarrow> string" where
  "ident s p = uuid (all_panes (acc s) ! p)"

definition unmark :: "nat \<Rightarrow> page \<Rightarrow> page" where
  "unmark p s = s\<lparr>acc := (acc s)\<lparr>unsaved := removeAll p (unsaved (acc s))\<rparr>\<rparr>"

definition send :: "pane_request \<Rightarrow> page \<Rightarrow> page" where
  "send r s = s\<lparr>waiting := waiting s @ [r]\<rparr>"

definition fill_pane :: "nat \<Rightarrow> node \<Rightarrow> page \<Rightarrow> page" where
  "fill_pane p item s = s\<lparr>form := (form s)(p := populateFromConfigItem item (form s p)), quieting := quieting s @ [p]\<rparr>"

text \<open>What the user does. Only the comment is connected to \<open>markAsChanged\<close>.\<close>

definition edit_field :: "nat \<Rightarrow> string \<Rightarrow> string \<Rightarrow> page \<Rightarrow> page" where
  "edit_field p k v s =
     (let s1 = s\<lparr>form := (form s)(p := map (\<lambda>(k', v'). (k', if k' = k then v else v')) (form s p))\<rparr>
      in if k = ''Comment'' then s1\<lparr>acc := (acc s1)\<lparr>unsaved := p # unsaved (acc s1)\<rparr>\<rparr> else s1)"

definition save_pane :: "nat \<Rightarrow> page \<Rightarrow> page" where
  "save_pane p s = send (PaneSave (ident s p) (put_data (form s p))) ((unmark p s)\<lparr>this_pane := Some p\<rparr>)"

definition cancel_pane :: "nat \<Rightarrow> page \<Rightarrow> page" where
  "cancel_pane p s = fill_pane p (config_item s p) (unmark p s)"

definition delete_pane :: "nat \<Rightarrow> page \<Rightarrow> page" where
  "delete_pane p s = send (PaneDelete (ident s p)) (s\<lparr>acc := delete2 p (acc s), this_pane := Some p\<rparr>)"

text \<open>
  A new database: the server takes the type of the plugin from the request and gives an identifier
  \<open>i\<close>; then the new element is fetched and gets a placeholder (\<open>createNewPaneFromStore\<close>).
\<close>

definition plugin_type :: "node list \<Rightarrow> string option" where
  "plugin_type config =
     (case find (named ''Plugin'') config of
        None \<Rightarrow> None | Some n \<Rightarrow> if textContent n = [] then None else Some (textContent n))"

definition add_placeholder :: "string \<Rightarrow> node \<Rightarrow> page \<Rightarrow> page" where
  "add_placeholder i item s =
     s\<lparr>acc := createNewPaneFromStore i (acc s), config_item := (config_item s)(length (all_panes (acc s)) := item)\<rparr>"

definition initNewDatabase :: "string \<Rightarrow> string jsobj \<Rightarrow> page \<Rightarrow> page" where
  "initNewDatabase i dialogFields s =
     (case Option.bind (createResourceConfig ''Database'' (database_body dialogFields)) (\<lambda>c. map_option (Pair c) (plugin_type c)) of
        None \<Rightarrow> s
      | Some (config, plugin) \<Rightarrow>
          (let root = addPluginConfig i plugin config (configs s)
           in fold (add_placeholder i) (filter (has_id i) root) (s\<lparr>configs := root\<rparr>)))"

text \<open>The server handles a request; \<open>ok\<close> says whether the plugin takes a configuration.\<close>

fun serve :: "(string \<Rightarrow> node list \<Rightarrow> bool) \<Rightarrow> pane_request \<Rightarrow> node list \<Rightarrow> node list \<times> pane_reply" where
  "serve ok (PaneSave i b) root =
     (case createResourceConfig ''Database'' b of
        None \<Rightarrow> (root, Failed)
      | Some config \<Rightarrow>
          (case (if ok i config then setPluginConfig i config root else None) of
             None \<Rightarrow> (root, Failed) | Some root' \<Rightarrow> (root', PutDone)))"
| "serve ok (PaneFetch i) root = (root, Fetched i root)"
| "serve ok (PaneDelete i) root = (case removePluginConfig i root of None \<Rightarrow> (root, Failed) | Some root' \<Rightarrow> (root', DeleteDone))"

definition onItem :: "node \<Rightarrow> page \<Rightarrow> page" where
  "onItem item s =
     (case this_pane s of None \<Rightarrow> s | Some p \<Rightarrow> fill_pane p item (s\<lparr>config_item := (config_item s)(p := item)\<rparr>))"

fun receive :: "pane_reply \<Rightarrow> page \<Rightarrow> page" where
  "receive PutDone s = (case this_pane s of None \<Rightarrow> s | Some p \<Rightarrow> send (PaneFetch (ident s p)) s)"
| "receive (Fetched i ns) s = fold onItem (filter (has_id i) ns) s"
| "receive DeleteDone s = (case this_pane s of None \<Rightarrow> s | Some p \<Rightarrow> s\<lparr>acc := delete2_load p (acc s)\<rparr>)"
| "receive Failed s = s"

text \<open>What happens meanwhile, in any order: the server handles a request, an answer arrives, a timer ends.\<close>

datatype happening = Serve nat | Receive nat | Quiet nat

definition drop_nth :: "nat \<Rightarrow> 'a list \<Rightarrow> 'a list" where
  "drop_nth n xs = take n xs @ drop (Suc n) xs"

fun happen :: "(string \<Rightarrow> node list \<Rightarrow> bool) \<Rightarrow> happening \<Rightarrow> page \<Rightarrow> page" where
  "happen ok (Serve n) s =
     (if n < length (waiting s) then
        (let (root, r) = serve ok (waiting s ! n) (configs s)
         in s\<lparr>waiting := drop_nth n (waiting s), configs := root, replies := replies s @ [r]\<rparr>)
      else s)"
| "happen ok (Receive n) s =
     (if n < length (replies s) then receive (replies s ! n) (s\<lparr>replies := drop_nth n (replies s)\<rparr>) else s)"
| "happen ok (Quiet n) s =
     (if n < length (quieting s) then unmark (quieting s ! n) (s\<lparr>quieting := drop_nth n (quieting s)\<rparr>) else s)"

definition happenings :: "(string \<Rightarrow> node list \<Rightarrow> bool) \<Rightarrow> happening list \<Rightarrow> page \<Rightarrow> page" where
  "happenings ok es s = fold (happen ok) es s"

section \<open>One request at a time\<close>

text \<open>The user waits for the answers, of a save there are two, before the next action.\<close>

datatype pane_action = EditPane nat string string | SavePane nat | CancelPane nat | DeletePane nat

fun pane_of :: "pane_action \<Rightarrow> nat" where
  "pane_of (EditPane p k v) = p" | "pane_of (SavePane p) = p" | "pane_of (CancelPane p) = p" | "pane_of (DeletePane p) = p"

definition await :: "(string \<Rightarrow> node list \<Rightarrow> bool) \<Rightarrow> page \<Rightarrow> page" where
  "await ok s = happenings ok [Serve 0, Receive 0, Serve 0, Receive 0] s"

fun act :: "(string \<Rightarrow> node list \<Rightarrow> bool) \<Rightarrow> pane_action \<Rightarrow> page \<Rightarrow> page" where
  "act ok (EditPane p k v) s = edit_field p k v s"
| "act ok (SavePane p) s = await ok (save_pane p s)"
| "act ok (CancelPane p) s = cancel_pane p s"
| "act ok (DeletePane p) s = await ok (delete_pane p s)"

text \<open>The panes in the list after an action, and actions about panes that are in the list.\<close>

fun left :: "pane_action \<Rightarrow> nat list \<Rightarrow> nat list" where
  "left (DeletePane p) ks = remove1 p ks"
| "left _ ks = ks"

fun possible_acts :: "pane_action list \<Rightarrow> nat list \<Rightarrow> bool" where
  "possible_acts [] ks = True"
| "possible_acts (a # as) ks = (pane_of a \<in> set ks \<and> possible_acts as (left a ks))"

text \<open>Each identifier once.\<close>

definition ids_once :: "node list \<Rightarrow> bool" where
  "ids_once ns = distinct (map (\<lambda>n. getAttribute n ''id'') ns)"

text \<open>Each pane of the list holds the server's element of its identifier, and there are no others.\<close>

definition page_synced :: "page \<Rightarrow> bool" where
  "page_synced s =
     (waiting s = [] \<and> replies s = [] \<and> distinct (kids (acc s)) \<and>
      list_all (named ''Database'') (configs s) \<and> ids_once (configs s) \<and>
      (\<forall>p\<in>set (kids (acc s)). config_item s p \<in> set (configs s) \<and> has_id (ident s p) (config_item s p)) \<and>
      config_item s ` set (kids (acc s)) = set (configs s) \<and> inj_on (ident s) (set (kids (acc s))))"

section \<open>Lemmas\<close>

lemma drop_nth_0 [simp]: "drop_nth 0 (x # xs) = xs"
  by (simp add: drop_nth_def)

lemma accordion_frame [simp]:
  "kids (set_timer d e a) = kids a" "all_panes (set_timer d e a) = all_panes a" "unsaved (set_timer d e a) = unsaved a"
  by (simp_all add: set_timer_def Let_def)

lemma selected_frame [simp]:
  "kids (codecPaneSelected p a) = kids a" "all_panes (codecPaneSelected p a) = all_panes a"
  by (simp_all add: codecPaneSelected_def split: option.splits)

lemma select_frame [simp]:
  "kids (select_child p a) = kids a" "all_panes (select_child p a) = all_panes a"
  by (simp_all add: select_child_def)

lemma remove_frame [simp]:
  "kids (remove_child p a) = remove1 p (kids a)" "all_panes (remove_child p a) = all_panes a"
  by (auto simp: remove_child_def Let_def split: list.splits)

lemma delete2_frame [simp]:
  "kids (delete2 p a) = kids a" "all_panes (delete2 p a) = all_panes a"
  "kids (delete2_load p a) = remove1 p (kids a)" "all_panes (delete2_load p a) = all_panes a"
  by (simp_all add: delete2_def delete2_load_def)


text \<open>With every identifier once, an update or a removal of the first is one of all.\<close>

lemma ids_once_Cons: "ids_once (n # ns) \<Longrightarrow> has_id i n \<Longrightarrow> m \<in> set ns \<Longrightarrow> \<not> has_id i m"
  by (force simp: ids_once_def has_id_def)

lemma ids_once_tl: "ids_once (n # ns) \<Longrightarrow> ids_once ns"
  by (simp add: ids_once_def)

lemma update_once:
  "ids_once ns \<Longrightarrow> n \<in> set ns \<Longrightarrow> has_id i n \<Longrightarrow>
   update_first (has_id i) f ns = Some (map (\<lambda>m. if has_id i m then f m else m) ns)"
proof (induction ns)
  case (Cons m ms)
  have "has_id i m \<Longrightarrow> map (\<lambda>m. if has_id i m then f m else m) ms = ms"
    using ids_once_Cons [OF Cons.prems(1)] by (auto intro: map_idI)
  then show ?case using Cons ids_once_tl by fastforce
qed simp

lemma remove_once: "ids_once ns \<Longrightarrow> without_first (has_id i) ns = filter (\<lambda>m. \<not> has_id i m) ns"
proof (induction ns)
  case (Cons m ms)
  have "has_id i m \<Longrightarrow> filter (\<lambda>m. \<not> has_id i m) ms = ms"
    using ids_once_Cons [OF Cons.prems] by (auto intro: filter_True)
  then show ?case using Cons ids_once_tl by auto
qed simp

lemma only_one: "ids_once ns \<Longrightarrow> n \<in> set ns \<Longrightarrow> has_id i n \<Longrightarrow> filter (has_id i) ns = [n]"
proof (induction ns)
  case (Cons m ms)
  have "has_id i m \<Longrightarrow> filter (has_id i) ms = []"
    using ids_once_Cons [OF Cons.prems(1)] by (auto simp: filter_empty_conv)
  then show ?case using Cons ids_once_tl ids_once_Cons [OF Cons.prems(1)] by auto
qed simp

lemma find_once: "ids_once ns \<Longrightarrow> n \<in> set ns \<Longrightarrow> has_id i n \<Longrightarrow> find (has_id i) ns = Some n"
proof (induction ns)
  case (Cons m ms)
  then show ?case using ids_once_tl ids_once_Cons [OF Cons.prems(1)] by auto
qed simp

lemma set_config_frame [simp]:
  "getAttribute (set_config config n) a = getAttribute n a" "named t (set_config config n) = named t n"
  "has_id i (set_config config n) = has_id i n"
  by (cases n; simp add: set_config_def named_def has_id_def is_element_def getAttribute_def)+


lemma ids_once_map: "(\<And>n. getAttribute (f n) ''id'' = getAttribute n ''id'') \<Longrightarrow> ids_once (map f ns) = ids_once ns"
  by (simp add: ids_once_def comp_def)

lemma ids_once_filter: "ids_once ns \<Longrightarrow> ids_once (filter P ns)"
  by (simp add: ids_once_def distinct_map_filter)

section \<open>A save and a deletion with their answers\<close>

lemmas await_defs = await_def happenings_def save_pane_def delete_pane_def send_def unmark_def ident_def

lemma await_rejected:
  assumes "waiting s = []" "replies s = []" "serve ok (PaneSave (ident s p) (put_data (form s p))) (configs s) = (configs s, Failed)"
  shows "await ok (save_pane p s) = (unmark p s)\<lparr>this_pane := Some p\<rparr>"
  using assms by (simp add: await_defs del: serve.simps)

lemma await_saved:
  assumes "waiting s = []" "replies s = []" "serve ok (PaneSave (ident s p) (put_data (form s p))) (configs s) = (root, PutDone)"
    and "filter (has_id (ident s p)) root = [item]"
  shows "await ok (save_pane p s) = fill_pane p item ((unmark p s)\<lparr>this_pane := Some p, configs := root,
      config_item := (config_item s)(p := item)\<rparr>)"
  using assms by (simp add: await_defs onItem_def fill_pane_def del: serve.simps(1))

lemma await_deleted:
  assumes "waiting s = []" "replies s = []" "removePluginConfig (ident s p) (configs s) = Some root"
  shows "await ok (delete_pane p s) = s\<lparr>acc := delete2_load p (delete2 p (acc s)), this_pane := Some p, configs := root\<rparr>"
  using assms by (simp add: await_defs)


lemma serve_save_cases:
  assumes "ids_once ns" "n \<in> set ns" "has_id i n"
  shows "serve ok (PaneSave i b) ns = (ns, Failed) \<or>
     (\<exists>c. serve ok (PaneSave i b) ns = (map (\<lambda>m. if has_id i m then set_config c m else m) ns, PutDone))"
  using update_once [OF assms] by (auto simp: setPluginConfig_def split: option.splits)

lemma remove_found: "ids_once ns \<Longrightarrow> n \<in> set ns \<Longrightarrow> has_id i n \<Longrightarrow> removePluginConfig i ns = Some (filter (\<lambda>m. \<not> has_id i m) ns)"
  using find_once by (simp add: removePluginConfig_def remove_once)

lemma synced_parts:
  assumes "page_synced s" "p \<in> set (kids (acc s))"
  shows "ids_once (configs s)" "config_item s p \<in> set (configs s)" "has_id (ident s p) (config_item s p)"
    "q \<in> set (kids (acc s)) \<Longrightarrow> has_id (ident s p) (config_item s q) \<longleftrightarrow> q = p"
proof -
  show parts: "ids_once (configs s)" "config_item s p \<in> set (configs s)" "has_id (ident s p) (config_item s p)"
    using assms by (simp_all add: page_synced_def)
  show "has_id (ident s p) (config_item s q) \<longleftrightarrow> q = p" if q: "q \<in> set (kids (acc s))"
  proof
    assume "has_id (ident s p) (config_item s q)"
    moreover have "has_id (ident s q) (config_item s q)" using assms q by (simp add: page_synced_def)
    ultimately have "ident s p = ident s q" by (simp add: has_id_def)
    then show "q = p" using assms q by (auto simp: page_synced_def dest: inj_onD)
  qed (use parts in simp)
qed

lemma synced_after_save:
  assumes s: "page_synced s" and p: "p \<in> set (kids (acc s))"
  shows "page_synced (act ok (SavePane p) s) \<and> kids (acc (act ok (SavePane p) s)) = kids (acc s)"
proof -
  note parts = synced_parts [OF s p]
  have idle: "waiting s = []" "replies s = []" using s by (simp_all add: page_synced_def)
  let ?i = "ident s p" and ?b = "put_data (form s p)"
  consider "serve ok (PaneSave ?i ?b) (configs s) = (configs s, Failed)"
    | c where "serve ok (PaneSave ?i ?b) (configs s) = (map (\<lambda>m. if has_id ?i m then set_config c m else m) (configs s), PutDone)"
    using serve_save_cases [OF parts(1-3)] by metis
  then show ?thesis
  proof cases
    case 1
    then show ?thesis using await_rejected [OF idle 1] s by (simp add: page_synced_def unmark_def ident_def inj_on_def)
  next
    case (2 c)
    let ?g = "\<lambda>m. if has_id ?i m then set_config c m else m"
    let ?root = "map ?g (configs s)" and ?item = "set_config c (config_item s p)"
    have once: "ids_once ?root" using parts(1) by (subst ids_once_map) auto
    have item: "?item \<in> set ?root" "has_id ?i ?item" using parts(2,3) by force+
    have e: "act ok (SavePane p) s = fill_pane p ?item ((unmark p s)\<lparr>this_pane := Some p, configs := ?root,
        config_item := (config_item s)(p := ?item)\<rparr>)"
      using await_saved [OF idle 2 only_one [OF once item]] by simp
    have g: "?g (config_item s q) = ((config_item s)(p := ?item)) q" if "q \<in> set (kids (acc s))" for q
      using parts(4) [OF that] by simp
    have "((config_item s)(p := ?item)) ` set (kids (acc s)) = ?g ` config_item s ` set (kids (acc s))"
      unfolding image_image using g by (intro image_cong) simp_all
    also have "\<dots> = set ?root" using s by (simp add: page_synced_def)
    finally have img: "((config_item s)(p := ?item)) ` set (kids (acc s)) = set ?root" .
    then have mem: "((config_item s)(p := ?item)) q \<in> set ?root" if "q \<in> set (kids (acc s))" for q using that by (metis image_eqI)
    have id: "has_id (ident s q) (((config_item s)(p := ?item)) q)" if "q \<in> set (kids (acc s))" for q
      using that s item(2) by (auto simp: page_synced_def)
    have nm: "list_all (named ''Database'') ?root" using s by (auto simp: page_synced_def list_all_iff)
    show ?thesis
      unfolding e using s once nm img mem id
      by (simp add: page_synced_def unmark_def fill_pane_def ident_def inj_on_def del: fun_upd_apply)
  qed
qed

lemma synced_after_delete:
  assumes s: "page_synced s" and p: "p \<in> set (kids (acc s))"
  shows "page_synced (act ok (DeletePane p) s) \<and> kids (acc (act ok (DeletePane p) s)) = remove1 p (kids (acc s))"
proof -
  note parts = synced_parts [OF s p]
  have idle: "waiting s = []" "replies s = []" and d: "distinct (kids (acc s))" using s by (simp_all add: page_synced_def)
  let ?root = "filter (\<lambda>m. \<not> has_id (ident s p) m) (configs s)"
  have e: "act ok (DeletePane p) s = s\<lparr>acc := delete2_load p (delete2 p (acc s)), this_pane := Some p, configs := ?root\<rparr>"
    using await_deleted [OF idle remove_found [OF parts(1-3)]] by simp
  have k: "set (remove1 p (kids (acc s))) = set (kids (acc s)) - {p}" using d by (simp add: set_remove1_eq)
  let ?K = "set (kids (acc s)) - {p}"
  have cfg: "set (configs s) = config_item s ` set (kids (acc s))" using s by (simp add: page_synced_def)
  have "set ?root = {n \<in> config_item s ` set (kids (acc s)). \<not> has_id (ident s p) n}" by (simp add: cfg)
  also have "\<dots> = config_item s ` ?K" using parts(4) by blast
  finally have img: "config_item s ` ?K = set ?root" by (rule sym)
  then have mem: "config_item s q \<in> set ?root" if "q \<in> ?K" for q using that by (metis image_eqI)
  have nm: "list_all (named ''Database'') ?root" using s by (auto simp: page_synced_def list_all_iff)
  have inj: "inj_on (ident s) ?K" using s by (auto simp: page_synced_def inj_on_def)
  have id: "has_id (ident s q) (config_item s q)" if "q \<in> ?K" for q using that s by (simp add: page_synced_def)
  have "ident (act ok (DeletePane p) s) = ident s" unfolding e by (simp add: ident_def fun_eq_iff)
  then have "ident (s\<lparr>acc := delete2_load p (delete2 p (acc s)), this_pane := Some p, configs := ?root\<rparr>) = ident s"
    unfolding e .
  then show ?thesis
    unfolding page_synced_def e using idle d k nm inj ids_once_filter [OF parts(1)] img mem id
    by (simp del: set_filter)
qed

lemma synced_after:
  assumes "page_synced s" "pane_of a \<in> set (kids (acc s))"
  shows "page_synced (act ok a s) \<and> kids (acc (act ok a s)) = left a (kids (acc s))"
proof (cases a)
  case (EditPane p k v)
  then show ?thesis using assms by (simp add: edit_field_def page_synced_def ident_def inj_on_def Let_def)
next
  case (CancelPane p)
  then show ?thesis using assms by (simp add: cancel_pane_def fill_pane_def unmark_def page_synced_def ident_def inj_on_def)
qed (use assms synced_after_save synced_after_delete in \<open>simp_all del: act.simps\<close>)

section \<open>What the server makes of a form\<close>

lemma form_shape:
  assumes "map fst f = map fst database_form"
  obtains n c i t v where "f = [(''Name'', n), (''Comment'', c), (''@id'', i), (''Plugin'', t), (''Filename'', v)]"
  using assms by (auto simp: database_form_def map_eq_Cons_conv)

lemma form_names:
  assumes "map fst f = map fst database_form"
  shows "field_names (get_form f)" "''Plugin'' \<notin> set (map fst (get_form f))" "filter (\<lambda>(k, v). k \<noteq> ''@id'') (get_form f) = get_form f"
proof -
  obtain n c i t v where f: "f = [(''Name'', n), (''Comment'', c), (''@id'', i), (''Plugin'', t), (''Filename'', v)]"
    using assms by (rule form_shape)
  show "field_names (get_form f)" "''Plugin'' \<notin> set (map fst (get_form f))" "filter (\<lambda>(k, v). k \<noteq> ''@id'') (get_form f) = get_form f"
    by (simp_all add: f get_form_def disabled_widgets_def field_names_def obj_wf_def element_names object_prototype_def)
qed

lemma body_read:
  assumes "field_names flds"
  shows "createResourceConfig ''Database'' (database_body flds) = Some (map leaf flds)"
proof -
  have n: "valid_name ''PionConfig''" "valid_name ''Database''" by (simp_all add: element_names)
  have "reads (''<PionConfig>'' @ config_body ''Database'' flds @ ''</PionConfig>'') [Element ''PionConfig'' [] [Element ''Database'' [] (map leaf flds)]]"
    using reads_elem [OF n(1) reads_config_body [OF n(2) assms]] by simp
  then have "read_xml (database_body flds) = Some (Element ''PionConfig'' [] [Element ''Database'' [] (map leaf flds)])"
    using reads_read_xml by (simp add: database_body_def config_body_def)
  then show ?thesis by (simp add: createResourceConfig_def named_def is_element_def)
qed

lemma put_data_read:
  "map fst f = map fst database_form \<Longrightarrow> createResourceConfig ''Database'' (put_data f) = Some (map leaf (get_form f))"
  using body_read form_names by (simp add: put_data_def)

lemma without_first_none: "\<forall>x\<in>set xs. \<not> P x \<Longrightarrow> without_first P xs = xs"
  by (induction xs) auto

lemma named_leaves: "k \<notin> set (map fst flds) \<Longrightarrow> \<forall>n\<in>set (map leaf flds). \<not> named k n"
  by (force simp: named_def)

lemma set_config_leaves:
  assumes "field_names flds" "obj_get flds ''Plugin'' = Some t" "''Plugin'' \<notin> set (map fst new)"
  shows "set_config (map leaf new) (Element tag as (map leaf flds)) = Element tag as (map leaf ((''Plugin'', t) # new))"
proof -
  have "obj_wf flds" using assms(1) by (simp add: field_names_def)
  note child_elements_leaf [OF assms(2) this, of tag as]
  then have "filter (named ''Plugin'') (map leaf flds) = [leaf (''Plugin'', t)]"
    by (simp add: child_elements_def named_def [abs_def])
  then show ?thesis using without_first_none [OF named_leaves [OF assms(3)]] by (simp add: set_config_def)
qed

lemma set_config_again:
  "\<forall>n\<in>set config. \<not> named ''Plugin'' n \<Longrightarrow> set_config config (set_config config item) = set_config config item"
  by (cases item) (simp_all add: set_config_def without_first_none)

lemma database_config_read:
  assumes "field_names flds" "i \<noteq> []" "''Extract'' \<notin> set (map fst flds)"
  shows "\<exists>c. database_config (Element t [(''id'', i)] (map leaf flds)) = Some c \<and> obj_get c ''@id'' = Some i \<and>
     (\<forall>k v. obj_get flds k = Some v \<longrightarrow> obj_get c k = Some v)"
proof -
  let ?n = "Element t [(''id'', i)] (map leaf flds @ [])"
  let ?as = "filter (\<lambda>a. a \<noteq> ''tagName'' \<and> a \<noteq> ''childNodes'') (getAttributes None ?n)"
  define g where "g a = the (sval_toString (xs_getValue None ?n a SUndef))" for a
  have e: "''Extract'' \<notin> set object_prototype" "element_name ''Extract''" by (simp_all add: object_prototype_def element_name_def)
  have "sval_toString (xs_getValue None ?n a SUndef) \<noteq> None" if "a \<in> set (getAttributes None ?n)" for a
    using listed_string [OF assms(1) _ e(1) assms(3) e(2) _ that] assms(2) by simp
  then have "those (map (\<lambda>a. map_option (Pair a) (sval_toString (xs_getValue None ?n a SUndef))) ?as) = Some (map (\<lambda>a. (a, g a)) ?as)"
    by (intro those_all) (auto simp: g_def)
  then have c: "database_config ?n = Some (mixin [] (map (\<lambda>a. (a, g a)) ?as))" by (simp add: database_config_def)
  have as: "set ?as = set (map fst flds) \<union> {''@id''}"
    using listed_attributes [OF assms(1) _ e(1) assms(3), of "[]" t "[(''id'', i)]"] field_namesD [OF assms(1)] by auto
  have "g ''@id'' = i" using assms(2) by (simp add: g_def xs_attr)
  moreover have "obj_get (mixin [] (map (\<lambda>a. (a, g a)) ?as)) k = Some v" if kv: "obj_get flds k = Some v" for k v
  proof -
    have "k \<in> set ?as" using as obj_get_in_set [OF kv] by force
    moreover have "g k = v" using field_value [OF assms(1) kv, of "[]" "''Extract''"] assms(3) by (simp add: g_def)
    ultimately show ?thesis by (simp add: obj_get_listed del: set_filter)
  qed
  ultimately show ?thesis using c as by (auto simp: obj_get_listed simp del: set_filter)
qed

section \<open>A new database\<close>

lemma placeholder_frame:
  "kids (createNewPaneFromStore i a) = kids a @ [length (all_panes a)]"
  "all_panes (createNewPaneFromStore i a) = all_panes a @ [\<lparr>uuid = i, initialized = False\<rparr>]"
  by (simp_all add: createNewPaneFromStore_def createNewPaneFromItem_def Pion_Accordion.add_child_def codecPaneAdded_def Let_def)

lemma textContent_of_leaf [simp]: "textContent (leaf f) = snd f"
  by (cases f) (simp add: leaf_def text_nodes_def)

text \<open>
  The new pane is the last one and holds the new element: the plugin and then the other fields of
  the dialog. The page stays in step with the server.
\<close>

lemma synced_after_add:
  assumes s: "page_synced s" and below: "\<forall>p\<in>set (kids (acc s)). p < length (all_panes (acc s))"
    and flds: "field_names ((''Plugin'', t) # flds)" "t \<noteq> []" and i: "\<forall>n\<in>set (configs s). \<not> has_id i n"
  shows "page_synced (initNewDatabase i ((''Plugin'', t) # flds) s) \<and>
    kids (acc (initNewDatabase i ((''Plugin'', t) # flds) s)) = kids (acc s) @ [length (all_panes (acc s))] \<and>
    configs (initNewDatabase i ((''Plugin'', t) # flds) s) = configs s @ [Element ''Database'' [(''id'', i)] (map leaf ((''Plugin'', t) # flds))]"
proof -
  let ?item = "Element ''Database'' [(''id'', i)] (map leaf ((''Plugin'', t) # flds))" and ?n = "length (all_panes (acc s))"
  have "createResourceConfig ''Database'' (database_body ((''Plugin'', t) # flds)) = Some (map leaf ((''Plugin'', t) # flds))"
    by (rule body_read [OF flds(1)])
  moreover have "plugin_type (map leaf ((''Plugin'', t) # flds)) = Some t" using flds(2) by (simp add: plugin_type_def named_def)
  moreover have "addPluginConfig i t (map leaf ((''Plugin'', t) # flds)) (configs s) = configs s @ [?item]"
    by (simp add: addPluginConfig_def named_def)
  moreover have "filter (has_id i) (configs s @ [?item]) = [?item]"
    using i by (simp add: has_id_def named_def is_element_def getAttribute_def filter_empty_conv)
  ultimately have e: "initNewDatabase i ((''Plugin'', t) # flds) s = add_placeholder i ?item (s\<lparr>configs := configs s @ [?item]\<rparr>)"
    by (simp add: initNewDatabase_def Let_def)
  have new: "?n \<notin> set (kids (acc s))" using below by auto
  have old: "(all_panes (acc s) @ xs) ! q = all_panes (acc s) ! q" if "q \<in> set (kids (acc s))" for q xs
    using below that by (simp add: nth_append)
  have "getAttribute n ''id'' \<noteq> Some i" if "n \<in> set (configs s)" for n
    using i s that by (auto simp: page_synced_def has_id_def list_all_iff)
  then have "ids_once (configs s @ [?item])" using s by (force simp: page_synced_def ids_once_def getAttribute_def)
  moreover have "ident s q \<noteq> i" if "q \<in> set (kids (acc s))" for q using i s that by (auto simp: page_synced_def)
  ultimately have "page_synced (add_placeholder i ?item (s\<lparr>configs := configs s @ [?item]\<rparr>))"
    using s new old
    by (auto simp: page_synced_def add_placeholder_def placeholder_frame ident_def inj_on_def named_def has_id_def is_element_def getAttribute_def)
  then show ?thesis unfolding e by (simp add: add_placeholder_def placeholder_frame)
qed

section \<open>Two requests that overlap\<close>

datatype order_kind = Saving | Deleting

fun order :: "order_kind \<Rightarrow> nat \<Rightarrow> page \<Rightarrow> page" where
  "order Saving p s = save_pane p s"
| "order Deleting p s = delete_pane p s"

fun order_request :: "order_kind \<Rightarrow> nat \<Rightarrow> page \<Rightarrow> pane_request" where
  "order_request Saving p s = PaneSave (ident s p) (put_data (form s p))"
| "order_request Deleting p s = PaneDelete (ident s p)"

lemma drop_nth_split: "n < length xs \<Longrightarrow> \<exists>us vs. xs = us @ xs ! n # vs \<and> drop_nth n xs = us @ vs"
  unfolding drop_nth_def by (metis id_take_nth_drop)

text \<open>Answers go to the pane of the global variable, whose it was to ask last.\<close>

definition untouched :: "nat \<Rightarrow> nat \<Rightarrow> page \<Rightarrow> page \<Rightarrow> bool" where
  "untouched p q s s' =
     (this_pane s' = Some q \<and> config_item s' p = config_item s p \<and> form s' p = form s p \<and>
      (p \<in> set (kids (acc s')) \<longleftrightarrow> p \<in> set (kids (acc s))) \<and> all_panes (acc s') = all_panes (acc s))"

lemma untouched_trans: "untouched p q s s' \<Longrightarrow> untouched p q s' s'' \<Longrightarrow> untouched p q s s''"
  by (simp add: untouched_def)

lemma untouched_items: "p \<noteq> q \<Longrightarrow> this_pane s = Some q \<Longrightarrow> untouched p q s (fold onItem ns s)"
proof (induction ns arbitrary: s)
  case (Cons n ns)
  have "untouched p q s (onItem n s)" using Cons.prems by (simp add: untouched_def onItem_def fill_pane_def)
  moreover from this have "untouched p q (onItem n s) (fold onItem ns (onItem n s))"
    using Cons by (simp add: untouched_def)
  ultimately show ?case using untouched_trans by simp
qed (simp add: untouched_def)

lemma untouched_receive: "p \<noteq> q \<Longrightarrow> this_pane s = Some q \<Longrightarrow> untouched p q s (receive r s)"
proof (cases r)
  case (Fetched i ns)
  then show "p \<noteq> q \<Longrightarrow> this_pane s = Some q \<Longrightarrow> ?thesis" using untouched_items by simp
qed (simp_all add: untouched_def send_def)

lemma untouched_happen: "p \<noteq> q \<Longrightarrow> this_pane s = Some q \<Longrightarrow> untouched p q s (happen ok e s)"
proof (cases e)
  case (Receive n)
  assume a: "p \<noteq> q" "this_pane s = Some q"
  then have "untouched p q (s\<lparr>replies := drop_nth n (replies s)\<rparr>) (receive (replies s ! n) (s\<lparr>replies := drop_nth n (replies s)\<rparr>))"
    by (intro untouched_receive) simp_all
  then show ?thesis using a by (simp add: Receive untouched_def)
qed (auto simp: untouched_def unmark_def split: prod.splits)

lemma untouched_happenings: "p \<noteq> q \<Longrightarrow> this_pane s = Some q \<Longrightarrow> untouched p q s (happenings ok es s)"
proof (induction es arbitrary: s)
  case (Cons e es)
  have "untouched p q s (happen ok e s)" using Cons.prems by (rule untouched_happen)
  moreover from this have "untouched p q (happen ok e s) (happenings ok es (happen ok e s))"
    using Cons by (simp add: untouched_def)
  ultimately show ?case using untouched_trans by (simp add: happenings_def)
qed (simp add: untouched_def happenings_def)

text \<open>
  The server's side. What is true of its list as long as only these two orders and fetches come,
  and what handling the first establishes.
\<close>

definition waits_or_done :: "pane_request \<Rightarrow> pane_request \<Rightarrow> (node list \<Rightarrow> bool) \<Rightarrow> page \<Rightarrow> bool" where
  "waits_or_done a b R s =
     ((\<forall>r\<in>set (waiting s). r = a \<or> r = b \<or> (\<exists>i. r = PaneFetch i)) \<and> (a \<in> set (waiting s) \<or> R (configs s)))"

lemma waiting_receive: "\<exists>is. waiting (receive r s) = waiting s @ map PaneFetch is \<and> configs (receive r s) = configs s"
proof (cases r)
  case (Fetched i ns)
  have "waiting (fold onItem ms s) = waiting s \<and> configs (fold onItem ms s) = configs s" for ms
    by (induction ms arbitrary: s) (simp_all add: onItem_def fill_pane_def split: option.splits)
  then show ?thesis using Fetched by (intro exI [of _ "[]"]) simp
next
  case PutDone
  then show ?thesis
    by (cases "this_pane s") (auto simp: send_def intro: exI [of _ "[]"] exI [of _ "[ident s (the (this_pane s))]"])
qed (auto split: option.splits intro: exI [of _ "[]"])

lemma waits_happen:
  assumes K: "\<And>r ns. K ns \<Longrightarrow> r = a \<or> r = b \<or> (\<exists>i. r = PaneFetch i) \<Longrightarrow> K (fst (serve ok r ns))"
    and R: "\<And>r ns. K ns \<Longrightarrow> r = a \<or> R ns \<and> (r = b \<or> (\<exists>i. r = PaneFetch i)) \<Longrightarrow> R (fst (serve ok r ns))"
    and s: "K (configs s)" "waits_or_done a b R s"
  shows "K (configs (happen ok e s)) \<and> waits_or_done a b R (happen ok e s)"
proof (cases e)
  case (Serve n)
  show ?thesis
  proof (cases "n < length (waiting s)")
    case True
    obtain us vs where w: "waiting s = us @ waiting s ! n # vs" "drop_nth n (waiting s) = us @ vs"
      using drop_nth_split [OF True] by blast
    let ?r = "waiting s ! n"
    have r: "?r = a \<or> ?r = b \<or> (\<exists>i. ?r = PaneFetch i)" using s(2) True by (simp add: waits_or_done_def)
    have "a \<in> set (us @ vs) \<or> ?r = a \<or> R (configs s)" using s(2) w(1) unfolding waits_or_done_def by (metis in_set_conv_decomp Un_iff set_append set_ConsD)
    then have "a \<in> set (us @ vs) \<or> R (fst (serve ok ?r (configs s)))" using R [OF s(1)] r by blast
    moreover have "set (us @ vs) \<subseteq> set (waiting s)" using w(1) by (metis set_append set_subset_Cons Un_mono order_refl)
    ultimately show ?thesis
      using K [OF s(1) r] True s(2) w(2) by (auto simp: Serve waits_or_done_def split: prod.splits)
  qed (use Serve s in simp)
next
  case (Receive n)
  show ?thesis
  proof (cases "n < length (replies s)")
    case True
    then obtain "is" where w: "waiting (happen ok e s) = waiting s @ map PaneFetch is" "configs (happen ok e s) = configs s"
      using waiting_receive [of "replies s ! n" "s\<lparr>replies := drop_nth n (replies s)\<rparr>"] by (auto simp: Receive)
    have "r \<in> set (waiting s) \<or> (\<exists>i. r = PaneFetch i)" if "r \<in> set (waiting (happen ok e s))" for r using that w(1) by auto
    moreover have "a \<in> set (waiting s) \<Longrightarrow> a \<in> set (waiting (happen ok e s))" using w(1) by simp
    ultimately show ?thesis using s w(2) unfolding waits_or_done_def by metis
  qed (use Receive s in simp)
next
  case (Quiet n)
  then show ?thesis using s by (simp add: waits_or_done_def unmark_def)
qed

lemma waits_happenings:
  assumes K: "\<And>r ns. K ns \<Longrightarrow> r = a \<or> r = b \<or> (\<exists>i. r = PaneFetch i) \<Longrightarrow> K (fst (serve ok r ns))"
    and R: "\<And>r ns. K ns \<Longrightarrow> r = a \<or> R ns \<and> (r = b \<or> (\<exists>i. r = PaneFetch i)) \<Longrightarrow> R (fst (serve ok r ns))"
    and s: "K (configs s)" "waits_or_done a b R s"
  shows "waits_or_done a b R (happenings ok es s)"
  using s
proof (induction es arbitrary: s)
  case (Cons e es)
  then show ?case using waits_happen [of K a b ok R s e, OF K R Cons.prems] by (simp add: happenings_def)
qed (simp add: happenings_def)

lemma serve_cases:
  assumes "ids_once ns"
  obtains "fst (serve ok r ns) = ns"
  | i b c where "r = PaneSave i b" "fst (serve ok r ns) = map (\<lambda>m. if has_id i m then set_config c m else m) ns"
  | i where "r = PaneDelete i" "fst (serve ok r ns) = filter (\<lambda>m. \<not> has_id i m) ns"
proof (cases r)
  case (PaneSave i b)
  show ?thesis
  proof (cases "\<exists>n\<in>set ns. has_id i n")
    case True
    then obtain n where n: "n \<in> set ns" "has_id i n" by blast
    from serve_save_cases [OF assms n, of ok b] show ?thesis
    proof (elim disjE exE)
      assume "serve ok (PaneSave i b) ns = (ns, Failed)"
      then have "fst (serve ok r ns) = ns" unfolding PaneSave by (simp only: fst_conv)
      then show ?thesis by (rule that(1))
    next
      fix c assume "serve ok (PaneSave i b) ns = (map (\<lambda>m. if has_id i m then set_config c m else m) ns, PutDone)"
      then have "fst (serve ok r ns) = map (\<lambda>m. if has_id i m then set_config c m else m) ns" unfolding PaneSave by (simp only: fst_conv)
      with PaneSave show ?thesis by (rule that(2))
    qed
  next
    case False
    then have "update_first (has_id i) f ns = None" for f by (induction ns) auto
    then have "fst (serve ok r ns) = ns" by (auto simp: PaneSave setPluginConfig_def split: option.splits)
    then show ?thesis by (rule that(1))
  qed
next
  case (PaneDelete i)
  then show ?thesis using that(1,3) by (cases "find (has_id i) ns = None") (auto simp: removePluginConfig_def remove_once [OF assms])
qed (use that(1) in auto)

lemma serve_once: "ids_once ns \<Longrightarrow> ids_once (fst (serve ok r ns))"
  by (rule serve_cases [of ns ok r]) (auto simp: ids_once_filter ids_once_map)

lemma serve_no_new: "ids_once ns \<Longrightarrow> \<forall>n\<in>set ns. \<not> has_id i n \<Longrightarrow> \<forall>n\<in>set (fst (serve ok r ns)). \<not> has_id i n"
  by (rule serve_cases [of ns ok r]) auto

fun request_of :: "pane_request \<Rightarrow> string option" where
  "request_of (PaneSave i b) = Some i" | "request_of (PaneDelete i) = Some i" | "request_of (PaneFetch i) = None"

lemma serve_other:
  "ids_once ns \<Longrightarrow> n \<in> set ns \<Longrightarrow> has_id i n \<Longrightarrow> request_of r \<noteq> Some i \<Longrightarrow> n \<in> set (fst (serve ok r ns))"
  by (rule serve_cases [of ns ok r]) (force simp: has_id_def)+

lemma order_fields [simp]:
  "waiting (order a p s) = waiting s @ [order_request a p s]" "this_pane (order a p s) = Some p" "configs (order a p s) = configs s"
  "replies (order a p s) = replies s" "config_item (order a p s) = config_item s" "form (order a p s) = form s"
  "kids (acc (order a p s)) = kids (acc s)" "all_panes (acc (order a p s)) = all_panes (acc s)" "ident (order a p s) = ident s"
  by (cases a; simp add: save_pane_def delete_pane_def send_def unmark_def ident_def fun_eq_iff)+

lemma order_request_id: "request_of (order_request a p s) = Some (ident s p)" "order_request b q (order a p s) = order_request b q s"
  by (cases a; simp) (cases b; simp)

lemma orders_wait:
  "waiting s = [] \<Longrightarrow> waits_or_done (order_request a p s) (order_request b q s) R (order b q (order a p s))"
  by (auto simp: waits_or_done_def order_request_id)

lemma not_about_first:
  "ident s q \<noteq> ident s p \<Longrightarrow> r = order_request b q s \<or> (\<exists>i. r = PaneFetch i) \<Longrightarrow> request_of r \<noteq> Some (ident s p)"
  using order_request_id(1) [of b q s] by auto

text \<open>After all requests have been handled the first order has had its effect on the server.\<close>

lemma first_is_deleted:
  assumes once: "ids_once (configs s)" and idle: "waiting s = []"
    and handled: "waiting (happenings ok es (order b q (order Deleting p s))) = []"
  shows "\<forall>n\<in>set (configs (happenings ok es (order b q (order Deleting p s)))). \<not> has_id (ident s p) n"
proof -
  let ?a = "order_request Deleting p s" and ?b = "order_request b q s" and ?s1 = "order b q (order Deleting p s)"
  let ?R = "\<lambda>ns. \<forall>n\<in>set ns. \<not> has_id (ident s p) n"
  have R: "?R (fst (serve ok r ns))" if k: "ids_once ns" and r: "r = ?a \<or> ?R ns \<and> (r = ?b \<or> (\<exists>i. r = PaneFetch i))" for r ns
    using r
  proof
    assume "r = ?a"
    then show ?thesis
      using k by (cases "find (has_id (ident s p)) ns = None") (auto simp: removePluginConfig_def remove_once find_None_iff)
  qed (use k serve_no_new in blast)
  have "waits_or_done ?a ?b ?R (happenings ok es ?s1)"
  proof (rule waits_happenings [where K = ids_once])
    show "ids_once (fst (serve ok r ns))" if "ids_once ns" for r ns using that by (rule serve_once)
    show "?R (fst (serve ok r ns))" if "ids_once ns" "r = ?a \<or> ?R ns \<and> (r = ?b \<or> (\<exists>i. r = PaneFetch i))" for r ns
      using that by (rule R)
    show "ids_once (configs ?s1)" unfolding order_fields by (rule once)
  qed (rule orders_wait [OF idle])
  then show ?thesis using handled by (simp add: waits_or_done_def)
qed

lemma first_is_saved:
  assumes once: "ids_once (configs s)" and old: "old \<in> set (configs s)" "has_id (ident s p) old" and q: "ident s q \<noteq> ident s p"
    and idle: "waiting s = []" and f: "map fst (form s p) = map fst database_form"
    and handled: "waiting (happenings ok es (order b q (order Saving p s))) = []" and accepted: "ok (ident s p) (map leaf (get_form (form s p)))"
  shows "set_config (map leaf (get_form (form s p))) old \<in> set (configs (happenings ok es (order b q (order Saving p s))))"
proof -
  let ?i = "ident s p" and ?c = "map leaf (get_form (form s p))"
  let ?a = "order_request Saving p s" and ?b = "order_request b q s" and ?s1 = "order b q (order Saving p s)"
  let ?new = "set_config ?c old"
  let ?K = "\<lambda>ns. ids_once ns \<and> (\<exists>n\<in>set ns. has_id ?i n \<and> set_config ?c n = ?new)"
  have again: "set_config ?c ?new = ?new"
    using named_leaves [OF form_names(2) [OF f]] by (rule set_config_again)
  have served: "?new \<in> set (fst (serve ok ?a ns))" if k: "?K ns" for ns
  proof -
    obtain n where n: "n \<in> set ns" "has_id ?i n" "set_config ?c n = ?new" "ids_once ns" using k by blast
    have "serve ok ?a ns = (map (\<lambda>m. if has_id ?i m then set_config ?c m else m) ns, PutDone)"
      using update_once [OF n(4,1,2)] accepted by (simp add: put_data_read [OF f] setPluginConfig_def)
    then have "set (fst (serve ok ?a ns)) = (\<lambda>m. if has_id ?i m then set_config ?c m else m) ` set ns" by (simp only: fst_conv set_map)
    moreover have "?new = (if has_id ?i n then set_config ?c n else n)" using n by simp
    ultimately show ?thesis using n(1) by (simp only: image_eqI)
  qed
  have K: "?K (fst (serve ok r ns))" if k: "?K ns" and r: "r = ?a \<or> r = ?b \<or> (\<exists>i. r = PaneFetch i)" for r ns
  proof (cases "r = ?a")
    case True
    moreover have "has_id ?i ?new" using old by simp
    ultimately show ?thesis using again served [OF k] serve_once k by blast
  next
    case False
    obtain n where n: "n \<in> set ns" "has_id ?i n" "set_config ?c n = ?new" "ids_once ns" using k by blast
    have "request_of r \<noteq> Some ?i" using r False not_about_first [OF q] by blast
    then have "n \<in> set (fst (serve ok r ns))" by (rule serve_other [OF n(4,1,2)])
    then show ?thesis using n(2,3) serve_once [OF n(4)] by blast
  qed
  have R: "?new \<in> set (fst (serve ok r ns))" if k: "?K ns" and r: "r = ?a \<or> ?new \<in> set ns \<and> (r = ?b \<or> (\<exists>i. r = PaneFetch i))" for r ns
    using r
  proof
    assume r: "?new \<in> set ns \<and> (r = ?b \<or> (\<exists>i. r = PaneFetch i))"
    have "has_id ?i ?new" using old by simp
    moreover have "request_of r \<noteq> Some ?i" using r not_about_first [OF q] by blast
    moreover have "ids_once ns" "?new \<in> set ns" using k r by simp_all
    ultimately show ?thesis using serve_other by simp
  qed (use served [OF k] in simp)
  have "waits_or_done ?a ?b (\<lambda>ns. ?new \<in> set ns) (happenings ok es ?s1)"
  proof (rule waits_happenings [where K = ?K])
    show "?K (configs ?s1)" unfolding order_fields using once old by blast
    show "?K (fst (serve ok r ns))" if "?K ns" "r = ?a \<or> r = ?b \<or> (\<exists>i. r = PaneFetch i)" for r ns
      using that by (rule K)
    show "?new \<in> set (fst (serve ok r ns))" if "?K ns" "r = ?a \<or> ?new \<in> set ns \<and> (r = ?b \<or> (\<exists>i. r = PaneFetch i))" for r ns
      using that by (rule R)
  qed (rule orders_wait [OF idle])
  then show ?thesis using handled by (simp add: waits_or_done_def)
qed

section \<open>Properties\<close>

text \<open>
  C27: as long as the user waits for the answers, every pane of the list holds the server's element
  of its identifier, through any edits, saves, cancellations and deletions and whatever saves the
  server rejects; the elements of the server are those of the panes, and exactly the panes that
  were deleted are gone.
\<close>

theorem panes_hold_the_servers_elements:
  assumes "page_synced s" "possible_acts as (kids (acc s))"
  shows "page_synced (fold (act ok) as s) \<and> kids (acc (fold (act ok) as s)) = fold left as (kids (acc s))"
  using assms
proof (induction as arbitrary: s)
  case (Cons a as)
  then have "page_synced (act ok a s)" "kids (acc (act ok a s)) = left a (kids (acc s))" using synced_after by simp_all
  then show ?case using Cons by simp
qed simp

text \<open>A page with two databases.\<close>

definition two_items :: "node list" where
  "two_items = map (\<lambda>i. Element ''Database'' [(''id'', [i])]
     (map leaf [(''Plugin'', ''SQLiteDatabase''), (''Name'', ''x''), (''Filename'', ''a.db'')])) ''12''"

definition two_panes :: page where
  "two_panes = \<lparr>acc = \<lparr>all_panes = [\<lparr>uuid = ''1'', initialized = True\<rparr>, \<lparr>uuid = ''2'', initialized = True\<rparr>], kids = [0, 1],
       shown = Some 0, selected_pane = Some 0, unsaved = [], pendingSelection = None, pendingRemoval = None, timers = [], clock = 0\<rparr>,
     config_item = (\<lambda>p. two_items ! p), form = (\<lambda>p. database_form), this_pane = None, quieting = [], configs = two_items,
     waiting = [], replies = []\<rparr>"

lemma two_panes_synced: "page_synced two_panes"
  by (simp add: page_synced_def two_panes_def two_items_def ident_def ids_once_def named_def has_id_def is_element_def getAttribute_def insert_commute)

lemma panes_hold_the_servers_elements_witness:
  "page_synced (fold (act (\<lambda>i c. True)) [EditPane 0 ''Name'' ''y'', SavePane 0, DeletePane 1] two_panes) \<and>
   kids (acc (fold (act (\<lambda>i c. True)) [EditPane 0 ''Name'' ''y'', SavePane 0, DeletePane 1] two_panes)) = [0]"
  using panes_hold_the_servers_elements [OF two_panes_synced, of "[EditPane 0 ''Name'' ''y'', SavePane 0, DeletePane 1]" "\<lambda>i c. True"]
  by (simp add: two_panes_def del: act.simps)



text \<open>
  C28: two saves or deletions that overlap. All answers go to the pane of the second, whatever the
  order in which the server handles the requests and the answers arrive. The pane of the first
  keeps its place in the list, its form and its old element: cancelling a later edit puts the
  values back that the save replaced on the server, and the pane of a deleted database stays.
\<close>

theorem overlapping_requests_miss_the_first_pane:
  assumes s: "page_synced s" and p: "p \<in> set (kids (acc s))" and q: "q \<in> set (kids (acc s))" "p \<noteq> q"
    and f: "map fst (form s p) = map fst database_form"
    and s': "s' = happenings ok es (order b q (order a p s))" "waiting s' = []"
  shows "config_item s' p = config_item s p \<and> form s' p = form s p \<and> p \<in> set (kids (acc s')) \<and>
    (a = Deleting \<longrightarrow> find (has_id (ident s p)) (configs s') = None) \<and>
    (a = Saving \<and> ok (ident s p) (map leaf (get_form (form s p))) \<longrightarrow>
       set_config (map leaf (get_form (form s p))) (config_item s p) \<in> set (configs s'))"
proof -
  note parts = synced_parts [OF s p]
  have idle: "waiting s = []" using s by (simp add: page_synced_def)
  have "ident s q \<noteq> ident s p" using s p q by (auto simp: page_synced_def dest: inj_onD)
  note saved = first_is_saved [OF parts(1-3) this idle f]
  have "untouched p q (order b q (order a p s)) s'"
    unfolding s' using q(2) by (intro untouched_happenings) simp_all
  then have "config_item s' p = config_item s p" "form s' p = form s p" "p \<in> set (kids (acc s'))"
    using p by (simp_all add: untouched_def)
  moreover have "find (has_id (ident s p)) (configs s') = None" if "a = Deleting"
    using first_is_deleted [OF parts(1) idle] s' that by (simp add: find_None_iff)
  moreover have "set_config (map leaf (get_form (form s p))) (config_item s p) \<in> set (configs s')"
    if "a = Saving" "ok (ident s p) (map leaf (get_form (form s p)))"
    using saved s' that by simp
  ultimately show ?thesis by blast
qed

text \<open>A deletion and a save: the pane that was saved leaves the list, the deleted one stays.\<close>

lemma overlapping_requests_miss_the_first_pane_witness:
  "\<exists>s'. s' = happenings (\<lambda>i c. True) [Serve 0, Serve 0, Receive 0] (order Saving 1 (order Deleting 0 two_panes)) \<and>
     kids (acc s') = [0] \<and> find (has_id ''1'') (configs s') = None"
proof -
  let ?s = "order Saving 1 (order Deleting 0 two_panes)"
  let ?s' = "happenings (\<lambda>i c. True) [Serve 0, Serve 0, Receive 0] ?s"
  have k: "0 \<in> set (kids (acc two_panes))" "1 \<in> set (kids (acc two_panes))" "(0::nat) \<noteq> 1"
    "map fst (form two_panes 0) = map fst database_form" "ident two_panes 0 = ''1''"
    by (simp_all add: two_panes_def ident_def)
  obtain b where w: "waiting ?s = [PaneDelete ''1'', PaneSave ''2'' b]" by (simp add: two_panes_def ident_def del: order.simps)
  obtain root where d: "serve (\<lambda>i c. True) (PaneDelete ''1'') two_items = (root, DeleteDone)"
    by (simp add: removePluginConfig_def two_items_def has_id_def named_def is_element_def getAttribute_def)
  obtain root' r where e: "serve (\<lambda>i c. True) (PaneSave ''2'' b) root = (root', r)" by fastforce
  have c: "configs ?s = two_items" "replies ?s = []" by (simp_all add: two_panes_def del: order.simps)
  have "?s' = (?s\<lparr>waiting := [], configs := root', replies := [r]\<rparr>)\<lparr>acc := delete2_load 1 (acc ?s)\<rparr>"
    using w d e c by (simp add: happenings_def del: serve.simps order.simps)
  then have "waiting ?s' = []" "kids (acc ?s') = [0]" by (simp_all add: two_panes_def del: order.simps)
  then show ?thesis
    using overlapping_requests_miss_the_first_pane [OF two_panes_synced k(1-4) refl, of "\<lambda>i c. True" _ Saving Deleting] k(5) by auto
qed

end
