(* ===== verification/Pion_Lookup.thy ===== *)
theory Pion_Lookup
  imports Pion_Transform Pion_Import
begin

text \<open>
  The dialog of a lookup (\<open>LookupConfigurationDialog\<close> in
  \<open>plugins/reactors/TransformReactor.js\<close> and its template): which of its boxes are enabled, what
  saving it puts into the transformation, what opening it does to a transformation that has no
  default action yet, and the exchange of pairs as XML text. The properties say what a saved
  dialog sends, and what goes wrong with boxes that are disabled, with a dialog that is cancelled,
  and with blanks.
\<close>

section \<open>The form\<close>

record lookup_form =
  lf_term :: string
  lf_match :: string
  lf_format :: string
  lf_action :: "string option"       \<comment> \<open>the radio button that is checked\<close>
  lf_default :: string
  format_off :: bool
  output_off :: bool
  default_off :: bool

definition default_actions :: "string list" where
  "default_actions = [''leave-undefined'', ''src-term'', ''output'', ''fixedvalue'']"

definition check_action :: "string \<Rightarrow> lookup_form \<Rightarrow> lookup_form" where
  "check_action a f = f\<lparr>lf_action := (if a \<in> set default_actions then Some a else None)\<rparr>"

definition regexChanged :: "string \<Rightarrow> lookup_form \<Rightarrow> lookup_form" where
  "regexChanged v f =
     (if v \<noteq> [] then f\<lparr>format_off := False, output_off := False\<rparr>
      else check_action ''leave-undefined'' (f\<lparr>format_off := True, lf_format := [], output_off := True\<rparr>))"

definition onDefaultActionChanged :: "string \<Rightarrow> lookup_form \<Rightarrow> lookup_form" where
  "onDefaultActionChanged v f =
     (if v = ''fixedvalue'' then f\<lparr>default_off := False\<rparr> else f\<lparr>default_off := True, lf_default := []\<rparr>)"

text \<open>What the user does: another regular expression, another format, a click on a radio button, another value.\<close>

datatype lookup_edit = SetTerm string | SetMatch string | SetFormat string | ClickAction string | SetDefault string

fun lookup_edit1 :: "lookup_edit \<Rightarrow> lookup_form \<Rightarrow> lookup_form" where
  "lookup_edit1 (SetTerm v) f = f\<lparr>lf_term := v\<rparr>"
| "lookup_edit1 (SetMatch v) f = (if v = lf_match f then f else regexChanged v (f\<lparr>lf_match := v\<rparr>))"
| "lookup_edit1 (SetFormat v) f = (if format_off f then f else f\<lparr>lf_format := v\<rparr>)"
| "lookup_edit1 (ClickAction v) f =
     (if v = ''output'' \<and> output_off f then f else onDefaultActionChanged v (check_action v f))"
| "lookup_edit1 (SetDefault v) f = (if default_off f then f else f\<lparr>lf_default := v\<rparr>)"

definition lookup_edits :: "lookup_edit list \<Rightarrow> lookup_form \<Rightarrow> lookup_form" where
  "lookup_edits es f = fold lookup_edit1 es f"

text \<open>The value of the form leaves out what is disabled.\<close>

definition dialog_fields :: "lookup_form \<Rightarrow> (string \<times> jsval) list" where
  "dialog_fields f =
     [(''LookupTerm'', JStr (lf_term f)), (''Match'', JStr (lf_match f))] @
     (if format_off f then [] else [(''Format'', JStr (lf_format f))]) @
     [(''DefaultAction'', case lf_action f of None \<Rightarrow> JNull | Some a \<Rightarrow> if a = ''output'' \<and> output_off f then JNull else JStr a)] @
     (if default_off f then [] else [(''DefaultValue'', JStr (lf_default f))])"

section \<open>Opening\<close>

text \<open>
  A transformation without a default action gets one, by an assignment to the item and not through
  the store: the attribute is the string itself where the store keeps an array, and its values are
  then the characters of the string.
\<close>

definition raw_text :: "string \<Rightarrow> cell list" where
  "raw_text s = map (\<lambda>c. Val (JStr [c])) s"

definition with_default_action :: "row \<Rightarrow> row" where
  "with_default_action r =
     (if row_has r ''DefaultAction'' then r else obj_put r ''DefaultAction'' (raw_text ''leave-undefined''))"

definition open_lookup_dialog :: "string \<Rightarrow> istore \<Rightarrow> istore" where
  "open_lookup_dialog i s =
     (case obj_get (is_rows s) i of
        None \<Rightarrow> s | Some r \<Rightarrow> s\<lparr>is_rows := obj_put (is_rows s) i (with_default_action r)\<rparr>)"

text \<open>The form takes an array's first value and a string as it is.\<close>

definition form_text :: "row \<Rightarrow> string \<Rightarrow> string" where
  "form_text r k = (if row_has r k then js_string (cell_of r k) else [])"

definition action_text :: "row \<Rightarrow> string" where
  "action_text r =
     (if row_values r ''DefaultAction'' = raw_text ''leave-undefined'' then ''leave-undefined'' else form_text r ''DefaultAction'')"

definition open_lookup_form :: "row \<Rightarrow> lookup_form" where
  "open_lookup_form r =
     (let f = check_action (action_text r)
            \<lparr>lf_term = form_text r ''LookupTerm'', lf_match = form_text r ''Match'', lf_format = form_text r ''Format'',
             lf_action = None, lf_default = form_text r ''DefaultValue'',
             format_off = True, output_off = True, default_off = (action_text r \<noteq> ''fixedvalue'')\<rparr>
      in if lf_match f = [] then f else regexChanged (lf_match f) f)"

section \<open>Pairs as XML text\<close>

definition export_xml_lines :: "row list \<Rightarrow> string list" where
  "export_xml_lines rs = map (\<lambda>r. lookup_xml (Obj [(''Key'', cell_of r ''Key''), (''Value'', cell_of r ''Value'')])) rs"

text \<open>\<open>None\<close> from \<open>getAttribute\<close> is null; a text that does not parse has no such elements.\<close>

definition imported_row :: "node \<Rightarrow> row" where
  "imported_row n =
     [(''Key'', [Val (case getAttribute n ''key'' of None \<Rightarrow> JNull | Some k \<Rightarrow> JStr k)]), (''Value'', [Val (JStr (textContent n))])]"

definition importXml :: "string \<Rightarrow> grid \<Rightarrow> grid option" where
  "importXml text_area g =
     (case read_xml (trim_after_gt (''<PionConfig>'' @ text_area @ ''</PionConfig>'')) of
        None \<Rightarrow> Some g
      | Some doc \<Rightarrow> grid_adds (map imported_row (getElementsByTagName doc ''Lookup'')) g)"

section \<open>What saving leaves in the transformation\<close>

definition put_fields :: "(string \<times> jsval) list \<Rightarrow> row \<Rightarrow> row" where
  "put_fields fs r = fold (\<lambda>(k, v) r. obj_put r k [Val v]) fs r"

definition put_values :: "row \<Rightarrow> string \<Rightarrow> cell list \<Rightarrow> row" where
  "put_values r a vs = (if vs = [] then obj_del r a else obj_put r a vs)"

lemma setValues_row:
  "\<not> is_saving s \<Longrightarrow> obj_get (is_rows s) i = Some r \<Longrightarrow> a \<noteq> ''ID'' \<Longrightarrow>
   \<exists>s'. setValues i a vs s = Some s' \<and> \<not> is_saving s' \<and> obj_get (is_rows s') i = Some (put_values r a vs)"
  by (simp add: setValues_def obj_get_put put_values_def)

lemma set_fields_row:
  "\<not> is_saving s \<Longrightarrow> obj_get (is_rows s) i = Some r \<Longrightarrow> \<forall>(k, v)\<in>set fs. k \<noteq> ''ID'' \<and> v \<noteq> JUndef \<Longrightarrow>
   \<exists>s'. set_fields i fs s = Some s' \<and> obj_get (is_rows s') i = Some (put_fields fs r)"
proof (induction fs arbitrary: s r)
  case (Cons f fs)
  obtain k v where f: "f = (k, v)" by (cases f)
  obtain s1 where "setValue i k (Val v) s = Some s1" "\<not> is_saving s1" "obj_get (is_rows s1) i = Some (obj_put r k [Val v])"
    using setValues_row [OF Cons.prems(1,2), of k "[Val v]"] Cons.prems(3) by (auto simp: f setValue_def put_values_def)
  moreover from Cons.IH [OF this(2,3)] obtain s' where
    "set_fields i fs s1 = Some s'" "obj_get (is_rows s') i = Some (put_fields fs (obj_put r k [Val v]))"
    using Cons.prems(3) by auto
  ultimately show ?case by (simp add: f put_fields_def)
qed (simp add: put_fields_def)

lemma execute_lookup_row:
  assumes "\<not> is_saving s" "obj_get (is_rows s) i = Some r"
  shows "\<exists>s'. execute_lookup i (dialog_fields f) g s = Some s' \<and>
     obj_get (is_rows s') i = Some (put_fields (dialog_fields f) (put_values r ''Lookup'' (lookup_objects g)))"
proof -
  obtain s1 where s1: "setValues i ''Lookup'' (lookup_objects g) s = Some s1" "\<not> is_saving s1"
    "obj_get (is_rows s1) i = Some (put_values r ''Lookup'' (lookup_objects g))"
    using setValues_row [OF assms, of "''Lookup''" "lookup_objects g"] by auto
  have "\<forall>(k, v)\<in>set (dialog_fields f). k \<noteq> ''ID'' \<and> v \<noteq> JUndef"
    by (simp add: dialog_fields_def split: option.splits)
  from set_fields_row [OF s1(2,3) this] show ?thesis by (simp add: execute_lookup_def s1(1))
qed

lemma obj_get_put_fields:
  "obj_get (put_fields fs r) k = (case map_of (rev fs) k of None \<Rightarrow> obj_get r k | Some v \<Rightarrow> Some [Val v])"
proof (induction fs arbitrary: r)
  case (Cons f fs)
  obtain k' v where f: "f = (k', v)" by (cases f)
  have "put_fields (f # fs) r = put_fields fs (obj_put r k' [Val v])" by (simp add: put_fields_def f)
  then show ?case using Cons [of "obj_put r k' [Val v]"] by (simp add: f obj_get_put map_add_def split: option.splits)
qed (simp add: put_fields_def)

lemma row_of_get:
  "row_values r k = (case obj_get r k of None \<Rightarrow> [] | Some vs \<Rightarrow> vs)" "row_has r k \<longleftrightarrow> obj_get r k \<noteq> None"
  by (simp_all add: row_values_def row_has_def obj_has_iff)

text \<open>What a request contains of an attribute is what the attribute is.\<close>

lemma leaf_of_get: "obj_get r k = obj_get r' k \<Longrightarrow> leaf_from_row r k = leaf_from_row r' k"
  by (simp add: leaf_from_row_def cell_of_def row_value_def row_of_get)

lemma cell_of_get: "obj_get r k = obj_get r' k \<Longrightarrow> cell_of r k = cell_of r' k"
  by (simp add: cell_of_def row_value_def row_of_get)

definition text_leaf :: "string \<Rightarrow> string \<Rightarrow> string" where
  "text_leaf k v = (if v = [] then [] else makeXmlLeafElement k (JStr v))"

lemma leaf_of_text: "obj_get r k = Some [Val (JStr v)] \<Longrightarrow> leaf_from_row r k = Some (text_leaf k v)"
  by (simp add: leaf_from_row_def cell_of_def row_value_def row_of_get need_def text_leaf_def)

lemma obj_get_put_values:
  "obj_get (put_values r a vs) k = (if k = a then (if vs = [] then None else Some vs) else obj_get r k)"
  by (simp add: put_values_def obj_get_put obj_get_del)

section \<open>The request of a saved dialog\<close>

lemma fields_of_dialog:
  "map_of (rev (dialog_fields f)) ''LookupTerm'' = Some (JStr (lf_term f))"
  "map_of (rev (dialog_fields f)) ''Match'' = Some (JStr (lf_match f))"
  "map_of (rev (dialog_fields f)) ''Format'' = (if format_off f then None else Some (JStr (lf_format f)))"
  "map_of (rev (dialog_fields f)) ''DefaultValue'' = (if default_off f then None else Some (JStr (lf_default f)))"
  "lf_action f = Some a \<Longrightarrow> a = ''output'' \<longrightarrow> \<not> output_off f \<Longrightarrow> map_of (rev (dialog_fields f)) ''DefaultAction'' = Some (JStr a)"
  "k \<notin> set [''LookupTerm'', ''Match'', ''Format'', ''DefaultAction'', ''DefaultValue''] \<Longrightarrow> map_of (rev (dialog_fields f)) k = None"
  by (auto simp: dialog_fields_def)

text \<open>The default action that is checked can be chosen: the one that needs the expression is enabled.\<close>

definition action_enabled :: "lookup_form \<Rightarrow> bool" where
  "action_enabled f = (\<exists>a\<in>set default_actions. lf_action f = Some a \<and> (a = ''output'' \<longrightarrow> \<not> output_off f))"

lemma saved_lookup_body:
  assumes a: "lf_action f = Some a" "a = ''output'' \<longrightarrow> \<not> output_off f" and ty: "cell_of r ''Type'' = JStr ''Lookup''"
    and old: "leaf_from_row r ''Format'' = Some fo" "leaf_from_row r ''DefaultValue'' = Some dv"
  shows "transformation_body (put_fields (dialog_fields f) (put_values r ''Lookup'' (lookup_objects g))) =
    Some (''<Type>Lookup</Type>'' @ text_leaf ''LookupTerm'' (lf_term f) @ text_leaf ''Match'' (lf_match f) @
      (if format_off f then fo else text_leaf ''Format'' (lf_format f)) @ text_leaf ''DefaultAction'' a @
      (if default_off f then dv else text_leaf ''DefaultValue'' (lf_default f)) @ concat (map lookup_xml (lookup_objects g)))"
proof -
  let ?r1 = "put_values r ''Lookup'' (lookup_objects g)" and ?r = "put_fields (dialog_fields f) (put_values r ''Lookup'' (lookup_objects g))"
  note get = obj_get_put_fields [of "dialog_fields f" ?r1] and fields = fields_of_dialog fields_of_dialog(5) [OF a]
  have l: "leaf_from_row ?r ''LookupTerm'' = Some (text_leaf ''LookupTerm'' (lf_term f))"
    "leaf_from_row ?r ''Match'' = Some (text_leaf ''Match'' (lf_match f))"
    "leaf_from_row ?r ''DefaultAction'' = Some (text_leaf ''DefaultAction'' a)"
    by (auto intro!: leaf_of_text simp: get fields)
  have "leaf_from_row ?r ''Format'' = Some (if format_off f then fo else text_leaf ''Format'' (lf_format f))"
    using old(1) leaf_of_get [of ?r "''Format''" r] leaf_of_text [of ?r "''Format''"] by (simp add: get fields obj_get_put_values)
  moreover have "leaf_from_row ?r ''DefaultValue'' = Some (if default_off f then dv else text_leaf ''DefaultValue'' (lf_default f))"
    using old(2) leaf_of_get [of ?r "''DefaultValue''" r] leaf_of_text [of ?r "''DefaultValue''"] by (simp add: get fields obj_get_put_values)
  moreover have "row_values ?r ''Lookup'' = lookup_objects g"
    by (simp add: row_of_get get fields obj_get_put_values)
  moreover have "cell_of ?r ''Type'' = JStr ''Lookup''"
    using ty cell_of_get [of ?r "''Type''" r] by (simp add: get fields obj_get_put_values)
  ultimately show ?thesis using l by (simp add: transformation_body_def)
qed

section \<open>Disabled boxes\<close>

text \<open>
  Through any edits of the dialog the format is disabled exactly when there is no expression, and
  so is the action that needs one; the checked action can always be chosen.
\<close>

definition boxes_clear :: "lookup_form \<Rightarrow> bool" where
  "boxes_clear f = (format_off f = (lf_match f = []) \<and> output_off f = (lf_match f = []))"

lemma boxes_clear_edit: "boxes_clear f \<Longrightarrow> boxes_clear (lookup_edit1 e f)"
  by (cases e) (simp_all add: boxes_clear_def regexChanged_def onDefaultActionChanged_def check_action_def)

lemma boxes_clear_edits: "boxes_clear f \<Longrightarrow> boxes_clear (lookup_edits es f)"
  unfolding lookup_edits_def by (induction es arbitrary: f) (simp_all add: boxes_clear_edit)

lemma boxes_clear_open: "boxes_clear (open_lookup_form r)"
  by (simp add: boxes_clear_def open_lookup_form_def regexChanged_def check_action_def Let_def)

lemma enabled_edit:
  "action_enabled f \<and> boxes_clear f \<Longrightarrow> \<forall>v. e = ClickAction v \<longrightarrow> v \<in> set default_actions \<Longrightarrow> action_enabled (lookup_edit1 e f)"
  by (cases e) (auto simp: action_enabled_def boxes_clear_def regexChanged_def onDefaultActionChanged_def check_action_def default_actions_def)

definition real_clicks :: "lookup_edit list \<Rightarrow> bool" where
  "real_clicks es = (\<forall>v. ClickAction v \<in> set es \<longrightarrow> v \<in> set default_actions)"

lemma enabled_edits: "action_enabled f \<Longrightarrow> boxes_clear f \<Longrightarrow> real_clicks es \<Longrightarrow> action_enabled (lookup_edits es f)"
  unfolding lookup_edits_def
proof (induction es arbitrary: f)
  case (Cons e es)
  then show ?case using enabled_edit [of f e] boxes_clear_edit [of f e] by (auto simp: real_clicks_def)
qed simp

section \<open>Importing what was exported\<close>

definition xml_line :: "string \<times> string \<Rightarrow> string" where
  "xml_line p = lookup_xml (pair_cell p)"

lemma export_xml_lines_pairs: "export_xml_lines (map lookup_row ps) = map xml_line ps"
  by (simp add: export_xml_lines_def xml_line_def lookup_row_def pair_cell_def)

lemma no_gt_escape: "CHR ''>'' \<notin> set (escape_chain s)"
  by (auto simp: escape_chain_concat esc_char_def ent_defs)

lemma trim_tag: "CHR ''>'' \<notin> set w \<Longrightarrow> trim_after_gt (w @ CHR ''>'' # s) = w @ CHR ''>'' # trim_after_gt (dropWhile is_space s)"
  by (induction w) auto

definition no_leading_space :: "string \<Rightarrow> bool" where
  "no_leading_space v = (v = [] \<or> \<not> is_space (hd v))"

lemma no_leading_space_escape:
  assumes "no_leading_space v"
  shows "dropWhile is_space (escape_chain v @ ''</'' @ s) = escape_chain v @ ''</'' @ s"
proof (cases v)
  case (Cons c w)
  then have "\<not> is_space c" using assms by (simp add: no_leading_space_def)
  then have "esc_char c \<noteq> [] \<and> \<not> is_space (hd (esc_char c))" by (auto simp: esc_char_def ent_defs is_space_def)
  then show ?thesis using Cons by (cases "esc_char c") (simp_all add: escape_chain_concat)
qed (simp add: is_space_def)

text \<open>A line survives the removal of white space if its value does not begin with any.\<close>

lemma trim_line:
  assumes "no_leading_space (snd p)"
  shows "trim_after_gt (xml_line p @ s) = xml_line p @ trim_after_gt (dropWhile is_space s)"
proof -
  let ?open = "''<Lookup key='' @ [CHR 0x22] @ escape_chain (fst p) @ [CHR 0x22]"
  have l: "xml_line p = ?open @ CHR ''>'' # escape_chain (snd p) @ ''</Lookup'' @ [CHR ''>'']"
    by (simp add: xml_line_def lookup_xml_def pair_cell_def prop_of_def escapeXml_string)
  have "trim_after_gt (xml_line p @ s) = trim_after_gt (?open @ CHR ''>'' # (escape_chain (snd p) @ ''</'' @ ''Lookup'' @ CHR ''>'' # s))"
    by (simp add: l)
  also have "\<dots> = ?open @ CHR ''>'' # trim_after_gt (escape_chain (snd p) @ ''</'' @ ''Lookup'' @ CHR ''>'' # s)"
    using no_gt_escape [of "fst p"] no_leading_space_escape [OF assms] by (subst trim_tag) auto
  also have "trim_after_gt (escape_chain (snd p) @ ''</'' @ ''Lookup'' @ CHR ''>'' # s) =
      (escape_chain (snd p) @ ''</Lookup'') @ CHR ''>'' # trim_after_gt (dropWhile is_space s)"
    using trim_tag [of "escape_chain (snd p) @ ''</Lookup''" s] no_gt_escape [of "snd p"] by simp
  finally show ?thesis by (simp add: l)
qed

lemma line_starts: "dropWhile is_space (xml_line p @ s) = xml_line p @ s" "dropWhile is_space (CHR 0x0A # s) = dropWhile is_space s"
  by (simp_all add: xml_line_def lookup_xml_def is_space_def)

lemma trim_lines:
  "\<forall>p\<in>set ps. no_leading_space (snd p) \<Longrightarrow>
   trim_after_gt (dropWhile is_space (join [CHR 0x0A] (map xml_line ps) @ ''</PionConfig>'')) = concat (map xml_line ps) @ ''</PionConfig>''"
proof (induction ps)
  case Nil
  have "trim_after_gt ''</PionConfig>'' = ''</PionConfig>''" using trim_tag [of "''</PionConfig''" "[]"] by simp
  then show ?case by (simp add: is_space_def)
next
  case (Cons p ps)
  have p: "no_leading_space (snd p)" using Cons.prems by simp
  show ?case
  proof (cases ps)
    case Nil
    then show ?thesis using Cons trim_line [OF p] by (simp add: line_starts)
  next
    case (Cons q qs)
    then have "join [CHR 0x0A] (map xml_line (p # ps)) @ ''</PionConfig>'' = xml_line p @ CHR 0x0A # join [CHR 0x0A] (map xml_line ps) @ ''</PionConfig>''"
      by simp
    moreover have "is_space (CHR 0x0A)" by (simp add: is_space_def)
    ultimately show ?thesis using Cons.IH Cons.prems trim_line [OF p] by (simp add: line_starts)
  qed
qed

lemma imported_pair: "imported_row (pair_element p) = lookup_row p"
  by (simp add: imported_row_def pair_element_def lookup_row_def getAttribute_def text_nodes_def)

lemma matching_pairs: "matching_nodes ''Lookup'' (pair_element p) = [pair_element p]"
  by (simp add: pair_element_def text_nodes_def)

section \<open>Properties\<close>

text \<open>
  C30: whatever the user does in the dialog of a lookup, saving it sends the term, the expression
  and the checked action as they are shown, and the pairs of the grid. The format is sent as it is
  shown if there is an expression; without one its box is empty and disabled, and the format that
  the transformation had before is sent all the same. So is an old default value when another
  action is checked.
\<close>

theorem saved_lookup_sends_the_dialog:
  assumes store: "\<not> is_saving s" "obj_get (is_rows s) i = Some r" and ty: "cell_of r ''Type'' = JStr ''Lookup''"
    and old: "leaf_from_row r ''Format'' = Some fo" "leaf_from_row r ''DefaultValue'' = Some dv"
    and edits: "f = lookup_edits es (open_lookup_form r)" "action_enabled (open_lookup_form r)" "real_clicks es"
  shows "\<exists>s' r' a. execute_lookup i (dialog_fields f) g s = Some s' \<and> obj_get (is_rows s') i = Some r' \<and> lf_action f = Some a \<and>
    transformation_body r' =
      Some (''<Type>Lookup</Type>'' @ text_leaf ''LookupTerm'' (lf_term f) @ text_leaf ''Match'' (lf_match f) @
        (if lf_match f = [] then fo else text_leaf ''Format'' (lf_format f)) @ text_leaf ''DefaultAction'' a @
        (if default_off f then dv else text_leaf ''DefaultValue'' (lf_default f)) @ concat (map lookup_xml (lookup_objects g)))"
proof -
  have "boxes_clear f" "action_enabled f"
    unfolding edits(1) using edits(2,3) boxes_clear_open by (auto intro: boxes_clear_edits enabled_edits)
  then obtain a where a: "lf_action f = Some a" "a = ''output'' \<longrightarrow> \<not> output_off f" and off: "format_off f = (lf_match f = [])"
    by (auto simp: action_enabled_def boxes_clear_def)
  show ?thesis
    using execute_lookup_row [OF store, of f g] saved_lookup_body [OF a ty old, of g] a(1) unfolding off by blast
qed

lemma saved_lookup_sends_the_dialog_witness:
  "let r = transformation_cells (Transformation ''t'' (Lookup ''a'' (Some ''x'') (Some ''y'') ''leave-undefined'' None []));
       f = lookup_edits [SetMatch []] (open_lookup_form r) in
   lf_format f = [] \<and>
   (\<exists>s' r'. execute_lookup ''0'' (dialog_fields f) empty_grid (loaded_store [(''0'', r)]) = Some s' \<and> obj_get (is_rows s') ''0'' = Some r' \<and>
      transformation_body r' = Some (''<Type>Lookup</Type><LookupTerm>a</LookupTerm><Format>y</Format><DefaultAction>leave-undefined</DefaultAction>''))"
proof -
  let ?r = "transformation_cells (Transformation ''t'' (Lookup ''a'' (Some ''x'') (Some ''y'') ''leave-undefined'' None []))"
  let ?f = "lookup_edits [SetMatch []] (open_lookup_form ?r)"
  let ?s = "loaded_store [(''0'', ?r)]"
  have leaf: "text_leaf k v = ''<'' @ k @ ''>'' @ v @ ''</'' @ k @ ''>''" if "v \<in> set [''a'', ''y'', ''leave-undefined'']" for k v
    using that by (auto simp: text_leaf_def makeXmlLeafElement_def escapeXml_string esc_char_def)
  have form: "open_lookup_form ?r = \<lparr>lf_term = ''a'', lf_match = ''x'', lf_format = ''y'', lf_action = Some ''leave-undefined'', lf_default = [],
      format_off = False, output_off = False, default_off = True\<rparr>"
    by (simp add: open_lookup_form_def form_text_def action_text_def raw_text_def check_action_def default_actions_def regexChanged_def text_cell_def opt_cell_def Let_def)
  have f: "?f = \<lparr>lf_term = ''a'', lf_match = [], lf_format = [], lf_action = Some ''leave-undefined'', lf_default = [],
      format_off = True, output_off = True, default_off = True\<rparr>"
    unfolding form by (simp add: lookup_edits_def regexChanged_def check_action_def default_actions_def)
  have store: "\<not> is_saving ?s" "obj_get (is_rows ?s) ''0'' = Some ?r" by (simp_all add: loaded_store_def empty_store_def)
  have ty: "cell_of ?r ''Type'' = JStr ''Lookup''" by simp
  have old: "leaf_from_row ?r ''Format'' = Some (text_leaf ''Format'' ''y'')" "leaf_from_row ?r ''DefaultValue'' = Some []"
    by (simp_all add: leaf_from_row_def text_cell_def opt_cell_def need_def text_leaf_def)
  have en: "action_enabled (open_lookup_form ?r)" "real_clicks [SetMatch []]"
    unfolding form by (simp_all add: action_enabled_def default_actions_def real_clicks_def)
  have g: "lookup_objects empty_grid = []" by (simp add: lookup_objects_def grid_rows_def empty_grid_def empty_store_def)
  show ?thesis
    using saved_lookup_sends_the_dialog [OF store ty old refl en, of empty_grid]
    unfolding f Let_def by (simp add: g leaf text_leaf_def [of _ "[]"])
qed

text \<open>
  Opening the dialog of a new lookup and cancelling it leaves a default action of one letter:
  the request then says \<open>l\<close>, the first letter of \<open>leave-undefined\<close>. The store does not know of the
  change, so reverting does not take it back.
\<close>

theorem cancelled_lookup_dialog_sends_l:
  assumes row: "obj_get (is_rows s) i = Some r" and ty: "cell_of r ''Type'' = JStr ''Lookup''"
    and new: "\<not> row_has r ''DefaultAction''" and sent: "transformation_body r = Some b"
  shows "\<exists>r' pre post. obj_get (is_rows (open_lookup_dialog i s)) i = Some r' \<and> b = pre @ post \<and>
    transformation_body r' = Some (pre @ ''<DefaultAction>l</DefaultAction>'' @ post) \<and>
    isDirty (open_lookup_dialog i s) = isDirty s"
proof -
  let ?r = "with_default_action r"
  have get: "obj_get ?r k = obj_get r k" if "k \<noteq> ''DefaultAction''" for k
    using that by (simp add: with_default_action_def obj_get_put)
  have same: "leaf_from_row ?r k = leaf_from_row r k" "cell_of ?r k = cell_of r k" "row_values ?r k = row_values r k"
    if "k \<noteq> ''DefaultAction''" for k
    using leaf_of_get [OF get [OF that]] cell_of_get [OF get [OF that]] get [OF that] by (simp_all add: row_values_def)
  have l: "leaf_from_row ?r ''DefaultAction'' = Some ''<DefaultAction>l</DefaultAction>''" "leaf_from_row r ''DefaultAction'' = Some []"
    using new by (simp_all add: with_default_action_def leaf_from_row_def raw_text_def cell_of_def row_value_put row_has_put need_def
        makeXmlLeafElement_def escapeXml_string esc_char_def)
  obtain lt m f dv where old: "leaf_from_row r ''LookupTerm'' = Some lt" "leaf_from_row r ''Match'' = Some m"
      "leaf_from_row r ''Format'' = Some f" "leaf_from_row r ''DefaultValue'' = Some dv"
      "b = ''<Type>Lookup</Type>'' @ lt @ m @ f @ dv @ concat (map lookup_xml (row_values r ''Lookup''))"
    using sent ty l(2) by (auto simp: transformation_body_def split: option.splits)
  have "transformation_body ?r = Some (''<Type>Lookup</Type>'' @ lt @ m @ f @ ''<DefaultAction>l</DefaultAction>'' @ dv @
      concat (map lookup_xml (row_values r ''Lookup'')))"
    using ty old l(1) by (simp add: transformation_body_def same)
  moreover have "obj_get (is_rows (open_lookup_dialog i s)) i = Some ?r" "isDirty (open_lookup_dialog i s) = isDirty s"
    by (simp_all add: open_lookup_dialog_def row obj_get_put isDirty_def)
  ultimately show ?thesis
    using old(5) by (intro exI [of _ ?r] exI [of _ "''<Type>Lookup</Type>'' @ lt @ m @ f"]
        exI [of _ "dv @ concat (map lookup_xml (row_values r ''Lookup''))"]) simp
qed

lemma cancelled_lookup_dialog_sends_l_witness:
  "let s = fst (the (onApplyCellEdit ''0'' ''Lookup'' ''AssignValue''
             (loaded_store [(''0'', [(''Type'', [Val (JStr ''Lookup'')]), (''InPlace'', [Val (JBool True)])])])))
   in \<exists>r'. obj_get (is_rows (open_lookup_dialog ''0'' s)) ''0'' = Some r' \<and>
     transformation_body r' = Some (''<Type>Lookup</Type><DefaultAction>l</DefaultAction>'')"
proof -
  let ?s = "fst (the (onApplyCellEdit ''0'' ''Lookup'' ''AssignValue''
             (loaded_store [(''0'', [(''Type'', [Val (JStr ''Lookup'')]), (''InPlace'', [Val (JBool True)])])])))"
  let ?r = "[(''Type'', [Val (JStr ''Lookup'')]), (''InPlace'', [Val (JBool True)]), (''Value'', [Val (JStr (edit_button ''Lookup''))])]"
  have s: "obj_get (is_rows ?s) ''0'' = Some ?r"
    by (simp add: onApplyCellEdit_def setValue_def setValues_def loaded_store_def empty_store_def)
  have r: "cell_of ?r ''Type'' = JStr ''Lookup''" "\<not> row_has ?r ''DefaultAction''" "transformation_body ?r = Some ''<Type>Lookup</Type>''"
    by (simp_all add: transformation_body_def leaf_from_row_def)
  obtain r' pre post where o: "obj_get (is_rows (open_lookup_dialog ''0'' ?s)) ''0'' = Some r'" "''<Type>Lookup</Type>'' = pre @ post"
    "transformation_body r' = Some (pre @ ''<DefaultAction>l</DefaultAction>'' @ post)"
    using cancelled_lookup_dialog_sends_l [OF s r] by blast
  have "transformation_body (with_default_action ?r) = Some (''<Type>Lookup</Type><DefaultAction>l</DefaultAction>'')"
    by (simp add: with_default_action_def raw_text_def transformation_body_def leaf_from_row_def need_def makeXmlLeafElement_def escapeXml_string esc_char_def)
  moreover have "r' = with_default_action ?r" using o(1) s by (simp add: open_lookup_dialog_def obj_get_put)
  ultimately show ?thesis using o(1) unfolding Let_def by blast
qed

text \<open>
  The lines that the XML export shows for the rows of a lookup grid, pasted into the XML
  import of another grid, append exactly those rows, for all keys and values without line breaks
  in which no value begins with white space.
\<close>

theorem xml_export_imports_back:
  assumes "grid_rows g = map lookup_row ps"
    and "\<forall>p\<in>set ps. dots (fst p) \<and> dots (snd p) \<and> no_leading_space (snd p)" and "grid_ok h"
  shows "\<exists>h'. importXml (join [CHR 0x0A] (export_xml_lines (grid_rows g))) h = Some h' \<and> grid_ok h' \<and>
     grid_rows h' = grid_rows h @ grid_rows g"
proof -
  let ?text = "join [CHR 0x0A] (map xml_line ps)"
  have n: "valid_name ''PionConfig''" by (simp add: element_names)
  have "trim_after_gt (''<PionConfig>'' @ ?text @ ''</PionConfig>'') = ''<PionConfig>'' @ concat (map xml_line ps) @ ''</PionConfig>''"
    using trim_lines [of ps] trim_tag [of "''<PionConfig''" "?text @ ''</PionConfig>''"] assms(2) by simp
  moreover have "reads (concat (map xml_line ps)) (map pair_element ps)"
    using reads_pairs [of ps] by (simp add: xml_line_def [abs_def] comp_def)
  ultimately have "read_xml (trim_after_gt (''<PionConfig>'' @ ?text @ ''</PionConfig>'')) = Some (Element ''PionConfig'' [] (map pair_element ps))"
    using reads_read_xml [OF reads_elem [OF n]] by simp
  moreover have "concat (map (matching_nodes ''Lookup'') (map pair_element ps)) = map pair_element ps"
    by (induction ps) (simp_all add: matching_pairs)
  ultimately have "importXml ?text h = grid_adds (map lookup_row ps) h"
    by (simp add: importXml_def getElementsByTagName_def comp_def imported_pair del: map_map)
      (simp add: comp_def imported_pair)
  then show ?thesis using grid_adds_ok [OF assms(3), of "map lookup_row ps"] by (auto simp: assms(1) export_xml_lines_pairs)
qed

lemma xml_export_imports_back_witness:
  "\<exists>h'. importXml (join [CHR 0x0A] (export_xml_lines (map lookup_row [([quot], ''<b> ''), (''k'', [])]))) empty_grid = Some h' \<and>
     grid_rows h' = map lookup_row [([quot], ''<b> ''), (''k'', [])]"
proof -
  let ?ps = "[([quot], ''<b> ''), (''k'', [])]"
  have e: "grid_rows empty_grid = []" by (simp add: empty_grid_def grid_rows_def empty_store_def)
  obtain g where g: "grid_rows g = map lookup_row ?ps"
    using grid_adds_ok [OF grid_ok_empty, of "map lookup_row ?ps"] e by fastforce
  have ok: "\<forall>p\<in>set ?ps. dots (fst p) \<and> dots (snd p) \<and> no_leading_space (snd p)"
    by (simp add: dots_def no_leading_space_def is_space_def)
  show ?thesis using xml_export_imports_back [OF g ok grid_ok_empty] unfolding g e append_Nil by blast
qed

end
