(* ===== verification/Pion_LogQueue.thy ===== *)
theory Pion_LogQueue
  imports Pion_Config "HOL-Library.Word" "HOL-Library.Multiset" "HOL-Library.Product_Lexorder" "HOL-Library.List_Lexorder" "HOL-Library.Char_ord"
begin

text \<open>
  The log of the server: the queue of events that \<open>XMLLogServiceAppender\<close> keeps
  (\<open>platform/services/XMLLogService.cpp\<close>), a map whose keys are strings made of the level and a
  counter of 32 bits. The theory relates the order of the keys to that of the numbers, and the queue
  to the events that are the most severe.
\<close>

section \<open>Numbers as strings\<close>

text \<open>\<open>setw(10)\<close> with \<open>setfill('0')\<close>.\<close>

definition pad10 :: "nat \<Rightarrow> string" where
  "pad10 n = replicate (10 - length (nat_digits n)) (CHR ''0'') @ nat_digits n"

definition decimal :: "string \<Rightarrow> bool" where
  "decimal s = (\<forall>c\<in>set s. is_digit 10 c)"

lemma digit_order_table:
  "list_all (\<lambda>c. list_all (\<lambda>d. (c < d) = (digit_val c < digit_val d)) ''0123456789'') ''0123456789''"
  by code_simp

lemma hex_table: "list_all (\<lambda>c. digit_val c < 10 \<longrightarrow> c \<in> set ''0123456789'') hex_chars"
  by code_simp

lemma digit_order:
  assumes "is_digit 10 c" "is_digit 10 d"
  shows "c < d \<longleftrightarrow> digit_val c < digit_val d"
proof -
  have "c \<in> set ''0123456789''" "d \<in> set ''0123456789''"
    using assms hex_table by (auto simp: is_digit_def list_all_iff)
  then show ?thesis using digit_order_table by (simp only: list_all_iff)
qed

lemma value_Cons: "digits_value 10 (c # s) = digit_val c * 10 ^ length s + digits_value 10 s"
proof -
  have "foldl (\<lambda>n c. 10 * n + digit_val c) a s = a * 10 ^ length s + foldl (\<lambda>n c. 10 * n + digit_val c) 0 s" for a
  proof (induction s arbitrary: a)
    case (Cons d s)
    show ?case using Cons [of "10 * a + digit_val d"] Cons [of "digit_val d"] by (simp add: algebra_simps)
  qed simp
  from this [of "digit_val c"] show ?thesis by (simp add: digits_value_def)
qed

lemma value_bound: "decimal s \<Longrightarrow> digits_value 10 s < 10 ^ length s"
proof (induction s)
  case (Cons c s)
  then have c: "digit_val c \<le> 9" and s: "digits_value 10 s < 10 ^ length s"
    by (simp_all add: decimal_def is_digit_def)
  from c have "digit_val c * 10 ^ length s \<le> 9 * 10 ^ length s" by (rule mult_le_mono1)
  with s show ?case unfolding value_Cons length_Cons power_Suc by linarith
qed (simp add: digits_value_def)

text \<open>Texts of digits that are equally long are ordered as the numbers that they say.\<close>

lemma decimal_order:
  "length s = length t \<Longrightarrow> decimal s \<Longrightarrow> decimal t \<Longrightarrow> s < t \<longleftrightarrow> digits_value 10 s < digits_value 10 t"
proof (induction s t rule: list_induct2)
  case (Cons c s d t)
  have IH: "s < t \<longleftrightarrow> digits_value 10 s < digits_value 10 t" using Cons by (simp add: decimal_def)
  have b: "digits_value 10 s < 10 ^ length t" "digits_value 10 t < 10 ^ length t"
    using value_bound [of s] value_bound [of t] Cons by (simp_all add: decimal_def)
  have cd: "c < d \<longleftrightarrow> digit_val c < digit_val d" "d < c \<longleftrightarrow> digit_val d < digit_val c"
    using Cons.prems digit_order by (simp_all add: decimal_def)
  have more: "x * 10 ^ length t + u < y * 10 ^ length t + v"
    if "x < y" "u < 10 ^ length t" for x y u v :: nat
  proof -
    have "Suc x * 10 ^ length t \<le> y * 10 ^ length t" using that(1) by (intro mult_le_mono1) simp
    then show ?thesis using that(2) by simp
  qed
  consider "c < d" | "c = d" | "d < c" by (metis linorder_neqE)
  then show ?case
  proof cases
    case 1
    then show ?thesis using cd more [OF _ b(1), of "digit_val c" "digit_val d" "digits_value 10 t"] Cons.hyps by (simp add: value_Cons)
  next
    case 2
    then show ?thesis using IH Cons.hyps by (simp add: value_Cons)
  next
    case 3
    then have "c \<noteq> d" by auto
    with 3 show ?thesis using cd more [OF _ b(2), of "digit_val d" "digit_val c" "digits_value 10 s"] Cons.hyps
      by (simp add: value_Cons)
  qed
qed simp

lemma decimal_nat_digits [simp]: "decimal (nat_digits n)"
  using nat_digits_chars [of n] by (simp add: decimal_def)

lemma length_nat_digits: "n < 10 ^ k \<Longrightarrow> 0 < k \<Longrightarrow> length (nat_digits n) \<le> k"
proof (induction k arbitrary: n)
  case (Suc k)
  show ?case
  proof (cases "n < 10")
    case False
    then have "n div 10 < 10 ^ k" "0 < k" using Suc.prems by (cases k; simp)+
    then show ?thesis using Suc.IH [of "n div 10"] False by (subst nat_digits.simps) simp
  qed (simp add: nat_digits.simps)
qed simp

lemma pad10_facts:
  assumes "n < 10 ^ 10"
  shows "length (pad10 n) = 10" "decimal (pad10 n)" "digits_value 10 (pad10 n) = n"
proof -
  have "length (nat_digits n) \<le> 10" using length_nat_digits [OF assms] by simp
  then show "length (pad10 n) = 10" by (simp add: pad10_def)
  have z: "is_digit 10 (CHR ''0'')" "digit_val (CHR ''0'') = 0" by code_simp+
  show "decimal (pad10 n)" using z decimal_nat_digits [of n] by (auto simp: pad10_def decimal_def)
  have "digits_value 10 (replicate k (CHR ''0'') @ s) = digits_value 10 s" for k s
    by (induction k) (simp_all add: value_Cons z(2))
  then show "digits_value 10 (pad10 n) = n" by (simp add: pad10_def digits_value_nat_digits)
qed

lemma pad10_order: "m < 10 ^ 10 \<Longrightarrow> n < 10 ^ 10 \<Longrightarrow> pad10 m < pad10 n \<longleftrightarrow> m < n"
  using pad10_facts decimal_order by simp

lemma append_order: "length s = length t \<Longrightarrow> s @ u < t @ v \<longleftrightarrow> s < t \<or> s = t \<and> u < v"
  for s t u v :: string
  by (induction s t rule: list_induct2) auto

section \<open>The queue of the server\<close>

text \<open>
  An event as the logging library gives it: the number of its level and its name, the second, the
  module and the message.
\<close>

record log_event =
  le_level :: nat
  le_name :: string
  le_second :: nat
  le_logger :: string
  le_message :: string

text \<open>The map from keys to the elements of an event is a list in the order of the keys.\<close>

type_synonym log_queue = "(string \<times> node list) list"

record appender =
  event_queue :: log_queue
  event_count :: "32 word"
  max_events :: nat
  truncation :: nat

definition DEFAULT_MAX_EVENTS :: nat where "DEFAULT_MAX_EVENTS = 100"
definition DEFAULT_TRUNCATION_LENGTH :: nat where "DEFAULT_TRUNCATION_LENGTH = 100"

definition event_key :: "nat \<Rightarrow> nat \<Rightarrow> string" where
  "event_key l n = nat_digits l @ ''.'' @ pad10 n"

fun put_key :: "string \<Rightarrow> 'v \<Rightarrow> (string \<times> 'v) list \<Rightarrow> (string \<times> 'v) list" where
  "put_key k v [] = [(k, v)]"
| "put_key k v ((k', v') # q) =
     (if k < k' then (k, v) # (k', v') # q else if k = k' then (k, v) # q else (k', v') # put_key k v q)"

definition event_elements :: "nat \<Rightarrow> log_event \<Rightarrow> node list" where
  "event_elements n e = map leaf
     [(''LogLevel'', le_name e), (''Timestamp'', nat_digits (le_second e)), (''LoggerName'', le_logger e),
      (''Message'', take n (le_message e))]"

definition append_event :: "log_event \<Rightarrow> appender \<Rightarrow> appender" where
  "append_event e a =
     (let n = event_count a + 1;
          q = put_key (event_key (le_level e) (unat n)) (event_elements (truncation a) e) (event_queue a)
      in a\<lparr>event_count := n, event_queue := (if max_events a < length q then tl q else q)\<rparr>)"

definition writeLogEvents :: "appender \<Rightarrow> node" where
  "writeLogEvents a = Element ''Events'' [] (map (\<lambda>(k, ns). Element ''Event'' [(''id'', k)] ns) (rev (event_queue a)))"

definition acknowledgeEvent :: "string \<Rightarrow> appender \<Rightarrow> appender" where
  "acknowledgeEvent i a = a\<lparr>event_queue := filter (\<lambda>p. fst p \<noteq> i) (event_queue a)\<rparr>"

definition acknowledgeAllEvents :: "appender \<Rightarrow> appender" where
  "acknowledgeAllEvents a = a\<lparr>event_queue := []\<rparr>"

definition new_appender :: "32 word \<Rightarrow> appender" where
  "new_appender n = \<lparr>event_queue = [], event_count = n, max_events = DEFAULT_MAX_EVENTS, truncation = DEFAULT_TRUNCATION_LENGTH\<rparr>"

section \<open>What the queue keeps\<close>

text \<open>The levels of the logging library, from TRACE to FATAL.\<close>

definition server_levels :: "nat list" where
  "server_levels = [0, 10000, 20000, 30000, 40000, 50000]"

definition FATAL :: nat where "FATAL = 50000"

text \<open>The specification: the events in the order of their level and then of their number, the last \<open>k\<close>.\<close>

definition rank :: "nat \<times> log_event \<Rightarrow> nat \<times> nat" where
  "rank p = (le_level (snd p), fst p)"

definition most_severe :: "nat \<Rightarrow> (nat \<times> log_event) list \<Rightarrow> (nat \<times> log_event) list" where
  "most_severe k xs = drop (length xs - k) (sort_key rank xs)"

definition entry :: "nat \<Rightarrow> nat \<times> log_event \<Rightarrow> string \<times> node list" where
  "entry n p = (event_key (le_level (snd p)) (fst p), event_elements n (snd p))"

lemma digits_of_levels:
  "nat_digits 0 = ''0''" "nat_digits 10000 = ''10000''" "nat_digits 20000 = ''20000''"
  "nat_digits 30000 = ''30000''" "nat_digits 40000 = ''40000''" "nat_digits 50000 = ''50000''"
  by (simp_all add: nat_digits.simps digit_char_def)

lemma key_order:
  assumes "l \<in> set server_levels" "k \<in> set server_levels" "m < 10 ^ 10" "n < 10 ^ 10"
  shows "event_key l m < event_key k n \<longleftrightarrow> (l, m) < (k, n)"
proof (cases "l = k")
  case True
  then show ?thesis by (simp add: event_key_def append_order pad10_order [OF assms(3,4)])
next
  case False
  then show ?thesis using assms(1,2)
    by (auto simp: server_levels_def event_key_def digits_of_levels)
qed

lemma put_key_insort:
  "\<forall>y\<in>set ys. (fst (g x) < fst (g y)) = (f x < f y) \<and> fst (g x) \<noteq> fst (g y) \<and> f x \<noteq> f y \<Longrightarrow>
   put_key (fst (g x)) (snd (g x)) (map g ys) = map g (insort_key f x ys)"
  for f :: "'a \<Rightarrow> 'b::linorder"
proof (induction ys)
  case (Cons y ys)
  then show ?case by (cases "g y") (auto simp: le_less)
qed simp

lemma drop_insort:
  assumes "sorted (map f xs)" "k \<le> length xs"
  shows "drop (Suc (length xs) - k) (insort_key f x xs) =
     (let q = insort_key f x (drop (length xs - k) xs) in if k < length q then tl q else q)"
proof -
  have main: "sorted (map f (zs @ ys)) \<Longrightarrow> drop (Suc (length zs)) (insort_key f x (zs @ ys)) = tl (insort_key f x ys)" for zs ys
  proof (induction zs)
    case (Cons z zs)
    have "f x \<le> f z \<Longrightarrow> tl (insort_key f x ys) = ys"
      using Cons.prems by (cases ys) auto
    then show ?case using Cons by simp
  qed (simp add: drop_Suc)
  have e: "Suc (length xs) - k = Suc (length (take (length xs - k) xs))" using assms(2) by simp
  show ?thesis using main [of "take (length xs - k) xs" "drop (length xs - k) xs"] assms
    by (simp add: e del: take_append drop_append)
qed

lemma most_severe_snoc:
  assumes "fst x \<notin> fst ` set xs"  "distinct (map fst xs)"
  shows "most_severe k (xs @ [x]) =
     (let q = insort_key rank x (most_severe k xs) in if k < length q then tl q else q)"
proof -
  have inj: "inj_on rank (set (xs @ [x]))"
  proof -
    have "inj_on fst (set (xs @ [x]))" using assms distinct_map [of fst "xs @ [x]"] by simp
    then show ?thesis by (simp add: inj_on_def rank_def)
  qed
  have s: "sort_key rank (xs @ [x]) = insort_key rank x (sort_key rank xs)"
    by (rule sort_key_inj_key_eq [OF _ inj]) (simp_all add: sorted_insort_key)
  show ?thesis
  proof (cases "k \<le> length xs")
    case True
    then show ?thesis using drop_insort [of rank "sort_key rank xs" k x]
      by (simp add: most_severe_def s)
  next
    case False
    then show ?thesis by (simp add: most_severe_def s)
  qed
qed

definition counted :: "nat \<Rightarrow> log_event list \<Rightarrow> (nat \<times> log_event) list" where
  "counted n es = enumerate (n + 1) es"

lemma counted_snoc: "counted n (es @ [e]) = counted n es @ [(n + length es + 1, e)]"
  by (simp add: counted_def enumerate_append_eq)

lemma set_most_severe: "set (most_severe k xs) \<subseteq> set xs"
  using set_drop_subset [of _ "sort_key rank xs"] by (simp add: most_severe_def)

lemma append_all_queue:
  assumes "event_queue a = []" "unat (event_count a) + length es < 2 ^ 32" "list_all (\<lambda>e. le_level e \<in> set server_levels) es"
  shows "fold append_event es a = a\<lparr>event_count := event_count a + of_nat (length es),
     event_queue := map (entry (truncation a)) (most_severe (max_events a) (counted (unat (event_count a)) es))\<rparr>"
  using assms(2,3)
proof (induction es rule: rev_induct)
  case Nil
  then show ?case using assms(1) by (simp add: most_severe_def counted_def)
next
  case (snoc e es)
  let ?n = "unat (event_count a) + length es + 1"
  let ?xs = "counted (unat (event_count a)) es"
  let ?ys = "most_severe (max_events a) ?xs"
  have small: "?n < 2 ^ 32" using snoc.prems by simp
  have w: "unat (event_count a + of_nat (length es) + 1) = ?n"
    using small by (simp add: unat_word_ariths unat_of_nat take_bit_eq_mod)
  have lt: "i < ?n \<and> le_level v \<in> set server_levels" if "(i, v) \<in> set ?xs" for i v
    using that snoc.prems by (auto simp: counted_def in_set_enumerate_eq list_all_iff)
  have fresh: "?n \<notin> fst ` set ?xs" using lt by fastforce
  have pk: "put_key (event_key (le_level e) ?n) (event_elements (truncation a) e) (map (entry (truncation a)) ?ys) =
      map (entry (truncation a)) (insort_key rank (?n, e) ?ys)"
  proof -
    have "(fst (entry t (?n, e)) < fst (entry t y)) = (rank (?n, e) < rank y) \<and>
        fst (entry t (?n, e)) \<noteq> fst (entry t y) \<and> rank (?n, e) \<noteq> rank y" if y: "y \<in> set ?ys" for y t
    proof -
      obtain i v where yv: "y = (i, v)" by (cases y)
      then have i: "i < ?n" "le_level v \<in> set server_levels" using lt y set_most_severe by blast+
      have b: "?n < 10 ^ 10" "i < 10 ^ 10" using small i by simp_all
      have l: "le_level e \<in> set server_levels" using snoc.prems by simp
      have o1: "event_key (le_level e) ?n < event_key (le_level v) i \<longleftrightarrow> (le_level e, ?n) < (le_level v, i)"
        by (rule key_order [OF l i(2) b])
      have o2: "event_key (le_level v) i < event_key (le_level e) ?n \<longleftrightarrow> (le_level v, i) < (le_level e, ?n)"
        by (rule key_order [OF i(2) l b(2,1)])
      have ne: "(le_level e, ?n) \<noteq> (le_level v, i)" using i(1) by simp
      then have "event_key (le_level e) ?n \<noteq> event_key (le_level v) i" 
      proof (cases "(le_level e, ?n) < (le_level v, i)")
        case False
        then have "(le_level v, i) < (le_level e, ?n)" using ne by (metis linorder_less_linear)
        then show ?thesis using o2 by auto
      qed (use o1 in auto)
      then show ?thesis using o1 ne by (simp only: yv entry_def rank_def fst_conv snd_conv simp_thms)
    qed
    then show ?thesis using put_key_insort [of ?ys "entry (truncation a)" "(?n, e)" rank]
      by (simp add: entry_def)
  qed
  have ms: "most_severe (max_events a) (counted (unat (event_count a)) (es @ [e])) =
      (let q = insort_key rank (?n, e) ?ys in if max_events a < length q then tl q else q)"
    unfolding counted_snoc using fresh by (intro most_severe_snoc) (simp_all add: counted_def)
  have IH: "fold append_event es a = a\<lparr>event_count := event_count a + of_nat (length es),
     event_queue := map (entry (truncation a)) ?ys\<rparr>" using snoc by simp
  have f: "fold append_event (es @ [e]) a =
      append_event e (a\<lparr>event_count := event_count a + of_nat (length es), event_queue := map (entry (truncation a)) ?ys\<rparr>)"
    by (simp add: IH)
  have c: "event_count a + of_nat (length (es @ [e])) = event_count a + of_nat (length es) + 1" by simp
  show ?case unfolding f ms c unfolding append_event_def
    by (simp add: w [simplified] w pk [simplified] Let_def map_tl)
qed

text \<open>
  C32: As long as the counter does not wrap, the queue of the server holds, of all the events logged
  since the service started, the hundred most severe ones, and of equally severe ones the latest,
  each under its key and cut to the limit, in the order of their severity and then of their number.
\<close>

theorem queue_keeps_the_most_severe:
  assumes "list_all (\<lambda>e. le_level e \<in> set server_levels) es" "unat n + length es < 2 ^ 32"
  shows "event_queue (fold append_event es (new_appender n)) =
     map (entry DEFAULT_TRUNCATION_LENGTH) (most_severe DEFAULT_MAX_EVENTS (counted (unat n) es))"
  using append_all_queue [of "new_appender n" es] assms by (simp add: new_appender_def)

definition demo_event :: "nat \<Rightarrow> string \<Rightarrow> nat \<Rightarrow> log_event" where
  "demo_event l s t = \<lparr>le_level = l, le_name = s, le_second = t, le_logger = ''pion'', le_message = ''stopped''\<rparr>"

definition demo_log :: "log_event list" where
  "demo_log = [demo_event 50000 ''FATAL'' 1300000007, demo_event 20000 ''INFO'' 1300000009, demo_event 40000 ''ERROR'' 1300000009]"

lemma demo_numbers: "pad10 1 = ''0000000001''" "pad10 2 = ''0000000002''" "pad10 3 = ''0000000003''"
  by code_simp+

theorem queue_keeps_the_most_severe_witness:
  "map fst (event_queue (fold append_event demo_log (new_appender 0))) =
     [''20000.0000000002'', ''40000.0000000003'', ''50000.0000000001'']"
proof -
  have l: "list_all (\<lambda>e. le_level e \<in> set server_levels) demo_log"
    by (simp add: demo_log_def demo_event_def server_levels_def)
  have n: "unat (0 :: 32 word) + length demo_log < 2 ^ 32" by (simp add: demo_log_def)
  have "most_severe DEFAULT_MAX_EVENTS (counted (unat (0 :: 32 word)) demo_log) =
      [(2, demo_event 20000 ''INFO'' 1300000009), (3, demo_event 40000 ''ERROR'' 1300000009), (1, demo_event 50000 ''FATAL'' 1300000007)]"
    by (simp add: most_severe_def DEFAULT_MAX_EVENTS_def counted_def demo_log_def demo_event_def rank_def)
  then show ?thesis
    unfolding queue_keeps_the_most_severe [OF l n]
    by (simp add: entry_def event_key_def demo_event_def demo_numbers [unfolded One_nat_def] digits_of_levels)
qed

section \<open>The counter\<close>

text \<open>
  The counter of the server has 32 bits. Once it has wrapped to 0, a queue that is full of fatal
  events stays as it is: the new fatal event has the least key and is dropped at once.
\<close>

theorem wrapped_count_drops_a_new_fatal_event:
  assumes "event_count a = - 1" "length (event_queue a) = max_events a" "le_level e = FATAL"
    and "list_all (\<lambda>p. event_key FATAL 0 < fst p) (event_queue a)"
  shows "event_queue (append_event e a) = event_queue a"
proof -
  have "put_key (event_key FATAL 0) v q = (event_key FATAL 0, v) # q"
    if "list_all (\<lambda>p. event_key FATAL 0 < fst p) q" for v :: "node list" and q
    using that by (cases q) (auto split: prod.split)
  then show ?thesis using assms by (simp add: append_event_def Let_def)
qed

theorem wrapped_count_drops_a_new_fatal_event_witness:
  "event_queue (append_event (demo_event 50000 ''FATAL'' 5)
      \<lparr>event_queue = [(''50000.4294967295'', [])], event_count = - 1, max_events = 1, truncation = 100\<rparr>) =
   [(''50000.4294967295'', [])]"
proof -
  have "pad10 0 = ''0000000000''" by code_simp
  then have k: "event_key FATAL 0 < ''50000.4294967295''"
    by (simp add: event_key_def FATAL_def digits_of_levels)
  show ?thesis
    using wrapped_count_drops_a_new_fatal_event
      [of "\<lparr>event_queue = [(''50000.4294967295'', [])], event_count = - 1, max_events = 1, truncation = 100\<rparr>" "demo_event 50000 ''FATAL'' 5"] k
    by (simp add: demo_event_def FATAL_def)
qed

end
