(* ===== verification/Pion_LogService.thy ===== *)
theory Pion_LogService
  imports Pion_LogQueue Pion_Monitor
begin

text \<open>
  The tab of the log (\<open>plugins/services/XMLLogService/XMLLogService.js\<close>): it polls the queue of
  \<open>Pion_LogQueue\<close> while another page is shown, counts errors, flashes, comes to the front for a
  fatal error and opens a dialog. The properties say what an answer does to the tab, that a new fatal
  error reaches the user, which events raise no alarm, and how dialogs are spaced.
\<close>

section \<open>The tab\<close>

datatype alert = Off | Flashing | Steady

text \<open>
  \<open>last_update_time\<close> is the number 0 (\<open>None\<close>) until a time is read into it. A refresh of the grid is
  counted when it is asked for; \<open>log_current\<close> says that \<open>pion.current_page\<close> is the tab.
\<close>

record log_tab =
  alert_status :: alert
  last_update_time :: "string option"
  last_dialog_time :: int
  dialog_open :: bool
  dialogs :: "(int \<times> string) list"
  button_label :: string
  button_disabled :: bool
  log_current :: bool
  refreshes :: nat
  log_rows :: "node list"
  alert_class :: bool
  flash_on :: bool
  flash_off :: bool

record tally =
  new_fatal :: bool
  new_error :: bool
  num_new :: nat
  num_all :: nat

text \<open>\<open>t > last_update_time\<close>: two strings by their characters, a string and 0 as numbers.\<close>

definition newer :: "string \<Rightarrow> string option \<Rightarrow> bool" where
  "newer t latest = (case latest of Some u \<Rightarrow> u < t | None \<Rightarrow> (case to_number t of JNum n \<Rightarrow> 0 < n | _ \<Rightarrow> False))"

text \<open>\<open>textContent(getElementsByTagName(t)[0])\<close>; \<open>None\<close> when there is none and it throws.\<close>

definition tag_text :: "node \<Rightarrow> string \<Rightarrow> string option" where
  "tag_text e t = (case getElementsByTagName e t of [] \<Rightarrow> None | n # _ \<Rightarrow> Some (textContent n))"

definition open_dialog :: "int \<Rightarrow> string \<Rightarrow> log_tab \<Rightarrow> log_tab" where
  "open_dialog now logger t =
     t\<lparr>dialogs := (now, ''A fatal error has been reported by '' @ logger @
          ''.  Pion may now be in an unstable or unusable state.'') # dialogs t, dialog_open := True\<rparr>"

definition count_event :: "bool \<Rightarrow> bool \<Rightarrow> tally \<Rightarrow> tally" where
  "count_event fatal new c =
     c\<lparr>num_all := num_all c + 1, num_new := (if new then num_new c + 1 else num_new c),
       new_fatal := (new_fatal c \<or> fatal \<and> new), new_error := (new_error c \<or> \<not> fatal \<and> new)\<rparr>"

text \<open>The loop over the events; \<open>None\<close> in the second place when it throws.\<close>

fun note_events :: "int \<Rightarrow> node list \<Rightarrow> log_tab \<Rightarrow> tally \<Rightarrow> log_tab \<times> tally option" where
  "note_events now [] t c = (t, Some c)"
| "note_events now (e # es) t c =
     (case tag_text e ''LogLevel'' of None \<Rightarrow> (t, None)
      | Some level \<Rightarrow>
        if level = ''FATAL'' then
          (case tag_text e ''Timestamp'' of None \<Rightarrow> (t, None)
           | Some time \<Rightarrow>
             let new = newer time (last_update_time t) in
             if new \<and> \<not> dialog_open t \<and> last_dialog_time t < now - 1000 * 60 then
               (let t' = t\<lparr>last_dialog_time := now\<rparr> in
                case tag_text e ''LoggerName'' of None \<Rightarrow> (t', None)
                | Some logger \<Rightarrow> note_events now es (open_dialog now logger t') (count_event True new c))
             else note_events now es t (count_event True new c))
        else if level = ''ERROR'' then
          (case tag_text e ''Timestamp'' of None \<Rightarrow> (t, None)
           | Some time \<Rightarrow> note_events now es t (count_event False (newer time (last_update_time t)) c))
        else note_events now es t c)"

text \<open>\<open>onSelect\<close>, and \<open>selectChild\<close> of the main stack with the check that \<open>pion.js\<close> adds.\<close>

definition onSelect :: "log_tab \<Rightarrow> log_tab" where
  "onSelect t = t\<lparr>refreshes := refreshes t + 1,
     alert_status := (if alert_status t = Flashing then Steady else alert_status t)\<rparr>"

definition select_tab :: "log_tab \<Rightarrow> log_tab" where
  "select_tab t = (if button_disabled t \<or> log_current t then t else onSelect (t\<lparr>log_current := True\<rparr>))"

definition errors_text :: "string \<Rightarrow> nat \<Rightarrow> string" where
  "errors_text s n = (if n = 1 then ''1 '' @ s else nat_digits n @ '' '' @ s @ ''s'')"

definition show_tally :: "tally \<Rightarrow> log_tab \<Rightarrow> log_tab" where
  "show_tally c t =
     (if new_fatal c then
        (select_tab (t\<lparr>alert_status := Steady\<rparr>))\<lparr>button_label := errors_text ''Error'' (num_all c)\<rparr>
      else if new_error c then
        t\<lparr>alert_status := Flashing,
          button_label := errors_text (if last_update_time t = None then ''Error'' else ''New Error'') (num_new c)\<rparr>
      else if 0 < num_all c then t\<lparr>alert_status := Steady, button_label := errors_text ''Error'' (num_all c)\<rparr>
      else t\<lparr>alert_status := Off, button_label := ''Log''\<rparr>)"

definition no_tally :: tally where
  "no_tally = \<lparr>new_fatal = False, new_error = False, num_new = 0, num_all = 0\<rparr>"

definition updateStatus :: "int \<Rightarrow> node \<Rightarrow> log_tab \<Rightarrow> log_tab \<times> bool" where
  "updateStatus now response t =
     (case note_events now (getElementsByTagName response ''Event'') t no_tally of
        (t', None) \<Rightarrow> (t', False) | (t', Some c) \<Rightarrow> (show_tally c t', True))"

text \<open>The answer to a fetch of the grid: \<open>_filterResponse\<close>, and the rows unless it throws.\<close>

definition take_times :: "node \<Rightarrow> log_tab \<Rightarrow> log_tab" where
  "take_times response t =
     fold (\<lambda>n t. if newer (textContent n) (last_update_time t) then t\<lparr>last_update_time := Some (textContent n)\<rparr> else t)
       (getElementsByTagName response ''Timestamp'') t"

definition filterResponse :: "int \<Rightarrow> node \<Rightarrow> log_tab \<Rightarrow> log_tab \<times> bool" where
  "filterResponse now response t = updateStatus now response (take_times response t)"

definition grid_answer :: "int \<Rightarrow> node \<Rightarrow> log_tab \<Rightarrow> log_tab" where
  "grid_answer now response t =
     (case filterResponse now response t of
        (t', ok) \<Rightarrow> if ok then t'\<lparr>log_rows := getElementsByTagName response ''Event''\<rparr> else t')"

text \<open>The timer of two seconds asks only while another page is current; the answer may come later.\<close>

definition poll_sent :: "log_tab \<Rightarrow> bool" where
  "poll_sent t = (\<not> log_current t)"

definition poll_answer :: "int \<Rightarrow> node \<Rightarrow> log_tab \<Rightarrow> log_tab" where
  "poll_answer now response t = fst (updateStatus now response t)"

definition hide_dialog :: "log_tab \<Rightarrow> log_tab" where
  "hide_dialog t = t\<lparr>dialog_open := False\<rparr>"

definition new_log_tab :: log_tab where
  "new_log_tab = \<lparr>alert_status = Off, last_update_time = None, last_dialog_time = 0, dialog_open = False,
     dialogs = [], button_label = ''Log'', button_disabled = False, log_current = False, refreshes = 0, log_rows = [],
     alert_class = False, flash_on = False, flash_off = False\<rparr>"

text \<open>The timer of one second.\<close>

definition flash_tick :: "log_tab \<Rightarrow> log_tab" where
  "flash_tick t =
     (case alert_status t of
        Flashing \<Rightarrow> t\<lparr>alert_class := True, flash_on := \<not> flash_on t,
                       flash_off := (if flash_on t then True else False)\<rparr>
      | Steady \<Rightarrow> t\<lparr>alert_class := True, flash_on := False, flash_off := False\<rparr>
      | Off \<Rightarrow> t\<lparr>alert_class := False, flash_on := False, flash_off := False\<rparr>)"

text \<open>What the help cell of a row searches for; the text of \<open>undefined\<close> when there is no second part.\<close>

definition help_topic :: "string \<Rightarrow> string" where
  "help_topic message =
     (let parts = split_char (CHR '':'') message in
      if hd parts = ''HTTP request handler'' then (case tl parts of [] \<Rightarrow> ''undefined'' | p # _ \<Rightarrow> p) else hd parts)"

section \<open>The requests\<close>

text \<open>
  \<open>operator()\<close>: the status of the answer, its document, and the queue after it. \<open>cast\<close> is
  \<open>lexical_cast\<close>; \<open>None\<close> stands for the exception that it throws.
\<close>

definition service_request ::
  "(string \<Rightarrow> nat option) \<Rightarrow> bool \<Rightarrow> string \<Rightarrow> string jsobj \<Rightarrow> appender \<Rightarrow> (nat \<times> node option \<times> appender) option" where
  "service_request cast allowed verb qp a =
     (if \<not> allowed then Some (403, None, a)
      else if verb = ''GET'' then
        (case obj_get qp ''truncate'' of
           None \<Rightarrow> Some (200, Some (writeLogEvents a), a)
         | Some v \<Rightarrow> (case cast v of None \<Rightarrow> None
             | Some n \<Rightarrow> Some (200, Some (writeLogEvents a), a\<lparr>truncation := n\<rparr>)))
      else if verb = ''DELETE'' then
        (if qp = [] then Some (400, None, a)
         else case obj_get qp ''ack'' of
           None \<Rightarrow> Some (400, None, a)
         | Some v \<Rightarrow> Some (204, None, if v = ''*'' then acknowledgeAllEvents a else acknowledgeEvent v a))
      else Some (405, None, a))"

text \<open>The remove cell and \<open>removeAll\<close>: the grid is fetched again once the server has deleted.\<close>

definition remove_events :: "string \<Rightarrow> log_tab \<times> appender \<Rightarrow> log_tab \<times> appender" where
  "remove_events which s =
     (case service_request (\<lambda>v. None) True ''DELETE'' [(''ack'', which)] (snd s) of
        Some (status, _, a) \<Rightarrow>
          (if status = 204 then (fst s)\<lparr>refreshes := refreshes (fst s) + 1\<rparr> else fst s, a)
      | None \<Rightarrow> s)"

lemma removed_event_is_gone:
  assumes "k \<noteq> ''*''"
  shows "remove_events k (t, a) =
     (t\<lparr>refreshes := refreshes t + 1\<rparr>, a\<lparr>event_queue := filter (\<lambda>p. fst p \<noteq> k) (event_queue a)\<rparr>)"
  using assms by (simp add: remove_events_def service_request_def acknowledgeEvent_def obj_get_def)

section \<open>What an answer does to the tab\<close>

abbreviation event_node :: "string \<times> node list \<Rightarrow> node" where
  "event_node p \<equiv> Element ''Event'' [(''id'', fst p)] (snd p)"

lemma text_of_text_nodes [simp]: "concat (map textContent (text_nodes s)) = s"
  by (simp add: text_nodes_def)

lemma no_tags_in_text [simp]: "concat (map (matching_nodes t) (text_nodes s)) = []"
  by (simp add: text_nodes_def)

lemma tags_of_elements:
  "concat (map (matching_nodes t) (event_elements n e)) =
     filter (\<lambda>x. nodeName x = t) (event_elements n e)"
  by (simp add: event_elements_def leaf_def)

lemma tag_text_event:
  "tag_text (event_node (entry n p)) ''LogLevel'' = Some (le_name (snd p))"
  "tag_text (event_node (entry n p)) ''Timestamp'' = Some (nat_digits (le_second (snd p)))"
  "tag_text (event_node (entry n p)) ''LoggerName'' = Some (le_logger (snd p))"
  by (simp_all add: tag_text_def getElementsByTagName_def tags_of_elements entry_def)
     (simp_all add: event_elements_def leaf_def)

lemma events_of_document:
  assumes "event_queue a = map (entry n) ps"
  shows "getElementsByTagName (writeLogEvents a) ''Event'' = map (\<lambda>p. event_node (entry n p)) (rev ps)"
proof -
  have "filter (\<lambda>x. nodeName x = ''Event'') (event_elements n e) = []" for e
    by (simp add: event_elements_def leaf_def)
  then have "matching_nodes ''Event'' (event_node (entry n p)) = [event_node (entry n p)]" for p
    by (simp add: tags_of_elements entry_def)
  then show ?thesis using assms
    by (simp add: getElementsByTagName_def writeLogEvents_def rev_map comp_def case_prod_beta concat_map_singleton
        del: matching_nodes.simps)
qed

text \<open>The specification of the loop: what is counted, and for which event a dialog opens.\<close>

definition alarming :: "log_event \<Rightarrow> bool" where
  "alarming e = (le_name e \<in> {''FATAL'', ''ERROR''})"

definition is_new :: "string option \<Rightarrow> log_event \<Rightarrow> bool" where
  "is_new u e = (alarming e \<and> newer (nat_digits (le_second e)) u)"

definition tally_of :: "string option \<Rightarrow> log_event list \<Rightarrow> tally" where
  "tally_of u es =
     \<lparr>new_fatal = list_ex (\<lambda>e. le_name e = ''FATAL'' \<and> is_new u e) es,
      new_error = list_ex (\<lambda>e. le_name e = ''ERROR'' \<and> is_new u e) es,
      num_new = length (filter (is_new u) es), num_all = length (filter alarming es)\<rparr>"

definition ring :: "int \<Rightarrow> log_event list \<Rightarrow> log_tab \<Rightarrow> log_tab" where
  "ring now es t =
     (case filter (\<lambda>e. le_name e = ''FATAL'' \<and> is_new (last_update_time t) e) es of [] \<Rightarrow> t
      | e # _ \<Rightarrow> if dialog_open t \<or> now - 60000 \<le> last_dialog_time t then t
          else open_dialog now (le_logger e) (t\<lparr>last_dialog_time := now\<rparr>))"

definition plus_tally :: "tally \<Rightarrow> tally \<Rightarrow> tally" where
  "plus_tally c d = \<lparr>new_fatal = (new_fatal c \<or> new_fatal d), new_error = (new_error c \<or> new_error d),
     num_new = num_new c + num_new d, num_all = num_all c + num_all d\<rparr>"

lemma ring_facts:
  "last_update_time (ring now es t) = last_update_time t" "alert_status (ring now es t) = alert_status t"
  "log_current (ring now es t) = log_current t" "button_disabled (ring now es t) = button_disabled t"
  "refreshes (ring now es t) = refreshes t"
  by (simp_all add: ring_def open_dialog_def split: list.split)

lemma note_events_spec:
  "note_events now (map (\<lambda>p. event_node (entry n p)) ps) t c =
     (ring now (map snd ps) t, Some (plus_tally c (tally_of (last_update_time t) (map snd ps))))"
proof (induction ps arbitrary: t c)
  case Nil
  show ?case by (simp add: ring_def plus_tally_def tally_of_def)
next
  case (Cons p ps)
  let ?u = "last_update_time t"
  consider (fatal) "le_name (snd p) = ''FATAL''" | (error) "le_name (snd p) = ''ERROR''"
    | (other) "\<not> alarming (snd p)" by (auto simp: alarming_def)
  then show ?case
  proof cases
    case fatal
    then have new: "is_new ?u (snd p) = newer (nat_digits (le_second (snd p))) ?u" by (simp add: is_new_def alarming_def)
    show ?thesis
      using fatal new
      by (simp add: tag_text_event Cons.IH Let_def del: concat_map_singleton)
         (simp add: ring_def open_dialog_def plus_tally_def tally_of_def count_event_def alarming_def not_less
           split: list.split)
  next
    case error
    then have new: "is_new ?u (snd p) = newer (nat_digits (le_second (snd p))) ?u" by (simp add: is_new_def alarming_def)
    show ?thesis using error new
      by (simp add: tag_text_event Cons.IH Let_def)
         (simp add: ring_def plus_tally_def tally_of_def count_event_def alarming_def)
  next
    case other
    then have "le_name (snd p) \<noteq> ''FATAL''" "le_name (snd p) \<noteq> ''ERROR''" "\<not> is_new ?u (snd p)"
      by (simp_all add: alarming_def is_new_def)
    with other show ?thesis
      by (simp add: tag_text_event Cons.IH) (simp add: ring_def plus_tally_def tally_of_def)
  qed
qed

lemma updateStatus_spec:
  assumes "event_queue a = map (entry n) ps"
  shows "updateStatus now (writeLogEvents a) t =
    (show_tally (tally_of (last_update_time t) (map snd (rev ps))) (ring now (map snd (rev ps)) t), True)"
proof -
  have "plus_tally no_tally c = c" for c by (simp add: plus_tally_def no_tally_def)
  then show ?thesis by (simp only: updateStatus_def events_of_document [OF assms] note_events_spec prod.case option.case)
qed

section \<open>From the log to the user\<close>

text \<open>The events that the server shows after it has logged \<open>es\<close>, the most severe first.\<close>

definition shown :: "32 word \<Rightarrow> log_event list \<Rightarrow> log_event list" where
  "shown n es = map snd (rev (most_severe DEFAULT_MAX_EVENTS (counted (unat n) es)))"

abbreviation server_log :: "32 word \<Rightarrow> log_event list \<Rightarrow> node" where
  "server_log n es \<equiv> writeLogEvents (fold append_event es (new_appender n))"

definition countable_log :: "32 word \<Rightarrow> log_event list \<Rightarrow> bool" where
  "countable_log n es = (unat n + length es < 2 ^ 32 \<and> list_all (\<lambda>e. le_level e \<in> set server_levels) es)"

lemma server_status:
  assumes "countable_log n es"
  shows "updateStatus now (server_log n es) t = (show_tally (tally_of (last_update_time t) (shown n es)) (ring now (shown n es) t), True)"
  using assms updateStatus_spec [OF append_all_queue [of "new_appender n" es, THEN arg_cong [where f = event_queue], simplified]]
  by (simp add: countable_log_def shown_def new_appender_def)

lemma shown_subset: "set (shown n es) \<subseteq> set es"
  using set_most_severe [of DEFAULT_MAX_EVENTS "counted (unat n) es"]
  by (force simp: shown_def counted_def in_set_enumerate_eq)

text \<open>An event is left out only for a hundred that rank above it.\<close>

lemma most_severe_keeps:
  assumes "x \<in> set xs" "length (filter (\<lambda>y. rank x \<le> rank y) xs) \<le> k"
  shows "x \<in> set (most_severe k xs)"
proof (rule ccontr)
  let ?s = "sort_key rank xs"
  assume "x \<notin> set (most_severe k xs)"
  then have k: "x \<in> set (take (length xs - k) ?s)"
    using assms(1) append_take_drop_id [of "length xs - k" ?s] by (metis Un_iff most_severe_def set_append set_sort)
  have "sorted (map rank (take (length xs - k) ?s @ drop (length xs - k) ?s))"
    unfolding append_take_drop_id by simp
  then have "\<forall>y\<in>set (drop (length xs - k) ?s). rank x \<le> rank y"
    using k unfolding map_append sorted_append by simp
  then have "filter (\<lambda>y. rank x \<le> rank y) (drop (length xs - k) ?s) = drop (length xs - k) ?s" by simp
  moreover have "filter (\<lambda>y. rank x \<le> rank y) (take (length xs - k) ?s) \<noteq> []"
    using k by (auto simp: filter_empty_conv)
  ultimately have "length (drop (length xs - k) ?s) < length (filter (\<lambda>y. rank x \<le> rank y) (take (length xs - k) ?s @ drop (length xs - k) ?s))"
    unfolding filter_append length_append by (metis length_greater_0_conv less_add_same_cancel2)
  also have "\<dots> = length (filter (\<lambda>y. rank x \<le> rank y) xs)"
    unfolding append_take_drop_id by (metis mset_filter mset_sort size_mset)
  finally show False using assms(2) k by (cases "k \<le> length xs") simp_all
qed

lemma server_levels_max: "l \<in> set server_levels \<Longrightarrow> l \<le> 50000"
  by (auto simp: server_levels_def)

lemma fatal_is_shown:
  assumes "list_all (\<lambda>e. le_level e \<in> set server_levels) es" "e \<in> set es" "le_level e = FATAL"
    "length (filter (\<lambda>e. le_level e = FATAL) es) \<le> DEFAULT_MAX_EVENTS"
  shows "e \<in> set (shown n es)"
proof -
  let ?xs = "counted (unat n) es"
  have m: "map snd ?xs = es" by (simp add: counted_def)
  obtain i where i: "(i, e) \<in> set ?xs" using assms(2) m by (metis (no_types) image_iff list.set_map prod.collapse)
  have le: "\<forall>y\<in>set ?xs. le_level (snd y) \<le> FATAL"
    using assms(1) m by (metis (no_types) FATAL_def image_eqI list.set_map list_all_iff server_levels_max)
  have "length (filter (\<lambda>y. rank (i, e) \<le> rank y) ?xs) \<le> length (filter (\<lambda>y. le_level (snd y) = FATAL) ?xs)"
  proof -
    have "filter (\<lambda>y. rank (i, e) \<le> rank y) ?xs = filter (\<lambda>y. rank (i, e) \<le> rank y) (filter (\<lambda>y. le_level (snd y) = FATAL) ?xs)"
      using le assms(3) by (auto simp: rank_def less_eq_prod_def intro!: filter_cong)
    then show ?thesis by (metis length_filter_le)
  qed
  also have "\<dots> = length (filter (\<lambda>e. le_level e = FATAL) (map snd ?xs))" by (simp add: filter_map comp_def)
  finally have "length (filter (\<lambda>y. rank (i, e) \<le> rank y) ?xs) \<le> DEFAULT_MAX_EVENTS" using assms(4) m by simp
  from most_severe_keeps [OF i this] show ?thesis unfolding shown_def by force
qed

lemma to_number_nat_digits: "to_number (nat_digits n) = JNum (int n)"
proof -
  obtain c cs where c: "nat_digits n = c # cs" by (cases "nat_digits n") auto
  have ok: "\<forall>d\<in>set (nat_digits n). \<not> is_space d \<and> is_digit 10 d \<and> d \<noteq> CHR ''-'' \<and> d \<noteq> CHR ''+''"
    using nat_digits_chars [of n] by auto
  have d: "\<forall>d\<in>set xs. \<not> is_space d \<Longrightarrow> dropWhile is_space xs = xs" for xs by (cases xs) auto
  have "trim (nat_digits n) = nat_digits n" using ok by (simp add: trim_def d)
  moreover have "CHR ''-'' \<noteq> c" "CHR ''+'' \<noteq> c" using ok c by auto
  ultimately show ?thesis
    using ok c parseInt_int_string [of "int n"] by (simp add: to_number_def int_string_def Let_def)
qed

lemma newer_nat_digits: "newer (nat_digits n) None \<longleftrightarrow> 0 < n"
  by (simp add: newer_def to_number_nat_digits)

lemma tally_of_simps:
  "new_fatal (tally_of u es) \<longleftrightarrow> (\<exists>e\<in>set es. le_name e = ''FATAL'' \<and> newer (nat_digits (le_second e)) u)"
  "new_error (tally_of u es) \<longleftrightarrow> (\<exists>e\<in>set es. le_name e = ''ERROR'' \<and> newer (nat_digits (le_second e)) u)"
  "0 < num_all (tally_of u es) \<longleftrightarrow> (\<exists>e\<in>set es. alarming e)"
  by (auto simp: tally_of_def is_new_def alarming_def list_ex_iff filter_empty_conv)

lemma select_tab_status [simp]: "alert_status (select_tab (t\<lparr>alert_status := Steady\<rparr>)) = Steady"
  by (simp add: select_tab_def onSelect_def)

text \<open>
  C33: An answer to the timer turns the alert off exactly when the server shows no error, makes the
  tab flash exactly when an error, but no fatal one, is newer than the last one that the grid has
  shown, and leaves it steady otherwise; no answer of the server makes the loop throw.
\<close>

theorem alert_follows_the_log:
  assumes "countable_log n es"
  shows "snd (updateStatus now (server_log n es) t) \<and>
    alert_status (poll_answer now (server_log n es) t) =
      (let new = (\<lambda>l. \<exists>e\<in>set (shown n es). le_name e = l \<and> newer (nat_digits (le_second e)) (last_update_time t)) in
       if new ''FATAL'' then Steady else if new ''ERROR'' then Flashing
       else if \<exists>e\<in>set (shown n es). alarming e then Steady else Off)"
  using tally_of_simps(3) [of "last_update_time t" "shown n es"]
  by (simp_all add: server_status [OF assms] poll_answer_def show_tally_def Let_def tally_of_simps(1,2))

lemma demo_countable: "countable_log 0 demo_log"
  by (simp add: countable_log_def demo_log_def demo_event_def server_levels_def)

lemma demo_shown:
  "shown 0 demo_log = [demo_event 50000 ''FATAL'' 1300000007, demo_event 40000 ''ERROR'' 1300000009, demo_event 20000 ''INFO'' 1300000009]"
  by (simp add: shown_def most_severe_def DEFAULT_MAX_EVENTS_def counted_def demo_log_def demo_event_def rank_def)

lemma demo_seconds: "nat_digits 1300000007 = ''1300000007''" "nat_digits 1300000008 = ''1300000008''" "nat_digits 1300000009 = ''1300000009''"
  by (simp_all add: nat_digits.simps digit_char_def)

theorem alert_follows_the_log_witness:
  "alert_status (poll_answer 1300000010000 (server_log 0 demo_log) (new_log_tab\<lparr>last_update_time := Some ''1300000008''\<rparr>)) = Flashing"
  using alert_follows_the_log [OF demo_countable, of 1300000010000 "new_log_tab\<lparr>last_update_time := Some ''1300000008''\<rparr>"]
  by (simp add: demo_shown demo_event_def demo_seconds newer_def Let_def)

lemma ring_alerts:
  assumes "e \<in> set es" "le_name e = ''FATAL''" "newer (nat_digits (le_second e)) (last_update_time t)"
  shows "dialog_open (ring now es t) \<or> now - 60000 \<le> last_dialog_time t"
proof -
  have "e \<in> set (filter (\<lambda>e. le_name e = ''FATAL'' \<and> is_new (last_update_time t) e) es)"
    using assms by (simp add: is_new_def alarming_def)
  then obtain f fs where "filter (\<lambda>e. le_name e = ''FATAL'' \<and> is_new (last_update_time t) e) es = f # fs"
    by (cases "filter (\<lambda>e. le_name e = ''FATAL'' \<and> is_new (last_update_time t) e) es") auto
  then show ?thesis by (auto simp: ring_def open_dialog_def)
qed

text \<open>
  C31: A fatal error that is logged while another page is shown, of a later second than the last one
  that the tab has shown, reaches the user with the next answer to the timer, unless more than a
  hundred fatal ones were logged: the tab is brought to the front and its grid is fetched anew, and
  a dialog is open, or was opened within the last minute.
\<close>

theorem fatal_error_comes_to_the_front:
  assumes "countable_log n es" "e \<in> set es" "le_level e = FATAL" "le_name e = ''FATAL''"
    and "length (filter (\<lambda>e. le_level e = FATAL) es) \<le> DEFAULT_MAX_EVENTS"
    and "newer (nat_digits (le_second e)) (last_update_time t)" "poll_sent t" "\<not> button_disabled t"
  shows "log_current (poll_answer now (server_log n es) t) \<and>
    refreshes (poll_answer now (server_log n es) t) = refreshes t + 1 \<and>
    alert_status (poll_answer now (server_log n es) t) = Steady \<and>
    (dialog_open (poll_answer now (server_log n es) t) \<or> now - 60000 \<le> last_dialog_time t)"
proof -
  have e: "e \<in> set (shown n es)" using fatal_is_shown [of es e n] assms by (simp add: countable_log_def)
  then have f: "new_fatal (tally_of (last_update_time t) (shown n es))" using assms tally_of_simps(1) by blast
  have p: "poll_answer now (server_log n es) t = show_tally (tally_of (last_update_time t) (shown n es)) (ring now (shown n es) t)"
    by (simp add: poll_answer_def server_status [OF assms(1)])
  show ?thesis
    using assms(7,8) f ring_alerts [OF e assms(4,6), of now]
    by (simp add: p show_tally_def select_tab_def onSelect_def poll_sent_def ring_facts)
qed

theorem fatal_error_comes_to_the_front_witness:
  "log_current (poll_answer 1300000010000 (server_log 0 demo_log) new_log_tab) \<and>
   dialog_open (poll_answer 1300000010000 (server_log 0 demo_log) new_log_tab)"
proof -
  have h: "demo_event 50000 ''FATAL'' 1300000007 \<in> set demo_log" "le_level (demo_event 50000 ''FATAL'' 1300000007) = FATAL"
    "le_name (demo_event 50000 ''FATAL'' 1300000007) = ''FATAL''"
    "length (filter (\<lambda>e. le_level e = FATAL) demo_log) \<le> DEFAULT_MAX_EVENTS" "poll_sent new_log_tab" "\<not> button_disabled new_log_tab"
    by (simp_all add: demo_log_def demo_event_def FATAL_def DEFAULT_MAX_EVENTS_def poll_sent_def new_log_tab_def)
  have nw: "newer (nat_digits (le_second (demo_event 50000 ''FATAL'' 1300000007))) (last_update_time new_log_tab)"
    by (simp add: newer_nat_digits demo_event_def new_log_tab_def)
  note front = fatal_error_comes_to_the_front [OF demo_countable h(1-4) nw h(5,6), of 1300000010000]
  show ?thesis using front by (simp add: new_log_tab_def)
qed

section \<open>Errors of the second shown last\<close>

lemma seconds_order:
  assumes "length (nat_digits m) = length (nat_digits n)"
  shows "nat_digits m < nat_digits n \<longleftrightarrow> m < n"
  using decimal_order [OF assms] by (simp add: digits_value_nat_digits)

text \<open>
  C34: An event of the second that the grid has shown last, or of an earlier one, raises no alarm:
  when all that the server shows is of such a second, be it logged after the grid was filled and be
  it fatal, no tab is selected, no dialog opens, nothing is fetched and nothing flashes.
\<close>

theorem events_of_the_second_shown_stay_quiet:
  assumes "countable_log n es" "last_update_time t = Some (nat_digits m)"
    and "\<forall>e\<in>set es. le_second e \<le> m \<and> length (nat_digits (le_second e)) = length (nat_digits m)"
  shows "\<exists>s l. poll_answer now (server_log n es) t = t\<lparr>alert_status := s, button_label := l\<rparr> \<and> s \<noteq> Flashing"
proof -
  have old: "\<not> newer (nat_digits (le_second e)) (Some (nat_digits m))" if "e \<in> set (shown n es)" for e
  proof -
    have e: "le_second e \<le> m" "length (nat_digits m) = length (nat_digits (le_second e))"
      using that assms(3) shown_subset by (fastforce)+
    show ?thesis using seconds_order [OF e(2)] e(1) by (simp add: newer_def)
  qed
  then have "\<not> new_fatal (tally_of (last_update_time t) (shown n es))" "\<not> new_error (tally_of (last_update_time t) (shown n es))"
    by (simp_all add: tally_of_simps assms(2))
  moreover have "ring now (shown n es) t = t"
  proof -
    have "filter (\<lambda>e. le_name e = ''FATAL'' \<and> is_new (last_update_time t) e) (shown n es) = []"
      using old assms(2) by (auto simp: filter_empty_conv is_new_def)
    then show ?thesis by (simp add: ring_def)
  qed
  moreover have "\<exists>s l. t\<lparr>alert_status := Steady, button_label := v\<rparr> = t\<lparr>alert_status := s, button_label := l\<rparr> \<and> s \<noteq> Flashing" for v
    by blast
  moreover have "\<exists>s l. t\<lparr>alert_status := Off, button_label := v\<rparr> = t\<lparr>alert_status := s, button_label := l\<rparr> \<and> s \<noteq> Flashing" for v
    by blast
  ultimately show ?thesis
    by (simp add: poll_answer_def server_status [OF assms(1)] show_tally_def)
qed

text \<open>A fatal error of the second in which the grid was filled with another event.\<close>

definition late_log :: "log_event list" where
  "late_log = [demo_event 40000 ''ERROR'' 1300000009, demo_event 50000 ''FATAL'' 1300000009]"

theorem events_of_the_second_shown_stay_quiet_witness:
  "log_current (poll_answer 1300000010000 (server_log 0 late_log) (new_log_tab\<lparr>last_update_time := Some ''1300000009''\<rparr>)) = False"
proof -
  have h: "countable_log 0 late_log" "last_update_time (new_log_tab\<lparr>last_update_time := Some ''1300000009''\<rparr>) = Some (nat_digits 1300000009)"
    "\<forall>e\<in>set late_log. le_second e \<le> 1300000009 \<and> length (nat_digits (le_second e)) = length (nat_digits 1300000009)"
    by (simp_all add: countable_log_def late_log_def demo_event_def server_levels_def demo_seconds)
  from events_of_the_second_shown_stay_quiet [OF h, of 1300000010000]
  show ?thesis by (auto simp: new_log_tab_def)
qed

section \<open>Dialogs\<close>

text \<open>What can happen to the tab; the answers are arbitrary documents, in any order.\<close>

datatype log_action =
  Poll_answer int node
| Grid_answer int node
| Select_tab
| Leave_tab
| Hide_dialog
| Flash_tick

fun log_act :: "log_action \<Rightarrow> log_tab \<Rightarrow> log_tab" where
  "log_act (Poll_answer now d) t = poll_answer now d t"
| "log_act (Grid_answer now d) t = grid_answer now d t"
| "log_act Select_tab t = select_tab t"
| "log_act Leave_tab t = t\<lparr>log_current := False\<rparr>"
| "log_act Hide_dialog t = hide_dialog t"
| "log_act Flash_tick t = flash_tick t"

fun minute_apart :: "int list \<Rightarrow> bool" where
  "minute_apart (b # a # ts) = (a + 60000 < b \<and> minute_apart (a # ts))"
| "minute_apart _ = True"

definition log_inv :: "log_tab \<Rightarrow> bool" where
  "log_inv t = (minute_apart (map fst (dialogs t)) \<and> (dialog_open t \<longrightarrow> dialogs t \<noteq> []) \<and>
     (\<forall>b\<in>set (map fst (dialogs t)). b \<le> last_dialog_time t) \<and> \<not> (flash_on t \<and> flash_off t))"

lemma log_inv_update [simp]:
  "log_inv (t\<lparr>alert_status := s\<rparr>) = log_inv t" "log_inv (t\<lparr>button_label := l\<rparr>) = log_inv t"
  "log_inv (t\<lparr>refreshes := r\<rparr>) = log_inv t" "log_inv (t\<lparr>log_current := b\<rparr>) = log_inv t"
  "log_inv (t\<lparr>last_update_time := u\<rparr>) = log_inv t" "log_inv (t\<lparr>log_rows := rows\<rparr>) = log_inv t"
  by (simp_all add: log_inv_def)

lemma log_inv_dialog:
  assumes "log_inv t" "last_dialog_time t < now - 60000"
  shows "log_inv (t\<lparr>last_dialog_time := now\<rparr>)" "log_inv (open_dialog now logger (t\<lparr>last_dialog_time := now\<rparr>))"
proof -
  have o: "\<forall>b\<in>set (map fst (dialogs t)). b + 60000 < now" using assms by (fastforce simp: log_inv_def)
  have b: "\<forall>b\<in>set (map fst (dialogs t)). b \<le> now" using o by (auto intro: less_imp_le dest: bspec)
  then show "log_inv (t\<lparr>last_dialog_time := now\<rparr>)" using assms(1) by (simp add: log_inv_def)
  have "minute_apart (now # map fst (dialogs t))" using assms(1) o by (cases "dialogs t") (auto simp: log_inv_def)
  then show "log_inv (open_dialog now logger (t\<lparr>last_dialog_time := now\<rparr>))"
    using assms(1) b by (simp add: log_inv_def open_dialog_def)
qed

lemma log_inv_note_events: "log_inv t \<Longrightarrow> log_inv (fst (note_events now es t c))"
  by (induction now es t c rule: note_events.induct)
    (auto simp: Let_def log_inv_dialog split: option.split)

lemma log_inv_show_tally: "log_inv t \<Longrightarrow> log_inv (show_tally c t)"
  by (simp add: show_tally_def select_tab_def onSelect_def)

lemma log_inv_updateStatus: "log_inv t \<Longrightarrow> log_inv (fst (updateStatus now d t))"
  using log_inv_note_events [of t now "getElementsByTagName d ''Event''" no_tally]
  by (auto simp: updateStatus_def log_inv_show_tally split: prod.split option.split)

lemma log_inv_take_times: "log_inv t \<Longrightarrow> log_inv (take_times d t)"
  unfolding take_times_def by (rule fold_invariant [where Q = "\<lambda>n. True"]) simp_all

text \<open>
  C35: Whatever the server answers, and in whatever order answers, clicks and timers come, no two
  dialogs about fatal errors open within a minute, and the button of the tab is never in both states
  of its flashing.
\<close>

theorem dialogs_are_a_minute_apart:
  "minute_apart (map fst (dialogs (fold log_act acts new_log_tab))) \<and>
   \<not> (flash_on (fold log_act acts new_log_tab) \<and> flash_off (fold log_act acts new_log_tab))"
proof -
  have step: "log_inv (log_act x t)" if "log_inv t" for x t
  proof (cases x)
    case (Grid_answer now d)
    have "log_inv (fst (updateStatus now d (take_times d t)))" using that by (intro log_inv_updateStatus log_inv_take_times)
    then show ?thesis
      by (cases "updateStatus now d (take_times d t)") (simp add: Grid_answer grid_answer_def filterResponse_def)
  next
    case Flash_tick
    then show ?thesis using that by (cases "alert_status t") (simp_all add: flash_tick_def log_inv_def)
  qed (use that log_inv_updateStatus in \<open>simp_all add: poll_answer_def select_tab_def onSelect_def hide_dialog_def\<close>,
       simp add: log_inv_def)
  have "log_inv (fold log_act acts new_log_tab)"
    by (rule fold_invariant [where Q = "\<lambda>x. True"]) (simp_all add: step, simp add: new_log_tab_def log_inv_def)
  then show ?thesis by (simp add: log_inv_def)
qed

end
