(* ===== verification/Pion_Select.thy ===== *)
theory Pion_Select
  imports Pion_Monitor
begin

text \<open>
  The select boxes of the dialogs (\<open>widgets/SimpleSelect.js\<close>). The options come from a store, later
  than the value that the form sets, so values wait for the options; changes are reported through a
  timer. The properties say that the last value set is the one selected, that listeners are told the
  last value reported, and what becomes of two fetches that overlap.
\<close>

section \<open>The box\<close>

text \<open>
  \<open>box_options\<close> are the values and labels of the native element and \<open>selected_index\<close> its index,
  \<open>None\<close> for -1. \<open>waiting_sets\<close> are the values for which a handler is connected to
  \<open>_onDoneAddingOptions\<close>; \<open>changes\<close> are the calls of \<open>onChange\<close>.
\<close>

record select_box =
  box_options :: "(string \<times> string) list"
  selected_index :: "nat option"
  doneAddingOptions :: bool
  pendingSetValue :: bool
  waiting_sets :: "jsval list"
  lastValueReported :: jsval
  resetValue :: jsval
  onChangeActive :: bool
  change_timer :: "jsval option"
  changes :: "jsval list"
  select_errors :: "string list"

definition box_value :: "select_box \<Rightarrow> string" where
  "box_value b = (case selected_index b of None \<Rightarrow> [] | Some i \<Rightarrow> fst (box_options b ! i))"

text \<open>Assigning to the value of the element selects the first option with it, or none.\<close>

fun index_with :: "string \<Rightarrow> (string \<times> string) list \<Rightarrow> nat option" where
  "index_with v [] = None"
| "index_with v (p # ps) = (if fst p = v then Some 0 else map_option Suc (index_with v ps))"

text \<open>An option added to an element without a selected one is selected.\<close>

definition add_option :: "string \<times> string \<Rightarrow> select_box \<Rightarrow> select_box" where
  "add_option p b =
     b\<lparr>box_options := box_options b @ [p],
       selected_index := (if selected_index b = None then Some 0 else selected_index b)\<rparr>"

text \<open>
  \<open>_handleOnChange\<close> with a priority. Two values of the same type are equal when neither is the
  greater, so what is compared here are the values themselves.
\<close>

definition handleOnChange :: "jsval \<Rightarrow> select_box \<Rightarrow> select_box" where
  "handleOnChange v b =
     (let b1 = (if lastValueReported b \<in> {JUndef, JNull} \<and> \<not> onChangeActive b
                then b\<lparr>resetValue := v, lastValueReported := v\<rparr> else b)
      in if v = lastValueReported b1 then b1
         else b1\<lparr>lastValueReported := v,
                change_timer := (if onChangeActive b1 then Some v else change_timer b1)\<rparr>)"

definition onChange_native :: "select_box \<Rightarrow> select_box" where
  "onChange_native b = handleOnChange (JStr (box_value b)) b"

definition put_value :: "jsval \<Rightarrow> select_box \<Rightarrow> select_box" where
  "put_value v b =
     (if v = JNull then handleOnChange v (b\<lparr>selected_index := None\<rparr>)
      else let b1 = b\<lparr>selected_index := index_with (js_string v) (box_options b)\<rparr>
           in if loose_ne (JStr (box_value b1)) v then
                b1\<lparr>select_errors := select_errors b1 @
                  [if list_ex (\<lambda>p. \<not> loose_ne (JStr (fst p)) v) (box_options b1)
                   then ''SimpleSelect error: value could not be set to '' @ [CHR 0x27] @ js_string v @ [CHR 0x27] @ ''.''
                   else ''SimpleSelect error: '' @ [CHR 0x27] @ js_string v @ [CHR 0x27] @ '' is not one of the current options.'']\<rparr>
              else handleOnChange v b1)"

definition setValueAttr :: "jsval \<Rightarrow> select_box \<Rightarrow> select_box" where
  "setValueAttr v b =
     (if doneAddingOptions b then put_value v b
      else b\<lparr>pendingSetValue := True, waiting_sets := waiting_sets b @ [v]\<rparr>)"

definition reset :: "select_box \<Rightarrow> select_box" where
  "reset b = setValueAttr (resetValue b) b"

definition makeOptionList :: "select_box \<Rightarrow> select_box" where
  "makeOptionList b = b\<lparr>doneAddingOptions := False, box_options := [], selected_index := None\<rparr>"

text \<open>The answer to a fetch: \<open>onItem\<close> for each item, \<open>_onDoneAddingOptions\<close>, then the handlers in turn.\<close>

definition onDoneAddingOptions :: "select_box \<Rightarrow> select_box" where
  "onDoneAddingOptions b =
     (let b1 = b\<lparr>doneAddingOptions := True\<rparr> in if pendingSetValue b1 then b1 else onChange_native b1)"

definition receive_options :: "(string \<times> string) list \<Rightarrow> select_box \<Rightarrow> select_box" where
  "receive_options items b =
     (let b1 = onDoneAddingOptions (fold add_option items b)
      in fold (\<lambda>v b. put_value v (b\<lparr>pendingSetValue := False\<rparr>)) (waiting_sets b1) (b1\<lparr>waiting_sets := []\<rparr>))"

text \<open>The user picks an option; the timer of a report fires.\<close>

definition pick_option :: "nat \<Rightarrow> select_box \<Rightarrow> select_box" where
  "pick_option i b =
     (if i < length (box_options b) then onChange_native (b\<lparr>selected_index := Some i\<rparr>) else b)"

definition fire_change :: "select_box \<Rightarrow> select_box" where
  "fire_change b =
     (case change_timer b of None \<Rightarrow> b | Some v \<Rightarrow> b\<lparr>change_timer := None, changes := changes b @ [v]\<rparr>)"

text \<open>A box just created: one with a store is loading, one with options in the page is complete.\<close>

definition empty_box :: select_box where
  "empty_box = \<lparr>box_options = [], selected_index = None, doneAddingOptions = False, pendingSetValue = False,
     waiting_sets = [], lastValueReported = JUndef, resetValue = JUndef, onChangeActive = False,
     change_timer = None, changes = [], select_errors = []\<rparr>"

definition new_store_box :: select_box where
  "new_store_box = (makeOptionList empty_box)\<lparr>onChangeActive := True\<rparr>"

definition new_markup_box :: "(string \<times> string) list \<Rightarrow> select_box" where
  "new_markup_box ps =
     (onChange_native ((fold add_option ps empty_box)\<lparr>doneAddingOptions := True\<rparr>))\<lparr>onChangeActive := True\<rparr>"

section \<open>Options\<close>

lemma index_with_value:
  "k \<in> fst ` set ps \<Longrightarrow> \<exists>i. index_with k ps = Some i \<and> i < length ps \<and> fst (ps ! i) = k"
  by (induction ps) force+

lemma index_with_bound: "index_with k ps = Some i \<Longrightarrow> i < length ps"
  by (induction ps arbitrary: i) (auto split: if_splits)

lemma fold_add_option:
  "fold add_option ps b = b\<lparr>box_options := box_options b @ ps,
     selected_index := (if selected_index b = None \<and> ps \<noteq> [] then Some 0 else selected_index b)\<rparr>"
  by (induction ps arbitrary: b) (simp_all add: add_option_def)

lemma handleOnChange_keeps [simp]:
  "box_options (handleOnChange v b) = box_options b" "selected_index (handleOnChange v b) = selected_index b"
  "doneAddingOptions (handleOnChange v b) = doneAddingOptions b" "pendingSetValue (handleOnChange v b) = pendingSetValue b"
  "waiting_sets (handleOnChange v b) = waiting_sets b" "onChangeActive (handleOnChange v b) = onChangeActive b"
  "select_errors (handleOnChange v b) = select_errors b" "changes (handleOnChange v b) = changes b"
  "lastValueReported (handleOnChange v b) = v" "box_value (handleOnChange v b) = box_value b"
  by (auto simp: handleOnChange_def Let_def box_value_def split: option.split)

lemma put_value_keeps [simp]:
  "box_options (put_value v b) = box_options b" "doneAddingOptions (put_value v b) = doneAddingOptions b"
  "pendingSetValue (put_value v b) = pendingSetValue b" "waiting_sets (put_value v b) = waiting_sets b"
  "onChangeActive (put_value v b) = onChangeActive b" "changes (put_value v b) = changes b"
  by (simp_all add: put_value_def Let_def)

lemma put_option:
  assumes "k \<in> fst ` set (box_options b)"
  shows "box_value (put_value (JStr k) b) = k" "lastValueReported (put_value (JStr k) b) = JStr k"
    "select_errors (put_value (JStr k) b) = select_errors b"
proof -
  obtain i where i: "index_with k (box_options b) = Some i" "fst (box_options b ! i) = k"
    using index_with_value [OF assms] by blast
  then have v: "box_value (b\<lparr>selected_index := Some i\<rparr>) = k" by (simp add: box_value_def)
  have "put_value (JStr k) b = handleOnChange (JStr k) (b\<lparr>selected_index := Some i\<rparr>)"
    using i v by (simp add: put_value_def loose_ne_same)
  then show "box_value (put_value (JStr k) b) = k" "lastValueReported (put_value (JStr k) b) = JStr k"
    "select_errors (put_value (JStr k) b) = select_errors b" using v by simp_all
qed

lemma fold_put_keeps:
  "box_options (fold (\<lambda>v b. put_value v (b\<lparr>pendingSetValue := False\<rparr>)) vs b) = box_options b"
  "doneAddingOptions (fold (\<lambda>v b. put_value v (b\<lparr>pendingSetValue := False\<rparr>)) vs b) = doneAddingOptions b"
  "waiting_sets (fold (\<lambda>v b. put_value v (b\<lparr>pendingSetValue := False\<rparr>)) vs b) = waiting_sets b"
  by (induction vs arbitrary: b) simp_all

lemma fold_setValueAttr:
  "\<not> doneAddingOptions b \<Longrightarrow> fold setValueAttr vs b =
     b\<lparr>pendingSetValue := (pendingSetValue b \<or> vs \<noteq> []), waiting_sets := waiting_sets b @ vs\<rparr>"
  by (induction vs arbitrary: b) (simp_all add: setValueAttr_def)

text \<open>
  However many values a form sets while the options are fetched, valid ones or not, the last one
  is selected and is the last value reported when the options have come and it is one of them.
\<close>

theorem last_set_is_selected:
  assumes "waiting_sets b = []" "k \<in> fst ` set items"
  shows "let b' = receive_options items (fold setValueAttr (vs @ [JStr k]) (makeOptionList b)) in
    box_value b' = k \<and> lastValueReported b' = JStr k \<and> box_options b' = items \<and> doneAddingOptions b' \<and>
    \<not> pendingSetValue b' \<and> waiting_sets b' = []"
proof -
  let ?m = "makeOptionList b"
  let ?c = "(fold add_option items (?m\<lparr>pendingSetValue := True, waiting_sets := vs @ [JStr k]\<rparr>))\<lparr>doneAddingOptions := True\<rparr>"
  let ?put = "\<lambda>v b. put_value v (b\<lparr>pendingSetValue := False\<rparr>)"
  have m: "fold setValueAttr (vs @ [JStr k]) ?m = ?m\<lparr>pendingSetValue := True, waiting_sets := vs @ [JStr k]\<rparr>"
    using fold_setValueAttr [of ?m "vs @ [JStr k]"] assms(1) by (simp add: makeOptionList_def)
  have r: "receive_options items (fold setValueAttr (vs @ [JStr k]) ?m) =
      ?put (JStr k) (fold ?put vs (?c\<lparr>waiting_sets := []\<rparr>))"
    unfolding m by (simp add: receive_options_def onDoneAddingOptions_def Let_def fold_add_option)
  have "box_options (fold ?put vs (?c\<lparr>waiting_sets := []\<rparr>)) = items"
    "doneAddingOptions (fold ?put vs (?c\<lparr>waiting_sets := []\<rparr>))" "waiting_sets (fold ?put vs (?c\<lparr>waiting_sets := []\<rparr>)) = []"
    by (simp_all add: fold_put_keeps fold_add_option makeOptionList_def)
  then show ?thesis unfolding r using put_option [of k] assms(2) by (simp add: Let_def)
qed

theorem last_set_is_selected_witness:
  "box_value (receive_options [(''c1'', ''Log''), (''c2'', ''Xml'')] (fold setValueAttr ([JStr ''old''] @ [JStr ''c2'']) (makeOptionList empty_box))) = ''c2''"
  using last_set_is_selected [of empty_box "''c2''" "[(''c1'', ''Log''), (''c2'', ''Xml'')]" "[JStr ''old'']"]
  by (simp add: empty_box_def Let_def)

text \<open>
  Two fetches that overlap, as after two changes of a query in a row, leave the options of both in
  the box, in the order of the answers, and the first option of the first answer is selected.
\<close>

theorem overlapping_fetches_mix_their_options:
  assumes "waiting_sets b = []" "pendingSetValue b = False" "first \<noteq> []"
  shows "let b' = receive_options second (receive_options first (makeOptionList (makeOptionList b))) in
    box_options b' = first @ second \<and> box_value b' = fst (hd first) \<and> lastValueReported b' = JStr (fst (hd first))"
  using assms
  by (simp add: receive_options_def onDoneAddingOptions_def Let_def fold_add_option makeOptionList_def onChange_native_def)
     (simp add: box_value_def hd_conv_nth nth_append)

theorem overlapping_fetches_mix_their_options_witness:
  "box_options (receive_options [(''is-number'', '''')] (receive_options [(''is-text'', '''')] (makeOptionList (makeOptionList empty_box)))) =
     [(''is-text'', ''''), (''is-number'', '''')]"
  using overlapping_fetches_mix_their_options [of empty_box "[(''is-text'', '''')]" "[(''is-number'', '''')]"]
  by (simp add: empty_box_def Let_def)

section \<open>Reports\<close>

datatype box_action =
  Set_value jsval
| Reset_value
| Fetch_options
| Answer "(string \<times> string) list"
| Pick nat
| Timer

fun box_act :: "box_action \<Rightarrow> select_box \<Rightarrow> select_box" where
  "box_act (Set_value v) b = setValueAttr v b"
| "box_act Reset_value b = reset b"
| "box_act Fetch_options b = makeOptionList b"
| "box_act (Answer items) b = receive_options items b"
| "box_act (Pick i) b = pick_option i b"
| "box_act Timer b = fire_change b"

text \<open>What holds in between: the index is one of an option, and the listeners are up to date.\<close>

definition box_inv :: "select_box \<Rightarrow> bool" where
  "box_inv b =
     ((case selected_index b of None \<Rightarrow> True | Some i \<Rightarrow> i < length (box_options b)) \<and>
      onChangeActive b \<and>
      (case change_timer b of Some v \<Rightarrow> v = lastValueReported b
       | None \<Rightarrow> lastValueReported b = (if changes b = [] then resetValue b else last (changes b))))"

lemma box_inv_handle: "box_inv b \<Longrightarrow> box_inv (handleOnChange v b)"
  by (auto simp: box_inv_def handleOnChange_def Let_def split: option.splits)

lemma box_inv_select: "box_inv b \<Longrightarrow> (\<And>i. s = Some i \<Longrightarrow> i < length (box_options b)) \<Longrightarrow> box_inv (b\<lparr>selected_index := s\<rparr>)"
  by (auto simp: box_inv_def split: option.splits)

lemma box_inv_other [simp]:
  "box_inv (b\<lparr>select_errors := es\<rparr>) = box_inv b" "box_inv (b\<lparr>pendingSetValue := p\<rparr>) = box_inv b"
  "box_inv (b\<lparr>waiting_sets := w\<rparr>) = box_inv b" "box_inv (b\<lparr>doneAddingOptions := d\<rparr>) = box_inv b"
  by (auto simp: box_inv_def split: option.splits)

lemma box_inv_put: "box_inv b \<Longrightarrow> box_inv (put_value v b)"
  using box_inv_select [of b "index_with (js_string v) (box_options b)"] box_inv_select [of b None] index_with_bound
  by (simp add: put_value_def Let_def box_inv_handle)

lemma box_inv_set: "box_inv b \<Longrightarrow> box_inv (setValueAttr v b)"
  by (simp add: setValueAttr_def box_inv_put)

lemma box_inv_receive:
  assumes "box_inv b"
  shows "box_inv (receive_options items b)"
proof -
  have "box_inv (fold add_option items b)"
    using assms by (auto simp: fold_add_option box_inv_def split: option.splits)
  then have "box_inv ((onDoneAddingOptions (fold add_option items b))\<lparr>waiting_sets := []\<rparr>)"
    by (simp add: onDoneAddingOptions_def onChange_native_def Let_def box_inv_handle)
  then show ?thesis unfolding receive_options_def Let_def
    by (rule fold_invariant [where Q = "\<lambda>x. True", rotated]) (simp_all add: box_inv_put)
qed

lemma resetValue_kept:
  "onChangeActive b \<Longrightarrow> resetValue (put_value v b) = resetValue b"
  "onChangeActive b \<Longrightarrow> resetValue (handleOnChange v b) = resetValue b"
  by (simp_all add: put_value_def handleOnChange_def Let_def)

lemma resetValue_receive:
  assumes "onChangeActive b"
  shows "resetValue (receive_options items b) = resetValue b"
proof -
  have "resetValue (fold (\<lambda>v b. put_value v (b\<lparr>pendingSetValue := False\<rparr>)) vs c) = resetValue c" if "onChangeActive c" for vs c
    using that by (induction vs arbitrary: c) (simp_all add: resetValue_kept)
  then show ?thesis using assms
    by (simp add: receive_options_def onDoneAddingOptions_def onChange_native_def Let_def fold_add_option resetValue_kept)
qed

text \<open>
  C39: Whatever values are set, in whatever order the options are fetched and arrive and the user picks,
  the index of the box is that of an option, and whenever no report is due the listeners have last
  been told the value that was reported last.
\<close>

theorem listeners_know_the_last_report:
  "let b = fold box_act acts new_store_box in
   (case selected_index b of None \<Rightarrow> True | Some i \<Rightarrow> i < length (box_options b)) \<and>
   (case change_timer b of Some v \<Rightarrow> v = lastValueReported b
    | None \<Rightarrow> lastValueReported b = (if changes b = [] then JUndef else last (changes b)))"
proof -
  have step: "box_inv (box_act x b) \<and> resetValue (box_act x b) = JUndef" if b: "box_inv b \<and> resetValue b = JUndef" for x b
  proof -
    have on: "onChangeActive b" using b by (simp add: box_inv_def)
    show ?thesis
    proof (cases x)
      case Fetch_options
      then show ?thesis using b by (auto simp: makeOptionList_def box_inv_def split: option.splits)
    next
      case (Pick i)
      then show ?thesis using b on box_inv_select [of b "Some i"]
        by (simp add: pick_option_def onChange_native_def box_inv_handle resetValue_kept)
    next
      case Timer
      then show ?thesis using b by (auto simp: fire_change_def box_inv_def split: option.splits)
    qed (use b on box_inv_set box_inv_receive resetValue_receive in \<open>simp_all add: reset_def setValueAttr_def resetValue_kept\<close>)
  qed
  have "box_inv (fold box_act acts new_store_box) \<and> resetValue (fold box_act acts new_store_box) = JUndef"
    by (rule fold_invariant [where Q = "\<lambda>x. True" and P = "\<lambda>b. box_inv b \<and> resetValue b = JUndef"])
      (simp_all add: step, simp add: new_store_box_def makeOptionList_def empty_box_def box_inv_def)
  then show ?thesis by (auto simp: box_inv_def Let_def split: option.splits)
qed

end
