(* ===== verification/Pion_TermPicker.thy ===== *)
theory Pion_TermPicker
  imports Pion_Vocabulary Pion_Monitor "HOL-Library.List_Lexorder" "HOL-Library.Char_ord"
begin

text \<open>
  Picking a term: the text box with its check (\<open>widgets/TermTextBox.js\<close>) and the list of
  vocabularies and terms that opens below it (\<open>widgets/TermSelector.js\<close>). The check uses the maps
  from terms to types and categories (\<open>terms.js\<close>), the list the rows of a vocabulary's store. The
  properties say that the list offers what the check accepts, and that it opens on the term that is
  in the box.
\<close>

section \<open>The text box\<close>

definition prop_of :: "jsval jsobj \<Rightarrow> string \<Rightarrow> jsval" where
  "prop_of ob k = (case obj_get ob k of Some v \<Rightarrow> v | None \<Rightarrow> JUndef)"

text \<open>\<open>value in o\<close> also finds what every object inherits; that is equal to nothing a query asks for.\<close>

definition js_in :: "string \<Rightarrow> jsval jsobj \<Rightarrow> bool" where
  "js_in k ob = (obj_has ob k \<or> k \<in> set object_prototype)"

definition has_value :: "jsval jsobj \<Rightarrow> string \<Rightarrow> jsval \<Rightarrow> bool" where
  "has_value ob k v = ((obj_has ob k \<or> k \<notin> set object_prototype) \<and> \<not> loose_ne (prop_of ob k) v)"

text \<open>The result, and the message that is set with it.\<close>

definition validator :: "term_maps \<Rightarrow> bool \<Rightarrow> jsval jsobj \<Rightarrow> string \<Rightarrow> bool \<times> string option" where
  "validator tm required query v =
     (if js_in v (categories_by_id tm) then
        (case obj_get query ''category'' of
           Some c \<Rightarrow>
             if has_value (categories_by_id tm) v c then (True, None)
             else (False, Some (''term must have a '' @ js_string c @ '' type''))
         | None \<Rightarrow>
           (case obj_get query ''type'' of
              Some t \<Rightarrow>
                if has_value (types_by_id tm) v t then (True, None)
                else (False, Some (''term must have type '' @ [CHR 0x27] @ js_string t @ [CHR 0x27]))
            | None \<Rightarrow> (True, None)))
      else if v = [] \<and> \<not> required then (True, None)
      else (False, Some ''unknown term''))"

section \<open>The list\<close>

definition row_js :: "row \<Rightarrow> string \<Rightarrow> jsval" where
  "row_js r a = cell_js (row_value r a)"

text \<open>The terms of the chosen vocabulary that the list offers, in the order of their names.\<close>

definition add_term :: "term_maps \<Rightarrow> jsval jsobj \<Rightarrow> row \<Rightarrow> bool" where
  "add_term tm query r =
     (if truthy (prop_of query ''category'') then
        has_value (categories_by_id tm) (js_string (row_js r ''full_id'')) (prop_of query ''category'')
      else if truthy (prop_of query ''type'') then \<not> loose_ne (row_js r ''Type'') (prop_of query ''type'')
      else True)"

definition offered :: "term_maps \<Rightarrow> jsval jsobj \<Rightarrow> row jsobj \<Rightarrow> string list" where
  "offered tm query rows =
     map (\<lambda>p. js_string (row_js (snd p) ''full_id'')) (filter (\<lambda>p. add_term tm query (snd p)) (sort_key fst rows))"

text \<open>The index that is noted while options are added: of the last one that is equal, else 0.\<close>

fun noted_index :: "string \<Rightarrow> nat \<Rightarrow> nat \<Rightarrow> string list \<Rightarrow> nat" where
  "noted_index v i found [] = found"
| "noted_index v i found (x # xs) = noted_index v (i + 1) (if x = v then i else found) xs"

text \<open>The value of a select element after its index is set; without options it is empty.\<close>

definition value_at :: "nat \<Rightarrow> string list \<Rightarrow> string" where
  "value_at i xs = (if i < length xs then xs ! i else [])"

definition initial_vocab :: "string option \<Rightarrow> string list \<Rightarrow> string" where
  "initial_vocab initial_term ids =
     (let v = (case initial_term of Some t \<Rightarrow> hd (split_char (CHR ''#'') t) | None \<Rightarrow> []); xs = sort ids
      in value_at (noted_index v 0 0 xs) xs)"

definition vocab_label :: "bool \<Rightarrow> string \<Rightarrow> string" where
  "vocab_label locked v =
     (case split_char (CHR '':'') v of _ # _ # l # _ \<Rightarrow> l | _ \<Rightarrow> ''undefined'') @ (if locked then '' (L)'' else [])"

definition initial_choice :: "term_maps \<Rightarrow> jsval jsobj \<Rightarrow> row jsobj \<Rightarrow> string option \<Rightarrow> string" where
  "initial_choice tm query rows initial_term =
     (let xs = offered tm query rows
      in value_at (case initial_term of Some t \<Rightarrow> noted_index t 0 0 xs | None \<Rightarrow> 0) xs)"

text \<open>
  The list opens on a term and is confirmed as it is: the vocabulary is chosen, its terms are
  loaded, and the value of the list goes into the box. \<open>load\<close> gives the rows of a vocabulary.
\<close>

definition confirm_picker :: "(string \<Rightarrow> row jsobj) \<Rightarrow> string list \<Rightarrow> term_maps \<Rightarrow> jsval jsobj \<Rightarrow> string option \<Rightarrow> string" where
  "confirm_picker load ids tm query t = initial_choice tm query (load (initial_vocab t ids)) t"

section \<open>The maps\<close>

definition no_terms :: term_maps where
  "no_terms = \<lparr>types_by_id = [], categories_by_id = [], term_comments_by_id = []\<rparr>"

definition term_id :: "node \<Rightarrow> string" where
  "term_id item = js_string (attribute_js (term_get item ''@id''))"

lemma build_map_other:
  "buildMapOfCategoriesByTerm tt items tm = Some tm' \<Longrightarrow> k \<notin> term_id ` set items \<Longrightarrow>
   obj_get (types_by_id tm') k = obj_get (types_by_id tm) k \<and> obj_get (categories_by_id tm') k = obj_get (categories_by_id tm) k"
  by (induction tt items tm arbitrary: rule: buildMapOfCategoriesByTerm.induct)
     (auto simp: term_id_def Let_def obj_get_put split: option.splits)

lemma build_map_item:
  "buildMapOfCategoriesByTerm tt items tm = Some tm' \<Longrightarrow> distinct (map term_id items) \<Longrightarrow> item \<in> set items \<Longrightarrow>
   \<exists>ty. sval_toString (term_get item ''Type'') = Some ty \<and>
     obj_get (types_by_id tm') (term_id item) = Some (lookup (type_descriptions_by_name tt) ty) \<and>
     obj_get (categories_by_id tm') (term_id item) = Some (lookup (categories_by_type tt) ty)"
proof (induction tt items tm rule: buildMapOfCategoriesByTerm.induct)
  case (2 tt it items tm)
  then obtain ty where ty: "sval_toString (term_get it ''Type'') = Some ty" by (auto split: option.splits)
  show ?case
  proof (cases "item = it")
    case True
    have "term_id it \<notin> term_id ` set items" using 2(3) by (auto simp: image_iff)
    moreover obtain m where m: "buildMapOfCategoriesByTerm tt items m = Some tm'"
      "types_by_id m = obj_put (types_by_id tm) (term_id it) (lookup (type_descriptions_by_name tt) ty)"
      "categories_by_id m = obj_put (categories_by_id tm) (term_id it) (lookup (categories_by_type tt) ty)"
      using 2(2) ty by (auto simp: Let_def term_id_def)
    ultimately show ?thesis using build_map_other [OF m(1)] ty True by (simp add: obj_get_put)
  next
    case False
    then show ?thesis using 2 ty by (simp add: Let_def)
  qed
qed simp

lemma term_rows_items:
  "term_rows tt items = Some rows \<Longrightarrow> p \<in> set rows \<Longrightarrow> \<exists>item\<in>set items. term_row tt item = Some p"
proof (induction items arbitrary: rows)
  case (Cons it items)
  then obtain r rs where "term_row tt it = Some r" "term_rows tt items = Some rs" "rows = r # rs"
    by (auto split: option.splits)
  then show ?case using Cons by auto
qed simp

lemma term_row_facts:
  assumes "term_row tt item = Some (i, r)"
  shows "js_string (row_js r ''full_id'') = term_id item" "CHR ''#'' \<in> set (term_id item)"
    "\<exists>ty. sval_toString (term_get item ''Type'') = Some ty \<and> row_js r ''Type'' = lookup (type_descriptions_by_name tt) ty"
proof -
  obtain full ty rest where t: "term_get item ''@id'' = SText full" "term_get item ''Type'' = SItem ty"
    "r = (''full_id'', [Val (JStr full)]) # (''Type'', [Val (lookup (type_descriptions_by_name tt) (item_string ty))]) # rest"
    "\<exists>x xs. split_char (CHR ''#'') full = x # i # xs"
    using assms by (auto simp: term_row_def split: sval.splits list.splits)
  then show "js_string (row_js r ''full_id'') = term_id item"
    "\<exists>ty. sval_toString (term_get item ''Type'') = Some ty \<and> row_js r ''Type'' = lookup (type_descriptions_by_name tt) ty"
    by (simp_all add: row_js_def row_value_def row_values_def obj_get_def term_id_def attribute_js_def)
  have "CHR ''#'' \<notin> set full \<Longrightarrow> split_char (CHR ''#'') full = [full]"
    by (induction full) auto
  then show "CHR ''#'' \<in> set (term_id item)" using t
    by (cases "CHR ''#'' \<in> set full") (auto simp: term_id_def attribute_js_def)
qed

section \<open>What the list offers\<close>

definition truthy_query :: "jsval jsobj \<Rightarrow> bool" where
  "truthy_query query = list_all (\<lambda>p. truthy (snd p)) query"

lemma truthy_query_get: "truthy_query query \<Longrightarrow> obj_get query k = Some v \<Longrightarrow> truthy v"
  unfolding truthy_query_def list_all_iff obj_get_def using map_of_SomeD by force

lemma prototype_names: "s \<in> set object_prototype \<Longrightarrow> CHR ''#'' \<notin> set s"
proof -
  have "list_all (\<lambda>s. CHR ''#'' \<notin> set s) object_prototype" by code_simp
  then show "s \<in> set object_prototype \<Longrightarrow> CHR ''#'' \<notin> set s" by (auto simp: list_all_iff)
qed

lemma offered_iff_accepted:
  assumes "buildMapOfCategoriesByTerm tt all no_terms = Some tm" "distinct (map term_id all)"
    and "set items \<subseteq> set all" "term_rows tt items = Some rows" "truthy_query query" "p \<in> set rows"
  shows "add_term tm query (snd p) \<longleftrightarrow> fst (validator tm required query (js_string (row_js (snd p) ''full_id'')))"
proof -
  obtain item where item: "item \<in> set items" "term_row tt item = Some (fst p, snd p)"
    using term_rows_items [OF assms(4,6)] by auto
  obtain ty where ty: "sval_toString (term_get item ''Type'') = Some ty"
      "obj_get (types_by_id tm) (term_id item) = Some (lookup (type_descriptions_by_name tt) ty)"
      "obj_get (categories_by_id tm) (term_id item) = Some (lookup (categories_by_type tt) ty)"
    using build_map_item [OF assms(1,2)] item(1) assms(3) by blast
  have f: "js_string (row_js (snd p) ''full_id'') = term_id item"
      "row_js (snd p) ''Type'' = lookup (type_descriptions_by_name tt) ty"
    using term_row_facts [OF item(2)] ty(1) by auto
  have np: "term_id item \<notin> set object_prototype" using term_row_facts(2) [OF item(2)] prototype_names by blast
  have c: "prop_of query k = (case obj_get query k of Some v \<Rightarrow> v | None \<Rightarrow> JUndef)" for k by (simp add: prop_of_def)
  have t: "obj_get query k = Some v \<Longrightarrow> truthy v" for k v using truthy_query_get [OF assms(5)] .
  have has: "has_value ob (term_id item) v = (\<not> loose_ne x v)" if "obj_get ob (term_id item) = Some x" for ob v x
    using that np by (simp add: has_value_def prop_of_def)
  have inn: "js_in (term_id item) (categories_by_id tm)" using ty(3) by (simp add: js_in_def obj_has_iff)
  show ?thesis
    using t [of "''category''"] t [of "''type''"]
    by (simp add: add_term_def validator_def f inn has [OF ty(3)] has [OF ty(2)] c split: option.split)
qed

lemma set_offered:
  "set (offered tm query rows) = (\<lambda>p. js_string (row_js (snd p) ''full_id'')) ` {p \<in> set rows. add_term tm query (snd p)}"
  by (simp add: offered_def)

text \<open>
  C38: When the maps were built from the terms of the server, the list offers, of the terms of the
  chosen vocabulary, exactly those that the check of the text box accepts for the same query, whether
  the query asks for a category, for a type or for nothing.
\<close>

theorem list_offers_what_the_check_accepts:
  assumes "buildMapOfCategoriesByTerm tt all no_terms = Some tm" "distinct (map term_id all)"
    and "set items \<subseteq> set all" "term_rows tt items = Some rows" "truthy_query query"
  shows "set (offered tm query rows) =
    set (filter (\<lambda>v. fst (validator tm required query v)) (map (\<lambda>p. js_string (row_js (snd p) ''full_id'')) rows))"
  using offered_iff_accepted [OF assms] by (auto simp: set_offered)

definition demo_types :: term_types where
  "demo_types = initTermTypeLookups [(''string'', ''string'', ''string''), (''uint8'', ''8-bit unsigned integer'', ''integer'')] no_types"

definition demo_term :: "string \<Rightarrow> string \<Rightarrow> node" where
  "demo_term i ty = Element ''Term'' [(''id'', i)] [Element ''Type'' [] [TextNode ty]]"

definition demo_terms :: "node list" where
  "demo_terms = [demo_term ''urn:vocab:a#uri'' ''string'', demo_term ''urn:vocab:a#code'' ''uint8'', demo_term ''urn:vocab:b#x'' ''uint8'']"

definition demo_maps :: term_maps where
  "demo_maps = the (buildMapOfCategoriesByTerm demo_types demo_terms no_terms)"

definition demo_rows :: "row jsobj" where
  "demo_rows = the (term_rows demo_types (take 2 demo_terms))"

lemma demo_hypotheses:
  "buildMapOfCategoriesByTerm demo_types demo_terms no_terms = Some demo_maps" "distinct (map term_id demo_terms)"
  "set (take 2 demo_terms) \<subseteq> set demo_terms" "term_rows demo_types (take 2 demo_terms) = Some demo_rows"
  "truthy_query [(''category'', JStr ''integer'')]"
  by (rule set_take_subset | code_simp)+

theorem list_offers_what_the_check_accepts_witness:
  "set (offered demo_maps [(''category'', JStr ''integer'')] demo_rows) = {''urn:vocab:a#code''}"
proof -
  have "filter (\<lambda>v. fst (validator demo_maps False [(''category'', JStr ''integer'')] v))
      (map (\<lambda>p. js_string (row_js (snd p) ''full_id'')) demo_rows) = [''urn:vocab:a#code'']"
    by code_simp
  then show ?thesis using list_offers_what_the_check_accepts [OF demo_hypotheses, of False] by simp
qed

section \<open>Opening the list on a term\<close>

lemma noted_index_absent: "v \<notin> set xs \<Longrightarrow> noted_index v i f xs = f"
  by (induction xs arbitrary: i f) auto

lemma noted_index_present: "v \<in> set xs \<Longrightarrow> \<exists>j<length xs. noted_index v i f xs = i + j \<and> xs ! j = v"
proof (induction xs arbitrary: i f)
  case (Cons x xs)
  show ?case
  proof (cases "v \<in> set xs")
    case True
    from Cons.IH [OF this, of "i + 1"] show ?thesis by (metis add.assoc add.commute length_Cons less_Suc_eq_0_disj noted_index.simps(2) nth_Cons_Suc plus_1_eq_Suc)
  next
    case False
    then show ?thesis using Cons.prems by (intro exI [of _ 0]) (simp add: noted_index_absent)
  qed
qed simp

lemma value_at_noted: "v \<in> set xs \<Longrightarrow> value_at (noted_index v 0 0 xs) xs = v"
  using noted_index_present [of v xs 0 0] by (auto simp: value_at_def)

lemma hd_split: "c \<notin> set v \<Longrightarrow> hd (split_char c (v @ c # s)) = v"
  by (induction v) (auto split: list.split)

text \<open>
  A term that the check accepts, of a vocabulary that is listed, stays in the box when the list is
  opened on it and confirmed as it comes up: its vocabulary and the term itself are preselected.
\<close>

theorem picker_keeps_an_accepted_term:
  assumes "buildMapOfCategoriesByTerm tt all no_terms = Some tm" "distinct (map term_id all)"
    and "set items \<subseteq> set all" "term_rows tt items = Some (load v)" "truthy_query query"
    and "v \<in> set ids" "CHR ''#'' \<notin> set v"
    and "v @ CHR ''#'' # i \<in> (\<lambda>p. js_string (row_js (snd p) ''full_id'')) ` set (load v)"
    and "fst (validator tm required query (v @ CHR ''#'' # i))"
  shows "confirm_picker load ids tm query (Some (v @ CHR ''#'' # i)) = v @ CHR ''#'' # i"
proof -
  have "initial_vocab (Some (v @ CHR ''#'' # i)) ids = v"
    using assms(6) value_at_noted [of v "sort ids"] by (simp add: initial_vocab_def Let_def hd_split [OF assms(7)])
  moreover have "v @ CHR ''#'' # i \<in> set (offered tm query (load v))"
    using offered_iff_accepted [OF assms(1-5)] assms(8,9) by (auto simp: set_offered)
  ultimately show ?thesis
    using value_at_noted by (simp add: confirm_picker_def initial_choice_def Let_def)
qed

theorem picker_keeps_an_accepted_term_witness:
  "confirm_picker (\<lambda>v. demo_rows) [''urn:vocab:b'', ''urn:vocab:a''] demo_maps [(''category'', JStr ''integer'')] (Some (''urn:vocab:a'' @ CHR ''#'' # ''code'')) =
   ''urn:vocab:a#code''"
proof -
  have "''urn:vocab:a'' @ CHR ''#'' # ''code'' \<in> (\<lambda>p. js_string (row_js (snd p) ''full_id'')) ` set demo_rows"
    "fst (validator demo_maps False [(''category'', JStr ''integer'')] (''urn:vocab:a'' @ CHR ''#'' # ''code''))"
    by code_simp+
  from picker_keeps_an_accepted_term [where load = "\<lambda>v. demo_rows" and ids = "[''urn:vocab:b'', ''urn:vocab:a'']", OF demo_hypotheses _ _ this]
  show ?thesis by simp
qed

end
