(* ===== verification/Pion_License.thy ===== *)
theory Pion_License
  imports Pion_Launch Pion_Restart
begin

text \<open>
  License keys and editions: the dialog that chooses an edition (\<open>widgets/EditionSelector.js\<close>), the
  one that asks for a key (\<open>widgets/LicenseKey.js\<close>) and the one about the product (\<open>about.js\<close>). A
  key is sent, then its status is asked for, and the callback of the dialog that sent it chooses the
  edition and starts the page. The properties say that a licensed edition is chosen for an accepted
  key of its product only, and what submissions that overlap or are cancelled lead to.
\<close>

section \<open>Choosing an edition\<close>

record key_dialog =
  kd_product :: "string option"
  kd_edition :: string
  kd_include_license :: bool
  kd_message :: string
  kd_open :: bool

text \<open>
  \<open>puts\<close> are the dialogs whose key is on its way, \<open>asked\<close> those that wait for the status, with the
  products of the answer to the key. \<open>accepted_keys\<close> only records the products of accepted keys.
\<close>

record license_page =
  key_running :: bool
  shown_license :: string
  edition :: string
  edition_cookie :: "string option"
  starts :: nat
  selector_open :: bool
  key_alerts :: nat
  key_dialogs :: "key_dialog list"
  puts :: "nat list"
  asked :: "(nat \<times> string list) list"
  accepted_keys :: "string list list"

definition handleSelection :: "license_page \<Rightarrow> license_page" where
  "handleSelection p = p\<lparr>edition_cookie := Some (edition p), starts := starts p + 1, selector_open := False\<rparr>"

definition free_edition_selected :: "string \<Rightarrow> license_page \<Rightarrow> license_page" where
  "free_edition_selected e p = handleSelection (p\<lparr>edition := e\<rparr>)"

definition licensed_edition_selected :: "string \<Rightarrow> license_page \<Rightarrow> license_page" where
  "licensed_edition_selected e p =
     (if \<not> key_running p then p\<lparr>key_alerts := key_alerts p + 1\<rparr>
      else p\<lparr>key_dialogs := key_dialogs p @
             [\<lparr>kd_product = Some (''Pion '' @ e), kd_edition = e, kd_include_license = True, kd_message = [], kd_open = True\<rparr>]\<rparr>)"

definition say_in :: "nat \<Rightarrow> string \<Rightarrow> license_page \<Rightarrow> license_page" where
  "say_in d s p = p\<lparr>key_dialogs := (key_dialogs p)[d := (key_dialogs p ! d)\<lparr>kd_message := s\<rparr>]\<rparr>"

definition close_dialog :: "nat \<Rightarrow> license_page \<Rightarrow> license_page" where
  "close_dialog d p = p\<lparr>key_dialogs := (key_dialogs p)[d := (key_dialogs p ! d)\<lparr>kd_open := False\<rparr>]\<rparr>"

text \<open>\<open>submitKey\<close>, for a box to accept the license that is checked or not.\<close>

definition submitKey :: "nat \<Rightarrow> bool \<Rightarrow> license_page \<Rightarrow> license_page" where
  "submitKey d accept p =
     (if kd_include_license (key_dialogs p ! d) \<and> \<not> accept
      then say_in d ''You must agree to the license before submitting the key.'' p
      else p\<lparr>puts := puts p @ [d]\<rparr>)"

text \<open>The answer to the key that was sent first: its products, or an error.\<close>

definition put_answer :: "string list option \<Rightarrow> license_page \<Rightarrow> license_page" where
  "put_answer reply p =
     (case puts p of [] \<Rightarrow> p
      | d # ds \<Rightarrow>
        (let p1 = p\<lparr>puts := ds\<rparr> in
         case reply of
           None \<Rightarrow> say_in d ''Error: Key not accepted.'' p1
         | Some products \<Rightarrow>
             p1\<lparr>key_running := True, asked := asked p1 @ [(d, products)],
                accepted_keys := products # accepted_keys p1\<rparr>))"

text \<open>The callback of the key dialogs that the selector opens.\<close>

definition key_callback :: "nat \<Rightarrow> license_page \<Rightarrow> license_page" where
  "key_callback d p = handleSelection (p\<lparr>edition := kd_edition (key_dialogs p ! d)\<rparr>)"

definition status_answer :: "key_reply \<Rightarrow> license_page \<Rightarrow> license_page" where
  "status_answer reply p =
     (case asked p of [] \<Rightarrow> p
      | (d, products) # rest \<Rightarrow>
        (let p1 = p\<lparr>asked := rest\<rparr> in
         case checkKeyStatusDfd reply of
           None \<Rightarrow> p1
         | Some (running, state, key_type) \<Rightarrow>
             (let p2 = p1\<lparr>key_running := running, shown_license := state\<rparr>; dlg = key_dialogs p ! d in
              if key_type = ''invalid'' then say_in d ''Invalid license key (may have expired).'' p2
              else case kd_product dlg of
                Some product \<Rightarrow>
                  if product \<notin> set products then say_in d (''Error: Key not valid for '' @ product @ ''.'') p2
                  else close_dialog d (key_callback d (p2\<lparr>shown_license := license_state products\<rparr>))
              | None \<Rightarrow> close_dialog d (key_callback d (p2\<lparr>shown_license := license_state products\<rparr>)))))"

datatype license_action =
  Core_selected
| Lite_selected
| Enterprise_selected
| Replay_selected
| Submit nat bool
| Put_answer "string list option"
| Status_answer key_reply
| Cancel_key nat

fun license_act :: "license_action \<Rightarrow> license_page \<Rightarrow> license_page" where
  "license_act Core_selected p = free_edition_selected ''Core'' p"
| "license_act Lite_selected p = free_edition_selected ''Lite'' p"
| "license_act Enterprise_selected p = licensed_edition_selected ''Enterprise'' p"
| "license_act Replay_selected p = licensed_edition_selected ''Replay'' p"
| "license_act (Submit d accept) p =
     (if d < length (key_dialogs p) \<and> kd_open (key_dialogs p ! d) then submitKey d accept p else p)"
| "license_act (Put_answer reply) p = put_answer reply p"
| "license_act (Status_answer reply) p = status_answer reply p"
| "license_act (Cancel_key d) p = (if d < length (key_dialogs p) then close_dialog d p else p)"

definition selector_shown :: "bool \<Rightarrow> license_page" where
  "selector_shown running =
     \<lparr>key_running = running, shown_license = ''lite'', edition = [], edition_cookie = None, starts = 0, selector_open = True,
      key_alerts = 0, key_dialogs = [], puts = [], asked = [], accepted_keys = []\<rparr>"

section \<open>What a licensed edition needs\<close>

definition licensed :: "license_page \<Rightarrow> string \<Rightarrow> bool" where
  "licensed p e = (e \<in> {''Enterprise'', ''Replay''} \<longrightarrow> list_ex (\<lambda>ps. ''Pion '' @ e \<in> set ps) (accepted_keys p))"

definition dialog_ok :: "key_dialog \<Rightarrow> bool" where
  "dialog_ok k = (kd_product k = Some (''Pion '' @ kd_edition k))"

definition license_inv :: "license_page \<Rightarrow> bool" where
  "license_inv p =
     (list_all dialog_ok (key_dialogs p) \<and> (\<forall>d\<in>set (puts p). d < length (key_dialogs p)) \<and>
      (\<forall>a\<in>set (asked p). fst a < length (key_dialogs p) \<and> snd a \<in> set (accepted_keys p)) \<and>
      licensed p (edition p) \<and> (case edition_cookie p of None \<Rightarrow> True | Some e \<Rightarrow> licensed p e))"

lemma dialogs_ok_update:
  assumes "list_all dialog_ok ks"
  shows "list_all dialog_ok (ks[d := (ks ! d)\<lparr>kd_message := s\<rparr>])" "list_all dialog_ok (ks[d := (ks ! d)\<lparr>kd_open := b\<rparr>])"
proof -
  have "list_all dialog_ok (ks[d := k])" if "d < length ks \<Longrightarrow> dialog_ok k" for k
  proof (cases "d < length ks")
    case True
    then show ?thesis using assms that by (auto simp: list_all_iff dest!: set_update_subset_insert [THEN subsetD])
  qed (simp add: assms list_update_beyond)
  then show "list_all dialog_ok (ks[d := (ks ! d)\<lparr>kd_message := s\<rparr>])" "list_all dialog_ok (ks[d := (ks ! d)\<lparr>kd_open := b\<rparr>])"
    using assms by (simp_all add: dialog_ok_def list_all_length)
qed

lemma license_inv_say: "license_inv p \<Longrightarrow> license_inv (say_in d s p)"
  by (simp add: license_inv_def say_in_def licensed_def dialogs_ok_update cong: option.case_cong)

lemma license_inv_close: "license_inv p \<Longrightarrow> license_inv (close_dialog d p)"
  by (simp add: license_inv_def close_dialog_def licensed_def dialogs_ok_update cong: option.case_cong)

lemma license_inv_put:
  assumes "license_inv p"
  shows "license_inv (put_answer reply p)"
proof (cases "puts p")
  case (Cons d ds)
  then have q: "license_inv (p\<lparr>puts := ds\<rparr>)" using assms by (auto simp: license_inv_def licensed_def split: option.splits)
  show ?thesis
  proof (cases reply)
    case None
    then show ?thesis using Cons license_inv_say [OF q] by (simp add: put_answer_def Let_def)
  next
    case (Some products)
    then show ?thesis using Cons assms
      by (auto simp: put_answer_def Let_def license_inv_def licensed_def split: option.splits)
  qed
qed (simp add: put_answer_def assms)

lemma license_inv_status:
  assumes "license_inv p"
  shows "license_inv (status_answer reply p)"
proof (cases "asked p")
  case (Cons a rest)
  obtain d products where a: "a = (d, products)" by (cases a)
  then have d: "d < length (key_dialogs p)" "products \<in> set (accepted_keys p)"
    and k: "kd_product (key_dialogs p ! d) = Some (''Pion '' @ kd_edition (key_dialogs p ! d))"
    using assms Cons by (auto simp: license_inv_def list_all_length dialog_ok_def)
  have q: "license_inv (p\<lparr>asked := rest\<rparr>)" "license_inv (p\<lparr>asked := rest, key_running := r, shown_license := s\<rparr>)" for r s
    using assms Cons by (auto simp: license_inv_def licensed_def split: option.splits)
  have c: "license_inv (key_callback d (p\<lparr>asked := rest, key_running := r, shown_license := s\<rparr>))"
    if "''Pion '' @ kd_edition (key_dialogs p ! d) \<in> set products" for r s
    using q(2) d that by (auto simp: license_inv_def licensed_def key_callback_def handleSelection_def list_ex_iff)
  show ?thesis using Cons a q c license_inv_say license_inv_close
    by (simp add: status_answer_def Let_def k split: option.split)
qed (simp add: status_answer_def assms)

lemma license_inv_free: "license_inv p \<Longrightarrow> e \<in> {''Core'', ''Lite''} \<Longrightarrow> license_inv (free_edition_selected e p)"
  by (auto simp: license_inv_def licensed_def free_edition_selected_def handleSelection_def)

lemma license_inv_licensed: "license_inv p \<Longrightarrow> license_inv (licensed_edition_selected e p)"
  by (simp add: license_inv_def licensed_def licensed_edition_selected_def dialog_ok_def less_SucI cong: option.case_cong)

lemma license_inv_submit:
  assumes "license_inv p" "d < length (key_dialogs p)"
  shows "license_inv (submitKey d accept p)"
proof -
  have "license_inv (p\<lparr>puts := puts p @ [d]\<rparr>)"
    using assms by (simp add: license_inv_def licensed_def ball_Un cong: option.case_cong)
  then show ?thesis using license_inv_say [OF assms(1)] by (simp add: submitKey_def)
qed

lemma license_inv_act: "license_inv p \<Longrightarrow> license_inv (license_act x p)"
  by (cases x) (simp_all add: license_inv_put license_inv_status license_inv_close license_inv_free license_inv_licensed
      license_inv_submit)


text \<open>
  C37: The page is started once for every accepted submission: two clicks on the button of the key
  dialog before the first answer start it twice, and a dialog that was cancelled after a submission
  starts it all the same.
\<close>

theorem two_submissions_start_the_page_twice:
  assumes "puts p = []" "asked p = []" "d < length (key_dialogs p)" "kd_open (key_dialogs p ! d)"
    and "kd_product (key_dialogs p ! d) = Some (''Pion '' @ e)" "kd_edition (key_dialogs p ! d) = e"
    and "''Pion '' @ e \<in> set products" "s \<noteq> ''invalid''"
  shows "starts (fold license_act
      [Submit d True, Submit d True, Cancel_key d, Put_answer (Some products), Status_answer (KeyStatus s products),
       Put_answer (Some products), Status_answer (KeyStatus s products)] p) = starts p + 2"
proof -
  have c: "checkKeyStatusDfd (KeyStatus s products) = Some (True, license_state products,
      if license_state products = ''lite'' then ''none'' else license_state products)"
    using assms(8) by (simp add: checkKeyStatusDfd_def license_state_def)
  have n: "(if license_state products = ''lite'' then ''none'' else license_state products) \<noteq> ''invalid''"
    by (simp add: license_state_def)
  show ?thesis using assms n
    by (simp add: submitKey_def close_dialog_def put_answer_def status_answer_def Let_def c key_callback_def handleSelection_def)
qed

definition demo_selector :: license_page where
  "demo_selector = licensed_edition_selected ''Replay'' (selector_shown True)"

theorem two_submissions_start_the_page_twice_witness:
  "starts (fold license_act
      [Submit 0 True, Submit 0 True, Cancel_key 0, Put_answer (Some [''Pion Replay'']), Status_answer (KeyStatus ''valid'' [''Pion Replay'']),
       Put_answer (Some [''Pion Replay'']), Status_answer (KeyStatus ''valid'' [''Pion Replay''])] demo_selector) = 2"
proof -
  have h: "puts demo_selector = []" "asked demo_selector = []" "0 < length (key_dialogs demo_selector)"
    "kd_open (key_dialogs demo_selector ! 0)" "kd_product (key_dialogs demo_selector ! 0) = Some (''Pion '' @ ''Replay'')"
    "kd_edition (key_dialogs demo_selector ! 0) = ''Replay''" "''Pion '' @ ''Replay'' \<in> set [''Pion Replay'']" "''valid'' \<noteq> ''invalid''"
    "starts demo_selector = 0"
    by (simp_all add: demo_selector_def licensed_edition_selected_def selector_shown_def)
  show ?thesis using two_submissions_start_the_page_twice [OF h(1-8)] h(9) by simp
qed

section \<open>The edition in the wizard\<close>

text \<open>
  The buttons of the form in the wizard: the edition, the cookie and the pane that follows;
  \<open>None\<close> for the alert that the key service does not run.
\<close>

definition wizard_edition_selected :: "string \<Rightarrow> bool \<Rightarrow> string \<Rightarrow> (string \<times> string \<times> string) option" where
  "wizard_edition_selected e running key_type =
     (if e \<in> {''Core'', ''Lite''} then Some (e, e, ''license_acceptance_pane'')
      else if \<not> running then None
      else if e = ''Replay'' then
        Some (e, ''replay'', if key_type \<noteq> ''replay'' then ''license_key_pane'' else ''license_acceptance_pane'')
      else Some (''Enterprise'', ''enterprise'',
        if key_type \<noteq> ''replay'' \<and> key_type \<noteq> ''enterprise'' then ''license_key_pane'' else ''license_acceptance_pane''))"

section \<open>The dialog about the product\<close>

text \<open>The button of the operations and the flag that the dialog has pressed it.\<close>

record ops_button =
  ops_checked :: bool
  ops_temporarily_suppressed :: bool

definition doDialog :: "ops_button \<Rightarrow> ops_button" where
  "doDialog o1 = (if \<not> ops_checked o1 then o1\<lparr>ops_checked := True, ops_temporarily_suppressed := True\<rparr> else o1)"

definition hide_about :: "ops_button \<Rightarrow> ops_button" where
  "hide_about o1 =
     (if ops_temporarily_suppressed o1 then o1\<lparr>ops_checked := False, ops_temporarily_suppressed := False\<rparr> else o1)"

lemma about_restores_the_button:
  "\<not> ops_temporarily_suppressed o1 \<Longrightarrow> hide_about (doDialog o1) = o1"
  by (simp add: hide_about_def doDialog_def)

datatype about_section = Community | Licensed | Unlicensed string

definition doLicenseStuff :: "string \<Rightarrow> bool \<Rightarrow> string \<Rightarrow> string \<times> about_section" where
  "doLicenseStuff pion_version running key_type =
     (if \<not> running then (''Pion Core v'' @ pion_version, Community)
      else (''Pion v'' @ pion_version,
        if key_type = ''invalid'' then Unlicensed ''Invalid license key (may have expired).''
        else if key_type = ''none'' then Unlicensed ''No license key found.'' else Licensed))"

text \<open>The table of a license: name, address, version, products and expiration.\<close>

definition first_or :: "string \<Rightarrow> string list \<Rightarrow> string" where
  "first_or s xs = (case xs of [] \<Rightarrow> s | x # _ \<Rightarrow> x)"

definition license_table :: "node \<Rightarrow> string list option" where
  "license_table response =
     (case (texts response ''Name'', texts response ''Email'') of
        (n # _, e # _) \<Rightarrow>
          Some [n, e, first_or ''All versions'' (texts response ''Version''),
            (if texts response ''Product'' = [] then ''None'' else join '', '' (texts response ''Product'')),
            first_or ''None'' (texts response ''Expiration'')]
      | _ \<Rightarrow> None)"

text \<open>\<open>checkKeyStatus\<close>: what follows the answer, and whether the key service is taken to run.\<close>

datatype key_outcome = Callbacks | Always_callback | About_dialog | Login_page | Login_dialog

definition checkKeyStatus :: "key_reply \<Rightarrow> bool \<Rightarrow> bool \<Rightarrow> key_outcome \<times> bool" where
  "checkKeyStatus reply logged_in running =
     (case reply of
        KeyStatus s _ \<Rightarrow> (if s = ''valid'' then Callbacks else About_dialog, True)
      | KeyError n \<Rightarrow>
          if n = 401 then (if \<not> logged_in then Login_page else Login_dialog, running)
          else if n = 404 then (Always_callback, False)
          else (About_dialog, running))"

end
