(* ===== verification/Pion_Widgets.thy ===== *)
theory Pion_Widgets
  imports Pion_Geometry Pion_TermPicker
begin

text \<open>
  Smaller parts of the pages: the scrolling of a workspace (\<open>scripts/reactors.js\<close>), the check for
  vocabularies that exist (\<open>vocabularies.js\<close>), the list of keys (\<open>widgets/KeyStoreEditor.js\<close>), the tree
  of the server (\<open>system.js\<close>), the lists of plugins and permissions (\<open>plugins.js\<close>), the editor of a
  Python reactor, and the columns and the export of the monitor (\<open>MonitorService.js\<close>). The lemmas say
  where each does what its comments promise, and where it does not.
\<close>

section \<open>Scrolling\<close>

text \<open>
  The handler that runs when the events of a scroll are done. The browser keeps a scroll position
  between 0 and its greatest value; positions are whole numbers.
\<close>

record scroll_pane =
  scrollLeft :: int
  scrollTop :: int
  prevScrollLeft :: int
  prevScrollTop :: int
  maxScrollLeft :: int
  maxScrollTop :: int

definition kept_in :: "int \<Rightarrow> int \<Rightarrow> int" where
  "kept_in m x = max 0 (min m x)"

definition scrolled :: "scroll_pane \<Rightarrow> scroll_pane" where
  "scrolled p =
     (let l = (if scrollLeft p > prevScrollLeft p
               then kept_in (maxScrollLeft p) (scrollLeft p + (STEP - scrollLeft p mod STEP))
               else kept_in (maxScrollLeft p) (scrollLeft p - scrollLeft p mod STEP));
          t = (if prevScrollTop p > scrollTop p
               then kept_in (maxScrollTop p) (scrollTop p + (STEP - scrollTop p mod STEP))
               else if scrollTop p \<le> STEP then 0
               else kept_in (maxScrollTop p) (scrollTop p - scrollTop p mod STEP))
      in p\<lparr>scrollLeft := l, scrollTop := t, prevScrollLeft := l, prevScrollTop := t\<rparr>)"

text \<open>From a position on the grid, scrolling up by less than a step is undone.\<close>

lemma scrolling_up_a_little_is_undone:
  assumes "prevScrollTop p = k * STEP" "k * STEP - STEP < scrollTop p" "scrollTop p < k * STEP"
    and "0 \<le> scrollTop p" "k * STEP \<le> maxScrollTop p"
  shows "scrollTop (scrolled p) = prevScrollTop p"
proof -
  have s: "(0::int) < STEP" by (simp add: STEP_def)
  have d: "scrollTop p mod STEP = scrollTop p - (k - 1) * STEP"
  proof -
    have "scrollTop p = (k - 1) * STEP + (scrollTop p - (k - 1) * STEP)" by simp
    moreover have "0 \<le> scrollTop p - (k - 1) * STEP" "scrollTop p - (k - 1) * STEP < STEP"
      using assms(2,3) by (simp_all add: algebra_simps)
    ultimately show ?thesis by (metis mod_mult_self3 mod_pos_pos_trivial)
  qed
  have "scrollTop p + (STEP - scrollTop p mod STEP) = k * STEP" unfolding d by (simp add: algebra_simps)
  then show ?thesis using assms s by (simp add: scrolled_def Let_def kept_in_def)
qed

text \<open>To the right a position that is on the grid already goes one step further.\<close>

lemma scrolling_right_to_the_grid_goes_on:
  assumes "scrollLeft p = k * STEP" "prevScrollLeft p < scrollLeft p" "0 \<le> k" "scrollLeft p + STEP \<le> maxScrollLeft p"
  shows "scrollLeft (scrolled p) = scrollLeft p + STEP"
  using assms by (simp add: scrolled_def Let_def kept_in_def STEP_def)

section \<open>The page of vocabularies\<close>

text \<open>The dictionary of known vocabularies, the titles of the panes, and what the server has.\<close>

record vocab_page =
  vocabularies_by_id :: "string list"
  pane_titles :: "string list"
  server_vocabs :: "string list"

definition full_vocab_id :: "string \<Rightarrow> string" where
  "full_vocab_id i = ''urn:vocab:'' @ i"

definition isDuplicateVocabularyId :: "string \<Rightarrow> vocab_page \<Rightarrow> bool" where
  "isDuplicateVocabularyId i p =
     (full_vocab_id i \<in> set (vocabularies_by_id p) \<or> full_vocab_id i \<in> set object_prototype)"

definition isDuplicateVocabularyName :: "string \<Rightarrow> vocab_page \<Rightarrow> bool" where
  "isDuplicateVocabularyName name p = (name \<in> set (pane_titles p))"

text \<open>\<open>init\<close> and the opening of the term list read all vocabularies.\<close>

definition init_vocabularies :: "vocab_page \<Rightarrow> vocab_page" where
  "init_vocabularies p = p\<lparr>vocabularies_by_id := server_vocabs p, pane_titles := server_vocabs p\<rparr>"

text \<open>An accepted request to add one, and the answer to a deletion.\<close>

definition vocabulary_added :: "string \<Rightarrow> vocab_page \<Rightarrow> vocab_page" where
  "vocabulary_added i p =
     p\<lparr>server_vocabs := server_vocabs p @ [full_vocab_id i], pane_titles := pane_titles p @ [full_vocab_id i]\<rparr>"

definition vocabulary_deleted :: "string \<Rightarrow> vocab_page \<Rightarrow> vocab_page" where
  "vocabulary_deleted v p =
     p\<lparr>server_vocabs := removeAll v (server_vocabs p), pane_titles := remove1 v (pane_titles p)\<rparr>"

lemma full_id_not_inherited: "full_vocab_id i \<notin> set object_prototype"
proof -
  have "list_all (\<lambda>s. \<not> starts_with ''urn:'' s) object_prototype" by code_simp
  then show ?thesis by (auto simp: full_vocab_id_def list_all_iff)
qed

lemma check_is_right_after_reading:
  "isDuplicateVocabularyId i (init_vocabularies p) \<longleftrightarrow> full_vocab_id i \<in> set (server_vocabs (init_vocabularies p))"
  using full_id_not_inherited by (simp add: isDuplicateVocabularyId_def init_vocabularies_def)

lemma check_misses_what_was_added_since:
  "\<not> isDuplicateVocabularyId i p \<Longrightarrow> \<not> isDuplicateVocabularyId i (vocabulary_added i p)"
  by (simp add: isDuplicateVocabularyId_def vocabulary_added_def)

lemma check_refuses_what_was_deleted_since:
  "isDuplicateVocabularyId i p \<Longrightarrow> isDuplicateVocabularyId i (vocabulary_deleted (full_vocab_id i) p)"
  by (simp add: isDuplicateVocabularyId_def vocabulary_deleted_def)

section \<open>Keys\<close>

record key_editor =
  key_options :: "(string \<times> string) list"     \<comment> \<open>identifier and name\<close>
  key_selected :: nat
  delete_enabled :: bool
  save_enabled :: bool
  key_fields :: "(string \<times> string \<times> string)"  \<comment> \<open>name, password and text of the key\<close>

definition updateKeyChoices :: "string \<Rightarrow> (string \<times> string) list \<Rightarrow> key_editor \<Rightarrow> key_editor" where
  "updateKeyChoices initial_key_id items e =
     (let xs = sort_key fst items
      in e\<lparr>key_options := xs, key_selected := noted_index initial_key_id 0 0 (map fst xs), delete_enabled := True\<rparr>)"

definition key_post :: "key_editor \<Rightarrow> string" where
  "key_post e =
     (case key_fields e of (n, pw, pem) \<Rightarrow>
        ''<PionConfig><Key>'' @ makeXmlLeafElement ''Name'' (JStr n) @ makeXmlLeafElement ''Password'' (JStr pw) @
        makeXmlLeafElement ''PEM'' (JStr pem) @ ''</Key></PionConfig>'')"

definition key_added :: "(string \<times> string) list \<Rightarrow> key_editor \<Rightarrow> key_editor" where
  "key_added items e = (updateKeyChoices [] items e)\<lparr>key_fields := ([], [], []), save_enabled := False\<rparr>"

definition delete_key_url :: "key_editor \<Rightarrow> string" where
  "delete_key_url e = ''/keystore/'' @ value_at (key_selected e) (map fst (key_options e))"

text \<open>Without keys the button is enabled all the same, and the request names the whole collection.\<close>

lemma deleting_without_keys:
  "delete_enabled (updateKeyChoices i [] e) \<and> delete_key_url (updateKeyChoices i [] e) = ''/keystore/''"
  by (simp add: updateKeyChoices_def delete_key_url_def value_at_def)

lemma initial_key_is_selected:
  assumes "i \<in> fst ` set items"
  shows "delete_key_url (updateKeyChoices i items e) = ''/keystore/'' @ i"
  using value_at_noted [of i "map fst (sort_key fst items)"] assms
  by (simp add: updateKeyChoices_def delete_key_url_def Let_def)

section \<open>The tree of the server\<close>

text \<open>\<open>getValues\<close> of the store that is meant to put items without children first.\<close>

fun move_first :: "('a \<Rightarrow> bool) \<Rightarrow> 'a list \<Rightarrow> 'a list" where
  "move_first has_services [] = []"
| "move_first has_services (v # vs) = (if has_services v then vs @ [v] else v # vs)"

definition childless_first :: "('a \<Rightarrow> bool) \<Rightarrow> 'a list \<Rightarrow> 'a list" where
  "childless_first has_services vs = (move_first has_services ^^ length vs) vs"

lemma move_first_stuck: "\<not> P v \<Longrightarrow> (move_first P ^^ n) (v # vs) = v # vs"
  by (induction n) simp_all

lemma move_first_all: "list_all P us \<Longrightarrow> (move_first P ^^ length us) (us @ vs) = vs @ us"
proof (induction us arbitrary: vs)
  case (Cons u us)
  then have "(move_first P ^^ length (u # us)) ((u # us) @ vs) = (move_first P ^^ length us) (us @ (vs @ [u]))"
    by (simp add: funpow_Suc_right del: funpow.simps)
  then show ?case using Cons.IH [of "vs @ [u]"] Cons.prems by simp
qed simp

text \<open>It only moves the leading items with children, so a later one stays before childless items.\<close>

theorem childless_first_moves_the_leading_ones:
  "childless_first P vs = dropWhile P vs @ takeWhile P vs"
proof -
  have h: "(move_first P ^^ length (takeWhile P vs)) vs = dropWhile P vs @ takeWhile P vs"
  proof -
    have "list_all P (takeWhile P vs)" by (auto simp: list_all_iff dest: set_takeWhileD)
    from move_first_all [OF this, of "dropWhile P vs"] show ?thesis by (simp only: takeWhile_dropWhile_id)
  qed
  have n: "length vs = length (dropWhile P vs) + length (takeWhile P vs)"
    by (metis add.commute length_append takeWhile_dropWhile_id)
  have "childless_first P vs = (move_first P ^^ length (dropWhile P vs)) (dropWhile P vs @ takeWhile P vs)"
    unfolding childless_first_def n funpow_add comp_def h ..
  also have "\<dots> = dropWhile P vs @ takeWhile P vs"
  proof (cases "dropWhile P vs")
    case (Cons w ws)
    then have "\<not> P w" by (metis hd_dropWhile list.distinct(1) list.sel(1))
    then show ?thesis unfolding Cons append_Cons by (rule move_first_stuck)
  next
    case Nil
    show ?thesis unfolding Nil by simp
  qed
  finally show ?thesis .
qed

lemma childless_first_example: "childless_first (\<lambda>b. b) [True, False, True, False] = [False, True, False, True]"
  by (simp add: childless_first_moves_the_leading_ones)

text \<open>The label of a node of the tree: tag, identifier, name of an option, text.\<close>

definition tree_label :: "string \<Rightarrow> string option \<Rightarrow> string \<Rightarrow> string option \<Rightarrow> string" where
  "tree_label tag node_id name txt =
     (case node_id of
        Some (c # cs) \<Rightarrow> tag @ '': '' @ c # cs
      | _ \<Rightarrow> (let label = (if tag = ''Option'' then tag @ '' '' @ name else tag)
              in case txt of Some t \<Rightarrow> label @ '': '' @ t | None \<Rightarrow> label))"

section \<open>Plugins and permissions\<close>

text \<open>\<open>initAvailablePluginList\<close>: whether a request is sent, and the list after its answer.\<close>

definition asks_for_plugins :: "string list option \<Rightarrow> bool" where
  "asks_for_plugins available_plugins = (available_plugins = None)"

definition plugins_answer :: "node \<Rightarrow> string list option" where
  "plugins_answer response = Some (map textContent (getElementsByTagName response ''Plugin''))"

definition getPermissions :: "node \<Rightarrow> node jsobj" where
  "getPermissions response =
     fold (\<lambda>n ob. obj_put ob (case getAttribute n ''type'' of Some t \<Rightarrow> t | None \<Rightarrow> ''null'') n)
       (getElementsByTagName response ''Permission'') []"

lemma permissions_by_type:
  "obj_has (getPermissions response) t \<longleftrightarrow>
   (\<exists>n\<in>set (getElementsByTagName response ''Permission''). t = (case getAttribute n ''type'' of Some t \<Rightarrow> t | None \<Rightarrow> ''null''))"
proof -
  have "obj_has (fold (\<lambda>n ob. obj_put ob (f n) n) ns ob) t \<longleftrightarrow> (\<exists>n\<in>set ns. t = f n) \<or> obj_has ob t" for f :: "node \<Rightarrow> string" and ns ob
    by (induction ns arbitrary: ob) (auto simp: obj_has_iff obj_get_put)
  then show ?thesis by (simp add: getPermissions_def obj_has_def)
qed

section \<open>The editor of a Python reactor\<close>

text \<open>A tab replaces the selection between two places, and the cursor follows it.\<close>

definition insert_tab :: "nat \<Rightarrow> nat \<Rightarrow> string \<Rightarrow> string \<times> nat" where
  "insert_tab p1 p2 t = (take p1 t @ CHR 0x09 # drop p2 t, p1 + 1)"

definition python_put_data :: "string \<Rightarrow> string" where
  "python_put_data source = makeXmlLeafElement ''PythonSource'' (JStr source)"

lemma typing_tabs_keeps_the_rest:
  "p1 \<le> p2 \<Longrightarrow> p2 \<le> length t \<Longrightarrow>
   take p1 (fst (insert_tab p1 p2 t)) = take p1 t \<and> drop (snd (insert_tab p1 p2 t)) (fst (insert_tab p1 p2 t)) = drop p2 t"
  by (simp add: insert_tab_def)

section \<open>Columns and export of the monitor\<close>

text \<open>The tag of each term in the answer, and whether the columns are built again.\<close>

definition columns_changed :: "string jsobj option \<Rightarrow> string jsobj \<Rightarrow> bool" where
  "columns_changed prev_col_tags col_tags =
     (case prev_col_tags of
        None \<Rightarrow> True
      | Some prev \<Rightarrow>
          list_ex (\<lambda>k. obj_get col_tags k \<noteq> obj_get prev k) (map fst col_tags) \<or>
          list_ex (\<lambda>k. obj_get col_tags k \<noteq> obj_get prev k) (map fst prev))"

lemma columns_are_built_when_they_differ:
  "columns_changed (Some prev) tags \<longleftrightarrow> obj_get tags \<noteq> obj_get prev"
proof
  assume "obj_get tags \<noteq> obj_get prev"
  then obtain k where k: "obj_get tags k \<noteq> obj_get prev k" by blast
  then have "obj_has tags k \<or> obj_has prev k" by (auto simp: obj_has_iff)
  then show "columns_changed (Some prev) tags" using k by (auto simp: columns_changed_def list_ex_iff obj_has_def)
qed (auto simp: columns_changed_def list_ex_iff)

definition column_name :: "string \<Rightarrow> string" where
  "column_name key =
     (if key = ''Event Type'' then key else case split_char (CHR ''#'') key of _ # n # _ \<Rightarrow> n | _ \<Rightarrow> ''undefined'')"

definition csv_cell :: "string \<Rightarrow> string" where
  "csv_cell s = [CHR 0x22] @ replace_char (CHR 0x22) [CHR 0x22, CHR 0x22] s @ [CHR 0x22]"

definition showSelectedEventsInCsvFormat :: "string list \<Rightarrow> string list list \<Rightarrow> string" where
  "showSelectedEventsInCsvFormat names rows =
     join '','' names @ [CHR 0x0A] @ concat (map (\<lambda>r. join '','' (map csv_cell r) @ [CHR 0x0A]) rows)"

definition showSelectedEventsUnformatted :: "string list list \<Rightarrow> string" where
  "showSelectedEventsUnformatted rows = concat (map (\<lambda>r. join '' '' r @ [CHR 0x0A]) rows)"

end
