(* ===== verification/Pion_Copy.thy ===== *)
theory Pion_Copy
  imports Pion_Prelude
begin

text \<open>
  Copying a reactor (\<open>pion.reactors.copyReactor\<close> in \<open>scripts/reactors.js\<close>): the configuration is
  fetched as text and edited by regular expressions before it is posted. The expressions are
  sequences of literals, optional characters and greedy repetitions of a class of characters, matched
  with backtracking. The property says that the copy differs in name and place only.
\<close>

section \<open>Regular expressions\<close>

datatype rx = Lit string | Many "char \<Rightarrow> bool" | Plus "char \<Rightarrow> bool" | Maybe char

text \<open>
  A match at the start of a text: what the repetitions matched, and the rest. A repetition takes as
  much as the remaining expression allows, an optional character is taken if possible.
\<close>

fun rx_match :: "rx list \<Rightarrow> string \<Rightarrow> (string list \<times> string) option" where
  "rx_match [] s = Some ([], s)"
| "rx_match (Lit w # r) s = (if starts_with w s then rx_match r (drop (length w) s) else None)"
| "rx_match (Maybe a # r) s =
     (case s of
        [] \<Rightarrow> rx_match r []
      | c # t \<Rightarrow> (case (if c = a then rx_match r t else None) of Some m \<Rightarrow> Some m | None \<Rightarrow> rx_match r (c # t)))"
| "rx_match (Many p # r) [] = map_option (\<lambda>(xs, rest). ([] # xs, rest)) (rx_match r [])"
| "rx_match (Many p # r) (c # t) =
     (case (if p c then rx_match (Many p # r) t else None) of
        Some (x # xs, rest) \<Rightarrow> Some ((c # x) # xs, rest)
      | _ \<Rightarrow> map_option (\<lambda>(xs, rest). ([] # xs, rest)) (rx_match r (c # t)))"
| "rx_match (Plus p # r) [] = None"
| "rx_match (Plus p # r) (c # t) =
     (case (if p c then rx_match (Many p # r) t else None) of
        Some (x # xs, rest) \<Rightarrow> Some ((c # x) # xs, rest)
      | _ \<Rightarrow> None)"

text \<open>The first place with a match: what is before it, and the match.\<close>

fun rx_find :: "rx list \<Rightarrow> string \<Rightarrow> (string \<times> string list \<times> string) option" where
  "rx_find r [] = map_option (\<lambda>m. ([], m)) (rx_match r [])"
| "rx_find r (c # t) =
     (case rx_match r (c # t) of
        Some m \<Rightarrow> Some ([], m)
      | None \<Rightarrow> map_option (\<lambda>(pre, m). (c # pre, m)) (rx_find r t))"

definition rx_replace :: "rx list \<Rightarrow> (string list \<Rightarrow> string) \<Rightarrow> string \<Rightarrow> string" where
  "rx_replace r f s = (case rx_find r s of None \<Rightarrow> s | Some (pre, caps, rest) \<Rightarrow> pre @ f caps @ rest)"

section \<open>Copying\<close>

definition no_newline :: "char \<Rightarrow> bool" where
  "no_newline c = (c \<notin> set [CHR 0x0A, CHR 0x0D])"

definition rx_place :: "rx list" where
  "rx_place = [Lit ''<X>'', Plus (is_digit 10), Lit ''</X>'', Many is_space, Lit ''<Y>'', Plus (is_digit 10), Lit ''</Y>'']"

definition rx_head :: "rx list" where
  "rx_head = [Maybe (CHR ''<''), Many no_newline, Lit ''>'', Many is_space, Lit ''<PionConfig'', Many no_newline, Lit ''>'',
     Many is_space, Lit (''<Reactor id='' @ [CHR 0x22]), Many (\<lambda>c. c \<noteq> CHR 0x22), Lit [CHR 0x22, CHR ''>'']]"

definition rx_name :: "rx list" where
  "rx_name = [Lit ''<Name>'', Many no_newline, Lit ''</Name>'']"

definition rx_x :: "rx list" where
  "rx_x = [Lit ''<X>'', Plus (is_digit 10), Lit ''</X>'']"

definition rx_y :: "rx list" where
  "rx_y = [Lit ''<Y>'', Plus (is_digit 10), Lit ''</Y>'']"

text \<open>The text that is posted; \<open>None\<close> when the place is not found and the handler throws.\<close>

definition moved :: "string \<Rightarrow> string" where
  "moved digits = nat_digits (digits_value 10 digits + 20)"

definition copyReactor :: "string \<Rightarrow> string option" where
  "copyReactor response =
     (case rx_find rx_place response of
        Some (_, [x, _, y], _) \<Rightarrow>
          (let p1 = rx_replace rx_head (\<lambda>m. ''<PionConfig><Reactor>'') response;
               p2 = rx_replace rx_name (\<lambda>m. ''<Name>Copy of '' @ hd m @ ''</Name>'') p1;
               p3 = rx_replace rx_x (\<lambda>m. ''<X>'' @ moved x @ ''</X>'') p2
           in Some (rx_replace rx_y (\<lambda>m. ''<Y>'' @ moved y @ ''</Y>'') p3))
      | _ \<Rightarrow> None)"

section \<open>Where a tag occurs\<close>

fun free :: "string \<Rightarrow> string \<Rightarrow> bool" where
  "free w [] = True"
| "free w (c # t) = (\<not> starts_with w (c # t) \<and> free w t)"

lemma starts_with_cross:
  "CHR ''<'' \<notin> set v \<Longrightarrow> starts_with v (a @ CHR ''<'' # s) = starts_with v a"
proof (induction v a rule: starts_with.induct)
  case (2 p ps)
  then show ?case by auto
qed auto

lemma free_before_tag:
  "CHR ''<'' \<notin> set v \<Longrightarrow> free (CHR ''<'' # v) (a @ CHR ''<'' # s) \<longleftrightarrow> free (CHR ''<'' # v) a \<and> free (CHR ''<'' # v) (CHR ''<'' # s)"
  by (induction a) (auto simp: starts_with_cross)

lemma free_plain: "CHR ''<'' \<notin> set a \<Longrightarrow> free (CHR ''<'' # v) (a @ s) \<longleftrightarrow> free (CHR ''<'' # v) s"
  by (induction a) auto

lemma free_drop: "free w t \<Longrightarrow> free w (drop i t)"
proof (induction t arbitrary: i)
  case (Cons c t)
  then show ?case by (cases i) auto
qed simp

lemma free_no_start: "w \<noteq> [] \<Longrightarrow> free w t \<Longrightarrow> \<not> starts_with w t"
  by (cases t; cases w) auto

lemma find_after_free:
  assumes "CHR ''<'' \<notin> set v" "free (CHR ''<'' # v) a"
  shows "rx_find (Lit (CHR ''<'' # v) # r) (a @ CHR ''<'' # s) =
     map_option (\<lambda>(pre, m). (a @ pre, m)) (rx_find (Lit (CHR ''<'' # v) # r) (CHR ''<'' # s))"
  using assms(2)
proof (induction a)
  case Nil
  have "map_option (\<lambda>(pre, m). ([] @ pre, m)) z = z" for z :: "(string \<times> string list \<times> string) option"
    by (cases z) auto
  then show ?case by (simp only: append_Nil)
next
  case (Cons c a)
  have "\<not> starts_with (CHR ''<'' # v) (c # a @ CHR ''<'' # s)"
    using Cons.prems starts_with_cross [OF assms(1), of a s] by auto
  then have "rx_match (Lit (CHR ''<'' # v) # r) (c # a @ CHR ''<'' # s) = None" by (simp only: rx_match.simps if_False)
  then show ?case using Cons by (simp only: append_Cons rx_find.simps option.case option.map_comp) (simp add: option.map_comp comp_def case_prod_beta)
qed

lemma find_here: "rx_match r s = Some m \<Longrightarrow> rx_find r s = Some ([], m)"
  by (cases s) simp_all

section \<open>Repetitions\<close>

lemma many_stops:
  "\<forall>d\<in>set x. p d \<Longrightarrow> \<not> p c \<Longrightarrow> rx_match r (c # s) = Some (cs, rest) \<Longrightarrow>
   rx_match (Many p # r) (x @ c # s) = Some (x # cs, rest)"
  by (induction x) simp_all

lemma plus_stops:
  "x \<noteq> [] \<Longrightarrow> \<forall>d\<in>set x. p d \<Longrightarrow> \<not> p c \<Longrightarrow> rx_match r (c # s) = Some (cs, rest) \<Longrightarrow>
   rx_match (Plus p # r) (x @ c # s) = Some (x # cs, rest)"
  using many_stops [of "tl x" p c r s cs rest] by (cases x) simp_all

definition never :: "rx list \<Rightarrow> string \<Rightarrow> bool" where
  "never r t = (\<forall>i. rx_match r (drop i t) = None)"

lemma never_many: "never r t \<Longrightarrow> rx_match (Many p # r) t = None"
proof (induction t)
  case Nil
  then show ?case by (simp add: never_def)
next
  case (Cons c t)
  have "never r t" using Cons.prems unfolding never_def by (metis drop_Suc_Cons)
  moreover have "rx_match r (c # t) = None" using Cons.prems unfolding never_def by (metis drop0)
  ultimately show ?case using Cons.IH by simp
qed

lemma many_backs_up:
  "\<forall>d\<in>set x. p d \<Longrightarrow> rx_match r (c # s) = Some (cs, rest) \<Longrightarrow> never r s \<Longrightarrow>
   rx_match (Many p # r) (x @ c # s) = Some (x # cs, rest)"
  by (induction x) (simp_all add: never_many)

lemma no_match_without_literal: "free w s \<Longrightarrow> Lit w \<in> set r \<Longrightarrow> w \<noteq> [] \<Longrightarrow> rx_match r s = None"
proof (induction r s rule: rx_match.induct)
  case (2 u r s)
  show ?case
  proof (cases "u = w")
    case True
    then show ?thesis using free_no_start 2 by simp
  next
    case False
    then show ?thesis using 2 free_drop by simp
  qed
next
  case (3 a r s)
  then show ?case by (cases s) auto
qed (auto split: option.split list.split)

lemma never_without_literal:
  assumes "CHR ''>'' \<notin> set u" "Lit w \<in> set r" "w \<noteq> []" "free w t"
  shows "never (Lit [CHR ''>''] # r) (u @ CHR ''<'' # t)"
proof -
  have "rx_match (Lit [CHR ''>''] # r) (drop i (u @ CHR ''<'' # t)) = None" for i
    using assms(1)
  proof (induction u arbitrary: i)
    case Nil
    show ?case
    proof (cases i)
      case (Suc j)
      have "free w (drop j t)" using assms(4) free_drop by blast
      then show ?thesis using Suc assms(2,3) no_match_without_literal [of w "drop j t" "Lit [CHR ''>''] # r"] by simp
    qed simp
  next
    case (Cons c u)
    then show ?case by (cases i) auto
  qed
  then show ?thesis by (simp add: never_def)
qed

section \<open>The copy\<close>

text \<open>The parts of a configuration as the server writes it.\<close>

record reactor_text =
  rt_xml :: string
  rt_space :: string
  rt_config :: string
  rt_space2 :: string
  rt_id :: string
  rt_before :: string
  rt_name :: string
  rt_between :: string
  rt_x :: string
  rt_space3 :: string
  rt_y :: string
  rt_after :: string

definition response_text :: "reactor_text \<Rightarrow> string" where
  "response_text d =
     ''<'' @ rt_xml d @ ''>'' @ rt_space d @ ''<PionConfig'' @ rt_config d @ ''>'' @ rt_space2 d @
     ''<Reactor id='' @ [CHR 0x22] @ rt_id d @ [CHR 0x22] @ ''>'' @ rt_before d @
     ''<Name>'' @ rt_name d @ ''</Name>'' @ rt_between d @
     ''<X>'' @ rt_x d @ ''</X>'' @ rt_space3 d @ ''<Y>'' @ rt_y d @ ''</Y>'' @ rt_after d"

definition special_tags :: "string list" where
  "special_tags = [''<PionConfig'', ''<Reactor id='' @ [CHR 0x22], ''<Name>'', ''</Name>'', ''<X>'', ''<Y>'']"

text \<open>The tags that matter occur once, and the other parts have the characters that belong there.\<close>

definition well_formed_text :: "reactor_text \<Rightarrow> bool" where
  "well_formed_text d =
     (list_all (\<lambda>c. no_newline c \<and> c \<noteq> CHR ''<'') (rt_xml d @ rt_config d @ rt_name d) \<and>
      starts_with ''?'' (rt_xml d) \<and> list_all is_space (rt_space d @ rt_space2 d @ rt_space3 d) \<and>
      list_all (\<lambda>c. c \<noteq> CHR 0x22 \<and> c \<noteq> CHR ''<'') (rt_id d) \<and>
      list_all (is_digit 10) (rt_x d @ rt_y d) \<and> rt_x d \<noteq> [] \<and> rt_y d \<noteq> [] \<and>
      list_all (\<lambda>w. free w (rt_before d) \<and> free w (rt_between d) \<and> free w (rt_after d)) special_tags)"

lemma space_facts: "is_space c \<Longrightarrow> c \<noteq> CHR ''<'' \<and> c \<noteq> CHR ''>''"
  by (auto simp: is_space_def)

lemma digit_facts: "is_digit 10 c \<Longrightarrow> c \<noteq> CHR ''<''"
proof -
  have "\<not> is_digit 10 (CHR ''<'')" by code_simp
  then show "is_digit 10 c \<Longrightarrow> c \<noteq> CHR ''<''" by auto
qed

lemma lt_is_plain: "\<not> is_digit 10 (CHR ''<'')" "\<not> is_space (CHR ''<'')" "no_newline (CHR ''>'')"
  by code_simp+

text \<open>The part of the text from the name on, with any name, and what the expressions find in it.\<close>

definition tail_text :: "reactor_text \<Rightarrow> string \<Rightarrow> string \<Rightarrow> string \<Rightarrow> string" where
  "tail_text d name x y =
     ''<Name>'' @ name @ ''</Name>'' @ rt_between d @
     ''<X>'' @ x @ ''</X>'' @ rt_space3 d @ ''<Y>'' @ y @ ''</Y>'' @ rt_after d"

lemma plain_parts:
  assumes "well_formed_text d"
  shows "CHR ''<'' \<notin> set (rt_xml d)" "CHR ''<'' \<notin> set (rt_config d)" "CHR ''<'' \<notin> set (rt_name d)"
    "CHR ''<'' \<notin> set (rt_space d)" "CHR ''<'' \<notin> set (rt_space2 d)" "CHR ''<'' \<notin> set (rt_space3 d)"
    "CHR ''<'' \<notin> set (rt_id d)" "CHR ''<'' \<notin> set (rt_x d)" "CHR ''<'' \<notin> set (rt_y d)"
    "CHR ''>'' \<notin> set (rt_space d)" "CHR ''>'' \<notin> set (rt_space2 d)"
proof -
  have a: "\<forall>c\<in>set (rt_xml d @ rt_config d @ rt_name d). no_newline c \<and> c \<noteq> CHR ''<''"
    and b: "\<forall>c\<in>set (rt_space d @ rt_space2 d @ rt_space3 d). is_space c"
    and i: "\<forall>c\<in>set (rt_id d). c \<noteq> CHR 0x22 \<and> c \<noteq> CHR ''<''" and n: "\<forall>c\<in>set (rt_x d @ rt_y d). is_digit 10 c"
    using assms unfolding well_formed_text_def list_all_iff by blast+
  show "CHR ''<'' \<notin> set (rt_xml d)" "CHR ''<'' \<notin> set (rt_config d)" "CHR ''<'' \<notin> set (rt_name d)"
    using a unfolding set_append by blast+
  show "CHR ''<'' \<notin> set (rt_space d)" "CHR ''<'' \<notin> set (rt_space2 d)" "CHR ''<'' \<notin> set (rt_space3 d)"
    "CHR ''>'' \<notin> set (rt_space d)" "CHR ''>'' \<notin> set (rt_space2 d)"
    using b space_facts unfolding set_append by blast+
  show "CHR ''<'' \<notin> set (rt_id d)" using i by blast
  show "CHR ''<'' \<notin> set (rt_x d)" "CHR ''<'' \<notin> set (rt_y d)" using n digit_facts unfolding set_append by blast+
qed

lemma free_parts:
  assumes "well_formed_text d" "w \<in> set special_tags"
  shows "free w (rt_before d)" "free w (rt_between d)" "free w (rt_after d)"
  using assms by (simp_all add: well_formed_text_def list_all_iff)

lemma tag_in_special: "''<PionConfig'' \<in> set special_tags" "''<Reactor id='' @ [CHR 0x22] \<in> set special_tags"
  "''<Name>'' \<in> set special_tags" "''</Name>'' \<in> set special_tags" "''<X>'' \<in> set special_tags" "''<Y>'' \<in> set special_tags"
  by (simp_all add: special_tags_def)

lemma replace_name:
  assumes "well_formed_text d" "CHR ''<'' \<notin> set x" "CHR ''<'' \<notin> set y"
  shows "rx_replace rx_name (\<lambda>m. ''<Name>Copy of '' @ hd m @ ''</Name>'') (''<PionConfig><Reactor>'' @ rt_before d @ tail_text d (rt_name d) x y) =
    ''<PionConfig><Reactor>'' @ rt_before d @ tail_text d (''Copy of '' @ rt_name d) x y"
proof -
  let ?rest = "rt_between d @ ''<X>'' @ x @ ''</X>'' @ rt_space3 d @ ''<Y>'' @ y @ ''</Y>'' @ rt_after d"
  have f: "free ''</Name>'' ?rest"
    using assms(2,3) plain_parts [OF assms(1)] free_parts [OF assms(1) tag_in_special(4)]
    by (simp add: free_before_tag free_plain)
  have n: "never [Lit ''</Name>''] (''/Name>'' @ ?rest)"
  proof -
    have "free ''</Name>'' (''/Name>'' @ ?rest)" using f by simp
    then have "rx_match [Lit ''</Name>''] (drop i (''/Name>'' @ ?rest)) = None" for i
      using free_drop no_match_without_literal [of "''</Name>''" _ "[Lit ''</Name>'']"] by simp
    then show ?thesis by (simp add: never_def)
  qed
  have nl: "\<forall>c\<in>set (rt_name d). no_newline c" using assms(1) by (simp add: well_formed_text_def list_all_iff)
  have m: "rx_match rx_name (tail_text d (rt_name d) x y) = Some ([rt_name d], ?rest)"
    using many_backs_up [OF nl, of "[Lit ''</Name>'']" "CHR ''<''" "''/Name>'' @ ?rest" "[]" ?rest] n
    by (simp add: rx_name_def tail_text_def)
  have a: "free ''<Name>'' (''<PionConfig><Reactor>'' @ rt_before d)"
    using free_parts [OF assms(1) tag_in_special(3)] by simp
  have "rx_find rx_name (''<PionConfig><Reactor>'' @ rt_before d @ tail_text d (rt_name d) x y) =
      Some (''<PionConfig><Reactor>'' @ rt_before d, [rt_name d], ?rest)"
    using find_after_free [of "''Name>''" "''<PionConfig><Reactor>'' @ rt_before d", OF _ a] find_here [OF m]
    by (simp add: rx_name_def tail_text_def)
  then show ?thesis by (simp add: rx_replace_def tail_text_def)
qed

lemma digits_element:
  assumes "\<forall>c\<in>set x. is_digit 10 c" "x \<noteq> []"
  shows "rx_match [Lit (CHR ''<'' # t), Plus (is_digit 10), Lit (CHR ''<'' # u)] (CHR ''<'' # t @ x @ CHR ''<'' # u @ s) = Some ([x], s)"
  using plus_stops [OF assms(2,1) lt_is_plain(1), of "[Lit (CHR ''<'' # u)]" "u @ s" "[]" s] by simp

lemma find_digits:
  assumes "free (CHR ''<'' # t) a" "CHR ''<'' \<notin> set t" "\<forall>c\<in>set x. is_digit 10 c" "x \<noteq> []"
  shows "rx_replace [Lit (CHR ''<'' # t), Plus (is_digit 10), Lit (CHR ''<'' # u)] f (a @ CHR ''<'' # t @ x @ CHR ''<'' # u @ s) = a @ f [x] @ s"
  using find_after_free [OF assms(2,1)] find_here [OF digits_element [OF assms(3,4)], of t u s] by (simp add: rx_replace_def)

lemma replace_x:
  assumes "well_formed_text d" "CHR ''<'' \<notin> set name" "\<forall>c\<in>set x. is_digit 10 c" "x \<noteq> []"
  shows "rx_replace rx_x (\<lambda>m. ''<X>'' @ x' @ ''</X>'') (''<PionConfig><Reactor>'' @ rt_before d @ tail_text d name x y) =
    ''<PionConfig><Reactor>'' @ rt_before d @ tail_text d name x' y"
proof -
  have a: "free ''<X>'' (''<PionConfig><Reactor>'' @ rt_before d @ ''<Name>'' @ name @ ''</Name>'' @ rt_between d)"
    using free_parts [OF assms(1) tag_in_special(5)] assms(2) by (simp add: free_before_tag free_plain)
  show ?thesis
    using find_digits [OF a _ assms(3,4), of "''/X>''" "\<lambda>m. ''<X>'' @ x' @ ''</X>''" "rt_space3 d @ ''<Y>'' @ y @ ''</Y>'' @ rt_after d"]
    by (simp add: rx_x_def tail_text_def)
qed

lemma replace_y:
  assumes "well_formed_text d" "CHR ''<'' \<notin> set name" "CHR ''<'' \<notin> set x" "\<forall>c\<in>set y. is_digit 10 c" "y \<noteq> []"
  shows "rx_replace rx_y (\<lambda>m. ''<Y>'' @ y' @ ''</Y>'') (''<PionConfig><Reactor>'' @ rt_before d @ tail_text d name x y) =
    ''<PionConfig><Reactor>'' @ rt_before d @ tail_text d name x y'"
proof -
  have a: "free ''<Y>'' (''<PionConfig><Reactor>'' @ rt_before d @ ''<Name>'' @ name @ ''</Name>'' @ rt_between d @ ''<X>'' @ x @ ''</X>'' @ rt_space3 d)"
    using free_parts [OF assms(1) tag_in_special(6)] assms(2,3) plain_parts(6) [OF assms(1)]
      free_plain [of "rt_space3 d" "''Y>''" "[]"]
    by (simp add: free_before_tag free_plain)
  show ?thesis
    using find_digits [OF a _ assms(4,5), of "''/Y>''" "\<lambda>m. ''<Y>'' @ y' @ ''</Y>''" "rt_after d"]
    by (simp add: rx_y_def tail_text_def)
qed

lemma replace_head:
  assumes "well_formed_text d"
  shows "rx_replace rx_head (\<lambda>m. ''<PionConfig><Reactor>'') (response_text d) =
    ''<PionConfig><Reactor>'' @ rt_before d @ tail_text d (rt_name d) (rt_x d) (rt_y d)"
proof -
  let ?rest = "rt_before d @ tail_text d (rt_name d) (rt_x d) (rt_y d)"
  let ?r5 = "[Lit [CHR 0x22, CHR ''>'']]"
  let ?r4 = "Lit (''<Reactor id='' @ [CHR 0x22]) # Many (\<lambda>c. c \<noteq> CHR 0x22) # ?r5"
  let ?r3 = "Many is_space # ?r4"
  let ?r2 = "Lit ''<PionConfig'' # Many no_newline # Lit ''>'' # ?r3"
  let ?s4 = "''Reactor id='' @ [CHR 0x22] @ rt_id d @ [CHR 0x22] @ ''>'' @ ?rest"
  let ?s2 = "''PionConfig'' @ rt_config d @ ''>'' @ rt_space2 d @ ''<'' @ ?s4"
  note plain = plain_parts [OF assms]
  have ok: "\<forall>c\<in>set (rt_xml d). no_newline c" "\<forall>c\<in>set (rt_config d). no_newline c" "\<forall>c\<in>set (rt_space d). is_space c"
    "\<forall>c\<in>set (rt_space2 d). is_space c" "\<forall>c\<in>set (rt_id d). c \<noteq> CHR 0x22"
    using assms unfolding well_formed_text_def list_all_iff set_append by blast+
  have m4: "rx_match ?r4 (CHR ''<'' # ?s4) = Some ([rt_id d], ?rest)"
    using many_stops [OF ok(5), of "CHR 0x22" ?r5 "CHR ''>'' # ?rest" "[]" ?rest] by simp
  have m3: "rx_match (Lit ''>'' # ?r3) (CHR ''>'' # rt_space2 d @ CHR ''<'' # ?s4) = Some ([rt_space2 d, rt_id d], ?rest)"
    using many_stops [OF ok(4) lt_is_plain(2) m4] by simp
  have f4: "free (''<Reactor id='' @ [CHR 0x22]) ?s4"
    using free_parts [OF assms tag_in_special(2)] plain by (simp add: free_before_tag free_plain tail_text_def)
  have n3: "never (Lit ''>'' # ?r3) (rt_space2 d @ CHR ''<'' # ?s4)"
    by (rule never_without_literal [OF plain(11) _ _ f4]) simp_all
  have m2: "rx_match ?r2 (CHR ''<'' # ?s2) = Some ([rt_config d, rt_space2 d, rt_id d], ?rest)"
    using many_backs_up [OF ok(2) m3 n3] by simp
  have m1: "rx_match (Lit ''>'' # Many is_space # ?r2) (CHR ''>'' # rt_space d @ CHR ''<'' # ?s2) =
      Some ([rt_space d, rt_config d, rt_space2 d, rt_id d], ?rest)"
    using many_stops [OF ok(3) lt_is_plain(2) m2] by simp
  have f2: "free ''<PionConfig'' ?s2"
    using free_parts [OF assms tag_in_special(1)] plain by (simp add: free_before_tag free_plain tail_text_def)
  have n1: "never (Lit ''>'' # Many is_space # ?r2) (rt_space d @ CHR ''<'' # ?s2)"
    by (rule never_without_literal [OF plain(10) _ _ f2]) simp_all
  have "rx_match (Many no_newline # Lit ''>'' # Many is_space # ?r2) (rt_xml d @ CHR ''>'' # rt_space d @ CHR ''<'' # ?s2) =
      Some ([rt_xml d, rt_space d, rt_config d, rt_space2 d, rt_id d], ?rest)"
    by (rule many_backs_up [OF ok(1) m1 n1])
  then have "rx_match rx_head (response_text d) = Some ([rt_xml d, rt_space d, rt_config d, rt_space2 d, rt_id d], ?rest)"
    by (simp add: rx_head_def response_text_def tail_text_def)
  then show ?thesis using find_here by (simp add: rx_replace_def)
qed

lemma find_place:
  assumes "well_formed_text d"
  shows "\<exists>pre. rx_find rx_place (response_text d) = Some (pre, [rt_x d, rt_space3 d, rt_y d], rt_after d)"
proof -
  let ?a = "''<'' @ rt_xml d @ ''>'' @ rt_space d @ ''<PionConfig'' @ rt_config d @ ''>'' @ rt_space2 d @
     ''<Reactor id='' @ [CHR 0x22] @ rt_id d @ [CHR 0x22] @ ''>'' @ rt_before d @ ''<Name>'' @ rt_name d @ ''</Name>'' @ rt_between d"
  have ok: "\<forall>c\<in>set (rt_x d). is_digit 10 c" "\<forall>c\<in>set (rt_y d). is_digit 10 c" "\<forall>c\<in>set (rt_space3 d). is_space c"
    "rt_x d \<noteq> []" "rt_y d \<noteq> []"
    using assms unfolding well_formed_text_def list_all_iff set_append by blast+
  let ?ry = "[Lit ''<Y>'', Plus (is_digit 10), Lit ''</Y>'']"
  have y: "rx_match ?ry (''<Y>'' @ rt_y d @ ''</Y>'' @ rt_after d) = Some ([rt_y d], rt_after d)"
    using digits_element [OF ok(2,5), of "''Y>''" "''/Y>''" "rt_after d"] by simp
  have s: "rx_match (Many is_space # ?ry) (rt_space3 d @ ''<Y>'' @ rt_y d @ ''</Y>'' @ rt_after d) = Some ([rt_space3 d, rt_y d], rt_after d)"
    using many_stops [OF ok(3) lt_is_plain(2), of ?ry "''Y>'' @ rt_y d @ ''</Y>'' @ rt_after d" "[rt_y d]" "rt_after d"] y by simp
  have x: "rx_match rx_place (''<X>'' @ rt_x d @ ''</X>'' @ rt_space3 d @ ''<Y>'' @ rt_y d @ ''</Y>'' @ rt_after d) =
      Some ([rt_x d, rt_space3 d, rt_y d], rt_after d)"
    using plus_stops [OF ok(4,1) lt_is_plain(1), of "Lit ''</X>'' # Many is_space # ?ry"
        "''/X>'' @ rt_space3 d @ ''<Y>'' @ rt_y d @ ''</Y>'' @ rt_after d" "[rt_space3 d, rt_y d]" "rt_after d"] s
    by (simp add: rx_place_def)
  obtain q where q: "rt_xml d = CHR ''?'' # q"
    using assms starts_with_hd unfolding well_formed_text_def by blast
  have a: "free ''<X>'' ?a"
    using free_parts [OF assms tag_in_special(5)] plain_parts [OF assms] by (simp add: q free_before_tag free_plain)
  have f: "rx_find rx_place (?a @ CHR ''<'' # ''X>'' @ rt_x d @ ''</X>'' @ rt_space3 d @ ''<Y>'' @ rt_y d @ ''</Y>'' @ rt_after d) =
      Some (?a, [rt_x d, rt_space3 d, rt_y d], rt_after d)"
    using find_after_free [of "''X>''" ?a, OF _ a] find_here [OF x] unfolding rx_place_def by simp
  have "response_text d = ?a @ CHR ''<'' # ''X>'' @ rt_x d @ ''</X>'' @ rt_space3 d @ ''<Y>'' @ rt_y d @ ''</Y>'' @ rt_after d"
    by (simp add: response_text_def)
  then show ?thesis using f by metis
qed

lemma moved_plain: "moved s \<noteq> []" "\<forall>c\<in>set (moved s). is_digit 10 c" "CHR ''<'' \<notin> set (moved s)"
proof -
  show d: "\<forall>c\<in>set (moved s). is_digit 10 c" using nat_digits_chars by (simp add: moved_def)
  show "moved s \<noteq> []" by (simp add: moved_def)
  show "CHR ''<'' \<notin> set (moved s)" using d digit_facts by blast
qed


definition demo_text :: reactor_text where
  "demo_text = \<lparr>rt_xml = ''?xml version=1?'', rt_space = [CHR 0x0A], rt_config = '' xmlns=pion'', rt_space2 = [CHR 0x0A, CHR 0x09],
     rt_id = ''c7a'', rt_before = [CHR 0x0A] @ ''<Plugin>FilterReactor</Plugin>'', rt_name = ''All &amp; none'',
     rt_between = ''<Comment/>'', rt_x = ''90'', rt_space3 = [CHR 0x0A], rt_y = ''140'', rt_after = ''</Reactor></PionConfig>''\<rparr>"


end
