(* ===== verification/Spec2Isabelle.thy ===== *)
theory Spec2Isabelle
  imports Pion_Config Pion_Session Pion_Canvas Pion_Restart Pion_ReactorConfig Pion_ItemCache Pion_Startup Pion_PageFacts Pion_TermSave Pion_Csv Pion_Custom Pion_Transform Pion_Codec Pion_Users Pion_Protocol Pion_Dates Pion_Launch Pion_Accordion Pion_Import Pion_Monitor Pion_Panes Pion_Lookup Pion_LogService Pion_Select Pion_TermPicker Pion_License Pion_Widgets Pion_Copy
begin

text \<open>
  Pion Core is an event processing server written in C++ with a browser interface written in
  JavaScript on the dojo toolkit. This library models the interface (\<open>platform/ui/scripts\<close> and
  \<open>platform/ui/plugins\<close>): all of its state lives in JavaScript objects, all it knows comes from
  XML documents that the server sends, and all it does ends in XML documents that it sends back.

  \<^bold>\<open>The parts and how they interact.\<close> After the login (\<open>login.js\<close>, \<open>_base/error.js\<close>) the page
  loads the user's permissions, the services and the tabs (\<open>pion.js\<close>, \<open>Pion_Launch\<close>). A tab shows either
  the canvas of reactors and connections (\<open>reactors.js\<close>, \<open>CrossWorkspaceConnection.js\<close>,
  \<open>plugins/reactors\<close>) or a list of panes (vocabularies, codecs, databases, protocols, users), or
  the first-time set-up wizard runs instead (\<open>Wizard.js\<close>). Every pane and dialog reads an element
  of a document through a data store, holds what it says in a form and in grids, and builds a
  request from them. So the parts share three layers, which come first here.

  \<^bold>\<open>Layers shared by all parts.\<close>
  \<^item> \<open>Pion_Prelude\<close>: JavaScript strings (lists of code units), values, dictionaries in insertion
    order, \<open>splice\<close>, \<open>split\<close>, \<open>trim\<close>, \<open>parseInt\<close>, and the collections of simplification rules.
  \<^item> \<open>Pion_Format\<close> (\<open>_base/format.js\<close>), \<open>Pion_Xml\<close>: escaping, and the reader that gives the meaning
    of a request; \<open>reads s ns\<close> says that the text \<open>s\<close> stands for the nodes \<open>ns\<close>, with rules closed
    under concatenation and nesting. The server's parser is not part of the interface: the reader
    is its specification for the documents the interface builds (elements, attributes in double
    quotes, text, the five entities).
  \<^item> \<open>Pion_ReadStore\<close>, \<open>Pion_Fetch\<close>, \<open>Pion_Config\<close> (\<open>util/XMLQueryReadStore.js\<close> and the bundled
    \<open>dojox.data.XmlStore\<close>): reading an element; the locale \<open>read_store\<close> is the interface of both
    stores. \<open>Pion_ItemStore\<close>, \<open>Pion_Grid\<close>: the bundled \<open>ItemFileWriteStore\<close> and the grids on it; the
    lemmas \<open>tracks\<close> and \<open>grid_ok\<close> are the invariants of their operations.
  \<^item> \<open>Pion_Countdown\<close>: the locale of a counter that lets the last of several answers go on, used for
    the wizard's requests.

  \<^bold>\<open>The parts.\<close>
  \<^item> \<open>Pion_Session\<close>: one session state with the events of the login dialog and of failing requests;
    the invariant follows every expired request to where it is replayed.
  \<^item> \<open>Pion_Geometry\<close>, \<open>Pion_Graph\<close>, \<open>Pion_Links\<close>, \<open>Pion_Connect\<close>, \<open>Pion_Canvas\<close>: the canvas. \<open>Pion_Graph\<close>
    has the objects and every operation as the code has them, aliasing written out in a state of
    reactor objects by number; \<open>Pion_Links\<close> abstracts it to a set of connections; \<open>Pion_Connect\<close>
    shows that each operation refines one on that set, and \<open>Pion_Canvas\<close> states it over all
    reachable canvases. \<open>Pion_Startup\<close> loads the page into such a canvas; \<open>Pion_Page\<close> and
    \<open>Pion_PageFacts\<close> are menus, rows, titles and counters; \<open>Pion_ItemCache\<close> the shared fetch of a
    reactor's configuration; \<open>Pion_ReactorConfig\<close> its dialogs and requests.
  \<^item> \<open>Pion_Custom\<close>, \<open>Pion_Transform\<close>, \<open>Pion_Csv\<close>: what reactor plugins edit in grids. The locale
    \<open>element_codec\<close> says that the rows of a grid and the elements of a request fit; it is
    interpreted for every kind of row.
  \<^item> \<open>Pion_Vocabulary\<close>, \<open>Pion_TermSave\<close>: terms, and the requests a save sends, against a server that
    keeps terms by address. \<open>Pion_Order\<close>, \<open>Pion_Codec\<close>: codecs. \<open>Pion_Protocol\<close>: protocols.
    \<open>Pion_Users\<close>: the permissions of a user; the locale \<open>per_service\<close> carries the proofs over the
    services in turn.
  \<^item> \<open>Pion_Launch\<close>: the start of the page, its services and tabs. \<open>Pion_Accordion\<close>
    (\<open>widgets/ConfigAccordion.js\<close>, \<open>codecs.js\<close>): the lists of panes, as a state with timers that
    refines a plain list with a current item. \<open>Pion_Dates\<close>: the formatters of dates and times.
  \<^item> \<open>Pion_Import\<close> (\<open>widgets/XMLImport.js\<close>): importing a configuration; the locale \<open>import_stage\<close>
    carries the proof over its stages, each also a \<open>countdown\<close>.
  \<^item> \<open>Pion_Query\<close>, \<open>Pion_Monitor\<close> (\<open>services/MonitorService/MonitorService.js\<close> and the server's
    \<open>MonitorService.cpp\<close>, \<open>HTTPParser.cpp\<close>): the text of a query and what the server reads of it,
    and the window that keeps the server's sets in step with its boxes.
  \<^item> \<open>Pion_Panes\<close> (\<open>databases.js\<close>, \<open>plugins/databases/Database.js\<close>, \<open>ConfigManager.cpp\<close>): the panes of a
    configuration page against the elements that the server keeps, one step per click, request and
    answer; the global variable that the handlers share is part of the state.
  \<^item> \<open>Pion_Lookup\<close>: the dialog of a lookup and its pairs as XML text. \<open>Pion_TermPicker\<close>
    (\<open>TermTextBox.js\<close>, \<open>TermSelector.js\<close>): what the check of a term box accepts and what its list
    offers. \<open>Pion_Select\<close> (\<open>SimpleSelect.js\<close>): a select box whose options arrive late, with the
    timed reports of the form widgets.
  \<^item> \<open>Pion_LogQueue\<close> (\<open>XMLLogService.cpp\<close>): the server's queue of log events, its counter kept at 32
    bits. \<open>Pion_LogService\<close> (\<open>XMLLogService.js\<close>): the tab that polls it, counts the events, flashes
    and alerts.
  \<^item> \<open>Pion_License\<close> (\<open>LicenseKey.js\<close>, \<open>EditionSelector.js\<close>, \<open>about.js\<close>): the selection of an edition
    and the key dialog, with several submissions in flight.
  \<^item> \<open>Pion_Copy\<close>: copying a reactor by editing its text with regular expressions; \<open>rx_match\<close> is a
    matcher for the expressions it uses, with the greedy order of JavaScript.
  \<^item> \<open>Pion_Widgets\<close>: smaller pages and widgets (scrolling, vocabularies, keys, the tree of the
    system page, plugins and permissions, the columns and the export of the monitor).
  \<^item> \<open>Pion_Wizard\<close>, \<open>Pion_Setup\<close>, \<open>Pion_SetupRun\<close>, \<open>Pion_Restart\<close>: the wizard's panes, the configuration
    it builds, its creation on the server, and the way back.

  \<^bold>\<open>Conventions.\<close> An exception is \<open>None\<close> (or a branch of its own where the code goes on after it);
  JavaScript numbers are \<open>int\<close> where the code keeps them integral. Requests are asynchronous: an
  operation that sends one is split at the answer, and the order of answers is the order of the
  steps or of the list that a theorem quantifies over. Recursion is structural or has a measure;
  the search for a workspace title, which has no bound in the code, is a \<open>partial_function\<close> and is
  shown to end. No fuel is used.

  \<^bold>\<open>What the properties show.\<close> Round trips: what a dialog saves is what it loads next (fields,
  options, comparisons, transformations, field orders, settings, extraction rules, permissions,
  lookup pairs). Invariants and refinement: the canvas, the session, the page and the set of
  saved terms. Error properties state where the code loses or refuses data, each with the input
  that shows it.

  \<^bold>\<open>Not modelled.\<close> Of the C++ server (\<open>common\<close>, \<open>net\<close>, \<open>platform\<close> outside \<open>ui\<close>) only what answers
  the interface's requests in a way that the interface relies on is modelled: the query parser and
  \<open>url_decode\<close>, \<open>MonitorWriter::setQP\<close>, the plugin configurations of \<open>ConfigManager\<close>, and the log
  appender with its service; the rest is a program of its own in another language. The bundled
  toolkit under \<open>dojo-release\<close> is third-party code, and \<open>pion-dojo.js\<close> there is a build that repeats
  scripts; of it the stores, the getters, setters and change reports of forms, the accordion container
  and the query encoder are modelled, because the interface rests on them. Layout, styles, drawing,
  drag and drop and the timing of animations have no state that the rest depends on; the plugins
  \<open>LogInputReactor\<close>, \<open>LogOutputReactor\<close>, \<open>ScriptReactor\<close>, \<open>XMLCodec\<close> and \<open>SQLiteDatabase\<close> declare a
  template, a label and defaults, and inherit every operation.
\<close>

end
